(* ===== verification/Lbd_Prelude.thy ===== *)
theory Lbd_Prelude
  imports Main "HOL-Library.Word"
begin

text \<open>
  Shared vocabulary of the development: the machine integers of the C sources, the
  kernel's error codes, byte buffers and byte files, and the big-endian encoding of
  integers.

  Buffers and files are lists of bytes. \<open>read_at\<close> and \<open>write_at\<close> are the contents of a
  file after a read and a write at an offset (a write past the end fills the gap with
  zeros, a read stops at the end of the file); \<open>blit\<close> is \<open>memcpy\<close> into a buffer at an
  offset. The collection \<open>byte_simps\<close> holds the rewriting rules of the byte encodings,
  \<open>io_simps\<close> those of file contents.
\<close>

unbundle bit_operations_syntax

named_theorems byte_simps \<open>byte encodings of machine integers\<close>
named_theorems io_simps \<open>contents of files and buffers after reads and writes\<close>

type_synonym u8 = "8 word"
type_synonym u16 = "16 word"
type_synonym u32 = "32 word"
type_synonym u64 = "64 word"
type_synonym bytes = "u8 list"

text \<open>Error codes the sources return; \<open>EOther\<close> stands for a code passed through from the kernel.\<close>

datatype errno =
    EIO | ENOMEM | EFAULT | EBUSY | ENODEV | EINVAL | ENOSPC | ENXIO | EAGAIN
  | ENOTTY | ENODATA | ERESTARTSYS | EOPNOTSUPP | EOther nat

text \<open>The result of a C function that returns a value or a negative error code.\<close>

type_synonym 'a res = "errno + 'a"

section \<open>Byte files and buffers\<close>

definition read_at :: "'a list \<Rightarrow> nat \<Rightarrow> nat \<Rightarrow> 'a list" where
  "read_at f pos n = take n (drop pos f)"

definition write_at :: "bytes \<Rightarrow> nat \<Rightarrow> bytes \<Rightarrow> bytes" where
  "write_at f pos bs =
     (if bs = [] then f
      else take pos (f @ replicate (pos - length f) 0) @ bs @ drop (pos + length bs) f)"

definition blit :: "'a list \<Rightarrow> nat \<Rightarrow> 'a list \<Rightarrow> 'a list" where
  "blit buf off bs = take off buf @ bs @ drop (off + length bs) buf"

lemma length_read_at [io_simps]: "length (read_at f pos n) = min n (length f - pos)"
  by (simp add: read_at_def)

lemma length_read_at_full: "pos + n \<le> length f \<Longrightarrow> length (read_at f pos n) = n"
  by (simp add: read_at_def)

lemma nth_read_at: "i < n \<Longrightarrow> pos + i < length f \<Longrightarrow> read_at f pos n ! i = f ! (pos + i)"
  by (simp add: read_at_def)

lemma read_at_0 [simp]: "read_at f pos 0 = []"
  by (simp add: read_at_def)

lemma read_at_read_at: "off + n \<le> m \<Longrightarrow> read_at (read_at f pos m) off n = read_at f (pos + off) n"
  by (simp add: read_at_def drop_take add.commute)

lemma read_at_whole [simp]: "read_at f 0 (length f) = f"
  by (simp add: read_at_def)

lemma read_at_append1: "pos + n \<le> length xs \<Longrightarrow> read_at (xs @ ys) pos n = read_at xs pos n"
  by (simp add: read_at_def)

lemma read_at_append2: "length xs \<le> pos \<Longrightarrow> read_at (xs @ ys) pos n = read_at ys (pos - length xs) n"
  by (simp add: read_at_def)

lemma read_at_split: "read_at f pos (m + n) = read_at f pos m @ read_at f (pos + m) n"
  by (simp add: read_at_def take_add add.commute)

lemma length_write_at [io_simps]:
  "length (write_at f pos bs) = (if bs = [] then length f else max (length f) (pos + length bs))"
  by (auto simp: write_at_def)

lemma write_at_Nil [simp]: "write_at f pos [] = f"
  by (simp add: write_at_def)

lemma write_at_ge: "length f \<le> length (write_at f pos bs)"
  by (auto simp: length_write_at)

lemma nth_write_at:
  assumes "i < length (write_at f pos bs)"
  shows "write_at f pos bs ! i =
    (if pos \<le> i \<and> i < pos + length bs then bs ! (i - pos)
     else if i < length f then f ! i else 0)"
proof (cases "bs = []")
  case False
  with assms have "i < max (length f) (pos + length bs)"
    by (simp add: length_write_at)
  then show ?thesis
    using False by (auto simp: write_at_def nth_append min_def)
qed (use assms in auto)

lemma read_write_inside:
  assumes "off + n \<le> length bs"
  shows "read_at (write_at f pos bs) (pos + off) n = read_at bs off n"
proof (cases "bs = []")
  case False
  then show ?thesis
    using assms by (simp add: write_at_def read_at_def min_def split: nat_diff_split)
qed (use assms in simp)

lemma read_write_same [simp]: "read_at (write_at f pos bs) pos (length bs) = bs"
  using read_write_inside [of 0 "length bs" bs f pos] by simp

lemma read_write_before:
  assumes "pos' + n \<le> pos" "pos' + n \<le> length f"
  shows "read_at (write_at f pos bs) pos' n = read_at f pos' n"
  using assms by (auto intro!: nth_equalityI simp: length_write_at length_read_at nth_read_at nth_write_at)

lemma read_write_after:
  assumes "pos + length bs \<le> pos'"
  shows "read_at (write_at f pos bs) pos' n = read_at f pos' n"
proof (cases "bs = []")
  case False
  have "drop pos' (take pos (f @ replicate (pos - length f) 0) @ bs @ drop (pos + length bs) f)
      = drop pos' f"
    using assms by (simp add: min_def split: nat_diff_split)
  then show ?thesis
    using False by (simp add: write_at_def read_at_def)
qed simp

lemma write_write_same:
  assumes "length bs = length bs'"
  shows "write_at (write_at f pos bs) pos bs' = write_at f pos bs'"
proof -
  have "length (write_at (write_at f pos bs) pos bs') = length (write_at f pos bs')"
    using assms by (auto simp: length_write_at)
  then show ?thesis
    using assms by (auto intro!: nth_equalityI simp: nth_write_at length_write_at split: if_splits)
qed

lemma length_blit [io_simps]:
  "off + length bs \<le> length buf \<Longrightarrow> length (blit buf off bs) = length buf"
  by (simp add: blit_def)

lemma nth_blit:
  assumes "off + length bs \<le> length buf" "i < length buf"
  shows "blit buf off bs ! i =
    (if off \<le> i \<and> i < off + length bs then bs ! (i - off) else buf ! i)"
  using assms by (auto simp: blit_def nth_append)

lemma read_blit_same [simp]:
  "off + length bs \<le> length buf \<Longrightarrow> read_at (blit buf off bs) off (length bs) = bs"
  by (simp add: read_at_def blit_def)

lemma read_blit_other:
  assumes "off + length bs \<le> length buf" "pos + n \<le> off \<or> off + length bs \<le> pos"
  shows "read_at (blit buf off bs) pos n = read_at buf pos n"
  using assms(2)
proof
  assume "pos + n \<le> off"
  then show ?thesis
    using assms(1) by (auto intro!: nth_equalityI simp: length_blit length_read_at nth_read_at nth_blit)
next
  assume "off + length bs \<le> pos"
  then show ?thesis
    using assms(1) by (simp add: read_at_def blit_def min_def)
qed

section \<open>Big-endian integers\<close>

definition be16 :: "u16 \<Rightarrow> bytes" where
  "be16 v = [ucast (drop_bit 8 v), ucast v]"

definition be32 :: "u32 \<Rightarrow> bytes" where
  "be32 v = [ucast (drop_bit 24 v), ucast (drop_bit 16 v), ucast (drop_bit 8 v), ucast v]"

definition be64 :: "u64 \<Rightarrow> bytes" where
  "be64 v = [ucast (drop_bit 56 v), ucast (drop_bit 48 v), ucast (drop_bit 40 v),
     ucast (drop_bit 32 v), ucast (drop_bit 24 v), ucast (drop_bit 16 v),
     ucast (drop_bit 8 v), ucast v]"

definition of_be16 :: "bytes \<Rightarrow> u16" where
  "of_be16 p = push_bit 8 (ucast (p ! 0)) OR ucast (p ! 1)"

definition of_be32 :: "bytes \<Rightarrow> u32" where
  "of_be32 p = push_bit 24 (ucast (p ! 0)) OR push_bit 16 (ucast (p ! 1)) OR
     push_bit 8 (ucast (p ! 2)) OR ucast (p ! 3)"

definition of_be64 :: "bytes \<Rightarrow> u64" where
  "of_be64 p = push_bit 56 (ucast (p ! 0)) OR push_bit 48 (ucast (p ! 1)) OR
     push_bit 40 (ucast (p ! 2)) OR push_bit 32 (ucast (p ! 3)) OR
     push_bit 24 (ucast (p ! 4)) OR push_bit 16 (ucast (p ! 5)) OR
     push_bit 8 (ucast (p ! 6)) OR ucast (p ! 7)"

lemma bit_byte_slice:
  fixes v :: "'a::len word"
  shows "bit (push_bit k (ucast (ucast (drop_bit k v) :: u8)) :: 'a word) n
    \<longleftrightarrow> k \<le> n \<and> n < k + 8 \<and> bit v n \<and> n < LENGTH('a)"
  by (auto simp: bit_simps)

lemma bit_byte_slice0:
  fixes v :: "'a::len word"
  shows "bit (ucast (ucast v :: u8) :: 'a word) n \<longleftrightarrow> n < 8 \<and> bit v n \<and> n < LENGTH('a)"
  by (auto simp: bit_simps)

lemmas bit_slices = bit_or_iff bit_byte_slice bit_byte_slice0

lemma of_be16_be16 [byte_simps]: "of_be16 (be16 v) = v"
proof (rule bit_word_eqI)
  fix n assume "n < LENGTH(16)"
  then show "bit (of_be16 (be16 v)) n \<longleftrightarrow> bit v n"
    by (cases "bit v n") (simp_all add: of_be16_def be16_def bit_slices, arith)
qed

lemma of_be32_be32 [byte_simps]: "of_be32 (be32 v) = v"
proof (rule bit_word_eqI)
  fix n assume "n < LENGTH(32)"
  then show "bit (of_be32 (be32 v)) n \<longleftrightarrow> bit v n"
    by (cases "bit v n") (simp_all add: of_be32_def be32_def bit_slices, arith)
qed

lemma of_be64_be64 [byte_simps]: "of_be64 (be64 v) = v"
proof (rule bit_word_eqI)
  fix n assume "n < LENGTH(64)"
  then show "bit (of_be64 (be64 v)) n \<longleftrightarrow> bit v n"
    by (cases "bit v n") (simp_all add: of_be64_def be64_def bit_slices, arith)
qed

lemma length_be [simp, byte_simps]: "length (be16 v) = 2" "length (be32 w) = 4" "length (be64 x) = 8"
  by (simp_all add: be16_def be32_def be64_def)

lemma be_ne_Nil [simp]: "be16 v \<noteq> []" "be32 w \<noteq> []" "be64 x \<noteq> []"
  by (simp_all add: be16_def be32_def be64_def)

text \<open>Only the leading bytes of a buffer matter to the decoders.\<close>

lemma of_be_take:
  "of_be16 (take 2 p @ q) = of_be16 p" if "2 \<le> length p"
  using that by (simp add: of_be16_def nth_append)

lemma of_be32_append [byte_simps]: "of_be32 (be32 v @ q) = v"
  using of_be32_be32 [of v] by (simp add: of_be32_def nth_append)

lemma of_be64_append [byte_simps]: "of_be64 (be64 v @ q) = v"
  using of_be64_be64 [of v] by (simp add: of_be64_def nth_append)

lemma of_be32_read_at: "4 \<le> n \<Longrightarrow> pos + 4 \<le> length f \<Longrightarrow> of_be32 (read_at f pos n) = of_be32 (read_at f pos 4)"
  by (simp add: of_be32_def nth_read_at)

section \<open>Words as natural numbers\<close>

lemma unat_u64_lt: "unat (v :: u64) < 18446744073709551616"
  using unsigned_less [of v] by simp

lemma unat_u32_lt: "unat (v :: u32) < 4294967296"
  using unsigned_less [of v] by simp

lemma unat_plus_u64: "unat a + unat b < 18446744073709551616 \<Longrightarrow> unat (a + b) = unat a + unat b"
  for a b :: u64
  by (simp add: unat_word_ariths)

lemma unat_of_nat_u64: "n < 18446744073709551616 \<Longrightarrow> unat (of_nat n :: u64) = n"
  by (simp add: unat_of_nat)

lemma unat_of_nat_u32: "n < 4294967296 \<Longrightarrow> unat (of_nat n :: u32) = n"
  by (simp add: unat_of_nat)

lemma unat_ucast_u32 [simp]: "unat (ucast (v :: u32) :: u64) = unat v"
  by (simp add: unsigned_ucast_eq take_bit_nat_eq_self order_less_trans [OF unsigned_less])

end
