(* ===== verification/Cbor.thy ===== *)
theory Cbor
  imports Lbd_Prelude
begin

text \<open>
  The CBOR encoder of \<^verbatim>\<open>src/src/cbor_enc.h\<close> and the buffer decoder of
  \<^verbatim>\<open>src/src/cbor_dec.h\<close>, which the log, the control device and its clients share.

  The encoder's state is the C struct: buffer, position, capacity and a sticky error;
  every operation goes through \<open>cbor_put\<close>. The decoder's state is buffer, position and
  length; a failed decode leaves the position where the C code leaves it.

  \<open>cbor_head\<close> is the reference encoding of a CBOR head (major type and argument in
  shortest form) as a byte list. The encoder appends exactly that list or sets the
  sticky error; the decoder inverts it and rejects every truncation of it.
\<close>

named_theorems cbor_simps \<open>encoder and decoder steps over the reference encoding\<close>

section \<open>Encoder\<close>

record cbor_enc =
  ce_buf :: bytes
  ce_pos :: nat
  ce_cap :: nat
  ce_err :: "errno option"

definition cbor_enc_init :: "bytes \<Rightarrow> nat \<Rightarrow> cbor_enc" where
  "cbor_enc_init buf cap = \<lparr>ce_buf = buf, ce_pos = 0, ce_cap = cap, ce_err = None\<rparr>"

definition cbor_enc_len :: "cbor_enc \<Rightarrow> nat" where
  "cbor_enc_len e = ce_pos e"

definition cbor_put :: "cbor_enc \<Rightarrow> u8 \<Rightarrow> cbor_enc" where
  "cbor_put e b =
     (if ce_err e \<noteq> None then e
      else if ce_pos e \<ge> ce_cap e then e\<lparr>ce_err := Some ENOSPC\<rparr>
      else e\<lparr>ce_buf := (ce_buf e)[ce_pos e := b], ce_pos := ce_pos e + 1\<rparr>)"

definition cbor_enc_head :: "cbor_enc \<Rightarrow> u8 \<Rightarrow> u64 \<Rightarrow> cbor_enc" where
  "cbor_enc_head e major val =
     (let mt = push_bit 5 major in
      if val < 24 then cbor_put e (mt OR ucast val)
      else if val \<le> 0xFF then
        (let e = cbor_put e (mt OR 24)
         in cbor_put e (ucast val))
      else if val \<le> 0xFFFF then
        (let e = cbor_put e (mt OR 25);
             e = cbor_put e (ucast (drop_bit 8 val))
         in cbor_put e (ucast val))
      else if val \<le> 0xFFFFFFFF then
        (let e = cbor_put e (mt OR 26);
             e = cbor_put e (ucast (drop_bit 24 val));
             e = cbor_put e (ucast (drop_bit 16 val));
             e = cbor_put e (ucast (drop_bit 8 val))
         in cbor_put e (ucast val))
      else
        (let e = cbor_put e (mt OR 27);
             e = cbor_put e (ucast (drop_bit 56 val));
             e = cbor_put e (ucast (drop_bit 48 val));
             e = cbor_put e (ucast (drop_bit 40 val));
             e = cbor_put e (ucast (drop_bit 32 val));
             e = cbor_put e (ucast (drop_bit 24 val));
             e = cbor_put e (ucast (drop_bit 16 val));
             e = cbor_put e (ucast (drop_bit 8 val))
         in cbor_put e (ucast val)))"

definition cbor_enc_map :: "cbor_enc \<Rightarrow> u64 \<Rightarrow> cbor_enc" where
  "cbor_enc_map e count = cbor_enc_head e 5 count"

definition cbor_enc_uint :: "cbor_enc \<Rightarrow> u64 \<Rightarrow> cbor_enc" where
  "cbor_enc_uint e val = cbor_enc_head e 0 val"

definition cbor_enc_text :: "cbor_enc \<Rightarrow> bytes \<Rightarrow> nat \<Rightarrow> cbor_enc" where
  "cbor_enc_text e s len =
     (let e = cbor_enc_head e 3 (of_nat len)
      in foldl (\<lambda>e i. cbor_put e (s ! i)) e [0..<len])"

definition cbor_enc_text_key :: "cbor_enc \<Rightarrow> bytes \<Rightarrow> cbor_enc" where
  "cbor_enc_text_key e key = cbor_enc_text e key (length key)"

definition cbor_enc_bytes_hdr :: "cbor_enc \<Rightarrow> u64 \<Rightarrow> cbor_enc" where
  "cbor_enc_bytes_hdr e len = cbor_enc_head e 2 len"

section \<open>Decoder\<close>

record cbor_dec =
  cd_buf :: bytes
  cd_pos :: nat
  cd_len :: nat

definition cbor_dec_init :: "bytes \<Rightarrow> nat \<Rightarrow> cbor_dec" where
  "cbor_dec_init buf len = \<lparr>cd_buf = buf, cd_pos = 0, cd_len = len\<rparr>"

definition cbor_dec_head :: "cbor_dec \<Rightarrow> (u8 \<times> u64) res \<times> cbor_dec" where
  "cbor_dec_head d =
     (if cd_pos d \<ge> cd_len d then (Inl EINVAL, d)
      else
        let ib = cd_buf d ! cd_pos d;
            d = d\<lparr>cd_pos := cd_pos d + 1\<rparr>;
            major = drop_bit 5 ib;
            ai = ib AND 0x1F;
            p = drop (cd_pos d) (cd_buf d)
        in
        if ai < 24 then (Inr (major, ucast ai), d)
        else if ai = 24 then
          (if cd_pos d + 1 > cd_len d then (Inl EINVAL, d)
           else (Inr (major, ucast (p ! 0)), d\<lparr>cd_pos := cd_pos d + 1\<rparr>))
        else if ai = 25 then
          (if cd_pos d + 2 > cd_len d then (Inl EINVAL, d)
           else (Inr (major, push_bit 8 (ucast (p ! 0)) OR ucast (p ! 1)),
                 d\<lparr>cd_pos := cd_pos d + 2\<rparr>))
        else if ai = 26 then
          (if cd_pos d + 4 > cd_len d then (Inl EINVAL, d)
           else (Inr (major, push_bit 24 (ucast (p ! 0)) OR push_bit 16 (ucast (p ! 1)) OR
                        push_bit 8 (ucast (p ! 2)) OR ucast (p ! 3)),
                 d\<lparr>cd_pos := cd_pos d + 4\<rparr>))
        else if ai = 27 then
          (if cd_pos d + 8 > cd_len d then (Inl EINVAL, d)
           else (Inr (major, push_bit 56 (ucast (p ! 0)) OR push_bit 48 (ucast (p ! 1)) OR
                        push_bit 40 (ucast (p ! 2)) OR push_bit 32 (ucast (p ! 3)) OR
                        push_bit 24 (ucast (p ! 4)) OR push_bit 16 (ucast (p ! 5)) OR
                        push_bit 8 (ucast (p ! 6)) OR ucast (p ! 7)),
                 d\<lparr>cd_pos := cd_pos d + 8\<rparr>))
        else (Inl EINVAL, d))"

definition cbor_dec_map :: "cbor_dec \<Rightarrow> u64 res \<times> cbor_dec" where
  "cbor_dec_map d =
     (case cbor_dec_head d of
        (Inl e, d) \<Rightarrow> (Inl e, d)
      | (Inr (major, count), d) \<Rightarrow> if major \<noteq> 5 then (Inl EINVAL, d) else (Inr count, d))"

definition cbor_dec_uint :: "cbor_dec \<Rightarrow> u64 res \<times> cbor_dec" where
  "cbor_dec_uint d =
     (case cbor_dec_head d of
        (Inl e, d) \<Rightarrow> (Inl e, d)
      | (Inr (major, val), d) \<Rightarrow> if major \<noteq> 0 then (Inl EINVAL, d) else (Inr val, d))"

text \<open>
  The text is returned as the string the C caller sees in its buffer: \<open>slen\<close> bytes and
  the terminating NUL. The capacity test comes before the sum \<open>pos + slen\<close> is formed, so
  the sum cannot wrap for any buffer that fits in memory.
\<close>

definition cbor_dec_text :: "cbor_dec \<Rightarrow> nat \<Rightarrow> bytes res \<times> cbor_dec" where
  "cbor_dec_text d cap =
     (case cbor_dec_head d of
        (Inl e, d) \<Rightarrow> (Inl e, d)
      | (Inr (major, slen), d) \<Rightarrow>
          if major \<noteq> 3 then (Inl EINVAL, d)
          else if unat slen \<ge> cap then (Inl EINVAL, d)
          else if cd_pos d + unat slen > cd_len d then (Inl EINVAL, d)
          else (Inr (read_at (cd_buf d) (cd_pos d) (unat slen) @ [0]),
                d\<lparr>cd_pos := cd_pos d + unat slen\<rparr>))"

section \<open>The reference encoding of a head\<close>

definition cbor_head :: "u8 \<Rightarrow> u64 \<Rightarrow> bytes" where
  "cbor_head major val =
     (let mt = push_bit 5 major in
      if val < 24 then [mt OR ucast val]
      else if val \<le> 0xFF then [mt OR 24, ucast val]
      else if val \<le> 0xFFFF then (mt OR 25) # be16 (ucast val)
      else if val \<le> 0xFFFFFFFF then (mt OR 26) # be32 (ucast val)
      else (mt OR 27) # be64 val)"

lemma length_cbor_head:
  "length (cbor_head m v) =
     (if v < 24 then 1 else if v \<le> 0xFF then 2 else if v \<le> 0xFFFF then 3
      else if v \<le> 0xFFFFFFFF then 5 else 9)"
  by (simp add: cbor_head_def Let_def)

lemma cbor_head_ne [simp]: "cbor_head m v \<noteq> []"
  by (simp add: cbor_head_def Let_def)

lemma length_cbor_head_le: "length (cbor_head m v) \<le> 9"
  by (simp add: length_cbor_head)

lemma length_cbor_head_u32: "length (cbor_head m (ucast (v :: u32))) \<le> 5"
proof -
  have "unat v \<le> 4294967295"
    using unat_u32_lt [of v] by simp
  then have "(ucast v :: u64) \<le> 0xFFFFFFFF"
    by (simp add: word_le_nat_alt unat_ucast_u32)
  then show ?thesis
    by (simp add: length_cbor_head)
qed

section \<open>The encoder appends\<close>

definition cbor_puts :: "cbor_enc \<Rightarrow> bytes \<Rightarrow> cbor_enc" where
  "cbor_puts e bs = foldl cbor_put e bs"

definition enc_wf :: "cbor_enc \<Rightarrow> bool" where
  "enc_wf e \<longleftrightarrow> ce_pos e \<le> ce_cap e \<and> ce_cap e \<le> length (ce_buf e)"

definition enc_out :: "cbor_enc \<Rightarrow> bytes" where
  "enc_out e = take (ce_pos e) (ce_buf e)"

lemma cbor_puts_simps [simp]:
  "cbor_puts e [] = e" "cbor_puts e (b # bs) = cbor_puts (cbor_put e b) bs"
  by (simp_all add: cbor_puts_def)

lemma cbor_puts_append: "cbor_puts e (xs @ ys) = cbor_puts (cbor_puts e xs) ys"
  by (simp add: cbor_puts_def)

lemma ucast_drop_ucast16: "ucast (drop_bit 8 (ucast (v :: u64) :: u16)) = (ucast (drop_bit 8 v) :: u8)"
  by (rule bit_word_eqI) (auto simp: bit_simps)

lemma ucast_drop_ucast32:
  "k + 8 \<le> 32 \<Longrightarrow> ucast (drop_bit k (ucast (v :: u64) :: u32)) = (ucast (drop_bit k v) :: u8)"
  by (rule bit_word_eqI) (auto simp: bit_simps)

lemma ucast_ucast_low:
  "ucast (ucast (v :: u64) :: u16) = (ucast v :: u8)" "ucast (ucast (v :: u64) :: u32) = (ucast v :: u8)"
  by (rule bit_word_eqI, auto simp: bit_simps)+

lemma cbor_enc_head_puts [cbor_simps]: "cbor_enc_head e m v = cbor_puts e (cbor_head m v)"
  by (simp add: cbor_enc_head_def cbor_head_def Let_def be16_def be32_def be64_def
      ucast_drop_ucast16 ucast_drop_ucast32 ucast_ucast_low)

lemma foldl_put_nth: "foldl (\<lambda>e i. cbor_put e (s ! i)) e [0..<n] = cbor_puts e (take n s)"
  if "n \<le> length s"
  using that
proof (induction n)
  case (Suc n)
  then show ?case
    by (simp add: take_Suc_conv_app_nth cbor_puts_append)
qed simp

lemma cbor_enc_text_puts [cbor_simps]:
  "n \<le> length s \<Longrightarrow> cbor_enc_text e s n = cbor_puts e (cbor_head 3 (of_nat n) @ take n s)"
  by (simp add: cbor_enc_text_def cbor_enc_head_puts foldl_put_nth cbor_puts_append)

lemma cbor_enc_puts [cbor_simps]:
  "cbor_enc_map e n = cbor_puts e (cbor_head 5 n)"
  "cbor_enc_uint e v = cbor_puts e (cbor_head 0 v)"
  "cbor_enc_bytes_hdr e v = cbor_puts e (cbor_head 2 v)"
  by (simp_all add: cbor_enc_map_def cbor_enc_uint_def cbor_enc_bytes_hdr_def cbor_enc_head_puts)

lemma cbor_puts_sticky: "ce_err e \<noteq> None \<Longrightarrow> cbor_puts e bs = e"
  by (induction bs arbitrary: e) (auto simp: cbor_put_def)

text \<open>What a run of bytes does to the encoder: appended as far as it fits, error iff it does not.\<close>

lemma cbor_puts_spec:
  assumes "enc_wf e" "ce_err e = None"
  shows "enc_wf (cbor_puts e bs) \<and> ce_cap (cbor_puts e bs) = ce_cap e \<and>
    length (ce_buf (cbor_puts e bs)) = length (ce_buf e) \<and>
    enc_out (cbor_puts e bs) = enc_out e @ take (ce_cap e - ce_pos e) bs \<and>
    ce_pos (cbor_puts e bs) = ce_pos e + min (length bs) (ce_cap e - ce_pos e) \<and>
    drop (ce_cap e) (ce_buf (cbor_puts e bs)) = drop (ce_cap e) (ce_buf e) \<and>
    ce_err (cbor_puts e bs) = (if ce_pos e + length bs \<le> ce_cap e then None else Some ENOSPC)"
  using assms
proof (induction bs arbitrary: e)
  case (Cons b bs)
  show ?case
  proof (cases "ce_pos e < ce_cap e")
    case True
    let ?e = "cbor_put e b"
    have e: "?e = e\<lparr>ce_buf := (ce_buf e)[ce_pos e := b], ce_pos := ce_pos e + 1\<rparr>"
      using Cons.prems(2) True by (simp add: cbor_put_def)
    have out: "enc_out ?e = enc_out e @ [b]"
      using True Cons.prems(1) by (simp add: e enc_out_def enc_wf_def take_Suc_conv_app_nth)
    have "enc_wf ?e" "ce_err ?e = None"
      using True Cons.prems by (simp_all add: e enc_wf_def)
    note IH = Cons.IH [OF this]
    have "Suc (ce_cap e - Suc (ce_pos e)) = ce_cap e - ce_pos e"
      using True by simp
    then have "take (ce_cap e - ce_pos e) (b # bs) = b # take (ce_cap e - Suc (ce_pos e)) bs"
      by (metis take_Suc_Cons)
    then show ?thesis
      using IH True out by (auto simp: e)
  next
    case False
    then have e: "cbor_put e b = e\<lparr>ce_err := Some ENOSPC\<rparr>"
      using Cons.prems(2) by (simp add: cbor_put_def)
    show ?thesis
      using False Cons.prems by (simp add: e cbor_puts_sticky enc_wf_def enc_out_def)
  qed
qed (simp add: enc_wf_def enc_out_def)

lemma cbor_puts_fits:
  assumes "enc_wf e" "ce_err e = None" "ce_pos e + length bs \<le> ce_cap e"
  shows "enc_wf (cbor_puts e bs)" "ce_err (cbor_puts e bs) = None"
    "enc_out (cbor_puts e bs) = enc_out e @ bs"
    "ce_pos (cbor_puts e bs) = ce_pos e + length bs" "ce_cap (cbor_puts e bs) = ce_cap e"
  using cbor_puts_spec [OF assms(1,2), of bs] assms(3) by auto

lemma enc_init_wf [simp]: "cap \<le> length buf \<Longrightarrow> enc_wf (cbor_enc_init buf cap)"
  by (simp add: enc_wf_def cbor_enc_init_def)

lemma enc_init_simps [simp]:
  "ce_err (cbor_enc_init buf cap) = None" "ce_pos (cbor_enc_init buf cap) = 0"
  "ce_cap (cbor_enc_init buf cap) = cap" "enc_out (cbor_enc_init buf cap) = []"
  by (simp_all add: cbor_enc_init_def enc_out_def)

text \<open>A whole message: encoded into a fresh buffer it is exactly its bytes, or an error.\<close>

lemma cbor_message:
  assumes "cap \<le> length buf"
  shows "length bs \<le> cap \<Longrightarrow> ce_err (cbor_puts (cbor_enc_init buf cap) bs) = None \<and>
      enc_out (cbor_puts (cbor_enc_init buf cap) bs) = bs \<and>
      cbor_enc_len (cbor_puts (cbor_enc_init buf cap) bs) = length bs"
    and "cap < length bs \<Longrightarrow> ce_err (cbor_puts (cbor_enc_init buf cap) bs) = Some ENOSPC"
  using cbor_puts_spec [of "cbor_enc_init buf cap" bs] assms by (auto simp: cbor_enc_len_def)

section \<open>The decoder inverts the encoding\<close>

definition dec_wf :: "cbor_dec \<Rightarrow> bool" where
  "dec_wf d \<longleftrightarrow> cd_pos d \<le> cd_len d \<and> cd_len d \<le> length (cd_buf d)"

definition dec_rest :: "cbor_dec \<Rightarrow> bytes" where
  "dec_rest d = drop (cd_pos d) (take (cd_len d) (cd_buf d))"

lemma length_dec_rest: "dec_wf d \<Longrightarrow> length (dec_rest d) = cd_len d - cd_pos d"
  by (simp add: dec_wf_def dec_rest_def)

lemma dec_rest_nth: "dec_wf d \<Longrightarrow> i < length (dec_rest d) \<Longrightarrow> cd_buf d ! (cd_pos d + i) = dec_rest d ! i"
  by (simp add: dec_wf_def dec_rest_def)

lemma dec_rest_advance:
  "dec_wf d \<Longrightarrow> dec_rest d = xs @ r \<Longrightarrow>
     dec_wf (d\<lparr>cd_pos := cd_pos d + length xs\<rparr>) \<and>
     dec_rest (d\<lparr>cd_pos := cd_pos d + length xs\<rparr>) = r"
proof -
  assume wf: "dec_wf d" and r: "dec_rest d = xs @ r"
  have "drop (length xs) (dec_rest d) = r"
    by (simp add: r)
  then show ?thesis
    using length_dec_rest [OF wf] wf arg_cong [OF r, of length]
    by (auto simp: dec_wf_def dec_rest_def add.commute)
qed

lemma take_bit_of_less:
  "m < 8 \<Longrightarrow> take_bit 3 (m :: u8) = m" "k < 32 \<Longrightarrow> take_bit 5 (k :: u8) = k"
  by (simp_all add: word_unat_eq_iff word_less_nat_alt unsigned_take_bit_eq take_bit_nat_eq_self)

lemma head_byte:
  assumes "m < 8" "k < 32"
  shows "drop_bit 5 (push_bit 5 m OR k) = (m :: u8)" "(push_bit 5 m OR k) AND 0x1F = (k :: u8)"
proof -
  have m: "take_bit 3 m = m" and k: "take_bit 5 k = k"
    using assms by (auto intro!: take_bit_of_less)
  have mask: "(0x1F :: u8) = mask 5"
    by (simp add: mask_eq_exp_minus_1)
  have "drop_bit 5 (push_bit 5 (take_bit 3 m) OR take_bit 5 k) = (take_bit 3 m :: u8)"
    by (rule bit_word_eqI) (auto simp: bit_simps)
  then show "drop_bit 5 (push_bit 5 m OR k) = m"
    by (simp add: m k)
  have "(push_bit 5 (take_bit 3 m) OR take_bit 5 k) AND 0x1F = (take_bit 5 k :: u8)"
    unfolding mask by (rule bit_word_eqI) (auto simp: bit_simps)
  then show "(push_bit 5 m OR k) AND 0x1F = k"
    by (simp add: m k)
qed

lemma ucast_small:
  "v < 24 \<Longrightarrow> (ucast v :: u8) < 24 \<and> ucast (ucast v :: u8) = (v :: u64)"
  "v \<le> 0xFF \<Longrightarrow> ucast (ucast v :: u8) = (v :: u64)"
  "v \<le> 0xFFFF \<Longrightarrow> ucast (ucast v :: u16) = (v :: u64)"
  "v \<le> 0xFFFFFFFF \<Longrightarrow> ucast (ucast v :: u32) = (v :: u64)"
proof -
  have gen: "unat v < 2 ^ 8 \<Longrightarrow> unat (ucast v :: u8) = unat v"
    "unat v < 2 ^ 16 \<Longrightarrow> unat (ucast v :: u16) = unat v"
    "unat v < 2 ^ 32 \<Longrightarrow> unat (ucast v :: u32) = unat v" for v :: u64
    by (simp_all add: unsigned_ucast_eq take_bit_nat_eq_self)
  have up: "unat (ucast a :: u64) = unat a" "unat (ucast b :: u64) = unat b"
    "unat (ucast c :: u64) = unat c" for a :: u8 and b :: u16 and c :: u32
    by (simp_all add: unsigned_ucast_eq take_bit_nat_eq_self order_less_trans [OF unsigned_less])
  show "v < 24 \<Longrightarrow> (ucast v :: u8) < 24 \<and> ucast (ucast v :: u8) = (v :: u64)"
    "v \<le> 0xFF \<Longrightarrow> ucast (ucast v :: u8) = (v :: u64)"
    "v \<le> 0xFFFF \<Longrightarrow> ucast (ucast v :: u16) = (v :: u64)"
    "v \<le> 0xFFFFFFFF \<Longrightarrow> ucast (ucast v :: u32) = (v :: u64)"
    by (simp_all add: word_le_nat_alt word_less_nat_alt word_unat_eq_iff gen up)
qed

lemma ucast_push_byte16: "k \<le> 8 \<Longrightarrow> ucast (push_bit k (ucast (b :: u8)) :: u16) = (push_bit k (ucast b) :: u64)"
  by (rule bit_word_eqI) (auto simp: bit_simps dest: bit_imp_le_length)

lemma ucast_push_byte32: "k \<le> 24 \<Longrightarrow> ucast (push_bit k (ucast (b :: u8)) :: u32) = (push_bit k (ucast b) :: u64)"
  by (rule bit_word_eqI) (auto simp: bit_simps dest: bit_imp_le_length)

lemma ucast_of_be16: "ucast (of_be16 p) = (push_bit 8 (ucast (p ! 0)) OR ucast (p ! 1) :: u64)"
  using ucast_push_byte16 [of 8 "p ! 0"] ucast_push_byte16 [of 0 "p ! 1"]
  by (simp add: of_be16_def unsigned_or_eq)

lemma ucast_of_be32:
  "ucast (of_be32 p) =
     (push_bit 24 (ucast (p ! 0)) OR push_bit 16 (ucast (p ! 1)) OR
      push_bit 8 (ucast (p ! 2)) OR ucast (p ! 3) :: u64)"
  using ucast_push_byte32 [of 24 "p ! 0"] ucast_push_byte32 [of 16 "p ! 1"]
    ucast_push_byte32 [of 8 "p ! 2"] ucast_push_byte32 [of 0 "p ! 3"]
  by (simp add: of_be32_def unsigned_or_eq)

text \<open>The argument bytes that follow the initial byte of a head.\<close>

lemma dec_rest_slice:
  assumes "dec_wf d" "dec_rest d = b # xs @ r"
  shows "cd_buf d ! cd_pos d = b" "cd_pos d + 1 + length xs \<le> cd_len d"
    "i < length xs \<Longrightarrow> drop (cd_pos d + 1) (cd_buf d) ! i = xs ! i"
proof -
  have l: "cd_len d - cd_pos d = 1 + length xs + length r"
    using length_dec_rest [OF assms(1)] assms(2) by simp
  then show "cd_pos d + 1 + length xs \<le> cd_len d"
    by simp
  show "cd_buf d ! cd_pos d = b"
    using dec_rest_nth [OF assms(1), of 0] assms(2) by simp
  show "i < length xs \<Longrightarrow> drop (cd_pos d + 1) (cd_buf d) ! i = xs ! i"
    using dec_rest_nth [OF assms(1), of "Suc i"] assms l
    by (auto simp: dec_wf_def nth_append)
qed

lemma cbor_dec_head_ok:
  assumes wf: "dec_wf d" and m: "m < 8" and r: "dec_rest d = cbor_head m v @ r"
  shows "cbor_dec_head d = (Inr (m, v), d\<lparr>cd_pos := cd_pos d + length (cbor_head m v)\<rparr>)"
proof -
  obtain k xs where kx: "cbor_head m v = (push_bit 5 m OR k) # xs" "k < 32"
    and args: "k < 24 \<and> xs = [] \<and> ucast k = v \<or> k = 24 \<and> xs = [ucast v] \<and> v \<le> 0xFF \<or>
      k = 25 \<and> xs = be16 (ucast v) \<and> v \<le> 0xFFFF \<or>
      k = 26 \<and> xs = be32 (ucast v) \<and> v \<le> 0xFFFFFFFF \<or> k = 27 \<and> xs = be64 v"
    by (rule that [of "if v < 24 then ucast v else if v \<le> 0xFF then 24 else if v \<le> 0xFFFF then 25
        else if v \<le> 0xFFFFFFFF then 26 else 27" "tl (cbor_head m v)"])
      (use ucast_small(1) [of v] in \<open>auto simp: cbor_head_def Let_def intro: less_trans [of _ 24]\<close>)
  have sl: "cd_buf d ! cd_pos d = push_bit 5 m OR k" "cd_pos d + 1 + length xs \<le> cd_len d"
    "\<And>i. i < length xs \<Longrightarrow> drop (cd_pos d + 1) (cd_buf d) ! i = xs ! i"
    using dec_rest_slice [OF wf, of _ xs r] r kx by auto
  note hb = head_byte [OF m kx(2)]
  show ?thesis
    using args
  proof (elim disjE)
    assume "k < 24 \<and> xs = [] \<and> ucast k = v"
    then show ?thesis
      using sl hb by (simp add: cbor_dec_head_def Let_def kx)
  next
    assume "k = 24 \<and> xs = [ucast v] \<and> v \<le> 0xFF"
    then show ?thesis
      using sl(1,2) sl(3) [of 0] hb ucast_small(2) [of v] by (simp add: cbor_dec_head_def Let_def kx)
  next
    assume a: "k = 25 \<and> xs = be16 (ucast v) \<and> v \<le> 0xFFFF"
    have "push_bit 8 (ucast (xs ! 0)) OR ucast (xs ! 1) = v"
      using ucast_of_be16 [of xs] a ucast_small(3) [of v] by (simp add: of_be16_be16)
    then show ?thesis
      using sl(1,2) sl(3) [of 0] sl(3) [of 1] hb a by (simp add: cbor_dec_head_def Let_def kx)
  next
    assume a: "k = 26 \<and> xs = be32 (ucast v) \<and> v \<le> 0xFFFFFFFF"
    have "push_bit 24 (ucast (xs ! 0)) OR push_bit 16 (ucast (xs ! 1)) OR
      push_bit 8 (ucast (xs ! 2)) OR ucast (xs ! 3) = v"
      using ucast_of_be32 [of xs] a ucast_small(4) [of v] by (simp add: of_be32_be32)
    then show ?thesis
      using sl(1,2) sl(3) [of 0] sl(3) [of 1] sl(3) [of 2] sl(3) [of 3] hb a
      by (simp add: cbor_dec_head_def Let_def kx)
  next
    assume a: "k = 27 \<and> xs = be64 v"
    then have "of_be64 xs = v"
      by (simp add: of_be64_be64)
    then show ?thesis
      using sl(1,2) sl(3) [of 0] sl(3) [of 1] sl(3) [of 2] sl(3) [of 3]
        sl(3) [of 4] sl(3) [of 5] sl(3) [of 6] sl(3) [of 7] hb a
      by (simp add: cbor_dec_head_def Let_def kx of_be64_def)
  qed
qed

lemma cbor_dec_head_rest:
  assumes "dec_wf d" "m < 8" "dec_rest d = cbor_head m v @ r"
  obtains d' where "cbor_dec_head d = (Inr (m, v), d')" "dec_wf d'" "dec_rest d' = r"
    "cd_len d' = cd_len d"
  using cbor_dec_head_ok [OF assms] dec_rest_advance [OF assms(1,3)] by auto

text \<open>Every proper prefix of a head is rejected: the decoder never reads past its length.\<close>

lemma cbor_dec_head_truncated:
  assumes wf: "dec_wf d" and m: "m < 8" and p: "dec_rest d = take n (cbor_head m v)"
    and n: "n < length (cbor_head m v)"
  shows "fst (cbor_dec_head d) = Inl EINVAL"
proof (cases "n = 0")
  case True
  then show ?thesis
    using p length_dec_rest [OF wf] by (simp add: cbor_dec_head_def)
next
  case False
  have len: "cd_len d = cd_pos d + n"
    using length_dec_rest [OF wf] p n False by (simp add: min_def)
  have "cd_buf d ! cd_pos d = cbor_head m v ! 0"
    using dec_rest_nth [OF wf, of 0] p n False by simp
  then show ?thesis
    using n len False head_byte [OF m, of 24] head_byte [OF m, of 25] head_byte [OF m, of 26]
      head_byte [OF m, of 27]
    by (auto simp: cbor_dec_head_def Let_def cbor_head_def split: if_splits)
qed

section \<open>Messages\<close>

text \<open>
  The kernel and its clients exchange sequences of these items. \<open>cbor_enc_item\<close> calls the
  encoder function for an item, \<open>cbor_dec_item\<close> the decoder function for an item of the
  same kind, with a text buffer of \<open>tcap\<close> bytes.
\<close>

datatype cbor_item = IMap u64 | IUint u64 | IText bytes

fun cbor_enc_item :: "cbor_enc \<Rightarrow> cbor_item \<Rightarrow> cbor_enc" where
  "cbor_enc_item e (IMap n) = cbor_enc_map e n"
| "cbor_enc_item e (IUint v) = cbor_enc_uint e v"
| "cbor_enc_item e (IText t) = cbor_enc_text_key e t"

fun cbor_dec_item :: "nat \<Rightarrow> cbor_item \<Rightarrow> cbor_dec \<Rightarrow> cbor_item res \<times> cbor_dec" where
  "cbor_dec_item tcap (IMap _) d = map_prod (map_sum id IMap) id (cbor_dec_map d)"
| "cbor_dec_item tcap (IUint _) d = map_prod (map_sum id IUint) id (cbor_dec_uint d)"
| "cbor_dec_item tcap (IText _) d =
     map_prod (map_sum id (\<lambda>t. IText (butlast t))) id (cbor_dec_text d tcap)"

fun cbor_dec_items :: "nat \<Rightarrow> cbor_item list \<Rightarrow> cbor_dec \<Rightarrow> cbor_item list res \<times> cbor_dec" where
  "cbor_dec_items tcap [] d = (Inr [], d)"
| "cbor_dec_items tcap (i # is) d =
     (case cbor_dec_item tcap i d of
        (Inl e, d) \<Rightarrow> (Inl e, d)
      | (Inr x, d) \<Rightarrow>
          (case cbor_dec_items tcap is d of
             (Inl e, d) \<Rightarrow> (Inl e, d)
           | (Inr xs, d) \<Rightarrow> (Inr (x # xs), d)))"

fun item_bytes :: "cbor_item \<Rightarrow> bytes" where
  "item_bytes (IMap n) = cbor_head 5 n"
| "item_bytes (IUint v) = cbor_head 0 v"
| "item_bytes (IText t) = cbor_head 3 (of_nat (length t)) @ t"

fun item_ok :: "nat \<Rightarrow> cbor_item \<Rightarrow> bool" where
  "item_ok tcap (IText t) \<longleftrightarrow> length t < tcap \<and> length t < 2 ^ 64"
| "item_ok tcap _ \<longleftrightarrow> True"

lemma cbor_enc_item_puts: "cbor_enc_item e i = cbor_puts e (item_bytes i)"
  by (cases i) (simp_all add: cbor_simps cbor_enc_text_key_def)

lemma cbor_enc_items_puts: "foldl cbor_enc_item e is = cbor_puts e (concat (map item_bytes is))"
  by (induction "is" arbitrary: e) (simp_all add: cbor_enc_item_puts cbor_puts_append)

lemma cbor_dec_text_rest:
  assumes wf: "dec_wf d" and r: "dec_rest d = cbor_head 3 (of_nat (length t)) @ t @ r"
    and t: "length t < tcap" "length t < 2 ^ 64"
  obtains d' where "cbor_dec_text d tcap = (Inr (t @ [0]), d')" "dec_wf d'" "dec_rest d' = r"
    "cd_len d' = cd_len d"
proof -
  have m: "(3 :: u8) < 8"
    by simp
  obtain d1 where d1: "cbor_dec_head d = (Inr (3, of_nat (length t)), d1)" "dec_wf d1"
    "dec_rest d1 = t @ r" "cd_len d1 = cd_len d"
    using cbor_dec_head_rest [OF wf m r] by auto
  have u: "unat (of_nat (length t) :: u64) = length t"
    using t(2) by (simp add: unat_of_nat_u64)
  have le: "cd_pos d1 + length t \<le> cd_len d1"
    using length_dec_rest [OF d1(2)] d1(2,3) by (auto simp: dec_wf_def)
  have "read_at (cd_buf d1) (cd_pos d1) (length t) = take (length t) (dec_rest d1)"
    using le by (simp add: read_at_def dec_rest_def take_drop min_def)
  then have "cbor_dec_text d tcap = (Inr (t @ [0]), d1\<lparr>cd_pos := cd_pos d1 + length t\<rparr>)"
    using t(1) le by (simp add: cbor_dec_text_def d1(1) u d1(3))
  then show thesis
    using that dec_rest_advance [OF d1(2,3)] d1(4) by simp
qed

lemma cbor_dec_item_ok:
  assumes wf: "dec_wf d" and r: "dec_rest d = item_bytes i @ r" and ok: "item_ok tcap i"
  obtains d' where "cbor_dec_item tcap i d = (Inr i, d')" "dec_wf d'" "dec_rest d' = r"
    "cd_len d' = cd_len d"
proof (cases i)
  case (IMap n)
  have m: "(5 :: u8) < 8" and r': "dec_rest d = cbor_head 5 n @ r"
    using r IMap by simp_all
  show thesis
    by (rule cbor_dec_head_rest [OF wf m r']) (auto intro: that simp: IMap cbor_dec_map_def)
next
  case (IUint v)
  have m: "(0 :: u8) < 8" and r': "dec_rest d = cbor_head 0 v @ r"
    using r IUint by simp_all
  show thesis
    by (rule cbor_dec_head_rest [OF wf m r']) (auto intro: that simp: IUint cbor_dec_uint_def)
next
  case (IText t)
  then have r': "dec_rest d = cbor_head 3 (of_nat (length t)) @ t @ r" "length t < tcap"
    "length t < 2 ^ 64"
    using r ok by simp_all
  show thesis
    by (rule cbor_dec_text_rest [OF wf r']) (auto intro: that simp: IText)
qed

lemma cbor_dec_items_ok:
  assumes "dec_wf d" "dec_rest d = concat (map item_bytes is) @ r" "list_all (item_ok tcap) is"
  shows "\<exists>d'. cbor_dec_items tcap is d = (Inr is, d') \<and> dec_wf d' \<and> dec_rest d' = r \<and>
    cd_len d' = cd_len d"
  using assms
proof (induction "is" arbitrary: d)
  case (Cons i "is")
  then have r: "dec_rest d = item_bytes i @ concat (map item_bytes is) @ r" "item_ok tcap i"
    by simp_all
  obtain d1 where d1: "cbor_dec_item tcap i d = (Inr i, d1)" "dec_wf d1"
    "dec_rest d1 = concat (map item_bytes is) @ r" "cd_len d1 = cd_len d"
    by (rule cbor_dec_item_ok [OF Cons.prems(1) r])
  have "list_all (item_ok tcap) is"
    using Cons.prems(3) by simp
  from Cons.IH [OF d1(2,3) this] show ?case
    using d1(1,4) by auto
qed simp

text \<open>
  C24: Every sequence of maps, unsigned integers and texts that the encoder accepts without
  setting its error flag is decoded, by the corresponding sequence of decoder calls on the
  bytes written, to exactly the same sequence, and the decoder ends at the end of the input.
\<close>

theorem cbor_items_roundtrip:
  assumes "cap \<le> length buf"
    and "list_all (item_ok tcap) items"
    and "e = foldl cbor_enc_item (cbor_enc_init buf cap) items"
    and "ce_err e = None"
  shows "\<exists>d. cbor_dec_items tcap items (cbor_dec_init (ce_buf e) (cbor_enc_len e)) = (Inr items, d) \<and>
    cd_pos d = cd_len d"
proof -
  let ?bs = "concat (map item_bytes items)"
  have e: "e = cbor_puts (cbor_enc_init buf cap) ?bs"
    by (simp add: assms(3) cbor_enc_items_puts)
  have fits: "length ?bs \<le> cap"
    using cbor_message(2) [OF assms(1), of ?bs] assms(4) by (force simp: e)
  note spec = cbor_puts_spec [OF enc_init_wf [OF assms(1)] enc_init_simps(1), of ?bs, folded e]
  let ?d = "cbor_dec_init (ce_buf e) (cbor_enc_len e)"
  have wf: "dec_wf ?d"
    using spec by (simp add: dec_wf_def cbor_dec_init_def cbor_enc_len_def enc_wf_def)
  have rest: "dec_rest ?d = ?bs @ []"
    using spec fits by (auto simp: dec_rest_def cbor_dec_init_def cbor_enc_len_def enc_out_def)
  obtain d where d: "cbor_dec_items tcap items ?d = (Inr items, d)" "dec_wf d" "dec_rest d = []"
    using cbor_dec_items_ok [OF wf rest assms(2)] by auto
  then show ?thesis
    using length_dec_rest [OF d(2)] by (auto simp: dec_wf_def)
qed

theorem cbor_items_roundtrip_witness:
  "\<exists>d. cbor_dec_items 16 [IMap 1, IText [0x6f, 0x6b], IUint 70000]
     (cbor_dec_init [0xa1, 0x62, 0x6f, 0x6b, 0x1a, 0, 1, 0x11, 0x70, 0, 0, 0] 9) =
       (Inr [IMap 1, IText [0x6f, 0x6b], IUint 70000], d) \<and> cd_pos d = cd_len d"
proof -
  define e where "e = foldl cbor_enc_item (cbor_enc_init (replicate 12 0) 12)
    [IMap 1, IText [0x6f, 0x6b], IUint 70000]"
  have e: "e = \<lparr>ce_buf = [0xa1, 0x62, 0x6f, 0x6b, 0x1a, 0, 1, 0x11, 0x70, 0, 0, 0], ce_pos = 9,
    ce_cap = 12, ce_err = None\<rparr>"
    unfolding e_def by code_simp
  have "list_all (item_ok 16) [IMap 1, IText [0x6f, 0x6b], IUint 70000]"
    by simp
  from cbor_items_roundtrip [OF _ this e_def] show ?thesis
    by (simp add: e cbor_enc_len_def)
qed

text \<open>
  C25: Whatever is encoded, the encoder writes inside its capacity only: the position never
  exceeds it, the buffer's bytes beyond it are untouched, what was written is the longest
  prefix of the message that fits, and the sticky error is \<open>-ENOSPC\<close> exactly when the message
  does not fit.
\<close>

theorem cbor_enc_bounded:
  assumes "cap \<le> length buf" and "e = foldl cbor_enc_item (cbor_enc_init buf cap) items"
  shows "cbor_enc_len e \<le> cap \<and> length (ce_buf e) = length buf \<and>
    drop cap (ce_buf e) = drop cap buf \<and>
    take (cbor_enc_len e) (ce_buf e) = take cap (concat (map item_bytes items)) \<and>
    ce_err e = (if length (concat (map item_bytes items)) \<le> cap then None else Some ENOSPC)"
  using cbor_puts_spec [OF enc_init_wf [OF assms(1)] enc_init_simps(1),
      of "concat (map item_bytes items)"]
  by (auto simp: assms(2) cbor_enc_items_puts enc_wf_def cbor_enc_len_def enc_out_def
      cbor_enc_init_def)

theorem cbor_enc_bounded_witness:
  "ce_err (foldl cbor_enc_item (cbor_enc_init [7, 7, 7, 9] 3) [IUint 1, IUint 70000]) =
     Some ENOSPC \<and>
   drop 3 (ce_buf (foldl cbor_enc_item (cbor_enc_init [7, 7, 7, 9] 3) [IUint 1, IUint 70000])) = [9]"
  using cbor_enc_bounded [OF _ refl, of 3 "[7, 7, 7, 9]" "[IUint 1, IUint 70000]"]
  by (simp add: length_cbor_head)

text \<open>
  C26: A head cut short at any byte is refused with \<open>-EINVAL\<close>: no truncation of an encoded
  head is taken for another head.
\<close>

theorem cbor_truncated_head_rejected:
  assumes "major < 8" and "9 \<le> cap"
    and "e = cbor_enc_head (cbor_enc_init (replicate cap 0) cap) major val"
    and "n < cbor_enc_len e"
  shows "fst (cbor_dec_head (cbor_dec_init (ce_buf e) n)) = Inl EINVAL"
proof -
  have le: "length (cbor_head major val) \<le> cap"
    using length_cbor_head_le [of major val] assms(2) by linarith
  have e: "e = cbor_puts (cbor_enc_init (replicate cap 0) cap) (cbor_head major val)"
    by (simp add: assms(3) cbor_enc_head_puts)
  have out: "take (length (cbor_head major val)) (ce_buf e) = cbor_head major val"
    and len: "cbor_enc_len e = length (cbor_head major val)"
    and bl: "length (ce_buf e) = cap"
    using cbor_message(1) [of cap "replicate cap 0" "cbor_head major val"] le
      cbor_puts_spec [of "cbor_enc_init (replicate cap 0) cap" "cbor_head major val"]
    by (auto simp: e enc_out_def cbor_enc_len_def cbor_enc_init_def enc_wf_def)
  let ?d = "cbor_dec_init (ce_buf e) n"
  have "dec_rest ?d = take n (take (length (cbor_head major val)) (ce_buf e))"
    using assms(4) len by (simp add: dec_rest_def cbor_dec_init_def min_def)
  then have "dec_rest ?d = take n (cbor_head major val)"
    by (simp only: out)
  moreover have "dec_wf ?d"
    using assms(4) len bl le by (simp add: dec_wf_def cbor_dec_init_def)
  ultimately show ?thesis
    using cbor_dec_head_truncated [of ?d major n val] assms(1,4) len by simp
qed

theorem cbor_truncated_head_rejected_witness:
  "fst (cbor_dec_head (cbor_dec_init (ce_buf (cbor_enc_head (cbor_enc_init (replicate 10 0) 10) 0 300)) 2)) =
     Inl EINVAL"
proof (rule cbor_truncated_head_rejected [OF _ _ refl])
  show "2 < cbor_enc_len (cbor_enc_head (cbor_enc_init (replicate 10 0) 10) 0 300)"
    by code_simp
qed simp_all

lemma cbor_dec_head_frame:
  "cd_buf (snd (cbor_dec_head d)) = cd_buf d" "cd_len (snd (cbor_dec_head d)) = cd_len d"
  "cd_pos d \<le> cd_pos (snd (cbor_dec_head d))"
  "cd_pos d \<le> cd_len d \<Longrightarrow> cd_pos (snd (cbor_dec_head d)) \<le> cd_len d"
  by (simp_all add: cbor_dec_head_def Let_def)

lemma cbor_dec_head_congruent:
  assumes "take n b = take n b'"
  shows "map_prod id cd_pos (cbor_dec_head \<lparr>cd_buf = b, cd_pos = p, cd_len = n\<rparr>) =
    map_prod id cd_pos (cbor_dec_head \<lparr>cd_buf = b', cd_pos = p, cd_len = n\<rparr>)"
proof -
  have nth: "b ! i = b' ! i" if "i < n" for i
    using assms that by (metis nth_take)
  have dn: "n \<le> length b \<and> n \<le> length b' \<or> b = b'"
    using assms by (cases "n \<le> length b"; cases "n \<le> length b'") (auto dest: arg_cong [of _ _ length])
  show ?thesis
    using dn by (auto simp: cbor_dec_head_def Let_def nth)
qed

text \<open>
  C27: On arbitrary bytes, decoding a text looks at no byte at or beyond the stated length
  (two buffers that agree up to it give the same result), leaves the position inside the
  input, and on success returns fewer than \<open>cap\<close> bytes followed by the NUL terminator, so it
  fits the caller's buffer.
\<close>

theorem cbor_dec_text_safe:
  assumes "n \<le> length b" and "take n b = take n b'"
  shows "fst (cbor_dec_text (cbor_dec_init b n) cap) = fst (cbor_dec_text (cbor_dec_init b' n) cap) \<and>
    cd_pos (snd (cbor_dec_text (cbor_dec_init b n) cap)) \<le> n \<and>
    (\<forall>t. fst (cbor_dec_text (cbor_dec_init b n) cap) = Inr t \<longrightarrow> length t \<le> cap \<and> last t = 0)"
proof -
  have rd: "read_at b p k = read_at b' p k" if "p + k \<le> n" for p k
  proof -
    have "read_at b p k = read_at (take n b) p k" "read_at b' p k = read_at (take n b') p k"
      using that by (simp_all add: read_at_def take_drop min_def)
    then show ?thesis
      by (simp add: assms(2))
  qed
  obtain r d where h: "cbor_dec_head (cbor_dec_init b n) = (r, d)"
    by (cases "cbor_dec_head (cbor_dec_init b n)") auto
  obtain r' d' where h': "cbor_dec_head (cbor_dec_init b' n) = (r', d')"
    by (cases "cbor_dec_head (cbor_dec_init b' n)") auto
  have eq: "r' = r" "cd_pos d' = cd_pos d"
    using cbor_dec_head_congruent [OF assms(2), of 0] h h' by (simp_all add: cbor_dec_init_def)
  have fr: "cd_buf d = b" "cd_len d = n" "cd_pos d \<le> n" "cd_buf d' = b'" "cd_len d' = n"
    using cbor_dec_head_frame [of "cbor_dec_init b n", unfolded h]
      cbor_dec_head_frame [of "cbor_dec_init b' n", unfolded h']
    by (simp_all add: cbor_dec_init_def)
  have rd': "cd_pos d + k \<le> n \<Longrightarrow> read_at (cd_buf d') (cd_pos d) k = read_at (cd_buf d) (cd_pos d) k" for k
    using rd [of "cd_pos d" k] fr by simp
  have ln: "length (read_at f p k) < cap" if "k < cap" for f p and k :: nat
    using that by (simp add: length_read_at)
  show ?thesis
    using fr eq rd' by (cases r) (auto simp: cbor_dec_text_def h h' not_le not_less Suc_le_eq ln
        split: if_splits)
qed

theorem cbor_dec_text_safe_witness:
  "fst (cbor_dec_text (cbor_dec_init [0x62, 0x6f, 0x6b, 1] 3) 8) =
     fst (cbor_dec_text (cbor_dec_init [0x62, 0x6f, 0x6b, 2] 3) 8)"
  using cbor_dec_text_safe [of 3 "[0x62, 0x6f, 0x6b, 1]" "[0x62, 0x6f, 0x6b, 2]" 8] by simp

end
