(* ===== verification/Qcow2_Format.thy ===== *)
theory Qcow2_Format
  imports Lbd_Prelude
begin

text \<open>
  The on-disk format header \<^verbatim>\<open>src/src/lbd_qcow2_format.h\<close>: the constants, the big-endian
  accessors (the kernel variant, \<open>memcpy\<close> and a byte-order conversion, and the
  userspace variant, shifts), and one getter and one setter per header field.

  The properties: the two variants agree, a getter returns what its setter stored and
  is untouched by every other setter.
\<close>

section \<open>Constants\<close>

definition LBD_QCOW2_MAGIC :: u64 where "LBD_QCOW2_MAGIC = 0x4C42444351573200"
definition LBD_QCOW2_VERSION :: u32 where "LBD_QCOW2_VERSION = 2"
definition LBD_QCOW2_COMP_LZ4 :: u32 where "LBD_QCOW2_COMP_LZ4 = 1"
definition LBD_QCOW2_HEADER_SIZE :: nat where "LBD_QCOW2_HEADER_SIZE = 4096"
definition LBD_QCOW2_L2_TRAILER_SIZE :: nat where "LBD_QCOW2_L2_TRAILER_SIZE = 8"
definition LBD_QCOW2_OFF_MAGIC :: nat where "LBD_QCOW2_OFF_MAGIC = 0"
definition LBD_QCOW2_OFF_VERSION :: nat where "LBD_QCOW2_OFF_VERSION = 8"
definition LBD_QCOW2_OFF_CLUSTER_BITS :: nat where "LBD_QCOW2_OFF_CLUSTER_BITS = 12"
definition LBD_QCOW2_OFF_VIRTUAL_SIZE :: nat where "LBD_QCOW2_OFF_VIRTUAL_SIZE = 16"
definition LBD_QCOW2_OFF_L1_TABLE_OFFSET :: nat where "LBD_QCOW2_OFF_L1_TABLE_OFFSET = 24"
definition LBD_QCOW2_OFF_L1_SIZE :: nat where "LBD_QCOW2_OFF_L1_SIZE = 32"
definition LBD_QCOW2_OFF_ALLOC_OFFSET :: nat where "LBD_QCOW2_OFF_ALLOC_OFFSET = 36"
definition LBD_QCOW2_OFF_COMP_TYPE :: nat where "LBD_QCOW2_OFF_COMP_TYPE = 44"
definition LBD_QCOW2_OFF_FREE_LIST :: nat where "LBD_QCOW2_OFF_FREE_LIST = 48"
definition LBD_QCOW2_FREE_TOMBSTONE :: u32 where "LBD_QCOW2_FREE_TOMBSTONE = 0xDEADF4EE"
definition LBD_QCOW2_L2_COMPRESSED :: u64 where "LBD_QCOW2_L2_COMPRESSED = push_bit 63 1"
definition LBD_QCOW2_L2_OFFSET_MASK :: u64 where "LBD_QCOW2_L2_OFFSET_MASK = 0x3FFFFFFFFFFFFFFF"

lemmas offset_defs = LBD_QCOW2_OFF_MAGIC_def LBD_QCOW2_OFF_VERSION_def
  LBD_QCOW2_OFF_CLUSTER_BITS_def LBD_QCOW2_OFF_VIRTUAL_SIZE_def
  LBD_QCOW2_OFF_L1_TABLE_OFFSET_def LBD_QCOW2_OFF_L1_SIZE_def
  LBD_QCOW2_OFF_ALLOC_OFFSET_def LBD_QCOW2_OFF_COMP_TYPE_def LBD_QCOW2_OFF_FREE_LIST_def

section \<open>Byte-order helpers\<close>

text \<open>Userspace variant: the bytes are combined with shifts.\<close>

definition qcow2_get64 :: "bytes \<Rightarrow> nat \<Rightarrow> u64" where
  "qcow2_get64 buf off =
     (let p = drop off buf in
      push_bit 56 (ucast (p ! 0)) OR push_bit 48 (ucast (p ! 1)) OR
      push_bit 40 (ucast (p ! 2)) OR push_bit 32 (ucast (p ! 3)) OR
      push_bit 24 (ucast (p ! 4)) OR push_bit 16 (ucast (p ! 5)) OR
      push_bit 8 (ucast (p ! 6)) OR ucast (p ! 7))"

definition qcow2_get32 :: "bytes \<Rightarrow> nat \<Rightarrow> u32" where
  "qcow2_get32 buf off =
     (let p = drop off buf in
      push_bit 24 (ucast (p ! 0)) OR push_bit 16 (ucast (p ! 1)) OR
      push_bit 8 (ucast (p ! 2)) OR ucast (p ! 3))"

definition qcow2_put64 :: "bytes \<Rightarrow> nat \<Rightarrow> u64 \<Rightarrow> bytes" where
  "qcow2_put64 buf off val =
     buf[off := ucast (drop_bit 56 val), off + 1 := ucast (drop_bit 48 val),
         off + 2 := ucast (drop_bit 40 val), off + 3 := ucast (drop_bit 32 val),
         off + 4 := ucast (drop_bit 24 val), off + 5 := ucast (drop_bit 16 val),
         off + 6 := ucast (drop_bit 8 val), off + 7 := ucast val]"

definition qcow2_put32 :: "bytes \<Rightarrow> nat \<Rightarrow> u32 \<Rightarrow> bytes" where
  "qcow2_put32 buf off val =
     buf[off := ucast (drop_bit 24 val), off + 1 := ucast (drop_bit 16 val),
         off + 2 := ucast (drop_bit 8 val), off + 3 := ucast val]"

definition qcow2_get16 :: "bytes \<Rightarrow> nat \<Rightarrow> u16" where
  "qcow2_get16 buf off =
     (let p = drop off buf in push_bit 8 (ucast (p ! 0)) OR ucast (p ! 1))"

definition qcow2_put16 :: "bytes \<Rightarrow> nat \<Rightarrow> u16 \<Rightarrow> bytes" where
  "qcow2_put16 buf off val = buf[off := ucast (drop_bit 8 val), off + 1 := ucast val]"

text \<open>
  Kernel variant: \<open>memcpy\<close> between the buffer and a big-endian variable, whose bytes in
  memory are \<open>be64\<close>, \<open>be32\<close> and \<open>be16\<close> of the value.
\<close>

definition kernel_get64 :: "bytes \<Rightarrow> nat \<Rightarrow> u64" where
  "kernel_get64 buf off = (let v = read_at buf off 8 in of_be64 v)"

definition kernel_get32 :: "bytes \<Rightarrow> nat \<Rightarrow> u32" where
  "kernel_get32 buf off = (let v = read_at buf off 4 in of_be32 v)"

definition kernel_get16 :: "bytes \<Rightarrow> nat \<Rightarrow> u16" where
  "kernel_get16 buf off = (let v = read_at buf off 2 in of_be16 v)"

definition kernel_put64 :: "bytes \<Rightarrow> nat \<Rightarrow> u64 \<Rightarrow> bytes" where
  "kernel_put64 buf off val = (let v = be64 val in blit buf off v)"

definition kernel_put32 :: "bytes \<Rightarrow> nat \<Rightarrow> u32 \<Rightarrow> bytes" where
  "kernel_put32 buf off val = (let v = be32 val in blit buf off v)"

definition kernel_put16 :: "bytes \<Rightarrow> nat \<Rightarrow> u16 \<Rightarrow> bytes" where
  "kernel_put16 buf off val = (let v = be16 val in blit buf off v)"

section \<open>Header field accessors\<close>

definition lbd_qcow2_hdr_magic :: "bytes \<Rightarrow> u64" where
  "lbd_qcow2_hdr_magic h = qcow2_get64 h LBD_QCOW2_OFF_MAGIC"
definition lbd_qcow2_hdr_version :: "bytes \<Rightarrow> u32" where
  "lbd_qcow2_hdr_version h = qcow2_get32 h LBD_QCOW2_OFF_VERSION"
definition lbd_qcow2_hdr_cluster_bits :: "bytes \<Rightarrow> u32" where
  "lbd_qcow2_hdr_cluster_bits h = qcow2_get32 h LBD_QCOW2_OFF_CLUSTER_BITS"
definition lbd_qcow2_hdr_virtual_size :: "bytes \<Rightarrow> u64" where
  "lbd_qcow2_hdr_virtual_size h = qcow2_get64 h LBD_QCOW2_OFF_VIRTUAL_SIZE"
definition lbd_qcow2_hdr_l1_table_offset :: "bytes \<Rightarrow> u64" where
  "lbd_qcow2_hdr_l1_table_offset h = qcow2_get64 h LBD_QCOW2_OFF_L1_TABLE_OFFSET"
definition lbd_qcow2_hdr_l1_size :: "bytes \<Rightarrow> u32" where
  "lbd_qcow2_hdr_l1_size h = qcow2_get32 h LBD_QCOW2_OFF_L1_SIZE"
definition lbd_qcow2_hdr_alloc_offset :: "bytes \<Rightarrow> u64" where
  "lbd_qcow2_hdr_alloc_offset h = qcow2_get64 h LBD_QCOW2_OFF_ALLOC_OFFSET"
definition lbd_qcow2_hdr_comp_type :: "bytes \<Rightarrow> u32" where
  "lbd_qcow2_hdr_comp_type h = qcow2_get32 h LBD_QCOW2_OFF_COMP_TYPE"
definition lbd_qcow2_hdr_free_list :: "bytes \<Rightarrow> u64" where
  "lbd_qcow2_hdr_free_list h = qcow2_get64 h LBD_QCOW2_OFF_FREE_LIST"

definition lbd_qcow2_hdr_set_magic :: "bytes \<Rightarrow> u64 \<Rightarrow> bytes" where
  "lbd_qcow2_hdr_set_magic h v = qcow2_put64 h LBD_QCOW2_OFF_MAGIC v"
definition lbd_qcow2_hdr_set_version :: "bytes \<Rightarrow> u32 \<Rightarrow> bytes" where
  "lbd_qcow2_hdr_set_version h v = qcow2_put32 h LBD_QCOW2_OFF_VERSION v"
definition lbd_qcow2_hdr_set_cluster_bits :: "bytes \<Rightarrow> u32 \<Rightarrow> bytes" where
  "lbd_qcow2_hdr_set_cluster_bits h v = qcow2_put32 h LBD_QCOW2_OFF_CLUSTER_BITS v"
definition lbd_qcow2_hdr_set_virtual_size :: "bytes \<Rightarrow> u64 \<Rightarrow> bytes" where
  "lbd_qcow2_hdr_set_virtual_size h v = qcow2_put64 h LBD_QCOW2_OFF_VIRTUAL_SIZE v"
definition lbd_qcow2_hdr_set_l1_table_offset :: "bytes \<Rightarrow> u64 \<Rightarrow> bytes" where
  "lbd_qcow2_hdr_set_l1_table_offset h v = qcow2_put64 h LBD_QCOW2_OFF_L1_TABLE_OFFSET v"
definition lbd_qcow2_hdr_set_l1_size :: "bytes \<Rightarrow> u32 \<Rightarrow> bytes" where
  "lbd_qcow2_hdr_set_l1_size h v = qcow2_put32 h LBD_QCOW2_OFF_L1_SIZE v"
definition lbd_qcow2_hdr_set_alloc_offset :: "bytes \<Rightarrow> u64 \<Rightarrow> bytes" where
  "lbd_qcow2_hdr_set_alloc_offset h v = qcow2_put64 h LBD_QCOW2_OFF_ALLOC_OFFSET v"
definition lbd_qcow2_hdr_set_comp_type :: "bytes \<Rightarrow> u32 \<Rightarrow> bytes" where
  "lbd_qcow2_hdr_set_comp_type h v = qcow2_put32 h LBD_QCOW2_OFF_COMP_TYPE v"
definition lbd_qcow2_hdr_set_free_list :: "bytes \<Rightarrow> u64 \<Rightarrow> bytes" where
  "lbd_qcow2_hdr_set_free_list h v = qcow2_put64 h LBD_QCOW2_OFF_FREE_LIST v"

lemmas hdr_getter_defs = lbd_qcow2_hdr_magic_def lbd_qcow2_hdr_version_def
  lbd_qcow2_hdr_cluster_bits_def lbd_qcow2_hdr_virtual_size_def
  lbd_qcow2_hdr_l1_table_offset_def lbd_qcow2_hdr_l1_size_def
  lbd_qcow2_hdr_alloc_offset_def lbd_qcow2_hdr_comp_type_def lbd_qcow2_hdr_free_list_def

lemmas hdr_setter_defs = lbd_qcow2_hdr_set_magic_def lbd_qcow2_hdr_set_version_def
  lbd_qcow2_hdr_set_cluster_bits_def lbd_qcow2_hdr_set_virtual_size_def
  lbd_qcow2_hdr_set_l1_table_offset_def lbd_qcow2_hdr_set_l1_size_def
  lbd_qcow2_hdr_set_alloc_offset_def lbd_qcow2_hdr_set_comp_type_def
  lbd_qcow2_hdr_set_free_list_def

section \<open>The two variants of the helpers agree\<close>

lemma get64_of_be64 [byte_simps]:
  "off + 8 \<le> length buf \<Longrightarrow> qcow2_get64 buf off = of_be64 (read_at buf off 8)"
  by (simp add: qcow2_get64_def of_be64_def nth_read_at)

lemma get32_of_be32 [byte_simps]:
  "off + 4 \<le> length buf \<Longrightarrow> qcow2_get32 buf off = of_be32 (read_at buf off 4)"
  by (simp add: qcow2_get32_def of_be32_def nth_read_at)

lemma get16_of_be16 [byte_simps]:
  "off + 2 \<le> length buf \<Longrightarrow> qcow2_get16 buf off = of_be16 (read_at buf off 2)"
  by (simp add: qcow2_get16_def of_be16_def nth_read_at)

lemma blit_Cons:
  "off < length buf \<Longrightarrow> blit buf off (b # bs) = blit (buf[off := b]) (Suc off) bs"
  by (simp add: blit_def take_Suc_conv_app_nth)

lemma blit_Nil [simp]: "blit buf off [] = buf"
  by (simp add: blit_def)

lemma put64_blit [byte_simps]:
  "off + 8 \<le> length buf \<Longrightarrow> qcow2_put64 buf off v = blit buf off (be64 v)"
  by (simp add: qcow2_put64_def be64_def blit_Cons eval_nat_numeral)

lemma put32_blit [byte_simps]:
  "off + 4 \<le> length buf \<Longrightarrow> qcow2_put32 buf off v = blit buf off (be32 v)"
  by (simp add: qcow2_put32_def be32_def blit_Cons eval_nat_numeral)

lemma put16_blit [byte_simps]:
  "off + 2 \<le> length buf \<Longrightarrow> qcow2_put16 buf off v = blit buf off (be16 v)"
  by (simp add: qcow2_put16_def be16_def blit_Cons eval_nat_numeral)

lemma length_put [simp]:
  "length (qcow2_put64 buf off v) = length buf"
  "length (qcow2_put32 buf off w) = length buf"
  "length (qcow2_put16 buf off x) = length buf"
  by (simp_all add: qcow2_put64_def qcow2_put32_def qcow2_put16_def)

lemma get_put64_same: "off + 8 \<le> length h \<Longrightarrow> qcow2_get64 (qcow2_put64 h off v) off = v"
  using read_blit_same [of off "be64 v" h] by (simp add: byte_simps io_simps)

lemma get_put32_same: "off + 4 \<le> length h \<Longrightarrow> qcow2_get32 (qcow2_put32 h off v) off = v"
  using read_blit_same [of off "be32 v" h] by (simp add: byte_simps io_simps)

lemma get_put16_same: "off + 2 \<le> length h \<Longrightarrow> qcow2_get16 (qcow2_put16 h off v) off = v"
  using read_blit_same [of off "be16 v" h] by (simp add: byte_simps io_simps)

lemma get64_put_other:
  assumes "off + 8 \<le> length h"
  shows "pos + 8 \<le> length h \<Longrightarrow> pos + 8 \<le> off \<or> off + 8 \<le> pos \<Longrightarrow>
      qcow2_get64 (qcow2_put64 h pos v) off = qcow2_get64 h off"
    and "pos + 4 \<le> length h \<Longrightarrow> pos + 4 \<le> off \<or> off + 8 \<le> pos \<Longrightarrow>
      qcow2_get64 (qcow2_put32 h pos w) off = qcow2_get64 h off"
  using assms by (simp_all add: byte_simps io_simps read_blit_other disj_commute)

lemma get32_put_other:
  assumes "off + 4 \<le> length h"
  shows "pos + 8 \<le> length h \<Longrightarrow> pos + 8 \<le> off \<or> off + 4 \<le> pos \<Longrightarrow>
      qcow2_get32 (qcow2_put64 h pos v) off = qcow2_get32 h off"
    and "pos + 4 \<le> length h \<Longrightarrow> pos + 4 \<le> off \<or> off + 4 \<le> pos \<Longrightarrow>
      qcow2_get32 (qcow2_put32 h pos w) off = qcow2_get32 h off"
  using assms by (simp_all add: byte_simps io_simps read_blit_other disj_commute)

lemmas get_put_simps = get_put64_same get_put32_same get64_put_other get32_put_other

section \<open>Properties\<close>

text \<open>C28: the kernel's accessors, which copy a big-endian variable with \<open>memcpy\<close>, and the
  userspace accessors, which shift byte by byte, read the same value from and store the
  same bytes into every buffer that holds the field.\<close>

theorem byte_helpers_agree:
  assumes "off + 8 \<le> length buf"
  shows "kernel_get64 buf off = qcow2_get64 buf off \<and>
    kernel_get32 buf off = qcow2_get32 buf off \<and>
    kernel_get16 buf off = qcow2_get16 buf off \<and>
    kernel_put64 buf off v = qcow2_put64 buf off v \<and>
    kernel_put32 buf off w = qcow2_put32 buf off w \<and>
    kernel_put16 buf off x = qcow2_put16 buf off x"
  using assms
  by (simp add: kernel_get64_def kernel_get32_def kernel_get16_def
      kernel_put64_def kernel_put32_def kernel_put16_def byte_simps)

theorem byte_helpers_agree_witness:
  "kernel_get64 [1, 2, 3, 4, 5, 6, 7, 8] 0 = qcow2_get64 [1, 2, 3, 4, 5, 6, 7, 8] 0 \<and>
   kernel_put32 (replicate 8 0) 0 0xDEADF4EE = qcow2_put32 (replicate 8 0) 0 0xDEADF4EE"
proof -
  have "0 + 8 \<le> length [1, 2, 3, 4, 5, 6, 7, 8 :: u8]" and "0 + 8 \<le> length (replicate 8 (0 :: u8))"
    by simp_all
  then show ?thesis
    using byte_helpers_agree by blast
qed

text \<open>C29: a header written field by field with the nine setters, in the order the tools use,
  is read back by the nine getters: every getter returns its own field, whatever the
  buffer held before and whatever the other fields are, and no byte past the fields
  changes.\<close>

theorem header_fields_roundtrip:
  assumes "56 \<le> length h"
    and "h' = lbd_qcow2_hdr_set_free_list
          (lbd_qcow2_hdr_set_comp_type
            (lbd_qcow2_hdr_set_alloc_offset
              (lbd_qcow2_hdr_set_l1_size
                (lbd_qcow2_hdr_set_l1_table_offset
                  (lbd_qcow2_hdr_set_virtual_size
                    (lbd_qcow2_hdr_set_cluster_bits
                      (lbd_qcow2_hdr_set_version
                        (lbd_qcow2_hdr_set_magic h magic) version) bits) vsize)
                  l1off) l1size) alloc) ctype) free"
  shows "lbd_qcow2_hdr_magic h' = magic \<and> lbd_qcow2_hdr_version h' = version \<and>
    lbd_qcow2_hdr_cluster_bits h' = bits \<and> lbd_qcow2_hdr_virtual_size h' = vsize \<and>
    lbd_qcow2_hdr_l1_table_offset h' = l1off \<and> lbd_qcow2_hdr_l1_size h' = l1size \<and>
    lbd_qcow2_hdr_alloc_offset h' = alloc \<and> lbd_qcow2_hdr_comp_type h' = ctype \<and>
    lbd_qcow2_hdr_free_list h' = free \<and> length h' = length h \<and> drop 56 h' = drop 56 h"
proof -
  have "drop 56 h' = drop 56 h"
    using assms(1) unfolding assms(2)
    by (simp add: hdr_setter_defs offset_defs qcow2_put64_def qcow2_put32_def)
  moreover have "length h' = length h"
    unfolding assms(2) by (simp add: hdr_setter_defs)
  ultimately show ?thesis
    using assms(1) unfolding assms(2)
    by (simp add: hdr_setter_defs hdr_getter_defs offset_defs get_put_simps)
qed

theorem header_fields_roundtrip_witness:
  "lbd_qcow2_hdr_alloc_offset
     (lbd_qcow2_hdr_set_free_list
          (lbd_qcow2_hdr_set_comp_type
            (lbd_qcow2_hdr_set_alloc_offset
              (lbd_qcow2_hdr_set_l1_size
                (lbd_qcow2_hdr_set_l1_table_offset
                  (lbd_qcow2_hdr_set_virtual_size
                    (lbd_qcow2_hdr_set_cluster_bits
                      (lbd_qcow2_hdr_set_version
                        (lbd_qcow2_hdr_set_magic (replicate 4096 0) LBD_QCOW2_MAGIC)
                        LBD_QCOW2_VERSION) 16) 1073741824)
                  4096) 3) 65536) LBD_QCOW2_COMP_LZ4) 0) = 65536"
  using header_fields_roundtrip [OF _ refl, of "replicate 4096 0"] by simp

end
