(* ===== verification/Lbd_Device.thy ===== *)
theory Lbd_Device
  imports Qcow2_Format
begin

text \<open>
  The state of a device: the structures of \<^verbatim>\<open>src/src/lbd.h\<close> and \<^verbatim>\<open>src/src/lbd_qcow2.h\<close> as
  records, and the kernel services the driver calls on them.

  Files are byte lists. What the surrounding kernel decides is explicit: \<open>io_plan\<close> lists the
  outcomes of the coming file operations and allocations (an exhausted plan means that they
  succeed), and \<open>miss_replies\<close> the answers of the userspace miss handler. \<open>crashed\<close> records that
  the code dereferenced a null pointer or indexed outside an array. Pointers into the two
  caches are indices. Locks are not represented: every operation runs as one step.
\<close>

section \<open>Caches\<close>

definition LBD_QCOW2_L2_CACHE_SIZE :: nat where "LBD_QCOW2_L2_CACHE_SIZE = 16"
definition LBD_QCOW2_CL_CACHE_SIZE :: nat where "LBD_QCOW2_CL_CACHE_SIZE = 16"

record lbd_l2_cache_entry =
  l2_l1_index :: u32
  l2_valid :: bool
  l2_dirty :: bool
  l2_lru :: u64
  l2_table :: "u64 list"

record lbd_cl_cache_entry =
  cl_cluster_index :: u64
  cl_valid :: bool
  cl_dirty :: bool
  cl_lru :: u64
  cl_data :: bytes

section \<open>Base layer\<close>

record lbd_qcow2_base =
  b_file :: bytes
  b_is_qcow2 :: bool
  b_size :: u64
  b_cluster_bits :: u32
  b_cluster_size :: u32
  b_l2_entries :: u32
  b_l1_table :: "u64 list"
  b_l1_size :: u32
  b_l1_offset :: u64
  b_l2_cache :: "lbd_l2_cache_entry list"
  b_lru_tick :: u64

section \<open>Primary image\<close>

text \<open>
  \<open>comp_buf\<close> and \<open>read_buf\<close> are scratch space whose contents never outlive a call; they are
  local values of the operations.
\<close>

record lbd_qcow2 =
  cluster_bits :: u32
  cluster_size :: u32
  l2_entries :: u32
  virtual_size :: u64
  l1_table :: "u64 list"
  l1_size :: u32
  l1_offset :: u64
  alloc_offset :: u64
  free_list_head :: u64
  l2_cache :: "lbd_l2_cache_entry list"
  cl_cache :: "lbd_cl_cache_entry list"
  lru_tick :: u64

section \<open>The device\<close>

datatype lbd_state = LBD_STATE_UNBOUND | LBD_STATE_BOUND | LBD_STATE_REMOVING

datatype lbd_miss_action = LBD_MISS_CONTINUE | LBD_MISS_RETRY

text \<open>
  An answer of the miss handler, with the contents of the base file if it changed the file
  before answering.
\<close>

datatype miss_reply = MissReply lbd_miss_action "bytes option"

text \<open>The outcome of a file operation: all of it, at most that many bytes, or an error code.\<close>

datatype io_outcome = IoOk | IoShort nat | IoErr errno

text \<open>
  \<open>log_file\<close> is the name of the open segment file in the log directory, whose files are
  \<open>log_fs\<close>; \<open>log_buf\<close> is the used part of the log buffer. \<open>miss_handler\<close> names the registered
  handler.
\<close>

record lbd_device =
  index :: int
  state :: lbd_state
  open_count :: int
  backing_file :: bytes
  backing_inode :: nat
  log_file :: "bytes option"
  backing_path :: bytes
  log_dir :: bytes
  dev_size :: u64
  log_has_entries :: bool
  log_seq :: u64
  log_segment_label :: bytes
  log_max_size :: u64
  log_max_age_secs :: u32
  log_buf :: bytes
  is_qcow2 :: bool
  qcow2 :: lbd_qcow2
  base :: "lbd_qcow2_base option"
  base_path :: bytes
  miss_handler :: "nat option"
  stat_reads :: u64
  stat_writes :: u64
  stat_trims :: u64
  stat_read_bytes :: u64
  stat_write_bytes :: u64
  stat_trim_bytes :: u64
  stat_alloc_reused :: u64
  stat_alloc_new :: u64
  stat_alloc_freed :: u64
  stat_compressed :: u64
  stat_uncompressed :: u64
  stat_log_rotations :: u64
  log_fs :: "bytes \<rightharpoonup> bytes"
  clock :: "nat list"
  io_plan :: "io_outcome list"
  miss_replies :: "miss_reply list"
  crashed :: bool

text \<open>What opening a path gives: the contents of the file, its identity, and whether it is regular.\<close>

record opened_file =
  f_contents :: bytes
  f_inode :: nat
  f_regular :: bool

text \<open>
  A request: its first sector, its length in bytes and its data segments (the data to write,
  or the buffers a read fills).
\<close>

record request =
  rq_pos :: u64
  rq_bytes :: u32
  rq_segs :: "bytes list"

definition SECTOR_SHIFT :: nat where "SECTOR_SHIFT = 9"

section \<open>Kernel services\<close>

definition pop_io :: "lbd_device \<Rightarrow> io_outcome \<times> lbd_device" where
  "pop_io dev = (case io_plan dev of [] \<Rightarrow> (IoOk, dev) | x # xs \<Rightarrow> (x, dev\<lparr>io_plan := xs\<rparr>))"

text \<open>A position the kernel accepts: the access ends below the largest file offset.\<close>

definition pos_ok :: "u64 \<Rightarrow> nat \<Rightarrow> bool" where
  "pos_ok pos n \<longleftrightarrow> unat pos + n < 2 ^ 63"

definition kernel_read :: "bytes \<Rightarrow> nat \<Rightarrow> u64 \<Rightarrow> lbd_device \<Rightarrow> bytes res \<times> lbd_device" where
  "kernel_read f n pos dev =
     (if pos_ok pos n
      then (case pop_io dev of
              (IoOk, dev) \<Rightarrow> (Inr (read_at f (unat pos) n), dev)
            | (IoShort k, dev) \<Rightarrow> (Inr (take k (read_at f (unat pos) n)), dev)
            | (IoErr e, dev) \<Rightarrow> (Inl e, dev))
      else (Inl EINVAL, dev))"

definition kernel_write :: "bytes \<Rightarrow> u64 \<Rightarrow> lbd_device \<Rightarrow> nat res \<times> lbd_device" where
  "kernel_write bs pos dev =
     (if pos_ok pos (length bs)
      then (case pop_io dev of
              (IoOk, dev) \<Rightarrow>
                (Inr (length bs), dev\<lparr>backing_file := write_at (backing_file dev) (unat pos) bs\<rparr>)
            | (IoShort k, dev) \<Rightarrow>
                (Inr (length (take k bs)),
                 dev\<lparr>backing_file := write_at (backing_file dev) (unat pos) (take k bs)\<rparr>)
            | (IoErr e, dev) \<Rightarrow> (Inl e, dev))
      else (Inl EINVAL, dev))"

definition kvmalloc :: "lbd_device \<Rightarrow> bool \<times> lbd_device" where
  "kvmalloc dev = (case pop_io dev of (IoOk, dev) \<Rightarrow> (True, dev) | (_, dev) \<Rightarrow> (False, dev))"

text \<open>
  The two idioms around these calls: a count other than the requested one is the error it
  carries, or \<open>EIO\<close>.
\<close>

definition read_full :: "bytes \<Rightarrow> nat \<Rightarrow> u64 \<Rightarrow> lbd_device \<Rightarrow> bytes res \<times> lbd_device" where
  "read_full f n pos dev =
     (case kernel_read f n pos dev of
        (Inl e, dev) \<Rightarrow> (Inl e, dev)
      | (Inr bs, dev) \<Rightarrow> (if length bs \<noteq> n then Inl EIO else Inr bs, dev))"

definition write_full :: "bytes \<Rightarrow> u64 \<Rightarrow> lbd_device \<Rightarrow> unit res \<times> lbd_device" where
  "write_full bs pos dev =
     (case kernel_write bs pos dev of
        (Inl e, dev) \<Rightarrow> (Inl e, dev)
      | (Inr n, dev) \<Rightarrow> (if n \<noteq> length bs then Inl EIO else Inr (), dev))"

definition set_crashed :: "lbd_device \<Rightarrow> lbd_device" where
  "set_crashed dev = dev\<lparr>crashed := True\<rparr>"

section \<open>Behaviour of the services\<close>

lemma pop_io_Nil [simp]: "io_plan dev = [] \<Longrightarrow> pop_io dev = (IoOk, dev)"
  by (simp add: pop_io_def)

lemma kvmalloc_Nil [simp]: "io_plan dev = [] \<Longrightarrow> kvmalloc dev = (True, dev)"
  by (simp add: kvmalloc_def)

lemma read_full_Nil:
  "io_plan dev = [] \<Longrightarrow> unat pos + n < 2 ^ 63 \<Longrightarrow> unat pos + n \<le> length f \<Longrightarrow>
   read_full f n pos dev = (Inr (read_at f (unat pos) n), dev)"
  by (simp add: read_full_def kernel_read_def pos_ok_def length_read_at)

lemma write_full_Nil:
  "io_plan dev = [] \<Longrightarrow> unat pos + length bs < 2 ^ 63 \<Longrightarrow>
   write_full bs pos dev = (Inr (), dev\<lparr>backing_file := write_at (backing_file dev) (unat pos) bs\<rparr>)"
  by (simp add: write_full_def kernel_write_def pos_ok_def)

text \<open>Under any plan a read changes nothing but the plan.\<close>

definition same_but_io :: "lbd_device \<Rightarrow> lbd_device \<Rightarrow> bool" where
  "same_but_io dev dev' \<longleftrightarrow> (\<exists>p. dev' = dev\<lparr>io_plan := p\<rparr> \<and> (io_plan dev = [] \<longrightarrow> p = []))"

lemma same_but_io_refl [simp]: "same_but_io dev dev"
  unfolding same_but_io_def by (rule exI [of _ "io_plan dev"]) simp

lemma same_but_io_trans: "same_but_io a b \<Longrightarrow> same_but_io b c \<Longrightarrow> same_but_io a c"
  by (auto simp: same_but_io_def)

lemma pop_io_same: "pop_io dev = (r, dev') \<Longrightarrow> same_but_io dev dev'"
  by (auto simp: pop_io_def same_but_io_def split: list.splits intro: exI [of _ "io_plan dev"])

lemma kernel_read_same: "kernel_read f n pos dev = (r, dev') \<Longrightarrow> same_but_io dev dev'"
  by (auto simp: kernel_read_def split: if_splits prod.splits io_outcome.splits dest: pop_io_same)

lemma kvmalloc_same: "kvmalloc dev = (r, dev') \<Longrightarrow> same_but_io dev dev'"
  by (auto simp: kvmalloc_def split: prod.splits io_outcome.splits dest: pop_io_same)

lemma read_full_same: "read_full f n pos dev = (r, dev') \<Longrightarrow> same_but_io dev dev'"
  by (auto simp: read_full_def split: prod.splits sum.splits dest: kernel_read_same)

lemma take_full: "length (take k xs) = n \<Longrightarrow> length xs \<le> n \<Longrightarrow> take k xs = xs"
  by (auto simp: min_def split: if_splits)

lemma kernel_read_Inr:
  "kernel_read f n pos dev = (Inr bs, dev') \<Longrightarrow> \<exists>k. bs = take k (read_at f (unat pos) n)"
  by (auto simp: kernel_read_def split: prod.splits if_splits io_outcome.splits
      intro: exI [of _ "length (read_at f (unat pos) n)"])

lemma read_full_Inr:
  assumes "read_full f n pos dev = (Inr bs, dev')"
  shows "bs = read_at f (unat pos) n \<and> length bs = n"
proof -
  have *: "kernel_read f n pos dev = (Inr bs, dev')" "length bs = n"
    using assms by (auto simp: read_full_def split: prod.splits sum.splits if_splits)
  then obtain k where "bs = take k (read_at f (unat pos) n)"
    using kernel_read_Inr by blast
  then show ?thesis
    using take_full [of k "read_at f (unat pos) n" n] *(2) by (simp add: length_read_at)
qed

lemma read_full_cases:
  assumes "unat pos + n < 2 ^ 63" "unat pos + n \<le> length f"
  shows "fst (read_full f n pos dev) = Inr (read_at f (unat pos) n) \<or>
    (io_plan dev \<noteq> [] \<and> (\<exists>e. fst (read_full f n pos dev) = Inl e))"
proof (cases "read_full f n pos dev")
  case (Pair r dev')
  show ?thesis
  proof (cases r)
    case (Inl e)
    have "io_plan dev \<noteq> []"
      using Pair Inl read_full_Nil [of dev pos n f] assms by auto
    then show ?thesis
      using Pair Inl by simp
  next
    case (Inr bs)
    then show ?thesis
      using Pair read_full_Inr [of f n pos dev bs dev'] by simp
  qed
qed

end
