(* ===== verification/Lbdctl_Base.thy ===== *)
theory Lbdctl_Base
  imports Lbd_Device
begin

text \<open>
  What the commands of the control tool (\<^verbatim>\<open>src/src/lbdctl.c\<close>) share: the checksums, number
  arguments, and the file operations they call.

  The tool's world is a record: the files by path, and the outcomes of the coming system calls
  and allocations (an exhausted plan means that they succeed). Messages are not represented; the
  result of a command is its exit status.
\<close>

section \<open>Checksums\<close>

text \<open>One table entry: eight steps of the shift register for the byte \<open>i\<close>.\<close>

fun crc_steps :: "u32 \<Rightarrow> nat \<Rightarrow> u32 \<Rightarrow> u32" where
  "crc_steps poly 0 c = c"
| "crc_steps poly (Suc j) c = crc_steps poly j (drop_bit 1 c XOR (poly AND (- (c AND 1))))"

definition crc32_init :: "u32 list" where
  "crc32_init = map (\<lambda>i. crc_steps 0xEDB88320 8 (of_nat i)) [0..<256]"

definition crc32c_init :: "u32 list" where
  "crc32c_init = map (\<lambda>i. crc_steps 0x82F63B78 8 (of_nat i)) [0..<256]"

fun crc_loop :: "u32 list \<Rightarrow> u32 \<Rightarrow> bytes \<Rightarrow> u32" where
  "crc_loop table crc [] = crc"
| "crc_loop table crc (b # bs) =
     crc_loop table (table ! unat ((crc XOR ucast b) AND 0xFF) XOR drop_bit 8 crc) bs"

definition crc32_calc :: "bytes \<Rightarrow> u32" where
  "crc32_calc buf = crc_loop crc32_init 0xFFFFFFFF buf XOR 0xFFFFFFFF"

definition crc32c_calc :: "bytes \<Rightarrow> u32" where
  "crc32c_calc buf = crc_loop crc32c_init 0xFFFFFFFF buf XOR 0xFFFFFFFF"

section \<open>Arguments\<close>

definition isspace :: "char \<Rightarrow> bool" where
  "isspace c \<longleftrightarrow> of_char c = (32 :: nat) \<or> 9 \<le> (of_char c :: nat) \<and> of_char c \<le> (13 :: nat)"

definition digit_val :: "char \<Rightarrow> nat" where
  "digit_val c =
     (let n = of_char c in
      if 48 \<le> n \<and> n \<le> 57 then n - 48
      else if 97 \<le> n \<and> n \<le> 122 then n - 87
      else if 65 \<le> n \<and> n \<le> 90 then n - 55
      else 36)"

text \<open>The digits of a number in a base, and what follows them.\<close>

fun digits :: "nat \<Rightarrow> nat \<Rightarrow> string \<Rightarrow> nat \<times> string" where
  "digits radix acc [] = (acc, [])"
| "digits radix acc (c # cs) =
     (if digit_val c < radix then digits radix (acc * radix + digit_val c) cs else (acc, c # cs))"

text \<open>The sign and the base prefix; \<open>None\<close> if no digit follows.\<close>

definition number :: "bool \<Rightarrow> string \<Rightarrow> (bool \<times> nat \<times> string) option" where
  "number auto s =
     (let s = dropWhile isspace s;
          neg = (case s of c # _ \<Rightarrow> c = CHR ''-'' | [] \<Rightarrow> False);
          s = (case s of c # cs \<Rightarrow> (if c = CHR ''-'' \<or> c = CHR ''+'' then cs else s) | [] \<Rightarrow> [])
      in case s of
           [] \<Rightarrow> None
         | c # cs \<Rightarrow>
             if auto \<and> c = CHR ''0'' \<and> 2 \<le> length cs \<and> (hd cs = CHR ''x'' \<or> hd cs = CHR ''X'') \<and> digit_val (cs ! 1) < 16
             then (let (n, rest) = digits 16 0 (tl cs) in Some (neg, n, rest))
             else
               (let b = (if auto \<and> c = CHR ''0'' then 8 else 10) in
                if digit_val c < b then (let (n, rest) = digits b 0 s in Some (neg, n, rest)) else None))"

definition strtoull :: "string \<Rightarrow> u64 \<times> string" where
  "strtoull s =
     (case number True s of
        None \<Rightarrow> (0, s)
      | Some (neg, n, rest) \<Rightarrow>
          (if n \<ge> 2 ^ 64 then - 1 else if neg then - of_nat n else of_nat n, rest))"

text \<open>\<^verbatim>\<open>atoi\<close>, as the value assigned to an unsigned 32-bit variable.\<close>

definition atoi :: "string \<Rightarrow> u32" where
  "atoi s =
     (case number False s of
        None \<Rightarrow> 0
      | Some (neg, n, rest) \<Rightarrow>
          if neg then - of_nat (min n (2 ^ 63)) else of_nat (min n (2 ^ 63 - 1)))"

definition parse_size :: "string \<Rightarrow> u64" where
  "parse_size s =
     (let (val, end) = strtoull s in
      case end of
        [] \<Rightarrow> val
      | c # _ \<Rightarrow>
          if c = CHR ''k'' \<or> c = CHR ''K'' then val * 1024
          else if c = CHR ''m'' \<or> c = CHR ''M'' then val * (1024 * 1024)
          else if c = CHR ''g'' \<or> c = CHR ''G'' then val * (1024 * 1024 * 1024)
          else if c = CHR ''t'' \<or> c = CHR ''T'' then val * (1024 * 1024 * 1024 * 1024)
          else val)"

section \<open>Files\<close>

record cli =
  files :: "string \<rightharpoonup> bytes"
  plan :: "io_outcome list"

definition sys :: "cli \<Rightarrow> io_outcome \<times> cli" where
  "sys w = (case plan w of [] \<Rightarrow> (IoOk, w) | x # xs \<Rightarrow> (x, w\<lparr>plan := xs\<rparr>))"

text \<open>A call that succeeds or fails: \<open>malloc\<close>, \<open>fstat\<close>, \<open>lseek\<close>.\<close>

definition sys_ok :: "cli \<Rightarrow> bool \<times> cli" where
  "sys_ok w = (case sys w of (IoOk, w) \<Rightarrow> (True, w) | (_, w) \<Rightarrow> (False, w))"

definition open_rdonly :: "string \<Rightarrow> cli \<Rightarrow> bool \<times> cli" where
  "open_rdonly path w = (case sys_ok w of (ok, w) \<Rightarrow> (ok \<and> files w path \<noteq> None, w))"

definition open_trunc :: "string \<Rightarrow> cli \<Rightarrow> bool \<times> cli" where
  "open_trunc path w =
     (case sys_ok w of (ok, w) \<Rightarrow> (ok, if ok then w\<lparr>files := (files w)(path \<mapsto> [])\<rparr> else w))"

definition contents :: "cli \<Rightarrow> string \<Rightarrow> bytes" where
  "contents w path = (case files w path of None \<Rightarrow> [] | Some f \<Rightarrow> f)"

definition pread :: "string \<Rightarrow> nat \<Rightarrow> u64 \<Rightarrow> cli \<Rightarrow> bytes res \<times> cli" where
  "pread path n pos w =
     (if pos_ok pos n
      then (case sys w of
              (IoOk, w) \<Rightarrow> (Inr (read_at (contents w path) (unat pos) n), w)
            | (IoShort k, w) \<Rightarrow> (Inr (take k (read_at (contents w path) (unat pos) n)), w)
            | (IoErr e, w) \<Rightarrow> (Inl e, w))
      else (Inl EINVAL, w))"

text \<open>A write that counts as done only if all bytes were written.\<close>

definition pwrite :: "string \<Rightarrow> bytes \<Rightarrow> u64 \<Rightarrow> cli \<Rightarrow> bool \<times> cli" where
  "pwrite path bs pos w =
     (if pos_ok pos (length bs)
      then (case sys w of
              (IoOk, w) \<Rightarrow> (True, w\<lparr>files := (files w)(path \<mapsto> write_at (contents w path) (unat pos) bs)\<rparr>)
            | (IoShort k, w) \<Rightarrow>
                (length (take k bs) = length bs,
                 w\<lparr>files := (files w)(path \<mapsto> write_at (contents w path) (unat pos) (take k bs))\<rparr>)
            | (IoErr e, w) \<Rightarrow> (False, w))
      else (False, w))"

definition ftruncate :: "string \<Rightarrow> u64 \<Rightarrow> cli \<Rightarrow> bool \<times> cli" where
  "ftruncate path len w =
     (if unat len < 2 ^ 63
      then (case sys_ok w of
              (ok, w) \<Rightarrow>
                (ok,
                 if ok
                 then w\<lparr>files := (files w)(path \<mapsto> take (unat len) (contents w path) @
                          replicate (unat len - length (contents w path)) 0)\<rparr>
                 else w))
      else (False, w))"

definition is_all_zero :: "bytes \<Rightarrow> bool" where
  "is_all_zero buf \<longleftrightarrow> list_all (\<lambda>b. b = 0) buf"

lemma sys_Nil [simp]: "plan w = [] \<Longrightarrow> sys w = (IoOk, w)" "plan w = [] \<Longrightarrow> sys_ok w = (True, w)"
  by (simp_all add: sys_def sys_ok_def)

lemma is_all_zero_iff: "is_all_zero buf \<longleftrightarrow> buf = replicate (length buf) 0"
proof
  assume "is_all_zero buf"
  then have "\<forall>b \<in> set buf. b = 0"
    by (simp add: is_all_zero_def list_all_iff)
  then show "buf = replicate (length buf) 0"
    using replicate_length_same by metis
next
  assume a: "buf = replicate (length buf) 0"
  have "list_all (\<lambda>b. b = 0) (replicate (length buf) (0 :: u8))"
    by (simp add: list_all_iff)
  then show "is_all_zero buf"
    unfolding is_all_zero_def a [symmetric] .
qed

section \<open>The table-driven checksum is the bitwise one\<close>

text \<open>The shift register, one bit of the message at a time.\<close>

definition crc_byte :: "u32 \<Rightarrow> u32 \<Rightarrow> u8 \<Rightarrow> u32" where
  "crc_byte poly crc b = crc_steps poly 8 (crc XOR ucast b)"

definition crc_ref :: "u32 \<Rightarrow> u32 \<Rightarrow> bytes \<Rightarrow> u32" where
  "crc_ref poly = foldl (crc_byte poly)"

lemma crc_step_xor:
  fixes a b poly :: u32
  shows "drop_bit 1 (a XOR b) XOR (poly AND (- ((a XOR b) AND 1))) =
    (drop_bit 1 a XOR (poly AND (- (a AND 1)))) XOR (drop_bit 1 b XOR (poly AND (- (b AND 1))))"
proof -
  have m: "- (x AND 1) = (if bit x 0 then - 1 else (0 :: u32))" for x
    by (cases "bit x 0") (simp_all add: and_one_eq bit_0 odd_iff_mod_2_eq_one even_iff_mod_2_eq_zero)
  show ?thesis
    unfolding m by (cases "bit a 0"; cases "bit b 0") (simp_all add: bit_xor_iff drop_bit_xor xor.assoc xor.commute xor.left_commute)
qed

lemma crc_steps_xor: "crc_steps poly n (a XOR b) = crc_steps poly n a XOR crc_steps poly n b"
  by (induction n arbitrary: a b) (simp_all only: crc_steps.simps crc_step_xor)

lemma crc_steps_high:
  fixes c :: u32
  assumes "take_bit n c = 0"
  shows "crc_steps poly n c = drop_bit n c"
  using assms
proof (induction n arbitrary: c)
  case (Suc n)
  have b: "\<not> bit c k" if "k < Suc n" for k
    using Suc.prems that by (metis bit_0_eq bit_take_bit_iff bot_apply bot_bool_def)
  then have "\<not> bit c 0"
    by simp
  then have z: "c AND 1 = 0"
    by (simp add: and_one_eq bit_0 even_iff_mod_2_eq_zero)
  have "take_bit n (drop_bit 1 c) = 0"
    using b by (intro bit_word_eqI) (auto simp: bit_take_bit_iff bit_drop_bit_eq)
  then have "crc_steps poly n (drop_bit 1 c) = drop_bit n (drop_bit 1 c)"
    by (rule Suc.IH)
  then show ?case
    by (simp add: z)
qed simp

lemma crc_byte_table:
  "crc_byte poly crc b = crc_steps poly 8 ((crc XOR ucast b) AND 0xFF) XOR drop_bit 8 crc"
proof -
  let ?x = "crc XOR ucast b :: u32"
  let ?hi = "?x AND NOT (mask 8)"
  have ff: "0xFF = (mask 8 :: u32)"
    by (simp add: mask_eq_exp_minus_1)
  have split: "?x = (?x AND mask 8) XOR ?hi"
    by (intro bit_word_eqI) (auto simp: bit_simps)
  have "take_bit 8 ?hi = 0"
    by (intro bit_word_eqI) (auto simp: bit_simps)
  moreover have "drop_bit 8 ?hi = drop_bit 8 crc"
    by (intro bit_word_eqI) (auto simp: bit_simps dest: bit_imp_le_length)
  ultimately have "crc_steps poly 8 ?hi = drop_bit 8 crc"
    using crc_steps_high [of 8 ?hi poly] by simp
  then show ?thesis
    unfolding crc_byte_def ff by (subst split, subst crc_steps_xor) simp
qed

lemma crc_loop_ref:
  assumes "table = map (\<lambda>i. crc_steps poly 8 (of_nat i)) [0..<256]"
  shows "crc_loop table crc bs = crc_ref poly crc bs"
proof (induction bs arbitrary: crc)
  case (Cons b bs)
  let ?i = "(crc XOR ucast b) AND 0xFF :: u32"
  have "?i \<le> 0xFF"
    by (rule word_and_le1)
  then have "unat ?i < 256"
    by (simp add: word_le_nat_alt)
  then have "table ! unat ?i = crc_steps poly 8 ?i"
    by (simp add: assms)
  then show ?case
    using Cons.IH by (simp add: crc_ref_def crc_byte_table)
qed (simp add: crc_ref_def)


end
