(* ===== verification/Qcow2_Alloc.thy ===== *)
theory Qcow2_Alloc
  imports Lbd_Device
begin

text \<open>
  Space management of the primary image (\<^verbatim>\<open>src/src/lbd_qcow2.c\<close>, \<open>lbd_qcow2_lru_tick\<close> to
  \<open>lbd_qcow2_alloc_space\<close>): the two header fields kept up to date on disk, the size of a
  stored extent, and the free list, a chain of tombstones in the image itself.
\<close>

definition lbd_qcow2_lru_tick :: "lbd_device \<Rightarrow> u64 \<times> lbd_device" where
  "lbd_qcow2_lru_tick dev =
     (lru_tick (qcow2 dev), dev\<lparr>qcow2 := (qcow2 dev)\<lparr>lru_tick := lru_tick (qcow2 dev) + 1\<rparr>\<rparr>)"

definition lbd_qcow2_write_alloc_offset :: "lbd_device \<Rightarrow> unit res \<times> lbd_device" where
  "lbd_qcow2_write_alloc_offset dev =
     (let buf = kernel_put64 (replicate 8 0) 0 (alloc_offset (qcow2 dev))
      in write_full buf (of_nat LBD_QCOW2_OFF_ALLOC_OFFSET) dev)"

definition lbd_qcow2_write_free_list_head :: "lbd_device \<Rightarrow> unit res \<times> lbd_device" where
  "lbd_qcow2_write_free_list_head dev =
     (let buf = kernel_put64 (replicate 8 0) 0 (free_list_head (qcow2 dev))
      in write_full buf (of_nat LBD_QCOW2_OFF_FREE_LIST) dev)"

text \<open>The kernel's \<^verbatim>\<open>ALIGN(x, 4096)\<close> on 64-bit values.\<close>

definition ALIGN_4096 :: "u64 \<Rightarrow> u64" where
  "ALIGN_4096 x = (x + 4095) AND NOT 4095"

definition lbd_qcow2_read_old_alloc_size :: "u64 \<Rightarrow> lbd_device \<Rightarrow> u64 \<times> lbd_device" where
  "lbd_qcow2_read_old_alloc_size l2_entry dev =
     (if l2_entry = 0 then (0, dev)
      else if l2_entry AND LBD_QCOW2_L2_COMPRESSED \<noteq> 0 then
        (let phys = l2_entry AND LBD_QCOW2_L2_OFFSET_MASK in
         case read_full (backing_file dev) 4 phys dev of
           (Inl _, dev) \<Rightarrow> (0, dev)
         | (Inr comp_size_be, dev) \<Rightarrow>
             (let comp_size = of_be32 comp_size_be in (ALIGN_4096 (4 + ucast comp_size), dev)))
      else (ucast (cluster_size (qcow2 dev)), dev))"

definition lbd_qcow2_free_extent :: "u64 \<Rightarrow> u64 \<Rightarrow> lbd_device \<Rightarrow> unit res \<times> lbd_device" where
  "lbd_qcow2_free_extent phys_offset extent_size dev =
     (let buf = replicate 16 0;
          buf = kernel_put32 buf 0 LBD_QCOW2_FREE_TOMBSTONE;
          buf = kernel_put32 buf 4 (ucast extent_size);
          buf = kernel_put64 buf 8 (free_list_head (qcow2 dev))
      in case write_full buf phys_offset dev of
           (Inl e, dev) \<Rightarrow> (Inl e, dev)
         | (Inr _, dev) \<Rightarrow>
             lbd_qcow2_write_free_list_head
               (dev\<lparr>qcow2 := (qcow2 dev)\<lparr>free_list_head := phys_offset\<rparr>,
                    stat_alloc_freed := stat_alloc_freed dev + 1\<rparr>))"

definition LBD_QCOW2_FREE_SCAN_LIMIT :: nat where "LBD_QCOW2_FREE_SCAN_LIMIT = 8"
definition LBD_QCOW2_FREE_ENTRY_MIN :: u64 where "LBD_QCOW2_FREE_ENTRY_MIN = 16"

text \<open>
  A tombstone large enough was found at \<open>cur\<close>: unlink it, give back the part that is not
  needed, and return its position. \<open>None\<close> is \<^verbatim>\<open>goto append\<close>.
\<close>

definition alloc_take ::
  "u64 \<Rightarrow> u64 \<Rightarrow> u64 \<Rightarrow> u64 \<Rightarrow> u64 \<Rightarrow> bool \<Rightarrow> lbd_device \<Rightarrow> u64 option \<times> lbd_device" where
  "alloc_take needed prev_phys cur next_free remainder is_first dev =
     (let (ok, dev) =
        (if is_first then (True, dev\<lparr>qcow2 := (qcow2 dev)\<lparr>free_list_head := next_free\<rparr>\<rparr>)
         else
           (let nbuf = kernel_put64 (replicate 8 0) 0 next_free in
            case write_full nbuf (prev_phys + 8) dev of
              (Inl _, dev) \<Rightarrow> (False, dev)
            | (Inr _, dev) \<Rightarrow> (True, dev)))
      in if \<not> ok then (None, dev)
         else
           let dev =
             (if remainder \<ge> LBD_QCOW2_FREE_ENTRY_MIN then
                (case lbd_qcow2_free_extent (cur + needed) remainder dev of
                   (Inl _, dev) \<Rightarrow> snd (lbd_qcow2_write_free_list_head dev)
                 | (Inr _, dev) \<Rightarrow> dev)
              else snd (lbd_qcow2_write_free_list_head dev))
           in (Some cur, dev\<lparr>stat_alloc_reused := stat_alloc_reused dev + 1\<rparr>))"

function alloc_scan ::
  "u64 \<Rightarrow> u64 \<Rightarrow> u64 \<Rightarrow> nat \<Rightarrow> bool \<Rightarrow> lbd_device \<Rightarrow> u64 option \<times> lbd_device" where
  "alloc_scan needed prev_phys cur scanned is_first dev =
     (if cur \<noteq> 0 \<and> scanned < LBD_QCOW2_FREE_SCAN_LIMIT then
        (case read_full (backing_file dev) 16 cur dev of
           (Inl _, dev) \<Rightarrow> (None, dev)
         | (Inr buf, dev) \<Rightarrow>
             let tombstone = kernel_get32 buf 0 in
             if tombstone \<noteq> LBD_QCOW2_FREE_TOMBSTONE then (None, dev)
             else
               let extent_size = kernel_get32 buf 4;
                   next_free = kernel_get64 buf 8
               in if ucast extent_size \<ge> needed
                  then alloc_take needed prev_phys cur next_free (ucast extent_size - needed) is_first dev
                  else alloc_scan needed cur next_free (scanned + 1) False dev)
      else (None, dev))"
  by pat_completeness auto
termination
  by (relation "measure (\<lambda>(needed, prev, cur, scanned, is_first, dev). LBD_QCOW2_FREE_SCAN_LIMIT - scanned)") auto

declare alloc_scan.simps [simp del]

text \<open>The C function always returns 0; the result is \<^verbatim>\<open>*out_phys\<close>.\<close>

definition lbd_qcow2_alloc_space :: "u64 \<Rightarrow> lbd_device \<Rightarrow> u64 \<times> lbd_device" where
  "lbd_qcow2_alloc_space needed dev =
     (case alloc_scan needed 0 (free_list_head (qcow2 dev)) 0 True dev of
        (Some phys, dev) \<Rightarrow> (phys, dev)
      | (None, dev) \<Rightarrow>
          (alloc_offset (qcow2 dev),
           dev\<lparr>qcow2 := (qcow2 dev)\<lparr>alloc_offset := alloc_offset (qcow2 dev) + needed\<rparr>,
               stat_alloc_new := stat_alloc_new dev + 1\<rparr>))"

end
