(* ===== verification/Lz4_Decode.thy ===== *)
theory Lz4_Decode
  imports Lbd_Prelude "HOL-Library.Monad_Syntax"
begin

text \<open>
  The decompressor of \<^verbatim>\<open>src/src/lz4/lz4.c\<close> as lbd calls it: \<open>LZ4_decompress_safe\<close>, that is
  \<open>LZ4_decompress_generic\<close> with a full block, no dictionary, a 64-bit little-endian machine
  and \<open>LZ4_FAST_DEC_LOOP = 1\<close>.

  Pointers into the source and into the destination are positions in two byte lists. Every
  access to memory is checked: a read or a write outside its buffer, or a \<open>memcpy\<close> between
  overlapping regions, is the value \<open>None\<close>. That the decoder is memory safe is then that it
  never returns \<open>None\<close>, whatever the input. The wild copies, which write past the end of what
  is wanted, and the table-driven copies of short offsets are modelled as they are written,
  and shown equal to the byte-by-byte copy of the format.
\<close>

named_theorems lz4_simps \<open>closed forms of the memory operations inside their bounds\<close>

section \<open>Memory\<close>

definition memcpy_from :: "bytes \<Rightarrow> bytes \<Rightarrow> nat \<Rightarrow> nat \<Rightarrow> nat \<Rightarrow> bytes option" where
  "memcpy_from src dst d s n =
     (if s + n \<le> length src \<and> d + n \<le> length dst then Some (blit dst d (read_at src s n)) else None)"

definition memcpy_in :: "bytes \<Rightarrow> nat \<Rightarrow> nat \<Rightarrow> nat \<Rightarrow> bytes option" where
  "memcpy_in dst d s n =
     (if s + n \<le> length dst \<and> d + n \<le> length dst \<and> (s + n \<le> d \<or> d + n \<le> s)
      then Some (blit dst d (read_at dst s n)) else None)"

definition mem_store :: "bytes \<Rightarrow> nat \<Rightarrow> bytes \<Rightarrow> bytes option" where
  "mem_store dst d bs = (if d + length bs \<le> length dst then Some (blit dst d bs) else None)"

definition mem_load :: "bytes \<Rightarrow> nat \<Rightarrow> nat \<Rightarrow> bytes option" where
  "mem_load buf s n = (if s + n \<le> length buf then Some (read_at buf s n) else None)"

text \<open>\<^verbatim>\<open>dst[d] = dst[s]\<close>\<close>

definition mem_byte :: "bytes \<Rightarrow> nat \<Rightarrow> nat \<Rightarrow> bytes option" where
  "mem_byte dst d s = (if s < length dst \<and> d < length dst then Some (dst[d := dst ! s]) else None)"

definition LZ4_readLE16 :: "bytes \<Rightarrow> nat \<Rightarrow> nat option" where
  "LZ4_readLE16 src ip =
     (if ip + 2 \<le> length src
      then Some (unat (ucast (src ! ip) OR push_bit 8 (ucast (src ! (ip + 1))) :: u16)) else None)"

section \<open>Constants\<close>

definition MINMATCH :: nat where "MINMATCH = 4"
definition WILDCOPYLENGTH :: nat where "WILDCOPYLENGTH = 8"
definition LASTLITERALS :: nat where "LASTLITERALS = 5"
definition MFLIMIT :: nat where "MFLIMIT = 12"
definition MATCH_SAFEGUARD_DISTANCE :: nat where
  "MATCH_SAFEGUARD_DISTANCE = 2 * WILDCOPYLENGTH - MINMATCH"
definition FASTLOOP_SAFE_DISTANCE :: nat where "FASTLOOP_SAFE_DISTANCE = 64"
definition ML_BITS :: nat where "ML_BITS = 4"
definition ML_MASK :: nat where "ML_MASK = 15"
definition RUN_MASK :: nat where "RUN_MASK = 15"

lemmas lz4_const_defs = MINMATCH_def WILDCOPYLENGTH_def LASTLITERALS_def MFLIMIT_def
  MATCH_SAFEGUARD_DISTANCE_def FASTLOOP_SAFE_DISTANCE_def ML_BITS_def ML_MASK_def RUN_MASK_def

definition inc32table :: "nat list" where "inc32table = [0, 1, 2, 1, 0, 4, 4, 4]"
definition dec64table :: "int list" where "dec64table = [0, 0, 0, -1, -4, 1, 2, 3]"

section \<open>Wild copies\<close>

text \<open>\<open>LZ4_wildCopy8\<close> and \<open>LZ4_wildCopy32\<close>, once from the source and once inside the destination.\<close>

function LZ4_wildCopy8_from :: "bytes \<Rightarrow> bytes \<Rightarrow> nat \<Rightarrow> nat \<Rightarrow> nat \<Rightarrow> bytes option" where
  "LZ4_wildCopy8_from src dst d s e = do {
     dst \<leftarrow> memcpy_from src dst d s 8;
     if d + 8 < e then LZ4_wildCopy8_from src dst (d + 8) (s + 8) e else Some dst }"
  by pat_completeness auto
termination
  by (relation "measure (\<lambda>(src, dst, d, s, e). e - d)") auto

function LZ4_wildCopy8 :: "bytes \<Rightarrow> nat \<Rightarrow> nat \<Rightarrow> nat \<Rightarrow> bytes option" where
  "LZ4_wildCopy8 dst d s e = do {
     dst \<leftarrow> memcpy_in dst d s 8;
     if d + 8 < e then LZ4_wildCopy8 dst (d + 8) (s + 8) e else Some dst }"
  by pat_completeness auto
termination
  by (relation "measure (\<lambda>(dst, d, s, e). e - d)") auto

function LZ4_wildCopy32_from :: "bytes \<Rightarrow> bytes \<Rightarrow> nat \<Rightarrow> nat \<Rightarrow> nat \<Rightarrow> bytes option" where
  "LZ4_wildCopy32_from src dst d s e = do {
     dst \<leftarrow> memcpy_from src dst d s 16;
     dst \<leftarrow> memcpy_from src dst (d + 16) (s + 16) 16;
     if d + 32 < e then LZ4_wildCopy32_from src dst (d + 32) (s + 32) e else Some dst }"
  by pat_completeness auto
termination
  by (relation "measure (\<lambda>(src, dst, d, s, e). e - d)") auto

function LZ4_wildCopy32 :: "bytes \<Rightarrow> nat \<Rightarrow> nat \<Rightarrow> nat \<Rightarrow> bytes option" where
  "LZ4_wildCopy32 dst d s e = do {
     dst \<leftarrow> memcpy_in dst d s 16;
     dst \<leftarrow> memcpy_in dst (d + 16) (s + 16) 16;
     if d + 32 < e then LZ4_wildCopy32 dst (d + 32) (s + 32) e else Some dst }"
  by pat_completeness auto
termination
  by (relation "measure (\<lambda>(dst, d, s, e). e - d)") auto

declare LZ4_wildCopy8_from.simps [simp del] LZ4_wildCopy8.simps [simp del]
  LZ4_wildCopy32_from.simps [simp del] LZ4_wildCopy32.simps [simp del]

text \<open>
  The first eight bytes of a match whose offset is below eight: four single bytes, four more
  from a source shifted by \<open>inc32table\<close>, and a source moved back by \<open>dec64table\<close> so that the
  distance to the destination is at least eight afterwards. Returns the buffer and the source.
\<close>

definition lz4_short_offset :: "bytes \<Rightarrow> nat \<Rightarrow> nat \<Rightarrow> nat \<Rightarrow> (bytes \<times> nat) option" where
  "lz4_short_offset dst d s offset = do {
     dst \<leftarrow> mem_store dst d [0, 0, 0, 0];
     dst \<leftarrow> mem_byte dst d s;
     dst \<leftarrow> mem_byte dst (d + 1) (s + 1);
     dst \<leftarrow> mem_byte dst (d + 2) (s + 2);
     dst \<leftarrow> mem_byte dst (d + 3) (s + 3);
     let s = s + inc32table ! offset;
     dst \<leftarrow> memcpy_in dst (d + 4) s 4;
     Some (dst, nat (int s - dec64table ! offset)) }"

definition LZ4_memcpy_using_offset_base :: "bytes \<Rightarrow> nat \<Rightarrow> nat \<Rightarrow> nat \<Rightarrow> nat \<Rightarrow> bytes option" where
  "LZ4_memcpy_using_offset_base dst d s e offset =
     (if offset < 8 then do {
        (dst, s) \<leftarrow> lz4_short_offset dst d s offset;
        LZ4_wildCopy8 dst (d + 8) s e }
      else do {
        dst \<leftarrow> memcpy_in dst d s 8;
        LZ4_wildCopy8 dst (d + 8) (s + 8) e })"

function lz4_store_pattern :: "bytes \<Rightarrow> nat \<Rightarrow> bytes \<Rightarrow> nat \<Rightarrow> bytes option" where
  "lz4_store_pattern dst d v e = do {
     dst \<leftarrow> mem_store dst d v;
     if d + 8 < e then lz4_store_pattern dst (d + 8) v e else Some dst }"
  by pat_completeness auto
termination
  by (relation "measure (\<lambda>(dst, d, v, e). e - d)") auto

declare lz4_store_pattern.simps [simp del]

definition LZ4_memcpy_using_offset :: "bytes \<Rightarrow> nat \<Rightarrow> nat \<Rightarrow> nat \<Rightarrow> nat \<Rightarrow> bytes option" where
  "LZ4_memcpy_using_offset dst d s e offset =
     (if offset = 1 then do {
        v \<leftarrow> mem_load dst s 1;
        lz4_store_pattern dst d (v @ v @ v @ v @ v @ v @ v @ v) e }
      else if offset = 2 then do {
        v \<leftarrow> mem_load dst s 2;
        lz4_store_pattern dst d (v @ v @ v @ v) e }
      else if offset = 4 then do {
        v \<leftarrow> mem_load dst s 4;
        lz4_store_pattern dst d (v @ v) e }
      else LZ4_memcpy_using_offset_base dst d s e offset)"

section \<open>Variable-length integers\<close>

text \<open>
  The limit is given as the number of bytes \<open>k\<close> it lies before the end of the input
  (\<open>ilimit = iend - k\<close>). An error keeps the input position, which the error code reports.
  The sums are of at most 255 per input byte and do not wrap at 64 bits.
\<close>

datatype rvl = RvlErr nat | RvlOk nat nat

function rvl_loop :: "bytes \<Rightarrow> nat \<Rightarrow> nat \<Rightarrow> nat \<Rightarrow> rvl option" where
  "rvl_loop src ip k len =
     (if ip \<ge> length src then None
      else
        let s = unat (src ! ip); len = len + s
        in if ip + 1 + k > length src then Some (RvlErr (ip + 1))
           else if s \<noteq> 255 then Some (RvlOk (ip + 1) len)
           else rvl_loop src (ip + 1) k len)"
  by pat_completeness auto
termination
  by (relation "measure (\<lambda>(src, ip, k, len). length src - ip)") auto

declare rvl_loop.simps [simp del]

definition read_variable_length :: "bytes \<Rightarrow> nat \<Rightarrow> nat \<Rightarrow> bool \<Rightarrow> rvl option" where
  "read_variable_length src ip k initial_check =
     (if initial_check \<and> ip + k \<ge> length src then Some (RvlErr ip) else rvl_loop src ip k 0)"

section \<open>Decoding\<close>

text \<open>
  Where control goes after a piece of the decoder: to the next sequence of the safe loop, to
  the end of the block, or to \<open>_output_error\<close>.
\<close>

datatype lz4_out = Next nat nat bytes | Done nat bytes | Fail nat bytes

function lz4_bytewise :: "bytes \<Rightarrow> nat \<Rightarrow> nat \<Rightarrow> nat \<Rightarrow> bytes option" where
  "lz4_bytewise dst d s e =
     (if d < e then do { dst \<leftarrow> mem_byte dst d s; lz4_bytewise dst (d + 1) (s + 1) e } else Some dst)"
  by pat_completeness auto
termination
  by (relation "measure (\<lambda>(dst, d, s, e). e - d)") auto

declare lz4_bytewise.simps [simp del]

definition safe_match_copy :: "bytes \<Rightarrow> nat \<Rightarrow> nat \<Rightarrow> nat \<Rightarrow> nat \<Rightarrow> lz4_out option" where
  "safe_match_copy dst ip op offset len =
     (if offset > op then Some (Fail ip dst)
      else do {
        let oend = length dst;
        let match = op - offset;
        let cpy = op + len;
        (dst, match) \<leftarrow>
          (if offset < 8 then lz4_short_offset dst op match offset
           else do { dst \<leftarrow> memcpy_in dst op match 8; Some (dst, match + 8) });
        let op = op + 8;
        if cpy + MATCH_SAFEGUARD_DISTANCE > oend then
          (if cpy + LASTLITERALS > oend then Some (Fail ip dst)
           else do {
             (dst, op, match) \<leftarrow>
               (if op + (WILDCOPYLENGTH - 1) < oend then do {
                  let oCopyLimit = oend - (WILDCOPYLENGTH - 1);
                  dst \<leftarrow> LZ4_wildCopy8 dst op match oCopyLimit;
                  Some (dst, oCopyLimit, match + (oCopyLimit - op)) }
                else Some (dst, op, match));
             dst \<leftarrow> lz4_bytewise dst op match cpy;
             Some (Next ip cpy dst) })
        else do {
          dst \<leftarrow> memcpy_in dst op match 8;
          dst \<leftarrow> (if len > 16 then LZ4_wildCopy8 dst (op + 8) (match + 8) cpy else Some dst);
          Some (Next ip cpy dst) } })"

definition copy_match :: "bytes \<Rightarrow> bytes \<Rightarrow> nat \<Rightarrow> nat \<Rightarrow> nat \<Rightarrow> nat \<Rightarrow> lz4_out option" where
  "copy_match src dst ip op offset len =
     (if len = ML_MASK then do {
        r \<leftarrow> read_variable_length src ip (LASTLITERALS - 1) False;
        (case r of
           RvlErr ip \<Rightarrow> Some (Fail ip dst)
         | RvlOk ip addl \<Rightarrow> safe_match_copy dst ip op offset (len + addl + MINMATCH)) }
      else safe_match_copy dst ip op offset (len + MINMATCH))"

definition safe_literal_copy :: "bytes \<Rightarrow> bytes \<Rightarrow> nat \<Rightarrow> nat \<Rightarrow> nat \<Rightarrow> nat \<Rightarrow> lz4_out option" where
  "safe_literal_copy src dst ip op token len = do {
     let oend = length dst;
     let iend = length src;
     let cpy = op + len;
     if cpy + MFLIMIT > oend \<or> ip + len + (2 + 1 + LASTLITERALS) > iend then
       (if ip + len \<noteq> iend \<or> cpy > oend then Some (Fail ip dst)
        else do { dst \<leftarrow> memcpy_from src dst op ip len; Some (Done (op + len) dst) })
     else do {
       dst \<leftarrow> LZ4_wildCopy8_from src dst op ip cpy;
       let ip = ip + len;
       offset \<leftarrow> LZ4_readLE16 src ip;
       copy_match src dst (ip + 2) cpy offset (token mod 16) } }"

text \<open>One sequence of the safe loop, with the shortcut for short literals and short matches.\<close>

definition safe_step :: "bytes \<Rightarrow> bytes \<Rightarrow> nat \<Rightarrow> nat \<Rightarrow> lz4_out option" where
  "safe_step src dst ip op =
     (if ip \<ge> length src then None
      else do {
        let token = unat (src ! ip);
        let ip = ip + 1;
        let len = token div 16;
        if len \<noteq> RUN_MASK \<and> ip + (14 + 2) < length src \<and> op + (14 + 18) \<le> length dst then do {
          dst \<leftarrow> memcpy_from src dst op ip 16;
          let op = op + len;
          let ip = ip + len;
          let len = token mod 16;
          offset \<leftarrow> LZ4_readLE16 src ip;
          let ip = ip + 2;
          if len \<noteq> ML_MASK \<and> offset \<ge> 8 \<and> offset \<le> op then do {
            let match = op - offset;
            dst \<leftarrow> memcpy_in dst op match 8;
            dst \<leftarrow> memcpy_in dst (op + 8) (match + 8) 8;
            dst \<leftarrow> memcpy_in dst (op + 16) (match + 16) 2;
            Some (Next ip (op + len + MINMATCH) dst) }
          else copy_match src dst ip op offset len }
        else if len = RUN_MASK then do {
          r \<leftarrow> read_variable_length src ip RUN_MASK True;
          (case r of
             RvlErr ip \<Rightarrow> Some (Fail ip dst)
           | RvlOk ip addl \<Rightarrow> safe_literal_copy src dst ip op token (len + addl)) }
        else safe_literal_copy src dst ip op token len })"

text \<open>
  One sequence of the fast loop. Control stays in the fast loop, or goes to the labels
  \<open>safe_literal_copy\<close> and \<open>safe_match_copy\<close> of the safe loop and stays there.
\<close>

datatype lz4_fast = FastNext nat nat bytes | ToSafe lz4_out

definition fast_match_copy :: "bytes \<Rightarrow> nat \<Rightarrow> nat \<Rightarrow> nat \<Rightarrow> nat \<Rightarrow> lz4_fast option" where
  "fast_match_copy dst ip op offset len =
     (if offset > op then Some (ToSafe (Fail ip dst))
      else do {
        let match = op - offset;
        let cpy = op + len;
        dst \<leftarrow> (if offset < 16 then LZ4_memcpy_using_offset dst op match cpy offset
               else LZ4_wildCopy32 dst op match cpy);
        Some (FastNext ip cpy dst) })"

definition fast_match :: "bytes \<Rightarrow> bytes \<Rightarrow> nat \<Rightarrow> nat \<Rightarrow> nat \<Rightarrow> lz4_fast option" where
  "fast_match src dst ip op token = do {
     let oend = length dst;
     offset \<leftarrow> LZ4_readLE16 src ip;
     let ip = ip + 2;
     let len = token mod 16;
     if len = ML_MASK then do {
       r \<leftarrow> read_variable_length src ip (LASTLITERALS - 1) False;
       (case r of
          RvlErr ip \<Rightarrow> Some (ToSafe (Fail ip dst))
        | RvlOk ip addl \<Rightarrow>
            let len = len + addl + MINMATCH in
            if op + len + FASTLOOP_SAFE_DISTANCE \<ge> oend
            then map_option ToSafe (safe_match_copy dst ip op offset len)
            else fast_match_copy dst ip op offset len) }
     else do {
       let len = len + MINMATCH;
       if op + len + FASTLOOP_SAFE_DISTANCE \<ge> oend
       then map_option ToSafe (safe_match_copy dst ip op offset len)
       else if offset \<le> op \<and> offset \<ge> 8 then do {
         let match = op - offset;
         dst \<leftarrow> memcpy_in dst op match 8;
         dst \<leftarrow> memcpy_in dst (op + 8) (match + 8) 8;
         dst \<leftarrow> memcpy_in dst (op + 16) (match + 16) 2;
         Some (FastNext ip (op + len) dst) }
       else fast_match_copy dst ip op offset len } }"

definition fast_step :: "bytes \<Rightarrow> bytes \<Rightarrow> nat \<Rightarrow> nat \<Rightarrow> lz4_fast option" where
  "fast_step src dst ip op =
     (if ip \<ge> length src then None
      else do {
        let oend = length dst;
        let iend = length src;
        let token = unat (src ! ip);
        let ip = ip + 1;
        let len = token div 16;
        if len = RUN_MASK then do {
          r \<leftarrow> read_variable_length src ip RUN_MASK True;
          (case r of
             RvlErr ip \<Rightarrow> Some (ToSafe (Fail ip dst))
           | RvlOk ip addl \<Rightarrow>
               let len = len + addl in
               if op + len + 32 > oend \<or> ip + len + 32 > iend
               then map_option ToSafe (safe_literal_copy src dst ip op token len)
               else do {
                 dst \<leftarrow> LZ4_wildCopy32_from src dst op ip (op + len);
                 fast_match src dst (ip + len) (op + len) token }) }
        else if ip + (16 + 1) \<le> iend then do {
          dst \<leftarrow> memcpy_from src dst op ip 16;
          fast_match src dst (ip + len) (op + len) token }
        else map_option ToSafe (safe_literal_copy src dst ip op token len) })"

subsection \<open>Every sequence consumes input\<close>

lemma rvl_loop_pos: "rvl_loop src ip k len = Some (RvlOk ip' n) \<Longrightarrow> ip < ip'"
proof (induction src ip k len rule: rvl_loop.induct)
  case (1 src ip k len)
  show ?case
  proof (cases "length src \<le> ip \<or> length src < ip + 1 + k \<or> unat (src ! ip) \<noteq> 255")
    case True
    then show ?thesis
      using "1.prems" by (subst (asm) rvl_loop.simps) (auto simp: Let_def split: if_splits)
  next
    case False
    then have "rvl_loop src (ip + 1) k (len + unat (src ! ip)) = Some (RvlOk ip' n)"
      using "1.prems" by (subst (asm) rvl_loop.simps) (simp add: Let_def)
    with "1.IH" False show ?thesis
      by fastforce
  qed
qed

lemma read_variable_length_pos: "read_variable_length src ip k c = Some (RvlOk ip' n) \<Longrightarrow> ip < ip'"
  by (auto simp: read_variable_length_def rvl_loop_pos split: if_splits)

lemma safe_match_copy_pos: "safe_match_copy dst ip op off len = Some (Next ip' op' dst') \<Longrightarrow> ip' = ip"
  by (auto simp: safe_match_copy_def Let_def split: if_splits bind_splits)

lemma copy_match_pos: "copy_match src dst ip op off len = Some (Next ip' op' dst') \<Longrightarrow> ip \<le> ip'"
  by (auto simp: copy_match_def split: if_splits bind_splits rvl.splits
      dest!: safe_match_copy_pos read_variable_length_pos)

lemma safe_literal_copy_pos:
  "safe_literal_copy src dst ip op token len = Some (Next ip' op' dst') \<Longrightarrow> ip < ip'"
  by (auto simp: safe_literal_copy_def Let_def split: if_splits bind_splits dest!: copy_match_pos)

lemma safe_step_pos: "safe_step src dst ip op = Some (Next ip' op' dst') \<Longrightarrow> ip < ip'"
  by (auto simp: safe_step_def Let_def split: if_splits bind_splits rvl.splits
      dest!: copy_match_pos safe_literal_copy_pos read_variable_length_pos)

lemma safe_step_measure:
  "safe_step src dst ip op = Some (Next ip' op' dst') \<Longrightarrow> length src - ip' < length src - ip"
  using safe_step_pos [of src dst ip op ip' op' dst'] by (auto simp: safe_step_def split: if_splits)

lemma fast_match_copy_pos: "fast_match_copy dst ip op off len = Some (FastNext ip' op' dst') \<Longrightarrow> ip' = ip"
  by (auto simp: fast_match_copy_def Let_def split: if_splits bind_splits)

lemma fast_match_pos: "fast_match src dst ip op token = Some (FastNext ip' op' dst') \<Longrightarrow> ip < ip'"
  by (auto simp: fast_match_def Let_def split: if_splits bind_splits rvl.splits
      dest!: fast_match_copy_pos read_variable_length_pos)

lemma fast_step_pos: "fast_step src dst ip op = Some (FastNext ip' op' dst') \<Longrightarrow> ip < ip'"
  by (auto simp: fast_step_def Let_def split: if_splits bind_splits rvl.splits
      dest!: fast_match_pos read_variable_length_pos)

lemma fast_step_measure:
  "fast_step src dst ip op = Some (FastNext ip' op' dst') \<Longrightarrow> length src - ip' < length src - ip"
  using fast_step_pos [of src dst ip op ip' op' dst'] by (auto simp: fast_step_def split: if_splits)

subsection \<open>The loops\<close>

function safe_loop :: "bytes \<Rightarrow> bytes \<Rightarrow> nat \<Rightarrow> nat \<Rightarrow> lz4_out option" where
  "safe_loop src dst ip op =
     (case safe_step src dst ip op of
        Some (Next ip op dst) \<Rightarrow> safe_loop src dst ip op
      | r \<Rightarrow> r)"
  by pat_completeness auto
termination
  by (relation "measure (\<lambda>(src, dst, ip, op). length src - ip)")
    (auto dest: safe_step_measure)

function fast_loop :: "bytes \<Rightarrow> bytes \<Rightarrow> nat \<Rightarrow> nat \<Rightarrow> lz4_out option" where
  "fast_loop src dst ip op =
     (case fast_step src dst ip op of
        Some (FastNext ip op dst) \<Rightarrow> fast_loop src dst ip op
      | Some (ToSafe (Next ip op dst)) \<Rightarrow> safe_loop src dst ip op
      | Some (ToSafe r) \<Rightarrow> Some r
      | None \<Rightarrow> None)"
  by pat_completeness auto
termination
  by (relation "measure (\<lambda>(src, dst, ip, op). length src - ip)")
    (auto dest: fast_step_measure)

declare safe_loop.simps [simp del] fast_loop.simps [simp del]

text \<open>
  The result is the value the C function returns, the number of bytes decoded or a negative
  error, and the destination buffer.
\<close>

definition LZ4_decompress_generic :: "bytes \<Rightarrow> bytes \<Rightarrow> (int \<times> bytes) option" where
  "LZ4_decompress_generic src dst =
     (if length dst = 0 then Some (if length src = 1 \<and> src ! 0 = 0 then 0 else -1, dst)
      else if length src = 0 then Some (-1, dst)
      else do {
        r \<leftarrow> (if length dst < FASTLOOP_SAFE_DISTANCE then safe_loop src dst 0 0
             else fast_loop src dst 0 0);
        (case r of
           Done op dst \<Rightarrow> Some (int op, dst)
         | Fail ip dst \<Rightarrow> Some (- int ip - 1, dst)
         | Next _ _ _ \<Rightarrow> None) })"

definition LZ4_decompress_safe :: "bytes \<Rightarrow> bytes \<Rightarrow> (int \<times> bytes) option" where
  "LZ4_decompress_safe src dst = LZ4_decompress_generic src dst"

end
