(* ===== verification/Lz4_Encode.thy ===== *)
theory Lz4_Encode
  imports Lz4_Decode
begin

text \<open>
  The compressor of \<^verbatim>\<open>src/src/lz4/lz4.c\<close> as lbd calls it: \<open>LZ4_compress_fast_extState\<close> with
  acceleration 1 and an output buffer of at least \<open>LZ4_compressBound\<close> bytes, hence the
  \<open>notLimited\<close>, \<open>noDict\<close>, \<open>noDictIssue\<close> instance of \<open>LZ4_compress_generic_validated\<close> on a
  64-bit little-endian machine. Inputs below \<open>LZ4_64Klimit\<close> use the \<open>byU16\<close> hash table, others
  the \<open>byU32\<close> one.

  Positions are offsets into the input (the state is reset by \<open>LZ4_initStream\<close>, so
  \<open>startIndex\<close> is 0 and \<open>base\<close> is the input itself). The output is the list of bytes written so
  far; \<open>op\<close> is its length. The copy of literals by \<open>LZ4_wildCopy8\<close> is modelled by its first
  \<open>litLength\<close> bytes, since what it writes beyond them is overwritten or past the result.
\<close>

section \<open>Reading the input\<close>

definition LZ4_read16 :: "bytes \<Rightarrow> nat \<Rightarrow> u16" where
  "LZ4_read16 src p = ucast (src ! p) OR push_bit 8 (ucast (src ! (p + 1)))"

definition LZ4_read32 :: "bytes \<Rightarrow> nat \<Rightarrow> u32" where
  "LZ4_read32 src p = ucast (src ! p) OR push_bit 8 (ucast (src ! (p + 1))) OR
     push_bit 16 (ucast (src ! (p + 2))) OR push_bit 24 (ucast (src ! (p + 3)))"

definition LZ4_read_ARCH :: "bytes \<Rightarrow> nat \<Rightarrow> u64" where
  "LZ4_read_ARCH src p = ucast (src ! p) OR push_bit 8 (ucast (src ! (p + 1))) OR
     push_bit 16 (ucast (src ! (p + 2))) OR push_bit 24 (ucast (src ! (p + 3))) OR
     push_bit 32 (ucast (src ! (p + 4))) OR push_bit 40 (ucast (src ! (p + 5))) OR
     push_bit 48 (ucast (src ! (p + 6))) OR push_bit 56 (ucast (src ! (p + 7)))"

text \<open>\<^verbatim>\<open>__builtin_ctzll\<close>: the number of zero bits below the lowest one bit.\<close>

definition ctzll :: "u64 \<Rightarrow> nat" where
  "ctzll v = length (takeWhile (\<lambda>i. \<not> bit v i) [0..<64])"

definition LZ4_NbCommonBytes :: "u64 \<Rightarrow> nat" where
  "LZ4_NbCommonBytes val = ctzll val div 8"

text \<open>
  The number of bytes that agree at \<open>pIn\<close> and \<open>pMatch\<close>, below \<open>pInLimit\<close>. The first test of
  the C function is the loop's test with \<open>pIn = pStart\<close>.
\<close>

function LZ4_count_loop :: "bytes \<Rightarrow> nat \<Rightarrow> nat \<Rightarrow> nat \<Rightarrow> nat \<Rightarrow> nat" where
  "LZ4_count_loop src pStart pIn pMatch pInLimit =
     (if pIn + 7 < pInLimit then
        (let diff = LZ4_read_ARCH src pMatch XOR LZ4_read_ARCH src pIn in
         if diff = 0 then LZ4_count_loop src pStart (pIn + 8) (pMatch + 8) pInLimit
         else pIn + LZ4_NbCommonBytes diff - pStart)
      else
        (let (pIn, pMatch) =
           (if pIn + 3 < pInLimit \<and> LZ4_read32 src pMatch = LZ4_read32 src pIn
            then (pIn + 4, pMatch + 4) else (pIn, pMatch));
           (pIn, pMatch) =
           (if pIn + 1 < pInLimit \<and> LZ4_read16 src pMatch = LZ4_read16 src pIn
            then (pIn + 2, pMatch + 2) else (pIn, pMatch));
           pIn = (if pIn < pInLimit \<and> src ! pMatch = src ! pIn then pIn + 1 else pIn)
         in pIn - pStart))"
  by pat_completeness auto
termination
  by (relation "measure (\<lambda>(src, pStart, pIn, pMatch, pInLimit). pInLimit - pIn)") auto

declare LZ4_count_loop.simps [simp del]

definition LZ4_count :: "bytes \<Rightarrow> nat \<Rightarrow> nat \<Rightarrow> nat \<Rightarrow> nat" where
  "LZ4_count src pIn pMatch pInLimit = LZ4_count_loop src pIn pIn pMatch pInLimit"

section \<open>The hash table\<close>

datatype tableType = byU32 | byU16

definition LZ4_DISTANCE_MAX :: nat where "LZ4_DISTANCE_MAX = 65535"
definition LZ4_HASHLOG :: nat where "LZ4_HASHLOG = 12"
definition LZ4_skipTrigger :: nat where "LZ4_skipTrigger = 6"
definition LZ4_minLength :: nat where "LZ4_minLength = MFLIMIT + 1"
definition LZ4_64Klimit :: nat where "LZ4_64Klimit = 64 * 1024 + (MFLIMIT - 1)"
definition LZ4_MAX_INPUT_SIZE :: nat where "LZ4_MAX_INPUT_SIZE = 0x7E000000"

definition LZ4_compressBound :: "nat \<Rightarrow> nat" where
  "LZ4_compressBound isize = (if isize > LZ4_MAX_INPUT_SIZE then 0 else isize + isize div 255 + 16)"

definition LZ4_hash4 :: "u32 \<Rightarrow> tableType \<Rightarrow> u32" where
  "LZ4_hash4 sequence tableType =
     (if tableType = byU16 then drop_bit (MINMATCH * 8 - (LZ4_HASHLOG + 1)) (sequence * 2654435761)
      else drop_bit (MINMATCH * 8 - LZ4_HASHLOG) (sequence * 2654435761))"

definition LZ4_hash5 :: "u64 \<Rightarrow> tableType \<Rightarrow> u32" where
  "LZ4_hash5 sequence tableType =
     (let hashLog = (if tableType = byU16 then LZ4_HASHLOG + 1 else LZ4_HASHLOG)
      in ucast (drop_bit (64 - hashLog) (push_bit 24 sequence * 889523592379)))"

definition LZ4_hashPosition :: "bytes \<Rightarrow> nat \<Rightarrow> tableType \<Rightarrow> u32" where
  "LZ4_hashPosition src p tableType =
     (if tableType \<noteq> byU16 then LZ4_hash5 (LZ4_read_ARCH src p) tableType
      else LZ4_hash4 (LZ4_read32 src p) tableType)"

type_synonym hashTable = "u32 \<Rightarrow> u32"

definition LZ4_putIndexOnHash :: "nat \<Rightarrow> u32 \<Rightarrow> hashTable \<Rightarrow> tableType \<Rightarrow> hashTable" where
  "LZ4_putIndexOnHash idx h tab tableType =
     (case tableType of
        byU32 \<Rightarrow> tab(h := of_nat idx)
      | byU16 \<Rightarrow> tab(h := ucast (of_nat idx :: u16)))"

definition LZ4_getIndexOnHash :: "u32 \<Rightarrow> hashTable \<Rightarrow> tableType \<Rightarrow> nat" where
  "LZ4_getIndexOnHash h tab tableType = unat (tab h)"

section \<open>Finding a match\<close>

definition mflimitPlusOne :: "bytes \<Rightarrow> nat" where
  "mflimitPlusOne src = length src - MFLIMIT + 1"

text \<open>
  The search loop. \<open>None\<close> is \<^verbatim>\<open>goto _last_literals\<close>; otherwise the table and the positions
  \<open>ip\<close> and \<open>match\<close>.
\<close>

function lz4_find :: "tableType \<Rightarrow> bytes \<Rightarrow> hashTable \<Rightarrow> nat \<Rightarrow> u32 \<Rightarrow> nat \<Rightarrow> nat \<Rightarrow>
    (hashTable \<times> nat \<times> nat) option" where
  "lz4_find tableType src tab forwardIp forwardH step searchMatchNb =
     (let h = forwardH;
          current = forwardIp;
          matchIndex = LZ4_getIndexOnHash h tab tableType;
          ip = forwardIp;
          forwardIp = forwardIp + step;
          step = drop_bit LZ4_skipTrigger searchMatchNb;
          searchMatchNb = searchMatchNb + 1
      in if forwardIp > mflimitPlusOne src then None
         else
           let forwardH = LZ4_hashPosition src forwardIp tableType;
               tab = LZ4_putIndexOnHash current h tab tableType
           in if tableType \<noteq> byU16 \<and> matchIndex + LZ4_DISTANCE_MAX < current
              then lz4_find tableType src tab forwardIp forwardH step searchMatchNb
              else if LZ4_read32 src matchIndex = LZ4_read32 src ip
              then Some (tab, ip, matchIndex)
              else lz4_find tableType src tab forwardIp forwardH step searchMatchNb)"
  by pat_completeness auto
termination
proof (relation "measure (\<lambda>(tt, src, tab, fwd, h, step, nb).
    2 * (mflimitPlusOne src - fwd) + 2 * (64 - nb) + (if step = 0 then 1 else 0))", goal_cases)
  case (2 tt src tab fwd h step nb)
  then show ?case
    by (cases "step = 0") (auto simp: LZ4_skipTrigger_def drop_bit_eq_div)
next
  case (3 tt src tab fwd h step nb)
  then show ?case
    by (cases "step = 0") (auto simp: LZ4_skipTrigger_def drop_bit_eq_div)
qed simp

declare lz4_find.simps [simp del]

text \<open>The \<^verbatim>\<open>do ... while\<close> of the catch up, with \<open>lowLimit\<close> the start of the input.\<close>

fun lz4_back :: "bytes \<Rightarrow> nat \<Rightarrow> nat \<Rightarrow> nat \<Rightarrow> nat \<times> nat" where
  "lz4_back src anchor ip match =
     (let ip = ip - 1; m = match - 1 in
      if ip > anchor \<and> m > 0 \<and> src ! (ip - 1) = src ! (m - 1) then lz4_back src anchor ip m
      else (ip, m))"

declare lz4_back.simps [simp del]

definition lz4_catch_up :: "bytes \<Rightarrow> nat \<Rightarrow> nat \<Rightarrow> nat \<Rightarrow> nat \<times> nat" where
  "lz4_catch_up src anchor ip match =
     (if match > 0 \<and> src ! (ip - 1) = src ! (match - 1) then lz4_back src anchor ip match
      else (ip, match))"

section \<open>Writing sequences\<close>

function lz4_len_bytes :: "nat \<Rightarrow> bytes" where
  "lz4_len_bytes len = (if len \<ge> 255 then 255 # lz4_len_bytes (len - 255) else [of_nat len])"
  by pat_completeness auto
termination
  by (relation "measure id") auto

declare lz4_len_bytes.simps [simp del]

definition lz4_literals :: "bytes \<Rightarrow> nat \<Rightarrow> nat \<Rightarrow> bytes \<Rightarrow> bytes" where
  "lz4_literals src anchor litLength out =
     (if litLength \<ge> RUN_MASK
      then out @ [of_nat (RUN_MASK * 16)] @ lz4_len_bytes (litLength - RUN_MASK) @ read_at src anchor litLength
      else out @ [of_nat (litLength * 16)] @ read_at src anchor litLength)"

text \<open>
  The extension bytes of a match length: four bytes of 255 at a time, and of the last four
  only as many as are needed stay.
\<close>

function lz4_match_len_bytes :: "nat \<Rightarrow> bytes" where
  "lz4_match_len_bytes matchCode =
     (if matchCode \<ge> 4 * 255 then [255, 255, 255, 255] @ lz4_match_len_bytes (matchCode - 4 * 255)
      else take (matchCode div 255) [255, 255, 255, 255] @ [of_nat (matchCode mod 255)])"
  by pat_completeness auto
termination
  by (relation "measure id") auto

declare lz4_match_len_bytes.simps [simp del]

definition LZ4_writeLE16 :: "u16 \<Rightarrow> bytes" where
  "LZ4_writeLE16 value = [ucast value, ucast (drop_bit 8 value)]"

definition lz4_encode_match :: "bytes \<Rightarrow> nat \<Rightarrow> nat \<Rightarrow> nat \<Rightarrow> bytes \<Rightarrow> nat \<times> bytes" where
  "lz4_encode_match src ip match token out =
     (let out = out @ LZ4_writeLE16 (of_nat (ip - match));
          matchlimit = length src - LASTLITERALS;
          matchCode = LZ4_count src (ip + MINMATCH) (match + MINMATCH) matchlimit;
          ip = ip + (matchCode + MINMATCH)
      in if matchCode \<ge> ML_MASK
         then (ip, out[token := out ! token + of_nat ML_MASK] @ lz4_match_len_bytes (matchCode - ML_MASK))
         else (ip, out[token := out ! token + of_nat matchCode]))"

section \<open>The main loop\<close>

text \<open>Find a match from \<open>ip\<close>, catch up and write the literals since \<open>anchor\<close>.\<close>

definition lz4_search :: "tableType \<Rightarrow> bytes \<Rightarrow> hashTable \<Rightarrow> nat \<Rightarrow> nat \<Rightarrow> bytes \<Rightarrow>
    (hashTable \<times> nat \<times> nat \<times> nat \<times> bytes) option" where
  "lz4_search tableType src tab ip anchor out =
     (case lz4_find tableType src tab ip (LZ4_hashPosition src ip tableType) 1 (push_bit LZ4_skipTrigger 1) of
        None \<Rightarrow> None
      | Some (tab, ip, match) \<Rightarrow>
          let (ip, match) = lz4_catch_up src anchor ip match
          in Some (tab, ip, match, length out, lz4_literals src anchor (ip - anchor) out))"

lemma lz4_find_ip: "lz4_find tt src tab fwd h step nb = Some (tab', ip, m) \<Longrightarrow> fwd \<le> ip"
proof (induction tt src tab fwd h step nb rule: lz4_find.induct)
  case (1 tt src tab fwd h step nb)
  show ?case
  proof (cases "fwd + step > mflimitPlusOne src \<or>
      \<not> (tt \<noteq> byU16 \<and> LZ4_getIndexOnHash h tab tt + LZ4_DISTANCE_MAX < fwd) \<and>
      LZ4_read32 src (LZ4_getIndexOnHash h tab tt) = LZ4_read32 src fwd")
    case True
    then show ?thesis
      using "1.prems" by (subst (asm) lz4_find.simps) (auto simp: Let_def split: if_splits)
  next
    case False
    let ?tab = "LZ4_putIndexOnHash fwd h tab tt" and ?h = "LZ4_hashPosition src (fwd + step) tt"
    have "lz4_find tt src ?tab (fwd + step) ?h (drop_bit LZ4_skipTrigger nb) (nb + 1) = Some (tab', ip, m)"
      using False "1.prems" by (subst (asm) lz4_find.simps) (auto simp: Let_def split: if_splits)
    then have "fwd + step \<le> ip"
      using "1.IH" False by (metis (no_types, lifting))
    then show ?thesis
      by simp
  qed
qed

lemma lz4_back_ip: "anchor < ip \<Longrightarrow> anchor \<le> fst (lz4_back src anchor ip m) \<and> fst (lz4_back src anchor ip m) \<le> ip"
proof (induction src anchor ip m rule: lz4_back.induct)
  case (1 src anchor ip m)
  show ?case
  proof (cases "ip - 1 > anchor \<and> m - 1 > 0 \<and> src ! (ip - 1 - 1) = src ! (m - 1 - 1)")
    case True
    then have "anchor \<le> fst (lz4_back src anchor (ip - 1) (m - 1)) \<and>
        fst (lz4_back src anchor (ip - 1) (m - 1)) \<le> ip - 1"
      using "1.IH" [OF refl refl] by simp
    then show ?thesis
      using True by (subst (1 2) lz4_back.simps) (auto simp: Let_def)
  next
    case False
    then show ?thesis
      using "1.prems" by (subst (1 2) lz4_back.simps) (auto simp: Let_def)
  qed
qed

lemma lz4_search_ip:
  "lz4_search tt src tab ip anchor out = Some (tab', ip', m, tok, out') \<Longrightarrow> anchor < ip \<Longrightarrow> anchor \<le> ip'"
proof -
  assume s: "lz4_search tt src tab ip anchor out = Some (tab', ip', m, tok, out')" and a: "anchor < ip"
  obtain i k where f: "lz4_find tt src tab ip (LZ4_hashPosition src ip tt) 1 (push_bit LZ4_skipTrigger 1) =
      Some (tab', i, k)" and c: "fst (lz4_catch_up src anchor i k) = ip'"
    using s by (auto simp: lz4_search_def split: option.splits prod.splits)
  have "anchor < i"
    using lz4_find_ip [OF f] a by simp
  then show ?thesis
    using lz4_back_ip [of anchor i src k] c by (auto simp: lz4_catch_up_def split: if_splits)
qed

lemma lz4_encode_match_ip: "lz4_encode_match src ip m tok out = (ip', out') \<Longrightarrow> ip + 4 \<le> ip'"
  by (auto simp: lz4_encode_match_def Let_def MINMATCH_def split: if_splits)

lemma lz4_next_measure:
  assumes "(x, y) = lz4_encode_match src ip m tok out" "\<not> mflimitPlusOne src \<le> x" "x \<le> ip'"
  shows "length src - ip' < length src - ip"
  using lz4_encode_match_ip [OF assms(1) [symmetric]] assms(2,3)
  by (simp add: mflimitPlusOne_def MFLIMIT_def)

text \<open>
  From \<open>_next_match\<close> on: write the offset and the match length, then either the end of the
  chunk, a match right at the next position (no literals), or another search. Returns the
  anchor of the last literals and the output.
\<close>

function lz4_next_match :: "tableType \<Rightarrow> bytes \<Rightarrow> hashTable \<Rightarrow> nat \<Rightarrow> nat \<Rightarrow> nat \<Rightarrow> bytes \<Rightarrow> nat \<times> bytes" where
  "lz4_next_match tableType src tab ip match token out =
     (case lz4_encode_match src ip match token out of
        (ip, out) \<Rightarrow>
          if ip \<ge> mflimitPlusOne src then (ip, out)
          else
            let tab = LZ4_putIndexOnHash (ip - 2) (LZ4_hashPosition src (ip - 2) tableType) tab tableType;
                h = LZ4_hashPosition src ip tableType;
                current = ip;
                matchIndex = LZ4_getIndexOnHash h tab tableType;
                tab = LZ4_putIndexOnHash current h tab tableType
            in if (tableType = byU16 \<or> matchIndex + LZ4_DISTANCE_MAX \<ge> current) \<and>
                  LZ4_read32 src matchIndex = LZ4_read32 src ip
               then lz4_next_match tableType src tab ip matchIndex (length out) (out @ [0])
               else
                 (case lz4_search tableType src tab (ip + 1) ip out of
                    None \<Rightarrow> (ip, out)
                  | Some (tab, ip, match, token, out) \<Rightarrow>
                      lz4_next_match tableType src tab ip match token out))"
  by pat_completeness auto
termination
  by (relation "measure (\<lambda>(tt, src, tab, ip, m, tok, out). length src - ip)")
    (auto intro: lz4_next_measure lz4_search_ip [of _ _ _ "Suc _"] simp del: not_le)

declare lz4_next_match.simps [simp del]

definition lz4_last_literals :: "bytes \<Rightarrow> nat \<Rightarrow> bytes \<Rightarrow> bytes" where
  "lz4_last_literals src anchor out = lz4_literals src anchor (length src - anchor) out"

definition LZ4_compress_generic_validated :: "tableType \<Rightarrow> bytes \<Rightarrow> bytes" where
  "LZ4_compress_generic_validated tableType src =
     (if length src < LZ4_minLength then lz4_last_literals src 0 []
      else
        let tab = LZ4_putIndexOnHash 0 (LZ4_hashPosition src 0 tableType) (\<lambda>_. 0) tableType
        in case lz4_search tableType src tab 1 0 [] of
             None \<Rightarrow> lz4_last_literals src 0 []
           | Some (tab, ip, match, token, out) \<Rightarrow>
               (case lz4_next_match tableType src tab ip match token out of
                  (anchor, out) \<Rightarrow> lz4_last_literals src anchor out))"

text \<open>The result is the list of bytes written; its length is the value the C function returns.\<close>

definition LZ4_compress_generic :: "tableType \<Rightarrow> bytes \<Rightarrow> bytes" where
  "LZ4_compress_generic tableType src =
     (if length src > LZ4_MAX_INPUT_SIZE then []
      else if length src = 0 then [0]
      else LZ4_compress_generic_validated tableType src)"

definition LZ4_compress_fast_extState :: "bytes \<Rightarrow> bytes" where
  "LZ4_compress_fast_extState src =
     LZ4_compress_generic (if length src < LZ4_64Klimit then byU16 else byU32) src"

text \<open>The variants with a state of their own, which \<^verbatim>\<open>lbdctl\<close> calls.\<close>

definition LZ4_compress_fast :: "bytes \<Rightarrow> bytes" where
  "LZ4_compress_fast src = LZ4_compress_fast_extState src"

definition LZ4_compress_default :: "bytes \<Rightarrow> bytes" where
  "LZ4_compress_default src = LZ4_compress_fast src"

end
