(* ===== verification/Qcow2_Cache.thy ===== *)
theory Qcow2_Cache
  imports Qcow2_Alloc Lz4_Encode
begin

text \<open>
  The L2 table cache, the base layer's L2 cache and the cluster cache
  (\<^verbatim>\<open>src/src/lbd_qcow2.c\<close>, \<open>lbd_qcow2_l2_get\<close> to \<open>lbd_qcow2_flush_all_l2\<close>, and
  \<open>lbd_qcow2_base_l2_get\<close>, \<open>lbd_qcow2_base_read_cluster\<close>). The kernel's \<^verbatim>\<open>crc32c\<close> is the
  parameter \<open>crc32c\<close> of the functions that call it: a seed and the bytes give the checksum.
\<close>

type_synonym crc_fun = "u32 \<Rightarrow> bytes \<Rightarrow> u32"

text \<open>What a function returning a pointer returns: null, an error pointer, or a cache slot.\<close>

datatype ptr = Null | ErrPtr errno | Ptr nat

section \<open>L2 tables on disk\<close>

text \<open>A table of \<open>n\<close> entries as a cluster of \<open>cs\<close> bytes with its checksum in the last four.\<close>

definition l2_encode :: "crc_fun \<Rightarrow> nat \<Rightarrow> nat \<Rightarrow> u64 list \<Rightarrow> bytes" where
  "l2_encode crc32c cs n table =
     (let entries = concat (map be64 (take n table));
          raw = entries @ replicate (cs - length entries) 0;
          crc = NOT (crc32c (NOT 0) (take (cs - 4) raw))
      in blit raw (cs - 4) (be32 crc))"

definition l2_crc_ok :: "crc_fun \<Rightarrow> nat \<Rightarrow> bytes \<Rightarrow> bool" where
  "l2_crc_ok crc32c cs raw \<longleftrightarrow>
     (let stored_crc = kernel_get32 raw (cs - 4);
          calc_crc = NOT (crc32c (NOT 0) (take (cs - 4) raw))
      in stored_crc = calc_crc)"

definition l2_decode :: "nat \<Rightarrow> bytes \<Rightarrow> u64 list" where
  "l2_decode n raw = map (\<lambda>j. of_be64 (read_at raw (8 * j) 8)) [0..<n]"

section \<open>Looking up cache slots\<close>

text \<open>The scans over a cache: the first slot with a property, and the slot to evict.\<close>

fun first_slot :: "('a \<Rightarrow> bool) \<Rightarrow> 'a list \<Rightarrow> nat \<Rightarrow> nat option" where
  "first_slot P [] i = None"
| "first_slot P (e # es) i = (if P e then Some i else first_slot P es (i + 1))"

fun lru_slot :: "('a \<Rightarrow> bool) \<Rightarrow> ('a \<Rightarrow> u64) \<Rightarrow> 'a list \<Rightarrow> nat \<Rightarrow> u64 \<Rightarrow> nat option \<Rightarrow> nat option" where
  "lru_slot valid lru [] i oldest best = best"
| "lru_slot valid lru (e # es) i oldest best =
     (if \<not> valid e then Some i
      else if lru e < oldest then lru_slot valid lru es (i + 1) (lru e) (Some i)
      else lru_slot valid lru es (i + 1) oldest best)"

definition l2_hit :: "lbd_l2_cache_entry list \<Rightarrow> u32 \<Rightarrow> nat option" where
  "l2_hit cache l1_idx = first_slot (\<lambda>e. l2_valid e \<and> l2_l1_index e = l1_idx) cache 0"

definition l2_victim :: "lbd_l2_cache_entry list \<Rightarrow> nat option" where
  "l2_victim cache = lru_slot l2_valid l2_lru cache 0 (- 1) None"

definition upd_l2 :: "nat \<Rightarrow> (lbd_l2_cache_entry \<Rightarrow> lbd_l2_cache_entry) \<Rightarrow> lbd_device \<Rightarrow> lbd_device" where
  "upd_l2 i f dev =
     dev\<lparr>qcow2 := (qcow2 dev)\<lparr>l2_cache := (l2_cache (qcow2 dev))[i := f (l2_cache (qcow2 dev) ! i)]\<rparr>\<rparr>"

definition upd_cl :: "nat \<Rightarrow> (lbd_cl_cache_entry \<Rightarrow> lbd_cl_cache_entry) \<Rightarrow> lbd_device \<Rightarrow> lbd_device" where
  "upd_cl i f dev =
     dev\<lparr>qcow2 := (qcow2 dev)\<lparr>cl_cache := (cl_cache (qcow2 dev))[i := f (cl_cache (qcow2 dev) ! i)]\<rparr>\<rparr>"

abbreviation l2_at :: "lbd_device \<Rightarrow> nat \<Rightarrow> lbd_l2_cache_entry" where
  "l2_at dev i \<equiv> l2_cache (qcow2 dev) ! i"

abbreviation cl_at :: "lbd_device \<Rightarrow> nat \<Rightarrow> lbd_cl_cache_entry" where
  "cl_at dev i \<equiv> cl_cache (qcow2 dev) ! i"

text \<open>\<^verbatim>\<open>q->l1_table[i]\<close>; outside the table the access is a crash.\<close>

definition l1_at :: "u32 \<Rightarrow> lbd_device \<Rightarrow> u64 \<times> lbd_device" where
  "l1_at i dev =
     (if unat i < length (l1_table (qcow2 dev)) then (l1_table (qcow2 dev) ! unat i, dev)
      else (0, set_crashed dev))"

section \<open>The L2 cache of the primary\<close>

text \<open>Write back the dirty table in slot \<open>best\<close> before it is evicted; a failure is only logged.\<close>

definition l2_evict :: "crc_fun \<Rightarrow> nat \<Rightarrow> lbd_device \<Rightarrow> lbd_device" where
  "l2_evict crc32c best dev =
     (if l2_valid (l2_at dev best) \<and> l2_dirty (l2_at dev best) then
        (case l1_at (l2_l1_index (l2_at dev best)) dev of
           (l2_phys, dev) \<Rightarrow>
             let dev =
               (if l2_phys \<noteq> 0 then
                  (case kvmalloc dev of
                     (False, dev) \<Rightarrow> dev
                   | (True, dev) \<Rightarrow>
                       let disk_l2 = l2_encode crc32c (unat (cluster_size (qcow2 dev)))
                             (unat (l2_entries (qcow2 dev))) (l2_table (l2_at dev best))
                       in snd (kernel_write disk_l2 l2_phys dev))
                else dev)
             in upd_l2 best (\<lambda>e. e\<lparr>l2_dirty := False\<rparr>) dev)
      else dev)"

text \<open>
  Load the table of \<open>l1_idx\<close> into a slot already assigned to it, from the file or as zeros;
  the result tells whether the slot is valid. Both layers load tables in this way.
\<close>

definition l2_load ::
  "crc_fun \<Rightarrow> bytes \<Rightarrow> nat \<Rightarrow> nat \<Rightarrow> u64 list \<Rightarrow> u32 \<Rightarrow> u32 \<Rightarrow> lbd_l2_cache_entry \<Rightarrow> lbd_device \<Rightarrow>
     bool \<times> lbd_l2_cache_entry \<times> lbd_device" where
  "l2_load crc32c f cs n l1 l1n l1_idx e dev =
     (if l1_idx < l1n \<and> l1 ! unat l1_idx \<noteq> 0 then
        (case kvmalloc dev of
           (False, dev) \<Rightarrow> (False, e\<lparr>l2_valid := False\<rparr>, dev)
         | (True, dev) \<Rightarrow>
             (case read_full f cs (l1 ! unat l1_idx) dev of
                (Inl _, dev) \<Rightarrow> (False, e\<lparr>l2_valid := False\<rparr>, dev)
              | (Inr raw, dev) \<Rightarrow>
                  if \<not> l2_crc_ok crc32c cs raw then (False, e\<lparr>l2_valid := False\<rparr>, dev)
                  else (True, e\<lparr>l2_table := l2_decode n raw @ drop n (l2_table e), l2_valid := True\<rparr>, dev)))
      else (True, e\<lparr>l2_table := replicate (cs div 8) 0, l2_valid := True\<rparr>, dev))"

definition lbd_qcow2_l2_get :: "crc_fun \<Rightarrow> u32 \<Rightarrow> lbd_device \<Rightarrow> ptr \<times> lbd_device" where
  "lbd_qcow2_l2_get crc32c l1_idx dev =
     (case l2_hit (l2_cache (qcow2 dev)) l1_idx of
        Some i \<Rightarrow>
          (case lbd_qcow2_lru_tick dev of (t, dev) \<Rightarrow> (Ptr i, upd_l2 i (\<lambda>e. e\<lparr>l2_lru := t\<rparr>) dev))
      | None \<Rightarrow>
          (case l2_victim (l2_cache (qcow2 dev)) of
             None \<Rightarrow> (Null, set_crashed dev)
           | Some best \<Rightarrow>
               let dev = l2_evict crc32c best dev in
               (case lbd_qcow2_lru_tick dev of
                  (t, dev) \<Rightarrow>
                    let q = qcow2 dev;
                        e = (l2_at dev best)\<lparr>l2_l1_index := l1_idx, l2_dirty := False, l2_lru := t\<rparr>
                    in (case l2_load crc32c (backing_file dev) (unat (cluster_size q)) (unat (l2_entries q))
                              (l1_table q) (l1_size q) l1_idx e dev of
                          (ok, e, dev) \<Rightarrow> (if ok then Ptr best else Null, upd_l2 best (\<lambda>_. e) dev)))))"

definition lbd_qcow2_l2_flush :: "crc_fun \<Rightarrow> nat \<Rightarrow> lbd_device \<Rightarrow> unit res \<times> lbd_device" where
  "lbd_qcow2_l2_flush crc32c i dev =
     (let e = l2_at dev i in
      if \<not> l2_valid e \<or> \<not> l2_dirty e then (Inr (), dev)
      else
        (case l1_at (l2_l1_index e) dev of
           (l2_phys, dev) \<Rightarrow>
             if l2_phys = 0 then (Inl EIO, dev)
             else
               (case kvmalloc dev of
                  (False, dev) \<Rightarrow> (Inl ENOMEM, dev)
                | (True, dev) \<Rightarrow>
                    let disk_l2 = l2_encode crc32c (unat (cluster_size (qcow2 dev)))
                          (unat (l2_entries (qcow2 dev))) (l2_table e)
                    in (case write_full disk_l2 l2_phys dev of
                          (Inl err, dev) \<Rightarrow> (Inl err, dev)
                        | (Inr _, dev) \<Rightarrow> (Inr (), upd_l2 i (\<lambda>e. e\<lparr>l2_dirty := False\<rparr>) dev)))))"

definition lbd_qcow2_l2_alloc :: "crc_fun \<Rightarrow> u32 \<Rightarrow> lbd_device \<Rightarrow> unit res \<times> lbd_device" where
  "lbd_qcow2_l2_alloc crc32c l1_idx dev =
     (let q = qcow2 dev in
      if l1_idx \<ge> l1_size q then (Inl ENOSPC, dev)
      else if l1_table q ! unat l1_idx \<noteq> 0 then (Inr (), dev)
      else
        let l2_phys = alloc_offset q;
            dev = dev\<lparr>qcow2 := q\<lparr>l1_table := (l1_table q)[unat l1_idx := l2_phys],
                                 alloc_offset := alloc_offset q + ucast (cluster_size q)\<rparr>\<rparr>
        in (case kvmalloc dev of
              (False, dev) \<Rightarrow> (Inl ENOMEM, dev)
            | (True, dev) \<Rightarrow>
                let zeros = l2_encode crc32c (unat (cluster_size q)) 0 [] in
                (case write_full zeros l2_phys dev of
                   (Inl e, dev) \<Rightarrow> (Inl e, dev)
                 | (Inr _, dev) \<Rightarrow>
                     write_full (be64 l2_phys) (l1_offset q + ucast l1_idx * 8) dev)))"

section \<open>The base layer\<close>

definition lbd_qcow2_base_lru_tick :: "lbd_qcow2_base \<Rightarrow> u64 \<times> lbd_qcow2_base" where
  "lbd_qcow2_base_lru_tick b = (b_lru_tick b, b\<lparr>b_lru_tick := b_lru_tick b + 1\<rparr>)"

definition upd_base_l2 ::
  "nat \<Rightarrow> (lbd_l2_cache_entry \<Rightarrow> lbd_l2_cache_entry) \<Rightarrow> lbd_qcow2_base \<Rightarrow> lbd_qcow2_base" where
  "upd_base_l2 i f b = b\<lparr>b_l2_cache := (b_l2_cache b)[i := f (b_l2_cache b ! i)]\<rparr>"

text \<open>
  The device argument supplies the outcomes of the file operations; only the plan and the
  crash flag of it change.
\<close>

definition lbd_qcow2_base_l2_get ::
  "crc_fun \<Rightarrow> u32 \<Rightarrow> lbd_qcow2_base \<Rightarrow> lbd_device \<Rightarrow> ptr \<times> lbd_qcow2_base \<times> lbd_device" where
  "lbd_qcow2_base_l2_get crc32c l1_idx b dev =
     (case l2_hit (b_l2_cache b) l1_idx of
        Some i \<Rightarrow>
          (case lbd_qcow2_base_lru_tick b of (t, b) \<Rightarrow> (Ptr i, upd_base_l2 i (\<lambda>e. e\<lparr>l2_lru := t\<rparr>) b, dev))
      | None \<Rightarrow>
          (case l2_victim (b_l2_cache b) of
             None \<Rightarrow> (Null, b, set_crashed dev)
           | Some best \<Rightarrow>
               (case lbd_qcow2_base_lru_tick b of
                  (t, b) \<Rightarrow>
                    let e = (b_l2_cache b ! best)\<lparr>l2_l1_index := l1_idx, l2_dirty := False, l2_lru := t\<rparr>
                    in (case l2_load crc32c (b_file b) (unat (b_cluster_size b)) (unat (b_l2_entries b))
                              (b_l1_table b) (b_l1_size b) l1_idx e dev of
                          (ok, e, dev) \<Rightarrow> (if ok then Ptr best else Null, upd_base_l2 best (\<lambda>_. e) b, dev)))))"

text \<open>
  A stored cluster of \<open>cs\<close> bytes at an L2 entry of file \<open>f\<close>, as the readers of both layers
  fetch it: the uncompressed bytes, or a big-endian size and that many compressed bytes.
  \<open>buf\<close> is the destination buffer before the call.
\<close>

definition fetch_cluster :: "bytes \<Rightarrow> nat \<Rightarrow> u64 \<Rightarrow> bytes \<Rightarrow> lbd_device \<Rightarrow> bytes res \<times> lbd_device" where
  "fetch_cluster f cs l2_entry buf dev =
     (let phys_offset = l2_entry AND LBD_QCOW2_L2_OFFSET_MASK in
      if l2_entry AND LBD_QCOW2_L2_COMPRESSED \<noteq> 0 then
        (case read_full f 4 phys_offset dev of
           (Inl e, dev) \<Rightarrow> (Inl e, dev)
         | (Inr comp_size_be, dev) \<Rightarrow>
             let comp_size = unat (of_be32 comp_size_be) in
             if comp_size > LZ4_compressBound cs then (Inl EIO, dev)
             else
               (case read_full f comp_size (phys_offset + 4) dev of
                  (Inl e, dev) \<Rightarrow> (Inl e, dev)
                | (Inr read_buf, dev) \<Rightarrow>
                    (case LZ4_decompress_safe read_buf buf of
                       None \<Rightarrow> (Inl EIO, set_crashed dev)
                     | Some (dec_len, buf) \<Rightarrow>
                         if dec_len \<noteq> int cs then (Inl EIO, dev) else (Inr buf, dev))))
      else read_full f cs phys_offset dev)"

datatype base_result = BaseData bytes | BaseHole | BaseErr errno

definition lbd_qcow2_base_read_cluster ::
  "crc_fun \<Rightarrow> u64 \<Rightarrow> bytes \<Rightarrow> lbd_qcow2_base \<Rightarrow> lbd_device \<Rightarrow> base_result \<times> lbd_qcow2_base \<times> lbd_device" where
  "lbd_qcow2_base_read_cluster crc32c cluster_index buf b dev =
     (let cs = cluster_size (qcow2 dev) in
      if \<not> b_is_qcow2 b then
        (let pos = cluster_index * ucast cs in
         if pos + ucast cs > b_size b then (BaseHole, b, dev)
         else
           (case read_full (b_file b) (unat cs) pos dev of
              (Inl e, dev) \<Rightarrow> (BaseErr e, b, dev)
            | (Inr bs, dev) \<Rightarrow> (BaseData bs, b, dev)))
      else
        let l1_idx = ucast (cluster_index div ucast (b_l2_entries b));
            l2_idx = cluster_index mod ucast (b_l2_entries b)
        in (case lbd_qcow2_base_l2_get crc32c l1_idx b dev of
              (Ptr i, b, dev) \<Rightarrow>
                let l2_entry = l2_table (b_l2_cache b ! i) ! unat l2_idx in
                if l2_entry = 0 then (BaseHole, b, dev)
                else
                  (case fetch_cluster (b_file b) (unat cs) l2_entry buf dev of
                     (Inl e, dev) \<Rightarrow> (BaseErr e, b, dev)
                   | (Inr bs, dev) \<Rightarrow> (BaseData bs, b, dev))
            | (_, b, dev) \<Rightarrow> (BaseErr EIO, b, dev)))"

section \<open>The cluster cache\<close>

definition lbd_qcow2_cl_find :: "u64 \<Rightarrow> lbd_device \<Rightarrow> ptr \<times> lbd_device" where
  "lbd_qcow2_cl_find cluster_index dev =
     (case first_slot (\<lambda>e. cl_valid e \<and> cl_cluster_index e = cluster_index) (cl_cache (qcow2 dev)) 0 of
        Some i \<Rightarrow>
          (case lbd_qcow2_lru_tick dev of (t, dev) \<Rightarrow> (Ptr i, upd_cl i (\<lambda>e. e\<lparr>cl_lru := t\<rparr>) dev))
      | None \<Rightarrow> (Null, dev))"

definition lbd_qcow2_cl_invalidate :: "u64 \<Rightarrow> lbd_device \<Rightarrow> lbd_device" where
  "lbd_qcow2_cl_invalidate cluster_index dev =
     (case first_slot (\<lambda>e. cl_valid e \<and> cl_cluster_index e = cluster_index) (cl_cache (qcow2 dev)) 0 of
        Some i \<Rightarrow> upd_cl i (\<lambda>e. e\<lparr>cl_valid := False\<rparr>) dev
      | None \<Rightarrow> dev)"

definition lbd_qcow2_cl_alloc_entry :: "lbd_device \<Rightarrow> ptr \<times> lbd_device" where
  "lbd_qcow2_cl_alloc_entry dev =
     (case lru_slot cl_valid cl_lru (cl_cache (qcow2 dev)) 0 (- 1) None of
        None \<Rightarrow> (Null, set_crashed dev)
      | Some best \<Rightarrow> (Ptr best, upd_cl best (\<lambda>e. e\<lparr>cl_valid := False\<rparr>) dev))"

definition lbd_qcow2_cl_get_zero :: "u64 \<Rightarrow> lbd_device \<Rightarrow> ptr \<times> lbd_device" where
  "lbd_qcow2_cl_get_zero cluster_index dev =
     (case lbd_qcow2_cl_find cluster_index dev of
        (Ptr i, dev) \<Rightarrow> (Ptr i, dev)
      | (_, dev) \<Rightarrow>
          (case lbd_qcow2_cl_alloc_entry dev of
             (Ptr i, dev) \<Rightarrow>
               (case lbd_qcow2_lru_tick dev of
                  (t, dev) \<Rightarrow>
                    (Ptr i, upd_cl i (\<lambda>e. e\<lparr>cl_cluster_index := cluster_index, cl_lru := t, cl_dirty := False,
                                          cl_data := replicate (unat (cluster_size (qcow2 dev))) 0,
                                          cl_valid := True\<rparr>) dev))
           | (p, dev) \<Rightarrow> (p, dev)))"

text \<open>
  Fill the cluster cache slot \<open>i\<close>, reserved for the cluster, from the L2 entry, the base layer
  or with zeros. A failure leaves the slot invalid; the bytes a failed read leaves in it are
  not represented.
\<close>

definition cl_fill :: "crc_fun \<Rightarrow> nat \<Rightarrow> u64 \<Rightarrow> u64 \<Rightarrow> lbd_device \<Rightarrow> ptr \<times> lbd_device" where
  "cl_fill crc32c i cluster_index l2_entry dev =
     (let cs = unat (cluster_size (qcow2 dev));
          done = (\<lambda>bs dev. (Ptr i, upd_cl i (\<lambda>e. e\<lparr>cl_data := bs, cl_valid := True\<rparr>) dev))
      in if l2_entry = 0 then
           (case base dev of
              Some b \<Rightarrow>
                (case lbd_qcow2_base_read_cluster crc32c cluster_index (cl_data (cl_at dev i)) b dev of
                   (r, b, dev) \<Rightarrow>
                     let dev = dev\<lparr>base := Some b\<rparr> in
                     (case r of
                        BaseHole \<Rightarrow>
                          if miss_handler dev \<noteq> None then (ErrPtr ENODATA, dev) else done (replicate cs 0) dev
                      | BaseErr _ \<Rightarrow> (Null, dev)
                      | BaseData bs \<Rightarrow> done bs dev))
            | None \<Rightarrow>
                if miss_handler dev \<noteq> None then (ErrPtr ENODATA, dev) else done (replicate cs 0) dev)
         else
           (case fetch_cluster (backing_file dev) cs l2_entry (cl_data (cl_at dev i)) dev of
              (Inl _, dev) \<Rightarrow> (Null, dev)
            | (Inr bs, dev) \<Rightarrow> done bs dev))"

definition lbd_qcow2_cl_load :: "crc_fun \<Rightarrow> u64 \<Rightarrow> lbd_device \<Rightarrow> ptr \<times> lbd_device" where
  "lbd_qcow2_cl_load crc32c cluster_index dev =
     (case lbd_qcow2_cl_find cluster_index dev of
        (Ptr i, dev) \<Rightarrow> (Ptr i, dev)
      | (_, dev) \<Rightarrow>
          let l1_idx = ucast (cluster_index div ucast (l2_entries (qcow2 dev)));
              l2_idx = cluster_index mod ucast (l2_entries (qcow2 dev))
          in (case lbd_qcow2_l2_get crc32c l1_idx dev of
                (Ptr k, dev) \<Rightarrow>
                  let l2_entry = l2_table (l2_at dev k) ! unat l2_idx in
                  (case lbd_qcow2_cl_alloc_entry dev of
                     (Ptr i, dev) \<Rightarrow>
                       (case lbd_qcow2_lru_tick dev of
                          (t, dev) \<Rightarrow>
                            cl_fill crc32c i cluster_index l2_entry
                              (upd_cl i (\<lambda>e. e\<lparr>cl_cluster_index := cluster_index, cl_lru := t,
                                                 cl_dirty := False\<rparr>) dev))
                   | (p, dev) \<Rightarrow> (p, dev))
              | (_, dev) \<Rightarrow> (Null, dev)))"

fun flush_slots :: "crc_fun \<Rightarrow> nat list \<Rightarrow> lbd_device \<Rightarrow> lbd_device" where
  "flush_slots crc32c [] dev = dev"
| "flush_slots crc32c (i # is) dev =
     flush_slots crc32c is
       (if l2_valid (l2_at dev i) \<and> l2_dirty (l2_at dev i)
        then snd (lbd_qcow2_l2_flush crc32c i dev) else dev)"

definition lbd_qcow2_flush_all_l2 :: "crc_fun \<Rightarrow> lbd_device \<Rightarrow> lbd_device" where
  "lbd_qcow2_flush_all_l2 crc32c dev = flush_slots crc32c [0..<LBD_QCOW2_L2_CACHE_SIZE] dev"

end
