(* ===== verification/Qcow2_Io.thy ===== *)
theory Qcow2_Io
  imports Qcow2_Cache "HOL-Library.Monad_Syntax"
begin

text \<open>
  The request paths of the image (\<^verbatim>\<open>src/src/lbd_qcow2.c\<close>: \<open>lbd_qcow2_read\<close>,
  \<open>lbd_qcow2_write\<close>, \<open>lbd_qcow2_discard\<close>, \<open>lbd_qcow2_invalidate_for_retry\<close>) and the wait for
  the miss handler (\<^verbatim>\<open>src/src/lbd_main.c\<close>: \<open>lbd_qcow2_handle_miss\<close>).

  A loop over the chunks of a request is a partial function: \<open>None\<close> means that it does not
  return. One iteration is a definition of its own.
\<close>

section \<open>Chunks\<close>

text \<open>
  The chunk at a guest offset: its cluster, the offset in it, and how many of the remaining
  bytes lie in it.
\<close>

definition chunk_cluster :: "lbd_qcow2 \<Rightarrow> u64 \<Rightarrow> u64" where
  "chunk_cluster q guest_offset = drop_bit (unat (cluster_bits q)) guest_offset"

definition chunk_off :: "lbd_qcow2 \<Rightarrow> u64 \<Rightarrow> u32" where
  "chunk_off q guest_offset = ucast (guest_offset AND ucast (cluster_size q - 1))"

definition chunk_bytes :: "lbd_qcow2 \<Rightarrow> u64 \<Rightarrow> u32 \<Rightarrow> u32" where
  "chunk_bytes q guest_offset remaining = min remaining (cluster_size q - chunk_off q guest_offset)"

definition chunk_l1 :: "lbd_qcow2 \<Rightarrow> u64 \<Rightarrow> u32" where
  "chunk_l1 q cluster_idx = ucast (cluster_idx div ucast (l2_entries q))"

definition chunk_l2 :: "lbd_qcow2 \<Rightarrow> u64 \<Rightarrow> u32" where
  "chunk_l2 q cluster_idx = ucast (cluster_idx mod ucast (l2_entries q))"

section \<open>Reading\<close>

text \<open>
  Post the miss and wait for the handler's answer; without an answer the call does not
  return. The handler may have changed the base file meanwhile.
\<close>

definition lbd_qcow2_handle_miss :: "u64 \<Rightarrow> lbd_device \<Rightarrow> (lbd_miss_action \<times> lbd_device) option" where
  "lbd_qcow2_handle_miss cluster_index dev =
     (if miss_handler dev = None then Some (LBD_MISS_CONTINUE, dev)
      else
        (case miss_replies dev of
           [] \<Rightarrow> None
         | MissReply action f # rest \<Rightarrow>
             let dev = dev\<lparr>miss_replies := rest\<rparr> in
             Some (action,
                   (case (f, base dev) of
                      (Some f, Some b) \<Rightarrow> dev\<lparr>base := Some (b\<lparr>b_file := f\<rparr>)\<rparr>
                    | _ \<Rightarrow> dev))))"

definition lbd_qcow2_invalidate_for_retry :: "u64 \<Rightarrow> lbd_device \<Rightarrow> lbd_device" where
  "lbd_qcow2_invalidate_for_retry cluster_index dev =
     (let q = qcow2 dev;
          dev = dev\<lparr>qcow2 := q\<lparr>cl_cache :=
            map (\<lambda>e. if cl_valid e \<and> cl_cluster_index e = cluster_index then e\<lparr>cl_valid := False\<rparr> else e)
              (cl_cache q)\<rparr>\<rparr>
      in case base dev of
           Some b \<Rightarrow>
             if b_is_qcow2 b then
               (let l1_idx = ucast (cluster_index div ucast (b_l2_entries b)) in
                dev\<lparr>base := Some (b\<lparr>b_l2_cache :=
                  map (\<lambda>e. if l2_valid e \<and> l2_l1_index e = l1_idx then e\<lparr>l2_valid := False\<rparr> else e)
                    (b_l2_cache b)\<rparr>)\<rparr>)
             else dev
         | None \<Rightarrow> dev)"

text \<open>
  The data of one chunk of a read, with the retry loop around the miss handler; \<open>retries\<close> is
  the C counter.
\<close>

function read_retry ::
  "crc_fun \<Rightarrow> u64 \<Rightarrow> nat \<Rightarrow> nat \<Rightarrow> nat \<Rightarrow> lbd_device \<Rightarrow> (bytes res \<times> lbd_device) option" where
  "read_retry crc32c cluster_idx off n retries dev =
     (case lbd_qcow2_cl_load crc32c cluster_idx dev of
        (Ptr i, dev) \<Rightarrow> Some (Inr (read_at (cl_data (cl_at dev i)) off n), dev)
      | (Null, dev) \<Rightarrow> Some (Inl EIO, dev)
      | (ErrPtr _, dev) \<Rightarrow>
          (case lbd_qcow2_handle_miss cluster_idx dev of
             None \<Rightarrow> None
           | Some (action, dev) \<Rightarrow>
               if action = LBD_MISS_RETRY \<and> retries < 3
               then read_retry crc32c cluster_idx off n (retries + 1)
                      (lbd_qcow2_invalidate_for_retry cluster_idx dev)
               else Some (Inr (replicate n 0), dev)))"
  by pat_completeness auto
termination
  by (relation "measure (\<lambda>(crc, c, off, n, retries, dev). 3 - retries)") auto

declare read_retry.simps [simp del]

text \<open>The \<^verbatim>\<open>while (remaining > 0)\<close> loop of one segment: the bytes read and the next guest offset.\<close>

partial_function (option) read_segment ::
  "crc_fun \<Rightarrow> u64 \<Rightarrow> u32 \<Rightarrow> lbd_device \<Rightarrow> ((bytes \<times> u64) res \<times> lbd_device) option" where
  "read_segment crc32c guest_offset remaining dev =
     (if remaining > 0 then
        (let q = qcow2 dev;
             bytes = chunk_bytes q guest_offset remaining
         in read_retry crc32c (chunk_cluster q guest_offset) (unat (chunk_off q guest_offset)) (unat bytes) 0 dev \<bind>
              (\<lambda>(r, dev). case r of
                 Inl e \<Rightarrow> Some (Inl e, dev)
               | Inr bs \<Rightarrow>
                   read_segment crc32c (guest_offset + ucast bytes) (remaining - bytes) dev \<bind>
                     (\<lambda>(r, dev). case r of
                        Inl e \<Rightarrow> Some (Inl e, dev)
                      | Inr (rest, guest_offset) \<Rightarrow> Some (Inr (bs @ rest, guest_offset), dev))))
      else Some (Inr ([], guest_offset), dev))"

fun read_segments ::
  "crc_fun \<Rightarrow> u64 \<Rightarrow> bytes list \<Rightarrow> lbd_device \<Rightarrow> (bytes list res \<times> lbd_device) option" where
  "read_segments crc32c guest_offset [] dev = Some (Inr [], dev)"
| "read_segments crc32c guest_offset (seg # segs) dev =
     (case read_segment crc32c guest_offset (of_nat (length seg)) dev of
        None \<Rightarrow> None
      | Some (Inl e, dev) \<Rightarrow> Some (Inl e, dev)
      | Some (Inr (bs, guest_offset), dev) \<Rightarrow>
          (case read_segments crc32c guest_offset segs dev of
             None \<Rightarrow> None
           | Some (Inl e, dev) \<Rightarrow> Some (Inl e, dev)
           | Some (Inr rest, dev) \<Rightarrow> Some (Inr (bs # rest), dev)))"

definition lbd_qcow2_read ::
  "crc_fun \<Rightarrow> request \<Rightarrow> lbd_device \<Rightarrow> (bytes list res \<times> lbd_device) option" where
  "lbd_qcow2_read crc32c rq dev =
     (let guest_offset = push_bit SECTOR_SHIFT (rq_pos rq) in
      case read_segments crc32c guest_offset (rq_segs rq) dev of
        None \<Rightarrow> None
      | Some (Inl e, dev) \<Rightarrow> Some (Inl e, dev)
      | Some (Inr segs, dev) \<Rightarrow>
          Some (Inr segs, dev\<lparr>stat_reads := stat_reads dev + 1,
                              stat_read_bytes := stat_read_bytes dev + ucast (rq_bytes rq)\<rparr>))"

section \<open>Storing a cluster\<close>

text \<open>
  Where the new version of a cluster goes: over the old extent when it fits, otherwise the
  old extent is freed and space allocated. The write path checks the result of freeing the
  extent (\<open>check\<close>), the discard path does not.
\<close>

definition place_extent ::
  "bool \<Rightarrow> u64 \<Rightarrow> u64 \<Rightarrow> u64 \<Rightarrow> lbd_device \<Rightarrow> u64 res \<times> lbd_device" where
  "place_extent check old_l2_entry old_alloc new_alloc dev =
     (if old_alloc > 0 \<and> new_alloc \<le> old_alloc
      then (Inr (old_l2_entry AND LBD_QCOW2_L2_OFFSET_MASK),
            dev\<lparr>stat_alloc_reused := stat_alloc_reused dev + 1\<rparr>)
      else
        (case (if old_alloc > 0
               then lbd_qcow2_free_extent (old_l2_entry AND LBD_QCOW2_L2_OFFSET_MASK) old_alloc dev
               else (Inr (), dev)) of
           (r, dev) \<Rightarrow>
             if check \<and> isl r then (Inl (projl r), dev)
             else (case lbd_qcow2_alloc_space new_alloc dev of (phys, dev) \<Rightarrow> (Inr phys, dev))))"

text \<open>Compress a cluster and write it to its place; the result is the new L2 entry.\<close>

definition store_cluster ::
  "bool \<Rightarrow> bytes \<Rightarrow> u64 \<Rightarrow> u64 \<Rightarrow> lbd_device \<Rightarrow> u64 res \<times> lbd_device" where
  "store_cluster check data old_l2_entry old_alloc dev =
     (let comp_buf = LZ4_compress_fast_extState data;
          comp_len = length comp_buf;
          cs = cluster_size (qcow2 dev)
      in if comp_len > 0 \<and> (of_nat comp_len :: u32) < cs - 4 then
           (case place_extent check old_l2_entry old_alloc (ALIGN_4096 (4 + of_nat comp_len)) dev of
              (Inl e, dev) \<Rightarrow> (Inl e, dev)
            | (Inr phys, dev) \<Rightarrow>
                (case write_full (be32 (of_nat comp_len)) phys dev of
                   (Inl e, dev) \<Rightarrow> (Inl e, dev)
                 | (Inr _, dev) \<Rightarrow>
                     (case write_full comp_buf (phys + 4) dev of
                        (Inl e, dev) \<Rightarrow> (Inl e, dev)
                      | (Inr _, dev) \<Rightarrow>
                          (Inr (LBD_QCOW2_L2_COMPRESSED OR phys),
                           dev\<lparr>stat_compressed := stat_compressed dev + 1\<rparr>))))
         else
           (case place_extent check old_l2_entry old_alloc (ucast cs) dev of
              (Inl e, dev) \<Rightarrow> (Inl e, dev)
            | (Inr phys, dev) \<Rightarrow>
                (case write_full data phys dev of
                   (Inl e, dev) \<Rightarrow> (Inl e, dev)
                 | (Inr _, dev) \<Rightarrow>
                     (Inr phys, dev\<lparr>stat_uncompressed := stat_uncompressed dev + 1\<rparr>))))"

text \<open>
  The tail common to both paths: store the cluster in slot \<open>i\<close> of the cluster cache, enter it
  into the L2 table in slot \<open>k\<close>, and write the table and the allocation cursor.
\<close>

definition commit_cluster ::
  "crc_fun \<Rightarrow> bool \<Rightarrow> nat \<Rightarrow> nat \<Rightarrow> u32 \<Rightarrow> u64 \<Rightarrow> u64 \<Rightarrow> lbd_device \<Rightarrow> unit res \<times> lbd_device" where
  "commit_cluster crc32c check i k l2_idx old_l2_entry old_alloc dev =
     (case store_cluster check (cl_data (cl_at dev i)) old_l2_entry old_alloc dev of
        (Inl e, dev) \<Rightarrow> (Inl e, dev)
      | (Inr entry, dev) \<Rightarrow>
          let dev = upd_l2 k (\<lambda>e. e\<lparr>l2_table := (l2_table e)[unat l2_idx := entry], l2_dirty := True\<rparr>) dev in
          (case lbd_qcow2_l2_flush crc32c k dev of
             (Inl e, dev) \<Rightarrow> (Inl e, dev)
           | (Inr _, dev) \<Rightarrow> lbd_qcow2_write_alloc_offset dev))"

section \<open>Writing\<close>

text \<open>One iteration: the cluster's cache slot (zeroed on a miss), then its table's slot.\<close>

definition write_chunk ::
  "crc_fun \<Rightarrow> bytes \<Rightarrow> u64 \<Rightarrow> u32 \<Rightarrow> lbd_device \<Rightarrow> unit res \<times> lbd_device" where
  "write_chunk crc32c data cluster_idx off_in_cluster dev =
     (let l1_idx = chunk_l1 (qcow2 dev) cluster_idx;
          l2_idx = chunk_l2 (qcow2 dev) cluster_idx
      in case lbd_qcow2_l2_alloc crc32c l1_idx dev of
           (Inl e, dev) \<Rightarrow> (Inl e, dev)
         | (Inr _, dev) \<Rightarrow>
             (case (case lbd_qcow2_cl_load crc32c cluster_idx dev of
                      (ErrPtr _, dev) \<Rightarrow> lbd_qcow2_cl_get_zero cluster_idx dev
                    | r \<Rightarrow> r) of
                (Ptr i, dev) \<Rightarrow>
                  (case lbd_qcow2_l2_get crc32c l1_idx dev of
                     (Ptr k, dev) \<Rightarrow>
                       let old_l2_entry = l2_table (l2_at dev k) ! unat l2_idx in
                       (case lbd_qcow2_read_old_alloc_size old_l2_entry dev of
                          (old_alloc, dev) \<Rightarrow>
                            commit_cluster crc32c True i k l2_idx old_l2_entry old_alloc
                              (upd_cl i (\<lambda>e. e\<lparr>cl_data := blit (cl_data e) (unat off_in_cluster) data\<rparr>) dev))
                   | (_, dev) \<Rightarrow> (Inl EIO, dev))
              | (_, dev) \<Rightarrow> (Inl EIO, dev)))"

partial_function (option) write_loop ::
  "crc_fun \<Rightarrow> bytes \<Rightarrow> nat \<Rightarrow> u64 \<Rightarrow> lbd_device \<Rightarrow> (unit res \<times> lbd_device) option" where
  "write_loop crc32c write_data offset guest_offset dev =
     (if offset < length write_data then
        (let q = qcow2 dev;
             bytes = chunk_bytes q guest_offset (of_nat (length write_data - offset))
         in case write_chunk crc32c (read_at write_data offset (unat bytes)) (chunk_cluster q guest_offset)
                   (chunk_off q guest_offset) dev of
              (Inl e, dev) \<Rightarrow> Some (Inl e, dev)
            | (Inr _, dev) \<Rightarrow>
                write_loop crc32c write_data (offset + unat bytes) (guest_offset + ucast bytes) dev)
      else Some (Inr (), dev))"

definition lbd_qcow2_write :: "crc_fun \<Rightarrow> request \<Rightarrow> lbd_device \<Rightarrow> (unit res \<times> lbd_device) option" where
  "lbd_qcow2_write crc32c rq dev =
     (let guest_offset = push_bit SECTOR_SHIFT (rq_pos rq) in
      case kvmalloc dev of
        (False, dev) \<Rightarrow> Some (Inl ENOMEM, dev)
      | (True, dev) \<Rightarrow> write_loop crc32c (concat (rq_segs rq)) 0 guest_offset dev)"

section \<open>Discarding\<close>

definition discard_full :: "crc_fun \<Rightarrow> u64 \<Rightarrow> lbd_device \<Rightarrow> unit res \<times> lbd_device" where
  "discard_full crc32c cluster_idx dev =
     (let q = qcow2 dev;
          l1_idx = chunk_l1 q cluster_idx;
          l2_idx = chunk_l2 q cluster_idx;
          (r, dev) =
            (if l1_idx < l1_size q \<and> l1_table q ! unat l1_idx \<noteq> 0 then
               (case lbd_qcow2_l2_get crc32c l1_idx dev of
                  (Ptr k, dev) \<Rightarrow>
                    if l2_table (l2_at dev k) ! unat l2_idx \<noteq> 0 then
                      (let old_l2 = l2_table (l2_at dev k) ! unat l2_idx in
                       case lbd_qcow2_read_old_alloc_size old_l2 dev of
                         (old_sz, dev) \<Rightarrow>
                           let dev =
                             (if old_sz > 0
                              then snd (lbd_qcow2_free_extent (old_l2 AND LBD_QCOW2_L2_OFFSET_MASK) old_sz dev)
                              else dev);
                             dev = upd_l2 k (\<lambda>e. e\<lparr>l2_table := (l2_table e)[unat l2_idx := 0],
                                                    l2_dirty := True\<rparr>) dev
                           in lbd_qcow2_l2_flush crc32c k dev)
                    else (Inr (), dev)
                | (_, dev) \<Rightarrow> (Inr (), dev))
             else (Inr (), dev))
      in case r of
           Inl e \<Rightarrow> (Inl e, dev)
         | Inr _ \<Rightarrow> (Inr (), lbd_qcow2_cl_invalidate cluster_idx dev))"

definition discard_partial ::
  "crc_fun \<Rightarrow> u64 \<Rightarrow> u32 \<Rightarrow> u32 \<Rightarrow> lbd_device \<Rightarrow> unit res \<times> lbd_device" where
  "discard_partial crc32c cluster_idx off_in_cluster bytes dev =
     (let l1_idx = chunk_l1 (qcow2 dev) cluster_idx;
          l2_idx = chunk_l2 (qcow2 dev) cluster_idx
      in case lbd_qcow2_l2_alloc crc32c l1_idx dev of
           (Inl e, dev) \<Rightarrow> (Inl e, dev)
         | (Inr _, dev) \<Rightarrow>
             (case lbd_qcow2_cl_load crc32c cluster_idx dev of
                (ErrPtr _, dev) \<Rightarrow> (Inr (), dev)
              | (Null, dev) \<Rightarrow> (Inl EIO, dev)
              | (Ptr i, dev) \<Rightarrow>
                  (case lbd_qcow2_l2_get crc32c l1_idx dev of
                     (Ptr k, dev) \<Rightarrow>
                       if l2_table (l2_at dev k) ! unat l2_idx = 0 then (Inr (), dev)
                       else
                         let dev = upd_cl i (\<lambda>e. e\<lparr>cl_data :=
                               blit (cl_data e) (unat off_in_cluster) (replicate (unat bytes) 0)\<rparr>) dev;
                             old_l2 = l2_table (l2_at dev k) ! unat l2_idx
                         in (case lbd_qcow2_read_old_alloc_size old_l2 dev of
                               (old_alloc, dev) \<Rightarrow>
                                 commit_cluster crc32c False i k l2_idx old_l2 old_alloc dev)
                   | (_, dev) \<Rightarrow> (Inl EIO, dev))))"

partial_function (option) discard_loop ::
  "crc_fun \<Rightarrow> u64 \<Rightarrow> u32 \<Rightarrow> lbd_device \<Rightarrow> (unit res \<times> lbd_device) option" where
  "discard_loop crc32c guest_offset remaining dev =
     (if remaining > 0 then
        (let q = qcow2 dev;
             cluster_idx = chunk_cluster q guest_offset;
             off_in_cluster = chunk_off q guest_offset;
             bytes = chunk_bytes q guest_offset remaining
         in case (if off_in_cluster = 0 \<and> bytes = cluster_size q
                  then discard_full crc32c cluster_idx dev
                  else discard_partial crc32c cluster_idx off_in_cluster bytes dev) of
              (Inl e, dev) \<Rightarrow> Some (Inl e, dev)
            | (Inr _, dev) \<Rightarrow> discard_loop crc32c (guest_offset + ucast bytes) (remaining - bytes) dev)
      else Some (Inr (), dev))"

definition lbd_qcow2_discard :: "crc_fun \<Rightarrow> request \<Rightarrow> lbd_device \<Rightarrow> (unit res \<times> lbd_device) option" where
  "lbd_qcow2_discard crc32c rq dev =
     (let guest_offset = push_bit SECTOR_SHIFT (rq_pos rq)
      in discard_loop crc32c guest_offset (rq_bytes rq) dev)"

end
