(* ===== verification/Qcow2_Init.thy ===== *)
theory Qcow2_Init
  imports Qcow2_Io
begin

text \<open>
  Attaching and detaching images (\<^verbatim>\<open>src/src/lbd_qcow2.c\<close>: \<open>lbd_qcow2_init\<close>,
  \<open>lbd_qcow2_destroy\<close>, \<open>lbd_qcow2_base_init\<close>, \<open>lbd_qcow2_base_destroy\<close>,
  \<open>lbd_qcow2_reload_l1\<close>, \<open>lbd_qcow2_invalidate_all_caches\<close>, \<open>lbd_qcow2_swap_base\<close>).

  Opening a path is the parameter \<open>filp_open\<close>. Memory from \<open>kvmalloc\<close> is shown as zeros; no
  operation reads a cache slot before it has been filled. Freeing memory has no counterpart.
\<close>

text \<open>\<open>n\<close> allocations in a row; the first failure ends them.\<close>

fun kvmalloc_n :: "nat \<Rightarrow> lbd_device \<Rightarrow> bool \<times> lbd_device" where
  "kvmalloc_n 0 dev = (True, dev)"
| "kvmalloc_n (Suc n) dev =
     (case kvmalloc dev of (False, dev) \<Rightarrow> (False, dev) | (True, dev) \<Rightarrow> kvmalloc_n n dev)"

definition empty_l2_entry :: "nat \<Rightarrow> lbd_l2_cache_entry" where
  "empty_l2_entry cs =
     \<lparr>l2_l1_index = 0, l2_valid = False, l2_dirty = False, l2_lru = 0, l2_table = replicate (cs div 8) 0\<rparr>"

definition empty_cl_entry :: "nat \<Rightarrow> lbd_cl_cache_entry" where
  "empty_cl_entry cs =
     \<lparr>cl_cluster_index = 0, cl_valid = False, cl_dirty = False, cl_lru = 0, cl_data = replicate cs 0\<rparr>"

section \<open>The primary image\<close>

text \<open>The fields read from the header.\<close>

definition init_fields :: "bytes \<Rightarrow> lbd_qcow2 \<Rightarrow> lbd_qcow2" where
  "init_fields hdr q =
     (let cb = lbd_qcow2_hdr_cluster_bits hdr;
          cs = push_bit (unat cb) 1
      in q\<lparr>cluster_bits := cb,
           cluster_size := cs,
           l2_entries := (cs - of_nat LBD_QCOW2_L2_TRAILER_SIZE) div 8,
           virtual_size := lbd_qcow2_hdr_virtual_size hdr,
           l1_offset := lbd_qcow2_hdr_l1_table_offset hdr,
           l1_size := lbd_qcow2_hdr_l1_size hdr,
           alloc_offset := lbd_qcow2_hdr_alloc_offset hdr,
           free_list_head := lbd_qcow2_hdr_free_list hdr,
           lru_tick := 0\<rparr>)"

text \<open>The L1 table at an offset of a file, converted to host order.\<close>

definition read_l1 :: "bytes \<Rightarrow> u32 \<Rightarrow> u64 \<Rightarrow> lbd_device \<Rightarrow> u64 list res \<times> lbd_device" where
  "read_l1 f n off dev =
     (case kvmalloc_n 2 dev of
        (False, dev) \<Rightarrow> (Inl ENOMEM, dev)
      | (True, dev) \<Rightarrow>
          (case read_full f (unat n * 8) off dev of
             (Inl e, dev) \<Rightarrow> (Inl e, dev)
           | (Inr disk_l1, dev) \<Rightarrow> (Inr (l2_decode (unat n) disk_l1), dev)))"

text \<open>The two caches and the two buffers, in the order of their allocation.\<close>

definition init_caches :: "lbd_device \<Rightarrow> unit res \<times> lbd_device" where
  "init_caches dev =
     (case kvmalloc_n (LBD_QCOW2_L2_CACHE_SIZE + LBD_QCOW2_CL_CACHE_SIZE + 2) dev of
        (False, dev) \<Rightarrow> (Inl ENOMEM, dev\<lparr>qcow2 := (qcow2 dev)\<lparr>l1_table := []\<rparr>\<rparr>)
      | (True, dev) \<Rightarrow>
          let cs = unat (cluster_size (qcow2 dev)) in
          (Inr (), dev\<lparr>qcow2 := (qcow2 dev)
             \<lparr>l2_cache := replicate LBD_QCOW2_L2_CACHE_SIZE (empty_l2_entry cs),
              cl_cache := replicate LBD_QCOW2_CL_CACHE_SIZE (empty_cl_entry cs)\<rparr>\<rparr>))"

definition lbd_qcow2_init :: "lbd_device \<Rightarrow> unit res \<times> lbd_device" where
  "lbd_qcow2_init dev =
     (case kvmalloc dev of
        (False, dev) \<Rightarrow> (Inl ENOMEM, dev)
      | (True, dev) \<Rightarrow>
          (case read_full (backing_file dev) LBD_QCOW2_HEADER_SIZE 0 dev of
             (Inl e, dev) \<Rightarrow> (Inl e, dev)
           | (Inr hdr, dev) \<Rightarrow>
               if lbd_qcow2_hdr_magic hdr \<noteq> LBD_QCOW2_MAGIC then (Inl EINVAL, dev)
               else if lbd_qcow2_hdr_version hdr \<noteq> LBD_QCOW2_VERSION then (Inl EINVAL, dev)
               else if lbd_qcow2_hdr_cluster_bits hdr < 12 \<or> lbd_qcow2_hdr_cluster_bits hdr > 24
               then (Inl EINVAL, dev\<lparr>qcow2 := (qcow2 dev)\<lparr>cluster_bits := lbd_qcow2_hdr_cluster_bits hdr\<rparr>\<rparr>)
               else
                 let dev = dev\<lparr>qcow2 := init_fields hdr (qcow2 dev)\<rparr> in
                 (case read_l1 (backing_file dev) (l1_size (qcow2 dev)) (l1_offset (qcow2 dev)) dev of
                    (Inl e, dev) \<Rightarrow> (Inl e, dev\<lparr>qcow2 := (qcow2 dev)\<lparr>l1_table := []\<rparr>\<rparr>)
                  | (Inr l1, dev) \<Rightarrow> init_caches (dev\<lparr>qcow2 := (qcow2 dev)\<lparr>l1_table := l1\<rparr>\<rparr>))))"

definition lbd_qcow2_destroy :: "crc_fun \<Rightarrow> lbd_device \<Rightarrow> lbd_device" where
  "lbd_qcow2_destroy crc32c dev =
     (let dev = flush_slots crc32c [0..<LBD_QCOW2_L2_CACHE_SIZE] dev;
          dev = snd (lbd_qcow2_write_alloc_offset dev);
          dev = snd (lbd_qcow2_write_free_list_head dev)
      in dev\<lparr>qcow2 := (qcow2 dev)\<lparr>l1_table := []\<rparr>\<rparr>)"

section \<open>The base layer\<close>

text \<open>A qcow2 base: its header and L1 table, checked against the primary.\<close>

definition base_init_qcow2 :: "bytes \<Rightarrow> lbd_device \<Rightarrow> lbd_qcow2_base res \<times> lbd_device" where
  "base_init_qcow2 f dev =
     (let q = qcow2 dev in
      case kvmalloc dev of
        (False, dev) \<Rightarrow> (Inl ENOMEM, dev)
      | (True, dev) \<Rightarrow>
          (case read_full f LBD_QCOW2_HEADER_SIZE 0 dev of
             (Inl e, dev) \<Rightarrow> (Inl e, dev)
           | (Inr hdr, dev) \<Rightarrow>
               let cb = lbd_qcow2_hdr_cluster_bits hdr;
                   cs = push_bit (unat cb) 1 :: u32
               in if lbd_qcow2_hdr_version hdr \<noteq> LBD_QCOW2_VERSION then (Inl EINVAL, dev)
                  else if cb \<noteq> cluster_bits q then (Inl EINVAL, dev)
                  else if lbd_qcow2_hdr_virtual_size hdr \<noteq> virtual_size q then (Inl EINVAL, dev)
                  else
                    (case read_l1 f (lbd_qcow2_hdr_l1_size hdr) (lbd_qcow2_hdr_l1_table_offset hdr) dev of
                       (Inl e, dev) \<Rightarrow> (Inl e, dev)
                     | (Inr l1, dev) \<Rightarrow>
                         (case kvmalloc_n (LBD_QCOW2_L2_CACHE_SIZE + 1) dev of
                            (False, dev) \<Rightarrow> (Inl ENOMEM, dev)
                          | (True, dev) \<Rightarrow>
                              (Inr \<lparr>b_file = f, b_is_qcow2 = True, b_size = lbd_qcow2_hdr_virtual_size hdr,
                                    b_cluster_bits = cb, b_cluster_size = cs,
                                    b_l2_entries = (cs - of_nat LBD_QCOW2_L2_TRAILER_SIZE) div 8,
                                    b_l1_table = l1, b_l1_size = lbd_qcow2_hdr_l1_size hdr,
                                    b_l1_offset = lbd_qcow2_hdr_l1_table_offset hdr,
                                    b_l2_cache = replicate LBD_QCOW2_L2_CACHE_SIZE (empty_l2_entry (unat cs)),
                                    b_lru_tick = 0\<rparr>, dev)))))"

text \<open>A raw base is as large as the primary's virtual disk.\<close>

definition base_init_raw :: "bytes \<Rightarrow> lbd_device \<Rightarrow> lbd_qcow2_base res \<times> lbd_device" where
  "base_init_raw f dev =
     (if of_nat (length f) \<noteq> virtual_size (qcow2 dev) then (Inl EINVAL, dev)
      else (Inr \<lparr>b_file = f, b_is_qcow2 = False, b_size = of_nat (length f), b_cluster_bits = 0,
                 b_cluster_size = 0, b_l2_entries = 0, b_l1_table = [], b_l1_size = 0, b_l1_offset = 0,
                 b_l2_cache = [], b_lru_tick = 0\<rparr>, dev))"

definition lbd_qcow2_base_init ::
  "(bytes \<Rightarrow> opened_file res) \<Rightarrow> bytes \<Rightarrow> lbd_device \<Rightarrow> unit res \<times> lbd_device" where
  "lbd_qcow2_base_init filp_open path dev =
     (case filp_open path of
        Inl e \<Rightarrow> (Inl e, dev)
      | Inr f \<Rightarrow>
          if \<not> f_regular f then (Inl EINVAL, dev)
          else if length (f_contents f) = 0 then (Inl EINVAL, dev)
          else if f_inode f = backing_inode dev then (Inl EINVAL, dev)
          else
            (case kvmalloc dev of
               (False, dev) \<Rightarrow> (Inl ENOMEM, dev)
             | (True, dev) \<Rightarrow>
                 (case read_full (f_contents f) 8 0 dev of
                    (Inl e, dev) \<Rightarrow> (Inl e, dev)
                  | (Inr magic, dev) \<Rightarrow>
                      (case (if of_be64 magic = LBD_QCOW2_MAGIC then base_init_qcow2 (f_contents f) dev
                             else base_init_raw (f_contents f) dev) of
                         (Inl e, dev) \<Rightarrow> (Inl e, dev)
                       | (Inr b, dev) \<Rightarrow> (Inr (), dev\<lparr>base := Some b\<rparr>)))))"

definition lbd_qcow2_base_destroy :: "lbd_device \<Rightarrow> lbd_device" where
  "lbd_qcow2_base_destroy dev = dev\<lparr>base := None\<rparr>"

section \<open>Swapping the base\<close>

definition lbd_qcow2_reload_l1 :: "lbd_device \<Rightarrow> unit res \<times> lbd_device" where
  "lbd_qcow2_reload_l1 dev =
     (case kvmalloc dev of
        (False, dev) \<Rightarrow> (Inl ENOMEM, dev)
      | (True, dev) \<Rightarrow>
          (case read_full (backing_file dev) LBD_QCOW2_HEADER_SIZE 0 dev of
             (Inl e, dev) \<Rightarrow> (Inl e, dev)
           | (Inr hdr, dev) \<Rightarrow>
               let new_l1_offset = lbd_qcow2_hdr_l1_table_offset hdr;
                   new_l1_size = lbd_qcow2_hdr_l1_size hdr;
                   dev = dev\<lparr>qcow2 := (qcow2 dev)\<lparr>alloc_offset := lbd_qcow2_hdr_alloc_offset hdr,
                                                  free_list_head := lbd_qcow2_hdr_free_list hdr\<rparr>\<rparr>
               in (case read_l1 (backing_file dev) new_l1_size new_l1_offset dev of
                     (Inl e, dev) \<Rightarrow> (Inl e, dev)
                   | (Inr new_l1, dev) \<Rightarrow>
                       (Inr (), dev\<lparr>qcow2 := (qcow2 dev)\<lparr>l1_table := new_l1, l1_size := new_l1_size,
                                                        l1_offset := new_l1_offset\<rparr>\<rparr>))))"

definition lbd_qcow2_invalidate_all_caches :: "lbd_device \<Rightarrow> lbd_device" where
  "lbd_qcow2_invalidate_all_caches dev =
     (let q = qcow2 dev;
          dev = dev\<lparr>qcow2 := q\<lparr>cl_cache := map (\<lambda>e. e\<lparr>cl_valid := False\<rparr>) (cl_cache q),
                               l2_cache := map (\<lambda>e. e\<lparr>l2_valid := False\<rparr>) (l2_cache q)\<rparr>\<rparr>
      in case base dev of
           Some b \<Rightarrow>
             if b_is_qcow2 b
             then dev\<lparr>base := Some (b\<lparr>b_l2_cache := map (\<lambda>e. e\<lparr>l2_valid := False\<rparr>) (b_l2_cache b)\<rparr>)\<rparr>
             else dev
         | None \<Rightarrow> dev)"

definition lbd_qcow2_swap_base ::
  "crc_fun \<Rightarrow> (bytes \<Rightarrow> opened_file res) \<Rightarrow> bytes \<Rightarrow> lbd_device \<Rightarrow> unit res \<times> lbd_device" where
  "lbd_qcow2_swap_base crc32c filp_open new_path dev =
     (let dev = lbd_qcow2_flush_all_l2 crc32c dev;
          dev = (if base dev \<noteq> None then lbd_qcow2_base_destroy dev else dev)
      in case lbd_qcow2_base_init filp_open new_path dev of
           (Inl e, dev) \<Rightarrow> (Inl e, dev)
         | (Inr _, dev) \<Rightarrow>
             (case lbd_qcow2_reload_l1 dev of
                (Inl e, dev) \<Rightarrow> (Inl e, dev)
              | (Inr _, dev) \<Rightarrow>
                  (Inr (), (lbd_qcow2_invalidate_all_caches dev)\<lparr>base_path := take 255 new_path\<rparr>)))"

end
