(* ===== verification/Lz4_Copy.thy ===== *)
theory Lz4_Copy
  imports Lz4_Decode
begin

text \<open>
  The copies of the decoder: what the wild copies, the pattern copies and the table-driven
  copies of \<^verbatim>\<open>src/src/lz4/lz4.c\<close> leave in the destination. All of them implement the copy of
  the LZ4 format, \<open>dst[i] = dst[i - offset]\<close> byte by byte in increasing order, and stay inside
  the buffer under the conditions the decoder checks before it calls them.
\<close>

section \<open>Copies at a distance\<close>

text \<open>
  \<open>copies d k e dst dst'\<close>: below \<open>d\<close> nothing changed and from \<open>d\<close> to \<open>e\<close> every byte repeats
  the byte \<open>k\<close> before it.
\<close>

definition copies :: "nat \<Rightarrow> nat \<Rightarrow> nat \<Rightarrow> bytes \<Rightarrow> bytes \<Rightarrow> bool" where
  "copies d k e dst dst' \<longleftrightarrow> length dst' = length dst \<and> (\<forall>i<d. dst' ! i = dst ! i) \<and>
     (\<forall>i. d \<le> i \<longrightarrow> i < e \<longrightarrow> dst' ! i = dst' ! (i - k))"

lemma copies_weaken: "copies d k e a b \<Longrightarrow> e' \<le> e \<Longrightarrow> copies d k e' a b"
  by (auto simp: copies_def)

lemma copies_trans:
  assumes "copies d k e a b" "copies e k e' b c" "d \<le> e"
  shows "copies d k e' a c"
proof -
  have "c ! i = c ! (i - k)" if "d \<le> i" "i < e'" for i
  proof (cases "i < e")
    case True
    then have "c ! i = b ! i" "c ! (i - k) = b ! (i - k)"
      using assms(2) by (auto simp: copies_def)
    then show ?thesis
      using assms(1) that True by (simp add: copies_def)
  next
    case False
    then show ?thesis
      using assms(2) that by (simp add: copies_def)
  qed
  then show ?thesis
    using assms by (simp add: copies_def)
qed

lemma memcpy_in_copies:
  assumes "n \<le> k" "k \<le> d" "d + n \<le> length dst"
  obtains dst' where "memcpy_in dst d (d - k) n = Some dst'" "copies d k (d + n) dst dst'"
proof
  show "memcpy_in dst d (d - k) n = Some (blit dst d (read_at dst (d - k) n))"
    using assms by (auto simp: memcpy_in_def)
  show "copies d k (d + n) dst (blit dst d (read_at dst (d - k) n))"
    unfolding copies_def
  proof (intro conjI allI impI)
    fix i
    assume i: "d \<le> i" "i < d + n"
    then have "blit dst d (read_at dst (d - k) n) ! i = dst ! (i - k)"
      using assms by (simp add: nth_blit length_read_at nth_read_at)
    moreover have "i - k < d"
      using assms i by linarith
    then have "blit dst d (read_at dst (d - k) n) ! (i - k) = dst ! (i - k)"
      using assms i by (simp add: nth_blit length_read_at)
    ultimately show "blit dst d (read_at dst (d - k) n) ! i = blit dst d (read_at dst (d - k) n) ! (i - k)"
      by simp
  qed (use assms in \<open>simp_all add: length_blit length_read_at nth_blit\<close>)
qed

lemma wildCopy8_copies:
  assumes "8 \<le> k" "k \<le> d" "d + 8 \<le> length dst" "e + 7 \<le> length dst"
  shows "\<exists>dst'. LZ4_wildCopy8 dst d (d - k) e = Some dst' \<and> copies d k (max e (d + 8)) dst dst'"
  using assms
proof (induction "e - d" arbitrary: dst d rule: less_induct)
  case less
  obtain b where b: "memcpy_in dst d (d - k) 8 = Some b" "copies d k (d + 8) dst b"
    using memcpy_in_copies less.prems by blast
  show ?case
  proof (cases "d + 8 < e")
    case True
    have len: "length b = length dst"
      using b(2) by (simp add: copies_def)
    have "\<exists>c. LZ4_wildCopy8 b (d + 8) (d + 8 - k) e = Some c \<and> copies (d + 8) k (max e (d + 8 + 8)) b c"
      using True less.prems len by (intro less.hyps) simp_all
    then obtain c where c: "LZ4_wildCopy8 b (d + 8) (d + 8 - k) e = Some c"
      "copies (d + 8) k (max e (d + 8 + 8)) b c"
      by blast
    have "d - k + 8 = d + 8 - k"
      using less.prems by simp
    then have "LZ4_wildCopy8 dst d (d - k) e = Some c"
      using True b(1) c(1) by (subst LZ4_wildCopy8.simps) simp
    moreover have "copies d k (max e (d + 8)) dst c"
      using copies_weaken [OF copies_trans [OF b(2) c(2)], of "max e (d + 8)"] by simp
    ultimately show ?thesis
      by blast
  next
    case False
    then show ?thesis
      using b by (subst LZ4_wildCopy8.simps) (simp add: max_def)
  qed
qed

lemma wildCopy32_copies:
  assumes "16 \<le> k" "k \<le> d" "d + 32 \<le> length dst" "e + 31 \<le> length dst"
  shows "\<exists>dst'. LZ4_wildCopy32 dst d (d - k) e = Some dst' \<and> copies d k (max e (d + 32)) dst dst'"
  using assms
proof (induction "e - d" arbitrary: dst d rule: less_induct)
  case less
  obtain a where a: "memcpy_in dst d (d - k) 16 = Some a" "copies d k (d + 16) dst a"
    using memcpy_in_copies [of 16 k d dst] less.prems by auto
  have la: "length a = length dst"
    using a(2) by (simp add: copies_def)
  obtain b where b: "memcpy_in a (d + 16) (d + 16 - k) 16 = Some b" "copies (d + 16) k (d + 16 + 16) a b"
    using memcpy_in_copies [of 16 k "d + 16" a] less.prems la by auto
  have ab: "copies d k (d + 32) dst b"
    using copies_trans [OF a(2) b(2)] by (simp add: add.commute)
  have s: "d - k + 16 = d + 16 - k" "d - k + 32 = d + 32 - k"
    using less.prems by simp_all
  show ?case
  proof (cases "d + 32 < e")
    case True
    have "length b = length dst"
      using ab by (simp add: copies_def)
    then have "\<exists>c. LZ4_wildCopy32 b (d + 32) (d + 32 - k) e = Some c \<and>
        copies (d + 32) k (max e (d + 32 + 32)) b c"
      using True less.prems by (intro less.hyps) simp_all
    then obtain c where c: "LZ4_wildCopy32 b (d + 32) (d + 32 - k) e = Some c"
      "copies (d + 32) k (max e (d + 32 + 32)) b c"
      by blast
    have "LZ4_wildCopy32 dst d (d - k) e = Some c"
      using True a(1) b(1) c(1) by (subst LZ4_wildCopy32.simps) (simp add: s)
    moreover have "copies d k (max e (d + 32)) dst c"
      using copies_weaken [OF copies_trans [OF ab c(2)], of "max e (d + 32)"] by simp
    ultimately show ?thesis
      by blast
  next
    case False
    then show ?thesis
      using a b ab by (subst LZ4_wildCopy32.simps) (simp add: max_def s)
  qed
qed

lemma lz4_bytewise_copies:
  assumes "1 \<le> k" "k \<le> d" "e \<le> length dst"
  shows "\<exists>dst'. lz4_bytewise dst d (d - k) e = Some dst' \<and> copies d k e dst dst'"
  using assms
proof (induction "e - d" arbitrary: dst d)
  case 0
  then show ?case
    by (subst lz4_bytewise.simps) (simp add: copies_def)
next
  case (Suc n)
  let ?b = "dst[d := dst ! (d - k)]"
  have b: "copies d k (d + 1) dst ?b"
    using Suc.prems Suc.hyps(2) by (auto simp: copies_def nth_list_update less_Suc_eq)
  have "\<exists>c. lz4_bytewise ?b (d + 1) (d + 1 - k) e = Some c \<and> copies (d + 1) k e ?b c"
    using Suc.prems Suc.hyps(2) by (intro Suc.hyps(1)) simp_all
  then obtain c where c: "lz4_bytewise ?b (d + 1) (d + 1 - k) e = Some c" "copies (d + 1) k e ?b c"
    by blast
  have "d - k + 1 = d + 1 - k" "d < e" "d - k < length dst"
    using Suc.prems Suc.hyps(2) by linarith+
  then have "lz4_bytewise dst d (d - k) e = Some c"
    using Suc.prems Suc.hyps(2) c(1) by (subst lz4_bytewise.simps) (simp add: mem_byte_def)
  then show ?case
    using copies_trans [OF b c(2)] by simp
qed

section \<open>Copies from the source\<close>

definition copied_from :: "bytes \<Rightarrow> nat \<Rightarrow> nat \<Rightarrow> nat \<Rightarrow> bytes \<Rightarrow> bytes \<Rightarrow> bool" where
  "copied_from src s d e dst dst' \<longleftrightarrow> length dst' = length dst \<and> (\<forall>i<d. dst' ! i = dst ! i) \<and>
     (\<forall>i. d \<le> i \<longrightarrow> i < e \<longrightarrow> dst' ! i = src ! (s + (i - d)))"

lemma copied_from_trans:
  assumes "copied_from src s d e a b" "copied_from src (s + (e - d)) e e' b c" "d \<le> e"
  shows "copied_from src s d e' a c"
proof -
  have "c ! i = src ! (s + (i - d))" if i: "d \<le> i" "i < e'" for i
  proof (cases "i < e")
    case True
    then show ?thesis
      using assms i by (simp add: copied_from_def)
  next
    case False
    then have "s + (e - d) + (i - e) = s + (i - d)"
      using assms(3) by simp
    then show ?thesis
      using assms(2) i False by (simp add: copied_from_def)
  qed
  then show ?thesis
    using assms by (simp add: copied_from_def)
qed

lemma memcpy_from_copied:
  assumes "s + n \<le> length src" "d + n \<le> length dst"
  obtains dst' where "memcpy_from src dst d s n = Some dst'" "copied_from src s d (d + n) dst dst'"
proof
  show "memcpy_from src dst d s n = Some (blit dst d (read_at src s n))"
    using assms by (simp add: memcpy_from_def)
  show "copied_from src s d (d + n) dst (blit dst d (read_at src s n))"
    using assms by (auto simp: copied_from_def length_blit length_read_at nth_blit nth_read_at)
qed

lemma wildCopy8_from_copied:
  assumes "d + 8 \<le> length dst" "e + 7 \<le> length dst" "s + 8 \<le> length src" "s + (e - d) + 7 \<le> length src"
  shows "\<exists>dst'. LZ4_wildCopy8_from src dst d s e = Some dst' \<and>
    copied_from src s d (max e (d + 8)) dst dst'"
  using assms
proof (induction "e - d" arbitrary: dst d s rule: less_induct)
  case less
  obtain b where b: "memcpy_from src dst d s 8 = Some b" "copied_from src s d (d + 8) dst b"
    using memcpy_from_copied less.prems by blast
  show ?case
  proof (cases "d + 8 < e")
    case True
    have len: "length b = length dst"
      using b(2) by (simp add: copied_from_def)
    have "\<exists>c. LZ4_wildCopy8_from src b (d + 8) (s + 8) e = Some c \<and>
        copied_from src (s + 8) (d + 8) (max e (d + 8 + 8)) b c"
      using True less.prems len by (intro less.hyps) simp_all
    then obtain c where c: "LZ4_wildCopy8_from src b (d + 8) (s + 8) e = Some c"
      "copied_from src (s + 8) (d + 8) (max e (d + 8 + 8)) b c"
      by blast
    have "LZ4_wildCopy8_from src dst d s e = Some c"
      using True b(1) c(1) by (subst LZ4_wildCopy8_from.simps) simp
    moreover have "copied_from src s d (max e (d + 8 + 8)) dst c"
      using copied_from_trans [OF b(2)] c(2) by simp
    ultimately show ?thesis
      by (auto simp: copied_from_def)
  next
    case False
    then show ?thesis
      using b by (subst LZ4_wildCopy8_from.simps) (simp add: max_def)
  qed
qed

lemma wildCopy32_from_copied:
  assumes "d + 32 \<le> length dst" "e + 31 \<le> length dst" "s + 32 \<le> length src" "s + (e - d) + 31 \<le> length src"
  shows "\<exists>dst'. LZ4_wildCopy32_from src dst d s e = Some dst' \<and>
    copied_from src s d (max e (d + 32)) dst dst'"
  using assms
proof (induction "e - d" arbitrary: dst d s rule: less_induct)
  case less
  obtain a where a: "memcpy_from src dst d s 16 = Some a" "copied_from src s d (d + 16) dst a"
    using memcpy_from_copied [of s 16 src d dst] less.prems by auto
  have la: "length a = length dst"
    using a(2) by (simp add: copied_from_def)
  obtain b where b: "memcpy_from src a (d + 16) (s + 16) 16 = Some b"
    "copied_from src (s + 16) (d + 16) (d + 16 + 16) a b"
    using memcpy_from_copied [of "s + 16" 16 src "d + 16" a] less.prems la by auto
  have ab: "copied_from src s d (d + 32) dst b"
    using copied_from_trans [OF a(2)] b(2) by (simp add: add.commute)
  show ?case
  proof (cases "d + 32 < e")
    case True
    have "length b = length dst"
      using ab by (simp add: copied_from_def)
    then have "\<exists>c. LZ4_wildCopy32_from src b (d + 32) (s + 32) e = Some c \<and>
        copied_from src (s + 32) (d + 32) (max e (d + 32 + 32)) b c"
      using True less.prems by (intro less.hyps) simp_all
    then obtain c where c: "LZ4_wildCopy32_from src b (d + 32) (s + 32) e = Some c"
      "copied_from src (s + 32) (d + 32) (max e (d + 32 + 32)) b c"
      by blast
    have "LZ4_wildCopy32_from src dst d s e = Some c"
      using True a(1) b(1) c(1) by (subst LZ4_wildCopy32_from.simps) simp
    moreover have "copied_from src s d (max e (d + 32 + 32)) dst c"
      using copied_from_trans [OF ab] c(2) by simp
    ultimately show ?thesis
      by (auto simp: copied_from_def)
  next
    case False
    then show ?thesis
      using a b ab by (subst LZ4_wildCopy32_from.simps) (simp add: max_def)
  qed
qed

section \<open>Short offsets\<close>

text \<open>
  The copy of the format at offset \<open>off\<close>. Offset 0, which no encoder produces, is decoded as
  zeros by every path of the decoder.
\<close>

definition match_copied :: "nat \<Rightarrow> nat \<Rightarrow> nat \<Rightarrow> bytes \<Rightarrow> bytes \<Rightarrow> bool" where
  "match_copied d off e dst dst' \<longleftrightarrow> length dst' = length dst \<and> (\<forall>i<d. dst' ! i = dst ! i) \<and>
     (\<forall>i. d \<le> i \<longrightarrow> i < e \<longrightarrow> dst' ! i = (if off = 0 then 0 else dst' ! (i - off)))"

lemma match_copied_copies: "0 < off \<Longrightarrow> match_copied d off e a b \<longleftrightarrow> copies d off e a b"
  by (simp add: match_copied_def copies_def)

lemma match_copied_weaken: "match_copied d off e a b \<Longrightarrow> e' \<le> e \<Longrightarrow> match_copied d off e' a b"
  by (auto simp: match_copied_def)

lemma period_iterate:
  assumes "\<And>j. d \<le> j \<Longrightarrow> j < i \<Longrightarrow> x ! j = x ! (j - off)" "n * off \<le> j - d + off" "d \<le> j" "j < i" "0 < n"
  shows "x ! j = (x ! (j - n * off) :: u8)"
  using assms(2-5)
proof (induction n arbitrary: j)
  case (Suc n)
  show ?case
  proof (cases "n = 0")
    case True
    then show ?thesis
      using Suc.prems assms(1) by simp
  next
    case False
    have 1: "x ! j = x ! (j - off)"
      using Suc.prems assms(1) by simp
    have le: "n * off \<le> j - d" and pos: "off \<le> n * off"
      using Suc.prems(1) False by simp_all
    have "x ! (j - off) = x ! (j - off - n * off)"
    proof (rule Suc.IH)
      show "n * off \<le> j - off - d + off" "d \<le> j - off" "j - off < i" "0 < n"
        using le pos Suc.prems False by linarith+
    qed
    then show ?thesis
      using 1 by (simp add: diff_diff_eq)
  qed
qed simp

text \<open>
  A copy at a multiple \<open>m * off\<close> of the offset continues a copy at the offset, once enough
  bytes of the latter are there.
\<close>

lemma copies_multiple:
  assumes a: "copies d off e0 a b" and b: "copies e0 (m * off) e b c"
    and m: "0 < m" "(m - 1) * off \<le> e0 - d" and "d \<le> e0" and off: "0 < off"
  shows "copies d off e a c"
proof -
  have "c ! i = c ! (i - off)" if "d \<le> i" "i < e" for i
    using that
  proof (induction i rule: less_induct)
    case (less i)
    show ?case
    proof (cases "i < e0")
      case True
      then have "c ! i = b ! i" "c ! (i - off) = b ! (i - off)"
        using b by (auto simp: copies_def)
      then show ?thesis
        using a less.prems True by (simp add: copies_def)
    next
      case False
      then have i: "c ! i = c ! (i - m * off)"
        using b less.prems by (simp add: copies_def)
      show ?thesis
      proof (cases "m = 1")
        case True
        then show ?thesis
          using i by simp
      next
        case m1: False
        then have mm: "m * off = off + (m - 1) * off" "off \<le> (m - 1) * off"
          using m(1) by (cases m; simp)+
        have "c ! (i - off) = c ! (i - off - (m - 1) * off)"
        proof (rule period_iterate [where d = d and i = i])
          show "c ! j = c ! (j - off)" if "d \<le> j" "j < i" for j
            using less.IH [of j] that less.prems by simp
          show "(m - 1) * off \<le> i - off - d + off" "d \<le> i - off" "i - off < i" "0 < m - 1"
            using False m m1 mm off \<open>d \<le> e0\<close> by linarith+
        qed
        then show ?thesis
          using i mm by (simp add: diff_diff_eq)
      qed
    qed
  qed
  then show ?thesis
    using a b \<open>d \<le> e0\<close> by (simp add: copies_def)
qed

lemma mem_byte_copies:
  assumes "1 \<le> k" "k \<le> d" "d < length dst"
  shows "mem_byte dst d (d - k) = Some (dst[d := dst ! (d - k)])"
    "copies d k (d + 1) dst (dst[d := dst ! (d - k)])"
  using assms by (auto simp: mem_byte_def copies_def nth_list_update less_Suc_eq)

lemma less_8_cases: "(n :: nat) < 8 \<Longrightarrow> n = 0 \<or> n = 1 \<or> n = 2 \<or> n = 3 \<or> n = 4 \<or> n = 5 \<or> n = 6 \<or> n = 7"
  by arith

text \<open>
  The distances the two tables realise: the second four bytes are copied from \<open>mid_distance\<close>
  before them, and what follows the first eight bytes from \<open>short_distance\<close> before them. Both
  are multiples of the offset, small enough for the periods to meet.
\<close>

definition mid_distance :: "nat \<Rightarrow> nat" where
  "mid_distance off = off + 4 - inc32table ! off"

definition short_distance :: "nat \<Rightarrow> nat" where
  "short_distance off = nat (int off + 8 - int (inc32table ! off) + dec64table ! off)"

lemma table_distances:
  assumes "0 < off" "off < 8"
  shows "inc32table ! off \<le> off + 4" "off dvd mid_distance off" "4 \<le> mid_distance off"
    "mid_distance off \<le> off + 4" "off dvd short_distance off" "8 \<le> short_distance off"
    "short_distance off \<le> off + 8"
    "int (off + 8) - int (short_distance off) = int (inc32table ! off) - dec64table ! off"
  using less_8_cases [OF assms(2)] assms(1)
  by (auto simp: inc32table_def dec64table_def mid_distance_def short_distance_def)

lemma copies_multiple':
  assumes "copies d off e0 a b" "copies e0 k e b c" "off dvd k" "k \<le> off + (e0 - d)" "0 < k" "d \<le> e0" "0 < off"
  shows "copies d off e a c"
proof -
  obtain m where m: "k = m * off"
    using assms(3) by (metis dvd_div_mult_self)
  have "0 < m" "(m - 1) * off \<le> e0 - d"
    using assms(4,5) m by (cases m; simp)+
  then show ?thesis
    using copies_multiple [OF assms(1) assms(2) [unfolded m]] assms by simp
qed

lemma lz4_short_offset_pos:
  assumes "0 < off" "off < 8" "off \<le> d" "d + 8 \<le> length dst"
  obtains dst' where "lz4_short_offset dst d (d - off) off = Some (dst', d + 8 - short_distance off)"
    "copies d off (d + 8) dst dst'"
proof -
  let ?z = "blit dst d [0, 0, 0, 0]"
  define a1 where "a1 = ?z[d := ?z ! (d - off)]"
  define a2 where "a2 = a1[d + 1 := a1 ! (d + 1 - off)]"
  define a3 where "a3 = a2[d + 2 := a2 ! (d + 2 - off)]"
  define a4 where "a4 = a3[d + 3 := a3 ! (d + 3 - off)]"
  have len: "length ?z = length dst" "length a1 = length dst" "length a2 = length dst"
    "length a3 = length dst" "length a4 = length dst"
    using assms by (simp_all add: length_blit a1_def a2_def a3_def a4_def)
  have m: "mem_byte ?z d (d - off) = Some a1" "mem_byte a1 (d + 1) (d + 1 - off) = Some a2"
    "mem_byte a2 (d + 2) (d + 2 - off) = Some a3" "mem_byte a3 (d + 3) (d + 3 - off) = Some a4"
    using assms len by (simp_all add: mem_byte_def a1_def a2_def a3_def a4_def)
  have c1: "copies d off (d + 1) ?z a1" "copies (d + 1) off (d + 1 + 1) a1 a2"
    "copies (d + 2) off (d + 2 + 1) a2 a3" "copies (d + 3) off (d + 3 + 1) a3 a4"
    unfolding a1_def a2_def a3_def a4_def using assms len
    by (intro mem_byte_copies; simp add: a1_def a2_def a3_def)+
  have c2: "copies d off (d + 2) ?z a2"
    using copies_trans [OF c1(1,2)] by simp
  have c3: "copies d off (d + 3) ?z a3"
    using copies_trans [OF c2 c1(3)] by (simp add: numeral_3_eq_3)
  have "copies d off (d + 4) ?z a4"
    using copies_trans [OF c3 c1(4)] by (simp add: eval_nat_numeral)
  then have c4: "copies d off (d + 4) dst a4"
    using assms by (auto simp: copies_def length_blit nth_blit)
  note t = table_distances [OF assms(1,2)]
  have le: "mid_distance off \<le> d + 4"
    using t(4) assms(3) by linarith
  obtain b where b: "memcpy_in a4 (d + 4) (d + 4 - mid_distance off) 4 = Some b"
    "copies (d + 4) (mid_distance off) (d + 4 + 4) a4 b"
    using memcpy_in_copies [OF t(3) le, of a4] len assms by auto
  have cb: "copies d off (d + 8) dst b"
    using copies_multiple' [OF c4 b(2)] t assms by (simp add: add.commute)
  have s: "d - off + inc32table ! off = d + 4 - mid_distance off"
    using t(1) assms(3) by (simp add: mid_distance_def)
  have s': "nat (int (d + 4 - mid_distance off) - dec64table ! off) = d + 8 - short_distance off"
    using t(1,4,7,8) assms(3) s by (simp add: mid_distance_def)
  have "d - off + 1 = d + 1 - off" "d - off + 2 = d + 2 - off" "d - off + 3 = d + 3 - off"
    using assms(3) by simp_all
  then have "lz4_short_offset dst d (d - off) off = Some (b, d + 8 - short_distance off)"
    using assms m b(1) s s'
    by (simp add: lz4_short_offset_def mem_store_def Let_def del: One_nat_def)
  then show thesis
    using that cb by blast
qed

lemma lz4_short_offset_zero:
  assumes "d + 8 \<le> length dst"
  obtains dst' where "lz4_short_offset dst d d 0 = Some (dst', d)" "match_copied d 0 (d + 8) dst dst'"
proof -
  let ?z = "blit dst d [0, 0, 0, 0]"
  let ?b = "blit ?z (d + 4) (read_at ?z d 4)"
  have "lz4_short_offset dst d d 0 = Some (?b, d)"
    using assms by (simp add: lz4_short_offset_def mem_store_def mem_byte_def memcpy_in_def
        inc32table_def dec64table_def length_blit)
  moreover have "match_copied d 0 (d + 8) dst ?b"
    unfolding match_copied_def
  proof (intro conjI allI impI)
    fix i
    assume "d \<le> i" "i < d + 8"
    then show "?b ! i = (if 0 = (0 :: nat) then 0 else ?b ! (i - 0))"
      using assms by (cases "i < d + 4")
        (auto simp: nth_blit length_blit length_read_at nth_read_at nth_Cons' less_Suc_eq)
  qed (use assms in \<open>simp_all add: length_blit nth_blit length_read_at\<close>)
  ultimately show thesis
    using that by blast
qed

definition tail_distance :: "nat \<Rightarrow> nat" where
  "tail_distance off = (if off = 0 then 8 else short_distance off)"

lemma tail_distance: "off < 8 \<Longrightarrow> 8 \<le> tail_distance off \<and> tail_distance off \<le> off + 8"
  using table_distances(6,7) [of off] by (auto simp: tail_distance_def)

lemma lz4_short_offset_copied:
  assumes "off < 8" "off \<le> d" "d + 8 \<le> length dst"
  obtains dst' where "lz4_short_offset dst d (d - off) off = Some (dst', d + 8 - tail_distance off)"
    "match_copied d off (d + 8) dst dst'"
proof (cases "off = 0")
  case True
  show thesis
    by (rule lz4_short_offset_zero [OF assms(3)]) (use that True in \<open>simp add: tail_distance_def\<close>)
next
  case False
  show thesis
    by (rule lz4_short_offset_pos [of off d dst])
      (use that False assms in \<open>auto simp: tail_distance_def match_copied_copies\<close>)
qed

lemma match_copied_tail:
  assumes "match_copied d off (d + 8) a b" "copies (d + 8) (tail_distance off) e b c" "off < 8"
  shows "match_copied d off e a c"
proof (cases "off = 0")
  case True
  have "c ! i = 0" if "d \<le> i" "i < e" for i
    using that
  proof (induction i rule: less_induct)
    case (less i)
    show ?case
    proof (cases "i < d + 8")
      case True
      then show ?thesis
        using assms less.prems \<open>off = 0\<close> by (simp add: match_copied_def copies_def)
    next
      case False
      then have "c ! i = c ! (i - 8)"
        using assms(2) less.prems \<open>off = 0\<close> by (simp add: copies_def tail_distance_def)
      then show ?thesis
        using less.IH [of "i - 8"] less.prems False by simp
    qed
  qed
  then show ?thesis
    using assms True by (simp add: match_copied_def copies_def)
next
  case False
  then have "copies d off e a c"
    using copies_multiple' [of d off "d + 8" a b "tail_distance off" e c] assms
      table_distances [of off] by (simp add: match_copied_copies tail_distance_def)
  then show ?thesis
    using False by (simp add: match_copied_copies)
qed

text \<open>A repeated eight-byte pattern whose period divides eight.\<close>

lemma lz4_store_pattern_stores:
  assumes "length v = 8" "d + 8 \<le> length dst" "e + 7 \<le> length dst"
  shows "\<exists>dst'. lz4_store_pattern dst d v e = Some dst' \<and> length dst' = length dst \<and>
    (\<forall>i<d. dst' ! i = dst ! i) \<and> (\<forall>i. d \<le> i \<longrightarrow> i < max e (d + 8) \<longrightarrow> dst' ! i = v ! ((i - d) mod 8))"
  using assms
proof (induction "e - d" arbitrary: dst d rule: less_induct)
  case less
  let ?b = "blit dst d v"
  have b: "mem_store dst d v = Some ?b" "length ?b = length dst"
    using less.prems by (simp_all add: mem_store_def length_blit)
  have nb: "?b ! i = (if d \<le> i \<and> i < d + 8 then v ! (i - d) else dst ! i)" if "i < length dst" for i
    using that less.prems by (simp add: nth_blit)
  show ?case
  proof (cases "d + 8 < e")
    case True
    have "\<exists>c. lz4_store_pattern ?b (d + 8) v e = Some c \<and> length c = length ?b \<and>
      (\<forall>i<d + 8. c ! i = ?b ! i) \<and>
      (\<forall>i. d + 8 \<le> i \<longrightarrow> i < max e (d + 8 + 8) \<longrightarrow> c ! i = v ! ((i - (d + 8)) mod 8))"
      using True less.prems b(2) by (intro less.hyps) simp_all
    then obtain c where c: "lz4_store_pattern ?b (d + 8) v e = Some c" "length c = length ?b"
      "\<And>i. i < d + 8 \<Longrightarrow> c ! i = ?b ! i"
      "\<And>i. d + 8 \<le> i \<Longrightarrow> i < max e (d + 8 + 8) \<Longrightarrow> c ! i = v ! ((i - (d + 8)) mod 8)"
      by blast
    have "c ! i = v ! ((i - d) mod 8)" if "d \<le> i" "i < max e (d + 8)" for i
    proof (cases "i < d + 8")
      case True
      then show ?thesis
        using c(3) [of i] nb [of i] that less.prems by simp
    next
      case False
      then have "i - d = (i - (d + 8)) + 8"
        by simp
      then have "(i - d) mod 8 = (i - (d + 8)) mod 8"
        by (metis mod_add_self2)
      then show ?thesis
        using c(4) [of i] that False \<open>d + 8 < e\<close> by simp
    qed
    moreover have "lz4_store_pattern dst d v e = Some c"
      using True b(1) c(1) by (subst lz4_store_pattern.simps) simp
    moreover have "c ! i = dst ! i" if "i < d" for i
      using c(3) [of i] nb [of i] that less.prems by simp
    ultimately show ?thesis
      using c(2) b(2) by auto
  next
    case False
    then have "lz4_store_pattern dst d v e = Some ?b"
      using b(1) by (subst lz4_store_pattern.simps) simp
    then show ?thesis
      using False b(2) nb less.prems by (auto simp: max_def)
  qed
qed

lemma pattern_copies:
  assumes "length v = 8" "off dvd 8" "0 < off" "off \<le> d" "\<forall>j<off. v ! j = dst ! (d - off + j)"
    and "\<forall>j. off \<le> j \<longrightarrow> j < 8 \<longrightarrow> v ! j = v ! (j - off)"
    and "length dst' = length dst" "\<forall>i<d. dst' ! i = dst ! i"
    and "\<forall>i. d \<le> i \<longrightarrow> i < e \<longrightarrow> dst' ! i = v ! ((i - d) mod 8)"
  shows "copies d off e dst dst'"
proof -
  have off8: "off \<le> 8"
    using assms(2) by (simp add: dvd_imp_le)
  have per: "v ! (j mod 8) = v ! ((j - off) mod 8)" if "off \<le> j" for j
  proof (cases "off \<le> j mod 8")
    case True
    have "j = 8 * (j div 8) + j mod 8"
      by simp
    then have "j - off = 8 * (j div 8) + (j mod 8 - off)"
      using True by linarith
    then have "(j - off) mod 8 = (j mod 8 - off) mod 8"
      by (metis mod_mult_self2 add.commute)
    moreover have "j mod 8 < 8"
      by simp
    then have "j mod 8 - off < 8"
      by linarith
    ultimately show ?thesis
      using assms(6) True \<open>j mod 8 < 8\<close> by simp
  next
    case False
    obtain m where m: "8 = off * m"
      using assms(2) by (metis dvdE)
    have q: "0 < j div 8"
      using False that by (metis div_less_iff_less_mult gr0I mod_less div_eq_0_iff zero_neq_numeral)
    have chain: "n < m \<Longrightarrow> r < off \<Longrightarrow> v ! (r + n * off) = v ! r" for n r
    proof (induction n)
      case (Suc n)
      have le: "r + Suc n * off < 8"
      proof -
        have "Suc (Suc n) * off \<le> m * off"
          using Suc.prems by (intro mult_le_mono1) simp
        then show ?thesis
          using Suc.prems m by (simp add: mult.commute)
      qed
      then have "v ! (r + Suc n * off) = v ! (r + Suc n * off - off)"
        using assms(6) by simp
      then show ?case
        using Suc by simp
    qed simp
    let ?r = "j mod 8"
    have m0: "0 < m"
      using m by (cases m) auto
    have "j - off = 8 * (j div 8 - 1) + (?r + (8 - off))"
    proof -
      have "j = 8 * (j div 8 - 1) + 8 + ?r"
        using q by (simp add: algebra_simps)
      then show ?thesis
        using off8 by linarith
    qed
    then have "(j - off) mod 8 = (?r + (8 - off)) mod 8"
      by (metis mod_mult_self2 add.commute)
    then have jm: "(j - off) mod 8 = ?r + (8 - off)"
      using False off8 by simp
    have "8 - off = (m - 1) * off"
      using m m0 by (cases m) (simp_all add: mult.commute)
    then have "v ! ((j - off) mod 8) = v ! ?r"
      using chain [of "m - 1" ?r] jm False m0 by simp
    then show ?thesis
      by simp
  qed
  have "dst' ! i = dst' ! (i - off)" if i: "d \<le> i" "i < e" for i
  proof (cases "d \<le> i - off \<and> off \<le> i")
    case True
    then have "i - d - off = i - off - d" "off \<le> i - d"
      using i assms(4) by linarith+
    then show ?thesis
      using assms(9) i per [of "i - d"] True by simp
  next
    case False
    then have lt: "i - d < off"
      using assms(4) i by linarith
    then have "dst' ! i = dst ! (d - off + (i - d))"
      using assms(5,9) i off8 by simp
    moreover have "d - off + (i - d) = i - off"
      using lt i assms(4) by linarith
    moreover have "i - off < d"
      using lt i assms(4) assms(3) by linarith
    ultimately show ?thesis
      using assms(8) by simp
  qed
  then show ?thesis
    using assms(7,8) by (simp add: copies_def)
qed

lemma memcpy_using_offset_base_copied:
  assumes "off \<le> d" "d + 16 \<le> length dst" "e + 7 \<le> length dst"
  shows "\<exists>dst'. LZ4_memcpy_using_offset_base dst d (d - off) e off = Some dst' \<and>
    match_copied d off e dst dst'"
proof (cases "off < 8")
  case True
  obtain b where b: "lz4_short_offset dst d (d - off) off = Some (b, d + 8 - tail_distance off)"
    "match_copied d off (d + 8) dst b"
    using lz4_short_offset_copied [OF True assms(1), of dst] assms(2) by auto
  have "length b = length dst"
    using b(2) by (simp add: match_copied_def)
  then obtain c where c: "LZ4_wildCopy8 b (d + 8) (d + 8 - tail_distance off) e = Some c"
    "copies (d + 8) (tail_distance off) (max e (d + 8 + 8)) b c"
    using wildCopy8_copies [of "tail_distance off" "d + 8" b e] tail_distance [OF True] assms by auto
  have "match_copied d off e dst c"
    using match_copied_tail [OF b(2) c(2) True] by (rule match_copied_weaken) simp
  then show ?thesis
    using True b(1) c(1) by (simp add: LZ4_memcpy_using_offset_base_def)
next
  case False
  obtain b where b: "memcpy_in dst d (d - off) 8 = Some b" "copies d off (d + 8) dst b"
    using memcpy_in_copies [of 8 off d dst] False assms by auto
  have "length b = length dst"
    using b(2) by (simp add: copies_def)
  then obtain c where c: "LZ4_wildCopy8 b (d + 8) (d + 8 - off) e = Some c"
    "copies (d + 8) off (max e (d + 8 + 8)) b c"
    using wildCopy8_copies [of off "d + 8" b e] False assms by auto
  have "copies d off e dst c"
    using copies_trans [OF b(2) c(2)] by (rule copies_weaken) simp_all
  moreover have "d - off + 8 = d + 8 - off"
    using assms(1) by simp
  ultimately show ?thesis
    using False b(1) c(1) by (simp add: LZ4_memcpy_using_offset_base_def match_copied_copies)
qed

lemma store_pattern_copied:
  assumes "mem_load dst (d - off) off = Some w" "v = concat (replicate (8 div off) w)" "off dvd 8"
    and "0 < off" "off \<le> d" "d + 8 \<le> length dst" "e + 7 \<le> length dst"
  shows "\<exists>dst'. lz4_store_pattern dst d v e = Some dst' \<and> match_copied d off e dst dst'"
proof -
  have w: "length w = off" "\<And>j. j < off \<Longrightarrow> w ! j = dst ! (d - off + j)"
    using assms(1,5,6) by (auto simp: mem_load_def length_read_at nth_read_at split: if_splits)
  have off8: "off \<le> 8"
    using assms(3) by (simp add: dvd_imp_le)
  have lenv: "length v = 8"
    using w(1) assms(2,3) by (simp add: length_concat sum_list_replicate)
  have vn: "j < n * off \<Longrightarrow> concat (replicate n w) ! j = w ! (j mod off)" for n j
  proof (induction n arbitrary: j)
    case (Suc n)
    show ?case
    proof (cases "j < off")
      case True
      then show ?thesis
        using w(1) by (simp add: nth_append)
    next
      case False
      then have "concat (replicate n w) ! (j - off) = w ! ((j - off) mod off)"
        using Suc by simp
      then show ?thesis
        using False w(1) by (simp add: nth_append le_mod_geq)
    qed
  qed simp
  have v: "j < 8 \<Longrightarrow> v ! j = w ! (j mod off)" for j
    using vn [of j "8 div off"] assms(2,3) by simp
  obtain c where c: "lz4_store_pattern dst d v e = Some c" "length c = length dst"
    "\<forall>i<d. c ! i = dst ! i" "\<forall>i. d \<le> i \<longrightarrow> i < max e (d + 8) \<longrightarrow> c ! i = v ! ((i - d) mod 8)"
    using lz4_store_pattern_stores [OF lenv assms(6,7)] by blast
  have "copies d off e dst c"
  proof (rule pattern_copies [OF lenv assms(3,4,5) _ _ c(2,3)])
    show "\<forall>j<off. v ! j = dst ! (d - off + j)"
      using v w(2) off8 by simp
    show "\<forall>j. off \<le> j \<longrightarrow> j < 8 \<longrightarrow> v ! j = v ! (j - off)"
      using v by (simp add: le_mod_geq)
    show "\<forall>i. d \<le> i \<longrightarrow> i < e \<longrightarrow> c ! i = v ! ((i - d) mod 8)"
      using c(4) by simp
  qed
  then show ?thesis
    using c(1) assms(4) by (auto simp: match_copied_copies)
qed

lemma memcpy_using_offset_copied:
  assumes "off \<le> d" "d + 16 \<le> length dst" "e + 7 \<le> length dst"
  shows "\<exists>dst'. LZ4_memcpy_using_offset dst d (d - off) e off = Some dst' \<and>
    match_copied d off e dst dst'"
proof -
  have ld: "mem_load dst (d - off) off = Some (read_at dst (d - off) off)"
    using assms by (simp add: mem_load_def)
  note sp = store_pattern_copied [OF ld refl, of e]
  have rep: "concat (replicate 8 w) = w @ w @ w @ w @ w @ w @ w @ w"
    "concat (replicate 4 w) = w @ w @ w @ w" "concat (replicate 2 w) = w @ w" for w :: bytes
    by (simp_all add: eval_nat_numeral)
  consider "off = 1" | "off = 2" | "off = 4" | "off \<noteq> 1" "off \<noteq> 2" "off \<noteq> 4"
    by blast
  then show ?thesis
  proof cases
    case 1
    then show ?thesis
      using sp ld assms by (simp add: LZ4_memcpy_using_offset_def rep)
  next
    case 2
    then show ?thesis
      using sp ld assms by (simp add: LZ4_memcpy_using_offset_def rep)
  next
    case 3
    then show ?thesis
      using sp ld assms by (simp add: LZ4_memcpy_using_offset_def rep)
  next
    case 4
    then show ?thesis
      using memcpy_using_offset_base_copied [OF assms] by (simp add: LZ4_memcpy_using_offset_def)
  qed
qed

end
