(* ===== verification/Lz4_Safe.thy ===== *)
theory Lz4_Safe
  imports Lz4_Copy
begin

text \<open>
  What each piece of the decoder does on every branch, and from that the memory safety of
  \<open>LZ4_decompress_safe\<close>: on every input and every destination buffer it terminates without an
  access outside the two buffers.
\<close>

section \<open>Copying a match\<close>

text \<open>The first eight bytes, and how a copy of the tail at distance \<open>k\<close> completes the match.\<close>

lemma match_head:
  assumes "off \<le> op" "op + 8 \<le> length dst"
  obtains b k where
    "(if off < 8 then lz4_short_offset dst op (op - off) off
      else do { dst \<leftarrow> memcpy_in dst op (op - off) 8; Some (dst, op - off + 8) }) =
       Some (b, op + 8 - k)"
    "length b = length dst" "8 \<le> k" "k \<le> op + 8"
    "\<And>e c. copies (op + 8) k e b c \<Longrightarrow> match_copied op off e dst c"
proof (cases "off < 8")
  case True
  obtain b where b: "lz4_short_offset dst op (op - off) off = Some (b, op + 8 - tail_distance off)"
    "match_copied op off (op + 8) dst b"
    using lz4_short_offset_copied [OF True assms] by blast
  show thesis
  proof (rule that)
    show "length b = length dst"
      using b(2) by (simp add: match_copied_def)
    show "8 \<le> tail_distance off" "tail_distance off \<le> op + 8"
      using tail_distance [OF True] assms by auto
    show "match_copied op off e dst c" if "copies (op + 8) (tail_distance off) e b c" for e c
      using match_copied_tail [OF b(2) that True] .
  qed (use True b in simp)
next
  case False
  obtain b where b: "memcpy_in dst op (op - off) 8 = Some b" "copies op off (op + 8) dst b"
    using memcpy_in_copies [of 8 off op dst] False assms by auto
  show thesis
  proof (rule that [of b off])
    show "match_copied op off e dst c" if "copies (op + 8) off e b c" for e c
      using copies_trans [OF b(2) that] False by (simp add: match_copied_copies)
  qed (use False b assms in \<open>simp_all add: copies_def\<close>)
qed

lemma safe_match_copy_ok:
  assumes "off \<le> op" "op + 8 \<le> length dst" "MINMATCH \<le> len" "op + len + LASTLITERALS \<le> length dst"
  shows "\<exists>dst'. safe_match_copy dst ip op off len = Some (Next ip (op + len) dst') \<and>
    match_copied op off (op + len) dst dst'"
proof -
  obtain b k where h: "(if off < 8 then lz4_short_offset dst op (op - off) off
      else do { dst \<leftarrow> memcpy_in dst op (op - off) 8; Some (dst, op - off + 8) }) = Some (b, op + 8 - k)"
    and b: "length b = length dst" "8 \<le> k" "k \<le> op + 8"
    and fin: "\<And>e c. copies (op + 8) k e b c \<Longrightarrow> match_copied op off e dst c"
    using match_head [OF assms(1,2)] by metis
  let ?oend = "length dst"
  show ?thesis
  proof (cases "op + len + 12 > ?oend")
    case near: True
    show ?thesis
    proof (cases "op + 8 + 7 < ?oend")
      case True
      obtain c where c: "LZ4_wildCopy8 b (op + 8) (op + 8 - k) (?oend - 7) = Some c"
        "copies (op + 8) k (max (?oend - 7) (op + 8 + 8)) b c"
        using wildCopy8_copies [OF b(2,3), of b "?oend - 7"] True b(1) by auto
      then have c': "copies (op + 8) k (?oend - 7) b c"
        by (auto elim: copies_weaken)
      have lc: "length c = length dst"
        using c' b(1) by (simp add: copies_def)
      have s: "op + 8 - k + (?oend - 7 - (op + 8)) = ?oend - 7 - k"
        using True b by linarith
      have "k \<le> ?oend - 7"
        using True b by linarith
      then obtain e where e: "lz4_bytewise c (?oend - 7) (?oend - 7 - k) (op + len) = Some e"
        "copies (?oend - 7) k (op + len) c e"
        using lz4_bytewise_copies [of k "?oend - 7" "op + len" c] True b lc assms(4) by auto
      have "copies (op + 8) k (op + len) b e"
        using copies_trans [OF c' e(2)] True by simp
      then have "match_copied op off (op + len) dst e"
        by (rule fin)
      moreover have "safe_match_copy dst ip op off len = Some (Next ip (op + len) e)"
        using assms h near True c(1) e(1) s
        by (simp add: safe_match_copy_def lz4_const_defs Let_def)
      ultimately show ?thesis
        by blast
    next
      case False
      obtain e where e: "lz4_bytewise b (op + 8) (op + 8 - k) (op + len) = Some e"
        "copies (op + 8) k (op + len) b e"
        using lz4_bytewise_copies [of k "op + 8" "op + len" b] b assms(4) by auto
      have "safe_match_copy dst ip op off len = Some (Next ip (op + len) e)"
        using assms h near False e(1) by (simp add: safe_match_copy_def lz4_const_defs Let_def)
      then show ?thesis
        using fin [OF e(2)] by blast
    qed
  next
    case far: False
    obtain c where c: "memcpy_in b (op + 8) (op + 8 - k) 8 = Some c" "copies (op + 8) k (op + 8 + 8) b c"
      using memcpy_in_copies [of 8 k "op + 8" b] b far assms(3) by (auto simp: lz4_const_defs)
    have lc: "length c = length dst"
      using c(2) b(1) by (simp add: copies_def)
    show ?thesis
    proof (cases "len > 16")
      case True
      obtain e where e: "LZ4_wildCopy8 c (op + 8 + 8) (op + 8 + 8 - k) (op + len) = Some e"
        "copies (op + 8 + 8) k (max (op + len) (op + 8 + 8 + 8)) c e"
        using wildCopy8_copies [of k "op + 8 + 8" c "op + len"] True far b lc by auto
      have "copies (op + 8) k (op + len) b e"
        using copies_trans [OF c(2) e(2)] by (rule copies_weaken) simp_all
      then have m: "match_copied op off (op + len) dst e"
        by (rule fin)
      have "op + 8 - k + 8 = op + 8 + 8 - k"
        using b by simp
      then have "safe_match_copy dst ip op off len = Some (Next ip (op + len) e)"
        using assms h far True c(1) e(1) by (simp add: safe_match_copy_def lz4_const_defs Let_def)
      then show ?thesis
        using m by blast
    next
      case False
      have "safe_match_copy dst ip op off len = Some (Next ip (op + len) c)"
        using assms h far False c(1) by (simp add: safe_match_copy_def lz4_const_defs Let_def)
      moreover have "match_copied op off (op + len) dst c"
        using fin [OF c(2)] False by (auto elim: match_copied_weaken)
      ultimately show ?thesis
        by blast
    qed
  qed
qed

lemma safe_match_copy_fail:
  assumes "op + 8 \<le> length dst" "op < off \<or> length dst < op + len + LASTLITERALS"
  shows "\<exists>dst'. safe_match_copy dst ip op off len = Some (Fail ip dst') \<and> length dst' = length dst"
proof (cases "op < off")
  case False
  then obtain b k where h: "(if off < 8 then lz4_short_offset dst op (op - off) off
      else do { dst \<leftarrow> memcpy_in dst op (op - off) 8; Some (dst, op - off + 8) }) = Some (b, op + 8 - k)"
    and b: "length b = length dst"
    using match_head [of off op dst] assms(1) by (metis not_le)
  then show ?thesis
    using False assms(2) by (simp add: safe_match_copy_def lz4_const_defs Let_def)
qed (simp add: safe_match_copy_def)

section \<open>The states the loops pass through\<close>

definition out_ok :: "bytes \<Rightarrow> nat \<Rightarrow> lz4_out \<Rightarrow> bool" where
  "out_ok src n r \<longleftrightarrow> (case r of
     Next ip op dst \<Rightarrow> ip < length src \<and> op \<le> n \<and> length dst = n
   | Done op dst \<Rightarrow> op \<le> n \<and> length dst = n
   | Fail ip dst \<Rightarrow> length dst = n)"

lemma safe_match_copy_safe:
  assumes "op + 8 \<le> length dst" "MINMATCH \<le> len" "ip < length src"
  shows "\<exists>r. safe_match_copy dst ip op off len = Some r \<and> out_ok src (length dst) r"
proof (cases "off \<le> op \<and> op + len + LASTLITERALS \<le> length dst")
  case True
  then show ?thesis
    using safe_match_copy_ok [of off op dst len ip] assms
    by (auto simp: out_ok_def match_copied_def)
next
  case False
  then show ?thesis
    using safe_match_copy_fail [of op dst off len ip] assms by (force simp: out_ok_def)
qed

lemma rvl_loop_safe:
  assumes "ip < length src" "0 < k"
  shows "\<exists>r. rvl_loop src ip k len = Some r \<and>
    (\<forall>ip' n. r = RvlOk ip' n \<longrightarrow> ip < ip' \<and> ip' + k \<le> length src)"
  using assms
proof (induction src ip k len rule: rvl_loop.induct)
  case (1 src ip k len)
  show ?case
  proof (cases "ip + 1 + k > length src \<or> unat (src ! ip) \<noteq> 255")
    case True
    then show ?thesis
      using "1.prems" by (subst rvl_loop.simps) (auto simp: Let_def)
  next
    case False
    then have "\<exists>r. rvl_loop src (ip + 1) k (len + unat (src ! ip)) = Some r \<and>
      (\<forall>ip' n. r = RvlOk ip' n \<longrightarrow> ip + 1 < ip' \<and> ip' + k \<le> length src)"
      using "1.prems" by (intro "1.IH") simp_all
    then show ?thesis
      using False "1.prems" by (subst rvl_loop.simps) (auto simp: Let_def)
  qed
qed

lemma read_variable_length_safe:
  assumes "0 < k" "c \<or> ip < length src"
  shows "\<exists>r. read_variable_length src ip k c = Some r \<and>
    (\<forall>ip' n. r = RvlOk ip' n \<longrightarrow> ip < ip' \<and> ip' + k \<le> length src)"
  using rvl_loop_safe [of ip src k 0] assms by (auto simp: read_variable_length_def)

lemma copy_match_safe:
  assumes "op + 8 \<le> length dst" "ip < length src"
  shows "\<exists>r. copy_match src dst ip op off len = Some r \<and> out_ok src (length dst) r"
proof (cases "len = ML_MASK")
  case True
  obtain r where r: "read_variable_length src ip (LASTLITERALS - 1) False = Some r"
    "\<And>ip' n. r = RvlOk ip' n \<Longrightarrow> ip' + (LASTLITERALS - 1) \<le> length src"
    using read_variable_length_safe [of "LASTLITERALS - 1" False ip src] assms
    by (auto simp: lz4_const_defs)
  show ?thesis
  proof (cases r)
    case (RvlErr ip')
    then show ?thesis
      using True r(1) by (simp add: copy_match_def out_ok_def)
  next
    case (RvlOk ip' n)
    then show ?thesis
      using True r safe_match_copy_safe [of op dst "len + n + MINMATCH" ip' src off] assms
      by (auto simp: copy_match_def lz4_const_defs)
  qed
next
  case False
  then show ?thesis
    using safe_match_copy_safe [of op dst "len + MINMATCH" ip src off] assms
    by (simp add: copy_match_def)
qed

lemma LZ4_readLE16_safe: "ip + 2 \<le> length src \<Longrightarrow> \<exists>off. LZ4_readLE16 src ip = Some off"
  by (simp add: LZ4_readLE16_def)

text \<open>The eighteen bytes of a short match at distance eight or more.\<close>

lemma memcpy18:
  assumes "8 \<le> off" "off \<le> d" "d + 18 \<le> length dst"
  obtains b1 b2 b3 where "memcpy_in dst d (d - off) 8 = Some b1"
    "memcpy_in b1 (d + 8) (d - off + 8) 8 = Some b2" "memcpy_in b2 (d + 16) (d - off + 16) 2 = Some b3"
    "copies d off (d + 18) dst b3"
proof -
  obtain b1 where b1: "memcpy_in dst d (d - off) 8 = Some b1" "copies d off (d + 8) dst b1"
    by (rule memcpy_in_copies [of 8 off d dst]) (use assms in auto)
  have l1: "length b1 = length dst"
    using b1(2) by (simp add: copies_def)
  obtain b2 where b2: "memcpy_in b1 (d + 8) (d + 8 - off) 8 = Some b2" "copies (d + 8) off (d + 8 + 8) b1 b2"
    by (rule memcpy_in_copies [of 8 off "d + 8" b1]) (use assms l1 in auto)
  have l2: "length b2 = length dst"
    using b2(2) l1 by (simp add: copies_def)
  obtain b3 where b3: "memcpy_in b2 (d + 16) (d + 16 - off) 2 = Some b3" "copies (d + 16) off (d + 16 + 2) b2 b3"
    by (rule memcpy_in_copies [of 2 off "d + 16" b2]) (use assms l2 in auto)
  have "copies d off (d + 16) dst b2"
    using copies_trans [OF b1(2) b2(2)] by (simp add: add.commute)
  then have "copies d off (d + 18) dst b3"
    using copies_trans [OF _ b3(2)] by (simp add: add.commute)
  moreover have "d - off + 8 = d + 8 - off" "d - off + 16 = d + 16 - off"
    using assms by simp_all
  ultimately show thesis
    using that b1(1) b2(1) b3(1) by simp
qed

lemma memcpy_from_len:
  "s + n \<le> length src \<Longrightarrow> d + n \<le> length dst \<Longrightarrow>
     \<exists>b. memcpy_from src dst d s n = Some b \<and> length b = length dst"
  by (simp add: memcpy_from_def length_blit length_read_at)

lemma safe_literal_copy_safe:
  assumes "op \<le> length dst" "ip \<le> length src"
  shows "\<exists>r. safe_literal_copy src dst ip op token len = Some r \<and> out_ok src (length dst) r"
proof (cases "op + len + 12 > length dst \<or> ip + len + 8 > length src")
  case last: True
  show ?thesis
  proof (cases "ip + len \<noteq> length src \<or> op + len > length dst")
    case True
    then show ?thesis
      using last by (auto simp: safe_literal_copy_def out_ok_def Let_def lz4_const_defs)
  next
    case False
    then obtain b where "memcpy_from src dst op ip len = Some b" "length b = length dst"
      using memcpy_from_len [of ip len src op dst] by auto
    then show ?thesis
      using last False by (auto simp: safe_literal_copy_def out_ok_def Let_def lz4_const_defs)
  qed
next
  case False
  then obtain b where b: "LZ4_wildCopy8_from src dst op ip (op + len) = Some b" "length b = length dst"
    using wildCopy8_from_copied [of op dst "op + len" ip src] by (auto simp: copied_from_def)
  obtain off where off: "LZ4_readLE16 src (ip + len) = Some off"
    using LZ4_readLE16_safe [of "ip + len" src] False by auto
  obtain r where "copy_match src b (ip + len + 2) (op + len) off (token mod 16) = Some r"
    "out_ok src (length b) r"
    using copy_match_safe [of "op + len" b "ip + len + 2" src off "token mod 16"] False b(2) by auto
  then show ?thesis
    using False b off by (simp add: safe_literal_copy_def Let_def lz4_const_defs)
qed

lemma div16_less: "unat (b :: u8) div 16 \<le> 15"
proof -
  have "unat b < 256"
    using unsigned_less [of b] by simp
  then show ?thesis
    by simp
qed

lemma safe_step_safe:
  assumes "ip < length src" "op \<le> length dst"
  shows "\<exists>r. safe_step src dst ip op = Some r \<and> out_ok src (length dst) r"
proof -
  let ?tok = "unat (src ! ip)" and ?ll = "unat (src ! ip) div 16"
  consider (short) "?ll \<noteq> 15" "ip + 1 + 16 < length src" "op + 32 \<le> length dst"
    | (long) "?ll = 15" | (slow) "?ll \<noteq> 15" "\<not> (ip + 1 + 16 < length src \<and> op + 32 \<le> length dst)"
    by blast
  then show ?thesis
  proof cases
    case short
    then have ll: "?ll \<le> 14"
      using div16_less [of "src ! ip"] by linarith
    obtain b where b: "memcpy_from src dst op (ip + 1) 16 = Some b" "length b = length dst"
      using memcpy_from_len [of "ip + 1" 16 src op dst] short by auto
    obtain off where off: "LZ4_readLE16 src (ip + 1 + ?ll) = Some off"
      using LZ4_readLE16_safe [of "ip + 1 + ?ll" src] short ll by auto
    show ?thesis
    proof (cases "?tok mod 16 \<noteq> 15 \<and> 8 \<le> off \<and> off \<le> op + ?ll")
      case True
      obtain b1 b2 b3 where m: "memcpy_in b (op + ?ll) (op + ?ll - off) 8 = Some b1"
        "memcpy_in b1 (op + ?ll + 8) (op + ?ll - off + 8) 8 = Some b2"
        "memcpy_in b2 (op + ?ll + 16) (op + ?ll - off + 16) 2 = Some b3"
        "copies (op + ?ll) off (op + ?ll + 18) b b3"
        by (rule memcpy18 [of off "op + ?ll" b]) (use True short ll b in auto)
      have "length b3 = length b"
        using m(4) by (simp add: copies_def)
      moreover
      have "?tok mod 16 < 16"
        by simp
      then have "op + ?ll + ?tok mod 16 + 4 \<le> length dst"
        using short ll True by linarith
      ultimately show ?thesis
        using True short assms ll b off m
        by (simp add: safe_step_def out_ok_def Let_def lz4_const_defs)
    next
      case False
      obtain r where "copy_match src b (ip + 1 + ?ll + 2) (op + ?ll) off (?tok mod 16) = Some r"
        "out_ok src (length b) r"
        using copy_match_safe [of "op + ?ll" b "ip + 1 + ?ll + 2" src off "?tok mod 16"] short ll b(2)
        by auto
      then show ?thesis
        using False short assms b off by (auto simp: safe_step_def Let_def lz4_const_defs)
    qed
  next
    case long
    obtain r where r: "read_variable_length src (ip + 1) 15 True = Some r"
      "\<And>ip' n. r = RvlOk ip' n \<Longrightarrow> ip' + 15 \<le> length src"
      using read_variable_length_safe [of 15 True "ip + 1" src] by auto
    show ?thesis
    proof (cases r)
      case (RvlErr ip')
      then show ?thesis
        using long assms r(1) by (simp add: safe_step_def out_ok_def Let_def lz4_const_defs)
    next
      case (RvlOk ip' n)
      then show ?thesis
        using long assms r safe_literal_copy_safe [of op dst ip' src ?tok "15 + n"]
        by (auto simp: safe_step_def Let_def lz4_const_defs)
    qed
  next
    case slow
    then show ?thesis
      using assms safe_literal_copy_safe [of op dst "ip + 1" src ?tok ?ll]
      by (auto simp: safe_step_def Let_def lz4_const_defs)
  qed
qed

definition fast_ok :: "bytes \<Rightarrow> nat \<Rightarrow> lz4_fast \<Rightarrow> bool" where
  "fast_ok src n r \<longleftrightarrow> (case r of
     FastNext ip op dst \<Rightarrow> ip < length src \<and> op + FASTLOOP_SAFE_DISTANCE \<le> n \<and> length dst = n
   | ToSafe r \<Rightarrow> out_ok src n r)"

lemma fast_match_copy_safe:
  assumes "op + len + 64 < length dst" "ip < length src"
  shows "\<exists>r. fast_match_copy dst ip op off len = Some r \<and> fast_ok src (length dst) r"
proof (cases "off \<le> op")
  case True
  have "\<exists>b. (if off < 16 then LZ4_memcpy_using_offset dst op (op - off) (op + len) off
      else LZ4_wildCopy32 dst op (op - off) (op + len)) = Some b \<and> length b = length dst"
    using memcpy_using_offset_copied [of off op dst "op + len"]
      wildCopy32_copies [of off op dst "op + len"] True assms
    by (auto simp: match_copied_def copies_def)
  then show ?thesis
    using True assms by (auto simp: fast_match_copy_def fast_ok_def Let_def lz4_const_defs)
qed (simp add: fast_match_copy_def fast_ok_def out_ok_def)

lemma fast_match_safe:
  assumes "ip + 3 \<le> length src" "op + 32 \<le> length dst"
  shows "\<exists>r. fast_match src dst ip op token = Some r \<and> fast_ok src (length dst) r"
proof -
  obtain off where off: "LZ4_readLE16 src ip = Some off"
    using LZ4_readLE16_safe [of ip src] assms by auto
  have via: "\<exists>r. map_option ToSafe (safe_match_copy dst ip' op off n) = Some r \<and> fast_ok src (length dst) r"
    if "ip' < length src" "4 \<le> n" for ip' n
    using safe_match_copy_safe [of op dst n ip' src off] assms that
    by (auto simp: fast_ok_def lz4_const_defs)
  show ?thesis
  proof (cases "token mod 16 = 15")
    case True
    obtain r where r: "read_variable_length src (ip + 2) 4 False = Some r"
      "\<And>ip' n. r = RvlOk ip' n \<Longrightarrow> ip' + 4 \<le> length src"
      using read_variable_length_safe [of 4 False "ip + 2" src] assms by auto
    show ?thesis
    proof (cases r)
      case (RvlErr ip')
      then show ?thesis
        using True off r(1) by (simp add: fast_match_def fast_ok_def out_ok_def Let_def lz4_const_defs)
    next
      case (RvlOk ip' n)
      then show ?thesis
        using True off r via [of ip' "15 + n + 4"]
          fast_match_copy_safe [of op "15 + n + 4" dst ip' src off]
        by (auto simp: fast_match_def Let_def lz4_const_defs not_le)
    qed
  next
    case False
    then have ml: "token mod 16 < 15"
      by presburger
    let ?len = "token mod 16 + 4"
    show ?thesis
    proof (cases "op + ?len + 64 \<ge> length dst")
      case True
      then show ?thesis
        using False off via [of "ip + 2" ?len] assms
        by (auto simp: fast_match_def Let_def lz4_const_defs)
    next
      case far: False
      show ?thesis
      proof (cases "off \<le> op \<and> 8 \<le> off")
        case True
        obtain b1 b2 b3 where m: "memcpy_in dst op (op - off) 8 = Some b1"
          "memcpy_in b1 (op + 8) (op - off + 8) 8 = Some b2"
          "memcpy_in b2 (op + 16) (op - off + 16) 2 = Some b3" "copies op off (op + 18) dst b3"
          by (rule memcpy18 [of off op dst]) (use True far in auto)
        have "length b3 = length dst"
          using m(4) by (simp add: copies_def)
        then show ?thesis
          using True False far off m assms
          by (simp add: fast_match_def fast_ok_def Let_def lz4_const_defs)
      next
        case nofast: False
        then show ?thesis
          using False far off assms fast_match_copy_safe [of op ?len dst "ip + 2" src off]
          by (auto simp: fast_match_def Let_def lz4_const_defs)
      qed
    qed
  qed
qed

lemma fast_step_safe:
  assumes "ip < length src" "op + 64 \<le> length dst"
  shows "\<exists>r. fast_step src dst ip op = Some r \<and> fast_ok src (length dst) r"
proof -
  let ?tok = "unat (src ! ip)" and ?ll = "unat (src ! ip) div 16"
  have via: "\<exists>r. map_option ToSafe (safe_literal_copy src dst ip' op ?tok n) = Some r \<and>
    fast_ok src (length dst) r" if "ip' \<le> length src" for ip' n
    using safe_literal_copy_safe [of op dst ip' src ?tok n] assms that by (auto simp: fast_ok_def)
  show ?thesis
  proof (cases "?ll = 15")
    case True
    obtain r where r: "read_variable_length src (ip + 1) 15 True = Some r"
      "\<And>ip' n. r = RvlOk ip' n \<Longrightarrow> ip' + 15 \<le> length src"
      using read_variable_length_safe [of 15 True "ip + 1" src] by auto
    show ?thesis
    proof (cases r)
      case (RvlErr ip')
      then show ?thesis
        using True assms r(1) by (simp add: fast_step_def fast_ok_def out_ok_def Let_def lz4_const_defs)
    next
      case (RvlOk ip' n)
      show ?thesis
      proof (cases "op + (15 + n) + 32 > length dst \<or> ip' + (15 + n) + 32 > length src")
        case near: True
        then show ?thesis
          using True RvlOk assms r via [of ip' "15 + n"]
          by (auto simp: fast_step_def Let_def lz4_const_defs)
      next
        case False
        then obtain b where b: "LZ4_wildCopy32_from src dst op ip' (op + (15 + n)) = Some b"
          "length b = length dst"
          using wildCopy32_from_copied [of op dst "op + (15 + n)" ip' src] by (auto simp: copied_from_def)
        then show ?thesis
          using True False RvlOk assms r fast_match_safe [of "ip' + (15 + n)" src "op + (15 + n)" b ?tok]
          by (auto simp: fast_step_def Let_def lz4_const_defs)
      qed
    qed
  next
    case False
    then have ll: "?ll \<le> 14"
      using div16_less [of "src ! ip"] by linarith
    show ?thesis
    proof (cases "ip + 1 + 17 \<le> length src")
      case True
      obtain b where b: "memcpy_from src dst op (ip + 1) 16 = Some b" "length b = length dst"
        using memcpy_from_len [of "ip + 1" 16 src op dst] True assms by auto
      then show ?thesis
        using False True assms ll fast_match_safe [of "ip + 1 + ?ll" src "op + ?ll" b ?tok]
        by (auto simp: fast_step_def Let_def lz4_const_defs)
    next
      case short: False
      then show ?thesis
        using False assms via [of "ip + 1" ?ll] by (auto simp: fast_step_def Let_def lz4_const_defs)
    qed
  qed
qed

section \<open>The whole decoder\<close>

definition final_ok :: "nat \<Rightarrow> lz4_out \<Rightarrow> bool" where
  "final_ok n r \<longleftrightarrow> (case r of
     Next _ _ _ \<Rightarrow> False | Done op dst \<Rightarrow> op \<le> n \<and> length dst = n | Fail ip dst \<Rightarrow> length dst = n)"

lemma safe_loop_safe:
  assumes "ip < length src" "op \<le> length dst"
  shows "\<exists>r. safe_loop src dst ip op = Some r \<and> final_ok (length dst) r"
  using assms
proof (induction src dst ip op rule: safe_loop.induct)
  case (1 src dst ip op)
  obtain r where r: "safe_step src dst ip op = Some r" "out_ok src (length dst) r"
    using safe_step_safe [OF "1.prems"] by blast
  show ?case
  proof (cases r)
    case (Next ip' op' dst')
    then have "\<exists>r. safe_loop src dst' ip' op' = Some r \<and> final_ok (length dst') r"
      using r by (intro "1.IH") (auto simp: out_ok_def)
    then show ?thesis
      using Next r by (subst safe_loop.simps) (auto simp: out_ok_def)
  next
    case (Done op' dst')
    then show ?thesis
      using r by (subst safe_loop.simps) (auto simp: out_ok_def final_ok_def)
  next
    case (Fail ip' dst')
    then show ?thesis
      using r by (subst safe_loop.simps) (auto simp: out_ok_def final_ok_def)
  qed
qed

lemma fast_loop_safe:
  assumes "ip < length src" "op + 64 \<le> length dst"
  shows "\<exists>r. fast_loop src dst ip op = Some r \<and> final_ok (length dst) r"
  using assms
proof (induction src dst ip op rule: fast_loop.induct)
  case (1 src dst ip op)
  obtain r where r: "fast_step src dst ip op = Some r" "fast_ok src (length dst) r"
    using fast_step_safe [OF "1.prems"] by blast
  show ?case
  proof (cases r)
    case (FastNext ip' op' dst')
    then have "\<exists>r. fast_loop src dst' ip' op' = Some r \<and> final_ok (length dst') r"
      using r by (intro "1.IH") (auto simp: fast_ok_def lz4_const_defs)
    then show ?thesis
      using FastNext r by (subst fast_loop.simps) (auto simp: fast_ok_def)
  next
    case (ToSafe s)
    show ?thesis
    proof (cases s)
      case (Next ip' op' dst')
      then have "\<exists>r. safe_loop src dst' ip' op' = Some r \<and> final_ok (length dst') r"
        using r ToSafe by (intro safe_loop_safe) (auto simp: fast_ok_def out_ok_def)
      then show ?thesis
        using ToSafe Next r by (subst fast_loop.simps) (auto simp: fast_ok_def out_ok_def)
    qed (use ToSafe r in \<open>subst fast_loop.simps, auto simp: fast_ok_def out_ok_def final_ok_def\<close>)+
  qed
qed

text \<open>
  C20: Whatever bytes it is given, \<open>LZ4_decompress_safe\<close> terminates without reading outside the
  source, without reading or writing outside the destination and without a \<open>memcpy\<close> between
  overlapping regions; it returns at most the capacity of the destination.
\<close>

theorem LZ4_decompress_safe_memory_safe:
  "\<exists>ret dst'. LZ4_decompress_safe src dst = Some (ret, dst') \<and> length dst' = length dst \<and>
     ret \<le> int (length dst)"
proof (cases "length dst = 0 \<or> length src = 0")
  case True
  then show ?thesis
    by (auto simp: LZ4_decompress_safe_def LZ4_decompress_generic_def)
next
  case False
  then obtain r where "(if length dst < 64 then safe_loop src dst 0 0 else fast_loop src dst 0 0) = Some r"
    "final_ok (length dst) r"
    using safe_loop_safe [of 0 src 0 dst] fast_loop_safe [of 0 src 0 dst] by (cases "length dst < 64") auto
  then show ?thesis
    using False by (cases r)
      (auto simp: LZ4_decompress_safe_def LZ4_decompress_generic_def lz4_const_defs final_ok_def)
qed

text \<open>
  C23: The table-driven, pattern and wild copies that \<open>LZ4_memcpy_using_offset\<close> is built from
  compute the match copy of the format: every byte of the match equals the byte \<open>offset\<close> before
  it (zero for offset 0), bytes before the match are untouched, and the at most fifteen bytes
  written beyond it stay inside the buffer.
\<close>

theorem LZ4_memcpy_using_offset_correct:
  assumes "offset \<le> d" "d + 16 \<le> length dst" "e + 7 \<le> length dst"
  shows "\<exists>dst'. LZ4_memcpy_using_offset dst d (d - offset) e offset = Some dst' \<and>
    length dst' = length dst \<and> take d dst' = take d dst \<and>
    (\<forall>i. d \<le> i \<longrightarrow> i < e \<longrightarrow> dst' ! i = (if offset = 0 then 0 else dst' ! (i - offset)))"
proof -
  obtain dst' where d: "LZ4_memcpy_using_offset dst d (d - offset) e offset = Some dst'"
    "match_copied d offset e dst dst'"
    using memcpy_using_offset_copied [OF assms] by blast
  have "take d dst' = take d dst"
    by (rule nth_equalityI) (use d(2) in \<open>auto simp: match_copied_def\<close>)
  then show ?thesis
    using d by (auto simp: match_copied_def)
qed

theorem LZ4_memcpy_using_offset_correct_witness:
  "\<exists>dst'. LZ4_memcpy_using_offset ([1, 2, 3] @ replicate 29 0) 3 0 12 3 = Some dst' \<and>
     take 12 dst' = [1, 2, 3, 1, 2, 3, 1, 2, 3, 1, 2, 3]"
proof -
  let ?buf = "[1, 2, 3] @ replicate 29 (0 :: u8)"
  obtain dst' where d: "LZ4_memcpy_using_offset ?buf 3 (3 - 3) 12 3 = Some dst'"
    "length dst' = length ?buf" "take 3 dst' = take 3 ?buf"
    "\<And>i. 3 \<le> i \<Longrightarrow> i < 12 \<Longrightarrow> dst' ! i = dst' ! (i - 3)"
    using LZ4_memcpy_using_offset_correct [of 3 3 ?buf 12] by auto
  have z: "dst' ! 0 = 1" "dst' ! 1 = 2" "dst' ! 2 = 3"
    using arg_cong [OF d(3), of "\<lambda>l. l ! 0"] arg_cong [OF d(3), of "\<lambda>l. l ! 1"]
      arg_cong [OF d(3), of "\<lambda>l. l ! 2"] by simp_all
  have "take 12 dst' = map (\<lambda>i. dst' ! i) [0..<12]"
    by (rule nth_equalityI) (use d(2) in simp_all)
  also have "\<dots> = [1, 2, 3, 1, 2, 3, 1, 2, 3, 1, 2, 3]"
    using d(4) [of 3] d(4) [of 4] d(4) [of 5] d(4) [of 6] d(4) [of 7] d(4) [of 8] d(4) [of 9]
      d(4) [of 10] d(4) [of 11] z by (simp add: upt_conv_Cons eval_nat_numeral)
  finally show ?thesis
    using d(1) by simp
qed

end
