(* ===== verification/Lz4_Format.thy ===== *)
theory Lz4_Format
  imports Lz4_Safe Lz4_Encode
begin

text \<open>
  The LZ4 block format as lists of sequences, and what the decoder does on it. A sequence is
  a number of literals, an offset and a match length; \<open>enc_seq\<close> and \<open>enc_last\<close> are its bytes.
  Both decode loops turn the bytes of a sequence into its literals and its match, as long as
  the parsing restrictions of the format (twelve bytes of output after the literals, five
  after the match) hold.
\<close>

section \<open>Bytes of a sequence\<close>

definition enc_len :: "nat \<Rightarrow> bytes" where
  "enc_len n = replicate (n div 255) 255 @ [of_nat (n mod 255)]"

definition len_ext :: "nat \<Rightarrow> bytes" where
  "len_ext n = (if n \<ge> 15 then enc_len (n - 15) else [])"

definition seq_token :: "nat \<Rightarrow> nat \<Rightarrow> u8" where
  "seq_token l c = of_nat (min l 15 * 16 + min c 15)"

text \<open>\<open>c\<close> is the match length minus the four bytes every match has.\<close>

definition enc_seq :: "bytes \<Rightarrow> nat \<Rightarrow> nat \<Rightarrow> bytes" where
  "enc_seq lits off c =
     seq_token (length lits) c # len_ext (length lits) @ lits @ LZ4_writeLE16 (of_nat off) @ len_ext c"

definition enc_last :: "bytes \<Rightarrow> bytes" where
  "enc_last lits = seq_token (length lits) 0 # len_ext (length lits) @ lits"

lemma length_enc_len: "length (enc_len n) = n div 255 + 1"
  by (simp add: enc_len_def)

lemma length_writeLE16 [simp]: "length (LZ4_writeLE16 v) = 2"
  by (simp add: LZ4_writeLE16_def)

lemma unat_of_nat_u8: "n < 256 \<Longrightarrow> unat (of_nat n :: u8) = n"
  by (simp add: unsigned_of_nat take_bit_nat_eq_self)

lemma seq_token_parts:
  "unat (seq_token l c) div 16 = min l 15" "unat (seq_token l c) mod 16 = min c 15"
proof -
  have "min l 15 * 16 + min c 15 < 256"
    by simp
  then have u: "unat (seq_token l c) = min l 15 * 16 + min c 15"
    unfolding seq_token_def by (rule unat_of_nat_u8)
  have "min c 15 < 16"
    by simp
  then show "unat (seq_token l c) div 16 = min l 15" "unat (seq_token l c) mod 16 = min c 15"
    unfolding u by simp_all
qed

lemma nth_drop_Cons: "drop ip src = b # r \<Longrightarrow> ip < length src \<and> src ! ip = b \<and> drop (ip + 1) src = r"
  by (metis drop_all drop_Suc list.distinct(1) list.sel(3) not_le nth_via_drop Suc_eq_plus1 drop_drop drop0 tl_drop)

lemma drop_append: "drop ip src = xs @ r \<Longrightarrow> drop (ip + length xs) src = r"
  by (metis append_eq_conv_conj drop_drop add.commute)

lemma drop_length: "drop ip src = xs @ r \<Longrightarrow> ip \<le> length src \<Longrightarrow> ip + length xs + length r = length src"
  by (metis add.assoc le_add_diff_inverse length_append length_drop)

lemma drop_nth: "drop ip src = xs @ r \<Longrightarrow> i < length xs \<Longrightarrow> src ! (ip + i) = xs ! i"
  by (metis drop_all append_is_Nil_conv le_cases length_0_conv less_nat_zero_code nth_append nth_drop)

section \<open>Reading lengths and offsets\<close>

lemma rvl_loop_enc:
  assumes "drop ip src = replicate q 255 @ [of_nat r] @ rest" "r < 255" "0 < k" "k \<le> length rest"
  shows "rvl_loop src ip k acc = Some (RvlOk (ip + q + 1) (acc + q * 255 + r))"
  using assms(1)
proof (induction q arbitrary: ip acc)
  case 0
  then have d: "ip < length src" "src ! ip = of_nat r" "drop (ip + 1) src = rest"
    using nth_drop_Cons [of ip src "of_nat r" rest] by simp_all
  have "ip + 1 + k \<le> length src"
    using d(1) assms(4) length_drop [of "ip + 1" src] unfolding d(3) by linarith
  moreover have "unat (src ! ip) = r"
    using d(2) assms(2) unat_of_nat_u8 [of r] by simp
  ultimately show ?case
    using d(1) assms(2) by (subst rvl_loop.simps) (simp add: Let_def)
next
  case (Suc q)
  then have d: "ip < length src" "src ! ip = 255" "drop (ip + 1) src = replicate q 255 @ [of_nat r] @ rest"
    using nth_drop_Cons [of ip src 255 "replicate q 255 @ [of_nat r] @ rest"] by simp_all
  have "ip + 1 + k \<le> length src"
    using d(1) assms(4) length_drop [of "ip + 1" src] unfolding d(3) by simp
  moreover have u: "unat (src ! ip) = 255"
    using d(2) by simp
  moreover have "rvl_loop src (ip + 1) k (acc + 255) = Some (RvlOk (ip + 1 + q + 1) (acc + 255 + q * 255 + r))"
    using Suc.IH [OF d(3)] .
  ultimately show ?case
    using d(1) u by (subst rvl_loop.simps) (simp add: Let_def algebra_simps)
qed

lemma read_variable_length_enc:
  assumes d: "drop ip src = enc_len n @ rest" and "0 < k" "k \<le> length rest" "ip \<le> length src"
  shows "read_variable_length src ip k b = Some (RvlOk (ip + length (enc_len n)) n)"
proof -
  have "rvl_loop src ip k 0 = Some (RvlOk (ip + n div 255 + 1) (0 + n div 255 * 255 + n mod 255))"
    using d by (intro rvl_loop_enc [OF _ _ assms(2,3)]) (simp_all add: enc_len_def)
  moreover have "\<not> ip + k \<ge> length src"
    using drop_length [OF d assms(4)] assms(3) by (simp add: length_enc_len)
  ultimately show ?thesis
    by (simp add: read_variable_length_def length_enc_len)
qed

lemma LZ4_readLE16_enc:
  assumes "drop ip src = LZ4_writeLE16 (of_nat off) @ rest" "off < 65536"
  shows "LZ4_readLE16 src ip = Some off"
proof -
  have ip: "ip < length src"
    using assms(1) by (metis append_Nil2 append_is_Nil_conv drop_all length_0_conv length_writeLE16 not_le zero_neq_numeral)
  have b: "src ! (ip + 0) = ucast (of_nat off :: u16)" "src ! (ip + 1) = ucast (drop_bit 8 (of_nat off :: u16))"
    using drop_nth [OF assms(1), of 0] drop_nth [OF assms(1), of 1] by (simp_all add: LZ4_writeLE16_def)
  have "(ucast (ucast v :: u8) OR push_bit 8 (ucast (ucast (drop_bit 8 v) :: u8)) :: u16) = v" for v :: u16
    by (rule bit_word_eqI) (auto simp: bit_simps)
  moreover have "unat (of_nat off :: u16) = off"
    using assms(2) by (simp add: unsigned_of_nat take_bit_nat_eq_self)
  moreover have "ip + 2 \<le> length src"
    using drop_length [OF assms(1)] ip by simp
  ultimately show ?thesis
    using b by (simp add: LZ4_readLE16_def)
qed

section \<open>Decoding a sequence\<close>

text \<open>\<open>dst'\<close> continues \<open>dst\<close> at \<open>op\<close> with the literals and the match.\<close>

definition seq_done :: "nat \<Rightarrow> bytes \<Rightarrow> nat \<Rightarrow> nat \<Rightarrow> bytes \<Rightarrow> bytes \<Rightarrow> bool" where
  "seq_done op lits off c dst dst' \<longleftrightarrow> length dst' = length dst \<and> (\<forall>i<op. dst' ! i = dst ! i) \<and>
     (\<forall>i<length lits. dst' ! (op + i) = lits ! i) \<and>
     (\<forall>i. op + length lits \<le> i \<longrightarrow> i < op + length lits + (c + 4) \<longrightarrow>
        dst' ! i = (if off = 0 then 0 else dst' ! (i - off)))"

lemma seq_doneI:
  assumes "copied_from src s op e dst b" "op + length lits \<le> e" "drop s src = lits @ r"
    and "match_copied (op + length lits) off (op + length lits + (c + 4)) b dst'"
  shows "seq_done op lits off c dst dst'"
proof -
  have "dst' ! (op + i) = lits ! i" if "i < length lits" for i
    using assms(1,2,4) drop_nth [OF assms(3) that] that by (simp add: copied_from_def match_copied_def)
  then show ?thesis
    using assms(1,2,4) by (simp add: seq_done_def copied_from_def match_copied_def)
qed

text \<open>What the bytes of a sequence look like from each of the points where the decoder reads.\<close>

lemma enc_seq_layout:
  assumes "drop ip src = enc_seq lits off c @ rest"
  defines "l \<equiv> length lits" and "i1 \<equiv> ip + 1 + length (len_ext (length lits))"
  shows "ip < length src" "src ! ip = seq_token l c"
    "drop (ip + 1) src = len_ext l @ lits @ LZ4_writeLE16 (of_nat off) @ len_ext c @ rest"
    "drop i1 src = lits @ LZ4_writeLE16 (of_nat off) @ len_ext c @ rest"
    "drop (i1 + l) src = LZ4_writeLE16 (of_nat off) @ len_ext c @ rest"
    "drop (i1 + l + 2) src = len_ext c @ rest"
    "i1 + l + 2 + length (len_ext c) + length rest = length src"
    "ip + length (enc_seq lits off c) = i1 + l + 2 + length (len_ext c)"
proof -
  have d: "ip < length src \<and> src ! ip = seq_token l c \<and>
    drop (ip + 1) src = len_ext l @ lits @ LZ4_writeLE16 (of_nat off) @ len_ext c @ rest"
    by (rule nth_drop_Cons) (use assms(1) in \<open>simp add: enc_seq_def l_def\<close>)
  then show 1: "ip < length src" "src ! ip = seq_token l c"
    "drop (ip + 1) src = len_ext l @ lits @ LZ4_writeLE16 (of_nat off) @ len_ext c @ rest"
    by simp_all
  show 2: "drop i1 src = lits @ LZ4_writeLE16 (of_nat off) @ len_ext c @ rest"
    using drop_append [OF 1(3)] by (simp add: i1_def l_def)
  show 3: "drop (i1 + l) src = LZ4_writeLE16 (of_nat off) @ len_ext c @ rest"
    using drop_append [OF 2] by (simp add: l_def)
  show 4: "drop (i1 + l + 2) src = len_ext c @ rest"
    using drop_append [OF 3] by simp
  show "i1 + l + 2 + length (len_ext c) + length rest = length src"
    using drop_length [OF 1(3)] 1(1) by (simp add: i1_def l_def)
  show "ip + length (enc_seq lits off c) = i1 + l + 2 + length (len_ext c)"
    by (simp add: enc_seq_def i1_def l_def)
qed

lemma copy_match_enc:
  assumes d: "drop ip src = len_ext c @ rest" and rest: "6 \<le> length rest" and ip: "ip \<le> length src"
    and "off \<le> op" "op + 8 \<le> length dst" "op + (c + 4) + 5 \<le> length dst"
  shows "\<exists>dst'. copy_match src dst ip op off (min c 15) =
      Some (Next (ip + length (len_ext c)) (op + (c + 4)) dst') \<and> match_copied op off (op + (c + 4)) dst dst'"
proof -
  obtain dst' where m: "safe_match_copy dst (ip + length (len_ext c)) op off (c + 4) =
      Some (Next (ip + length (len_ext c)) (op + (c + 4)) dst')" "match_copied op off (op + (c + 4)) dst dst'"
    using safe_match_copy_ok [of off op dst "c + 4" "ip + length (len_ext c)"] assms
    by (auto simp: lz4_const_defs)
  show ?thesis
  proof (cases "15 \<le> c")
    case True
    have "read_variable_length src ip 4 False = Some (RvlOk (ip + length (enc_len (c - 15))) (c - 15))"
      using d ip True order_trans [OF _ rest, of 4]
      by (intro read_variable_length_enc) (simp_all add: len_ext_def)
    then show ?thesis
      using m True by (auto simp: copy_match_def lz4_const_defs len_ext_def add.commute)
  next
    case False
    then show ?thesis
      using m by (auto simp: copy_match_def lz4_const_defs len_ext_def)
  qed
qed

lemma safe_literal_copy_enc:
  assumes d: "drop i1 src = lits @ LZ4_writeLE16 (of_nat off) @ len_ext c @ rest"
    and rest: "6 \<le> length rest" and i1: "i1 \<le> length src" and off: "off < 65536"
    and l: "l = length lits" and tok: "token mod 16 = min c 15"
    and "off \<le> op + l" "op + l + 12 \<le> length dst" "op + l + (c + 4) + 5 \<le> length dst"
  shows "\<exists>dst'. safe_literal_copy src dst i1 op token l =
      Some (Next (i1 + l + 2 + length (len_ext c)) (op + l + (c + 4)) dst') \<and> seq_done op lits off c dst dst'"
proof -
  note len = drop_length [OF d i1]
  have d2: "drop (i1 + l) src = LZ4_writeLE16 (of_nat off) @ len_ext c @ rest"
    using drop_append [OF d] by (simp add: l)
  have d3: "drop (i1 + l + 2) src = len_ext c @ rest"
    using drop_append [OF d2] by simp
  have near: "\<not> (op + l + 12 > length dst \<or> i1 + l + 8 > length src)"
    using assms len by simp
  then obtain b where b: "LZ4_wildCopy8_from src dst op i1 (op + l) = Some b"
    "copied_from src i1 op (max (op + l) (op + 8)) dst b"
    using wildCopy8_from_copied [of op dst "op + l" i1 src] by auto
  have lb: "length b = length dst"
    using b(2) by (simp add: copied_from_def)
  obtain dst' where m: "copy_match src b (i1 + l + 2) (op + l) off (min c 15) =
      Some (Next (i1 + l + 2 + length (len_ext c)) (op + l + (c + 4)) dst')"
    "match_copied (op + l) off (op + l + (c + 4)) b dst'"
    using copy_match_enc [OF d3 rest, of off "op + l" b] assms lb near by auto
  have "seq_done op lits off c dst dst'"
    using seq_doneI [OF b(2) _ d] m(2) by (simp add: l)
  moreover have "safe_literal_copy src dst i1 op token l =
      Some (Next (i1 + l + 2 + length (len_ext c)) (op + l + (c + 4)) dst')"
    using near b(1) m(1) LZ4_readLE16_enc [OF d2 off] tok
    by (simp add: safe_literal_copy_def Let_def lz4_const_defs)
  ultimately show ?thesis
    by blast
qed

lemma safe_step_enc:
  assumes d: "drop ip src = enc_seq lits off c @ rest" and rest: "6 \<le> length rest"
    and off: "off < 65536" and l: "l = length lits"
    and "off \<le> op + l" "op + l + 12 \<le> length dst" "op + l + (c + 4) + 5 \<le> length dst"
  shows "\<exists>dst'. safe_step src dst ip op =
      Some (Next (ip + length (enc_seq lits off c)) (op + l + (c + 4)) dst') \<and> seq_done op lits off c dst dst'"
proof -
  note lay = enc_seq_layout [OF d, folded l]
  let ?i1 = "ip + 1 + length (len_ext l)"
  have tok: "unat (src ! ip) div 16 = min l 15" "unat (src ! ip) mod 16 = min c 15"
    by (simp_all add: lay(2) seq_token_parts)
  have i1: "?i1 \<le> length src" "?i1 + l \<le> length src"
    using lay(7) by simp_all
  obtain lc where lc: "safe_literal_copy src dst ?i1 op (unat (src ! ip)) l =
      Some (Next (?i1 + l + 2 + length (len_ext c)) (op + l + (c + 4)) lc)" "seq_done op lits off c dst lc"
    using safe_literal_copy_enc [OF lay(4) rest i1(1) off l tok(2)] assms by auto
  show ?thesis
  proof (cases "15 \<le> l")
    case True
    have e: "drop (ip + 1) src = enc_len (l - 15) @ lits @ LZ4_writeLE16 (of_nat off) @ len_ext c @ rest"
      using lay(3) True by (simp add: len_ext_def)
    have "read_variable_length src (ip + 1) 15 True = Some (RvlOk (ip + 1 + length (enc_len (l - 15))) (l - 15))"
      using lay(1) True l by (intro read_variable_length_enc [OF e]) simp_all
    then show ?thesis
      using True lay(1,8) tok lc by (simp add: safe_step_def Let_def lz4_const_defs len_ext_def)
  next
    case False
    then have x: "len_ext l = []" "?i1 = ip + 1"
      by (simp_all add: len_ext_def)
    show ?thesis
    proof (cases "ip + 1 + 16 < length src \<and> op + 32 \<le> length dst")
      case True
      obtain b where b: "memcpy_from src dst op (ip + 1) 16 = Some b" "copied_from src (ip + 1) op (op + 16) dst b"
        by (rule memcpy_from_copied [of "ip + 1" 16 src op dst]) (use True in auto)
      have lb: "length b = length dst"
        using b(2) by (simp add: copied_from_def)
      have ro: "LZ4_readLE16 src (ip + 1 + l) = Some off"
        using LZ4_readLE16_enc [OF lay(5) off] x by simp
      have fin: "seq_done op lits off c dst z" if "match_copied (op + l) off (op + l + (c + 4)) b z" for z
        using seq_doneI [OF b(2) _ lay(4) [unfolded x(2)]] that False by (simp add: l)
      show ?thesis
      proof (cases "min c 15 \<noteq> 15 \<and> 8 \<le> off")
        case True
        obtain b1 b2 b3 where m: "memcpy_in b (op + l) (op + l - off) 8 = Some b1"
          "memcpy_in b1 (op + l + 8) (op + l - off + 8) 8 = Some b2"
          "memcpy_in b2 (op + l + 16) (op + l - off + 16) 2 = Some b3" "copies (op + l) off (op + l + 18) b b3"
          by (rule memcpy18 [of off "op + l" b]) (use True assms False \<open>_ \<and> op + 32 \<le> _\<close> lb in auto)
        have "match_copied (op + l) off (op + l + (c + 4)) b b3"
          using copies_weaken [OF m(4), of "op + l + (c + 4)"] True
          by (auto simp: match_copied_copies min_def split: if_splits)
        note s = fin [OF this]
        have "len_ext c = []" "min c 15 = c"
          using True by (auto simp: len_ext_def)
        then show ?thesis
          using True False \<open>_ \<and> op + 32 \<le> _\<close> lay(1,8) tok b(1) ro m(1-3) assms(5) x s
          by (auto simp: safe_step_def Let_def lz4_const_defs)
      next
        case slow: False
        obtain z where z: "copy_match src b (ip + 1 + l + 2) (op + l) off (min c 15) =
            Some (Next (ip + 1 + l + 2 + length (len_ext c)) (op + l + (c + 4)) z)"
          "match_copied (op + l) off (op + l + (c + 4)) b z"
          using copy_match_enc [OF lay(6) rest, of off "op + l" b] assms lb x lay(7) by auto
        show ?thesis
          using slow False \<open>_ \<and> op + 32 \<le> _\<close> lay(1,8) tok b(1) ro z(1) x fin [OF z(2)]
          by (auto simp: safe_step_def Let_def lz4_const_defs)
      qed
    next
      case far: False
      then show ?thesis
        using False lay(1,8) tok lc x by (auto simp: safe_step_def Let_def lz4_const_defs)
    qed
  qed
qed

lemma enc_last_layout:
  assumes "drop ip src = enc_last lits"
  shows "ip < length src" "src ! ip = seq_token (length lits) 0"
    "drop (ip + 1) src = len_ext (length lits) @ lits @ []"
    "drop (ip + 1 + length (len_ext (length lits))) src = lits"
    "ip + 1 + length (len_ext (length lits)) + length lits = length src"
proof -
  have d: "ip < length src \<and> src ! ip = seq_token (length lits) 0 \<and>
    drop (ip + 1) src = len_ext (length lits) @ lits"
    by (rule nth_drop_Cons) (use assms(1) in \<open>simp add: enc_last_def\<close>)
  then show 1: "ip < length src" "src ! ip = seq_token (length lits) 0"
    "drop (ip + 1) src = len_ext (length lits) @ lits @ []"
    by simp_all
  show 2: "drop (ip + 1 + length (len_ext (length lits))) src = lits"
    using drop_append [OF 1(3)] by simp
  show "ip + 1 + length (len_ext (length lits)) + length lits = length src"
    using drop_length [OF 1(3)] 1(1) by simp
qed

lemma safe_literal_copy_last:
  assumes "drop i1 src = lits" "i1 + length lits = length src" "op + length lits \<le> length dst"
  shows "\<exists>dst'. safe_literal_copy src dst i1 op token (length lits) = Some (Done (op + length lits) dst') \<and>
    length dst' = length dst \<and> (\<forall>i<op. dst' ! i = dst ! i) \<and> (\<forall>i<length lits. dst' ! (op + i) = lits ! i)"
proof -
  obtain b where b: "memcpy_from src dst op i1 (length lits) = Some b"
    "copied_from src i1 op (op + length lits) dst b"
    by (rule memcpy_from_copied [of i1 "length lits" src op dst]) (use assms in auto)
  have "b ! (op + i) = lits ! i" if "i < length lits" for i
    using b(2) drop_nth [of i1 src lits "[]" i] assms(1) that by (simp add: copied_from_def)
  then show ?thesis
    using b assms by (simp add: safe_literal_copy_def copied_from_def Let_def lz4_const_defs)
qed

lemma safe_step_last:
  assumes d: "drop ip src = enc_last lits" and "op + length lits \<le> length dst"
  shows "\<exists>dst'. safe_step src dst ip op = Some (Done (op + length lits) dst') \<and>
    length dst' = length dst \<and> (\<forall>i<op. dst' ! i = dst ! i) \<and> (\<forall>i<length lits. dst' ! (op + i) = lits ! i)"
proof -
  note lay = enc_last_layout [OF d]
  let ?l = "length lits"
  have tok: "unat (src ! ip) div 16 = min ?l 15" "unat (src ! ip) mod 16 = 0"
    by (simp_all add: lay(2) seq_token_parts)
  note lc = safe_literal_copy_last [OF lay(4,5) assms(2), of "unat (src ! ip)"]
  show ?thesis
  proof (cases "15 \<le> ?l")
    case True
    have e: "drop (ip + 1) src = enc_len (?l - 15) @ lits"
      using lay(3) True by (simp add: len_ext_def)
    have "read_variable_length src (ip + 1) 15 True = Some (RvlOk (ip + 1 + length (enc_len (?l - 15))) (?l - 15))"
      using lay(1) True by (intro read_variable_length_enc [OF e]) simp_all
    then show ?thesis
      using True lay(1) tok lc by (simp add: safe_step_def Let_def lz4_const_defs len_ext_def)
  next
    case False
    then have "\<not> ip + 1 + 16 < length src"
      using lay(5) by (simp add: len_ext_def)
    then show ?thesis
      using False lay(1) tok lc by (simp add: safe_step_def Let_def lz4_const_defs len_ext_def)
  qed
qed

subsection \<open>In the fast loop\<close>

definition fast_next :: "lz4_fast option \<Rightarrow> nat \<Rightarrow> nat \<Rightarrow> bytes \<Rightarrow> bool" where
  "fast_next r ip op dst \<longleftrightarrow>
     r = Some (FastNext ip op dst) \<and> op + 64 \<le> length dst \<or> r = Some (ToSafe (Next ip op dst))"

lemma fast_match_copy_enc:
  assumes "off \<le> op" "op + n + 64 < length dst"
  shows "\<exists>dst'. fast_match_copy dst ip op off n = Some (FastNext ip (op + n) dst') \<and>
    match_copied op off (op + n) dst dst'"
proof (cases "off < 16")
  case True
  then show ?thesis
    using memcpy_using_offset_copied [of off op dst "op + n"] assms
    by (auto simp: fast_match_copy_def Let_def)
next
  case False
  obtain b where b: "LZ4_wildCopy32 dst op (op - off) (op + n) = Some b"
    "copies op off (max (op + n) (op + 32)) dst b"
    using wildCopy32_copies [of off op dst "op + n"] False assms by auto
  then have "copies op off (op + n) dst b"
    by (auto elim: copies_weaken)
  then show ?thesis
    using False assms b(1) by (simp add: fast_match_copy_def Let_def match_copied_copies)
qed

lemma fast_match_enc:
  assumes d: "drop ip src = LZ4_writeLE16 (of_nat off) @ len_ext c @ rest" and rest: "6 \<le> length rest"
    and off: "off < 65536" and ip: "ip \<le> length src" and tok: "token mod 16 = min c 15"
    and "off \<le> op" "op + 8 \<le> length dst" "op + (c + 4) + 5 \<le> length dst"
  shows "\<exists>dst'. fast_next (fast_match src dst ip op token) (ip + 2 + length (len_ext c)) (op + (c + 4)) dst' \<and>
    match_copied op off (op + (c + 4)) dst dst'"
proof -
  have d2: "drop (ip + 2) src = len_ext c @ rest"
    using drop_append [OF d] by simp
  have ip2: "ip + 2 \<le> length src"
    using drop_length [OF d ip] by simp
  note ro = LZ4_readLE16_enc [OF d off]
  let ?ip = "ip + 2 + length (len_ext c)"
  have r: "c \<ge> 15 \<Longrightarrow> read_variable_length src (ip + 2) 4 False = Some (RvlOk ?ip (c - 15))"
    using read_variable_length_enc [of "ip + 2" src "c - 15" rest 4 False] d2 ip2 order_trans [OF _ rest, of 4]
    by (simp add: len_ext_def)
  show ?thesis
  proof (cases "op + (c + 4) + 64 \<ge> length dst")
    case True
    obtain z where z: "safe_match_copy dst ?ip op off (c + 4) = Some (Next ?ip (op + (c + 4)) z)"
      "match_copied op off (op + (c + 4)) dst z"
      using safe_match_copy_ok [of off op dst "c + 4" ?ip] assms by (auto simp: lz4_const_defs)
    have "fast_match src dst ip op token = Some (ToSafe (Next ?ip (op + (c + 4)) z))"
    proof (cases "c \<ge> 15")
      case c: True
      then show ?thesis
        using r True ro tok z(1)
        by (simp add: fast_match_def Let_def lz4_const_defs len_ext_def add.commute add.left_commute)
    next
      case False
      then show ?thesis
        using True ro tok z(1) by (simp add: fast_match_def Let_def lz4_const_defs len_ext_def)
    qed
    then show ?thesis
      using z(2) by (auto simp: fast_next_def)
  next
    case far: False
    obtain z where z: "fast_match_copy dst ?ip op off (c + 4) = Some (FastNext ?ip (op + (c + 4)) z)"
      "match_copied op off (op + (c + 4)) dst z"
      using fast_match_copy_enc [of off op "c + 4" dst ?ip] assms far by auto
    have lz: "length z = length dst"
      using z(2) by (simp add: match_copied_def)
    consider (long) "c \<ge> 15" | (short) "c < 15" "8 \<le> off" | (low) "c < 15" "off < 8"
      by linarith
    then show ?thesis
    proof cases
      case long
      then have "fast_match src dst ip op token = Some (FastNext ?ip (op + (c + 4)) z)"
        using r far ro tok z(1)
        by (simp add: fast_match_def Let_def lz4_const_defs len_ext_def add.commute add.left_commute)
      then show ?thesis
        using z(2) far lz by (auto simp: fast_next_def)
    next
      case low
      then have "fast_match src dst ip op token = Some (FastNext ?ip (op + (c + 4)) z)"
        using far ro tok z(1) by (simp add: fast_match_def Let_def lz4_const_defs len_ext_def)
      then show ?thesis
        using z(2) far lz by (auto simp: fast_next_def)
    next
      case short
      obtain b1 b2 b3 where m: "memcpy_in dst op (op - off) 8 = Some b1"
        "memcpy_in b1 (op + 8) (op - off + 8) 8 = Some b2"
        "memcpy_in b2 (op + 16) (op - off + 16) 2 = Some b3" "copies op off (op + 18) dst b3"
        by (rule memcpy18 [of off op dst]) (use short assms far in auto)
      have lb: "length b3 = length dst"
        using m(4) by (simp add: copies_def)
      have "fast_match src dst ip op token = Some (FastNext ?ip (op + (c + 4)) b3)"
        using short far ro tok m(1-3) assms(6) by (simp add: fast_match_def Let_def lz4_const_defs len_ext_def)
      moreover have "match_copied op off (op + (c + 4)) dst b3"
        using copies_weaken [OF m(4), of "op + (c + 4)"] short by (simp add: match_copied_copies)
      ultimately show ?thesis
        using far lb by (auto simp: fast_next_def)
    qed
  qed
qed

lemma fast_step_enc:
  assumes d: "drop ip src = enc_seq lits off c @ rest" and rest: "6 \<le> length rest"
    and off: "off < 65536" and l: "l = length lits"
    and "off \<le> op + l" "op + l + 12 \<le> length dst" "op + l + (c + 4) + 5 \<le> length dst" "op + 64 \<le> length dst"
  shows "\<exists>dst'. fast_next (fast_step src dst ip op) (ip + length (enc_seq lits off c)) (op + l + (c + 4)) dst' \<and>
    seq_done op lits off c dst dst'"
proof -
  note lay = enc_seq_layout [OF d, folded l]
  let ?i1 = "ip + 1 + length (len_ext l)"
  have tok: "unat (src ! ip) div 16 = min l 15" "unat (src ! ip) mod 16 = min c 15"
    by (simp_all add: lay(2) seq_token_parts)
  have i1: "?i1 \<le> length src" "?i1 + l \<le> length src"
    using lay(7) by simp_all
  obtain lc where lc: "safe_literal_copy src dst ?i1 op (unat (src ! ip)) l =
      Some (Next (?i1 + l + 2 + length (len_ext c)) (op + l + (c + 4)) lc)" "seq_done op lits off c dst lc"
    using safe_literal_copy_enc [OF lay(4) rest i1(1) off l tok(2)] assms by auto
  have mtch: "\<exists>z. fast_next (fast_match src b (?i1 + l) (op + l) (unat (src ! ip)))
      (ip + length (enc_seq lits off c)) (op + l + (c + 4)) z \<and> seq_done op lits off c dst z"
    if "copied_from src ?i1 op e dst b" "op + l \<le> e" for b e
  proof -
    have lb: "length b = length dst"
      using that(1) by (simp add: copied_from_def)
    obtain z where z: "fast_next (fast_match src b (?i1 + l) (op + l) (unat (src ! ip)))
        (?i1 + l + 2 + length (len_ext c)) (op + l + (c + 4)) z"
      "match_copied (op + l) off (op + l + (c + 4)) b z"
      using fast_match_enc [OF lay(5) rest off i1(2) tok(2), of "op + l" b] assms lb by auto
    have "seq_done op lits off c dst z"
      using seq_doneI [OF that(1) _ lay(4), of off c z] that(2) z(2) by (simp add: l)
    then show ?thesis
      using z(1) unfolding lay(8) by blast
  qed
  show ?thesis
  proof (cases "15 \<le> l")
    case True
    have e: "drop (ip + 1) src = enc_len (l - 15) @ lits @ LZ4_writeLE16 (of_nat off) @ len_ext c @ rest"
      using lay(3) True by (simp add: len_ext_def)
    have r: "read_variable_length src (ip + 1) 15 True = Some (RvlOk ?i1 (l - 15))"
      using lay(1) True l read_variable_length_enc [OF e, of 15 True] by (simp add: len_ext_def)
    show ?thesis
    proof (cases "op + l + 32 > length dst \<or> ?i1 + l + 32 > length src")
      case near: True
      then have "fast_step src dst ip op =
          Some (ToSafe (Next (ip + length (enc_seq lits off c)) (op + l + (c + 4)) lc))"
        using True lay(1,8) tok lc(1) r by (auto simp: fast_step_def Let_def lz4_const_defs)
      then show ?thesis
        using lc(2) by (auto simp: fast_next_def)
    next
      case False
      obtain b where b: "LZ4_wildCopy32_from src dst op ?i1 (op + l) = Some b"
        "copied_from src ?i1 op (max (op + l) (op + 32)) dst b"
        using wildCopy32_from_copied [of op dst "op + l" ?i1 src] False by auto
      have "fast_step src dst ip op = fast_match src b (?i1 + l) (op + l) (unat (src ! ip))"
        using True False lay(1) tok b(1) r by (simp add: fast_step_def Let_def lz4_const_defs)
      then show ?thesis
        using mtch [OF b(2)] by simp
    qed
  next
    case False
    then have x: "?i1 = ip + 1"
      by (simp add: len_ext_def)
    show ?thesis
    proof (cases "ip + 1 + 17 \<le> length src")
      case True
      obtain b where b: "memcpy_from src dst op (ip + 1) 16 = Some b" "copied_from src (ip + 1) op (op + 16) dst b"
        by (rule memcpy_from_copied [of "ip + 1" 16 src op dst]) (use True assms in auto)
      have "fast_step src dst ip op = fast_match src b (?i1 + l) (op + l) (unat (src ! ip))"
        using True False lay(1) tok b(1) x by (simp add: fast_step_def Let_def lz4_const_defs)
      then show ?thesis
        using mtch [of "op + 16" b] b(2) x False by simp
    next
      case short: False
      then have "fast_step src dst ip op =
          Some (ToSafe (Next (ip + length (enc_seq lits off c)) (op + l + (c + 4)) lc))"
        using False lay(1,8) tok lc(1) x by (auto simp: fast_step_def Let_def lz4_const_defs)
      then show ?thesis
        using lc(2) by (auto simp: fast_next_def)
    qed
  qed
qed

lemma fast_step_last:
  assumes d: "drop ip src = enc_last lits" and "op + length lits \<le> length dst"
  shows "\<exists>dst'. fast_step src dst ip op = Some (ToSafe (Done (op + length lits) dst')) \<and>
    length dst' = length dst \<and> (\<forall>i<op. dst' ! i = dst ! i) \<and> (\<forall>i<length lits. dst' ! (op + i) = lits ! i)"
proof -
  note lay = enc_last_layout [OF d]
  let ?l = "length lits"
  have tok: "unat (src ! ip) div 16 = min ?l 15" "unat (src ! ip) mod 16 = 0"
    by (simp_all add: lay(2) seq_token_parts)
  note lc = safe_literal_copy_last [OF lay(4,5) assms(2), of "unat (src ! ip)"]
  show ?thesis
  proof (cases "15 \<le> ?l")
    case True
    have e: "drop (ip + 1) src = enc_len (?l - 15) @ lits"
      using lay(3) True by (simp add: len_ext_def)
    have r: "read_variable_length src (ip + 1) 15 True =
        Some (RvlOk (ip + 1 + length (len_ext ?l)) (?l - 15))"
      using lay(1) True read_variable_length_enc [OF e, of 15 True] by (simp add: len_ext_def)
    have "ip + 1 + length (len_ext ?l) + ?l + 32 > length src"
      using lay(5) by simp
    then show ?thesis
      using True lay(1) tok lc r by (auto simp: fast_step_def Let_def lz4_const_defs)
  next
    case False
    then have x: "len_ext ?l = []"
      by (simp add: len_ext_def)
    have "\<not> ip + 1 + 17 \<le> length src"
      using lay(5) False by (simp add: x)
    then show ?thesis
      using False lay(1) tok lc by (auto simp: fast_step_def Let_def lz4_const_defs x)
  qed
qed

end
