(* ===== verification/Lz4_Count.thy ===== *)
theory Lz4_Count
  imports Lz4_Encode
begin

text \<open>
  \<open>LZ4_count\<close> compares eight bytes at a time and locates the first difference by counting
  trailing zeros. It is the byte-by-byte count of the common prefix.
\<close>

section \<open>Words read from the input\<close>

lemma bit_u8_ge: "8 \<le> n \<Longrightarrow> \<not> bit (x :: u8) n"
  by (auto dest: bit_imp_le_length)

lemma less8: "(q :: nat) < 8 \<Longrightarrow> q = 0 \<or> q = 1 \<or> q = 2 \<or> q = 3 \<or> q = 4 \<or> q = 5 \<or> q = 6 \<or> q = 7"
  by arith

lemma bit_read_ARCH:
  assumes "q < 8" "r < 8"
  shows "bit (LZ4_read_ARCH src p) (8 * q + r) \<longleftrightarrow> bit (src ! (p + q)) r"
  using less8 [OF assms(1)] assms(2)
  by (elim disjE) (simp_all add: LZ4_read_ARCH_def bit_simps bit_u8_ge)

lemma bit_read32:
  assumes "q < 4" "r < 8"
  shows "bit (LZ4_read32 src p) (8 * q + r) \<longleftrightarrow> bit (src ! (p + q)) r"
proof -
  have "q = 0 \<or> q = 1 \<or> q = 2 \<or> q = 3"
    using assms(1) by arith
  then show ?thesis
    using assms(2) by (elim disjE) (simp_all add: LZ4_read32_def bit_simps bit_u8_ge)
qed

lemma bit_read16:
  assumes "q < 2" "r < 8"
  shows "bit (LZ4_read16 src p) (8 * q + r) \<longleftrightarrow> bit (src ! (p + q)) r"
proof -
  have "q = 0 \<or> q = 1"
    using assms(1) by arith
  then show ?thesis
    using assms(2) by (elim disjE) (simp_all add: LZ4_read16_def bit_simps bit_u8_ge)
qed

lemma u8_eqI: "(\<And>r. r < 8 \<Longrightarrow> bit x r = bit y r) \<Longrightarrow> x = (y :: u8)"
  by (rule bit_word_eqI) simp

lemma read32_eq_bytes: "LZ4_read32 src p = LZ4_read32 src p' \<Longrightarrow> q < 4 \<Longrightarrow> src ! (p + q) = src ! (p' + q)"
  by (rule u8_eqI) (metis bit_read32)

lemma read16_eq_bytes: "LZ4_read16 src p = LZ4_read16 src p' \<Longrightarrow> q < 2 \<Longrightarrow> src ! (p + q) = src ! (p' + q)"
  by (rule u8_eqI) (metis bit_read16)

lemma read_ARCH_eq_bytes: "LZ4_read_ARCH src p = LZ4_read_ARCH src p' \<Longrightarrow> q < 8 \<Longrightarrow> src ! (p + q) = src ! (p' + q)"
  by (rule u8_eqI) (metis bit_read_ARCH)

section \<open>Trailing zeros\<close>

lemma ctzll_props:
  assumes "v \<noteq> 0"
  shows "ctzll v < 64" "bit v (ctzll v)" "\<And>i. i < ctzll v \<Longrightarrow> \<not> bit v i"
proof -
  obtain n where n: "bit v n" "n < 64"
  proof -
    have "\<exists>n. bit v n"
      using assms by (auto simp: bit_eq_iff)
    then show thesis
      using that bit_imp_le_length [of v] by auto
  qed
  let ?P = "\<lambda>i. \<not> bit v i"
  have lt: "length (takeWhile ?P [0..<64]) < length [0..<64]"
  proof (rule ccontr)
    assume "\<not> ?thesis"
    then have "takeWhile ?P [0..<64] = [0..<64]"
      by (metis not_less take_all takeWhile_eq_take)
    then have "\<forall>x \<in> set [0..<64]. ?P x"
      by (simp only: takeWhile_eq_all_conv)
    then show False
      using n by simp
  qed
  then show "ctzll v < 64"
    by (simp add: ctzll_def)
  show "bit v (ctzll v)"
    using nth_length_takeWhile [OF lt] lt by (simp add: ctzll_def)
  show "\<not> bit v i" if "i < ctzll v" for i
  proof -
    have "takeWhile ?P [0..<64] ! i = [0..<64] ! i"
      using that by (simp add: ctzll_def takeWhile_nth)
    moreover have "takeWhile ?P [0..<64] ! i \<in> set (takeWhile ?P [0..<64])"
      using that by (simp add: ctzll_def)
    ultimately show ?thesis
      using that lt by (auto simp: ctzll_def dest: set_takeWhileD)
  qed
qed

lemma NbCommonBytes_correct:
  assumes "LZ4_read_ARCH src p XOR LZ4_read_ARCH src p' \<noteq> 0"
    and "k = LZ4_NbCommonBytes (LZ4_read_ARCH src p XOR LZ4_read_ARCH src p')"
  shows "k < 8" "\<And>q. q < k \<Longrightarrow> src ! (p + q) = src ! (p' + q)" "src ! (p + k) \<noteq> src ! (p' + k)"
proof -
  let ?v = "LZ4_read_ARCH src p XOR LZ4_read_ARCH src p'"
  note c = ctzll_props [OF assms(1)]
  have k: "k = ctzll ?v div 8"
    by (simp add: assms(2) LZ4_NbCommonBytes_def)
  show k8: "k < 8"
    using c(1) by (simp add: k)
  show "src ! (p + q) = src ! (p' + q)" if "q < k" for q
  proof (rule u8_eqI)
    fix r :: nat
    assume r: "r < 8"
    have "8 * q + r < ctzll ?v"
      using that r by (simp add: k)
    then have "\<not> bit ?v (8 * q + r)"
      using c(3) by blast
    then show "bit (src ! (p + q)) r = bit (src ! (p' + q)) r"
      using bit_read_ARCH [of q r] that k8 r by (simp add: bit_xor_iff)
  qed
  show "src ! (p + k) \<noteq> src ! (p' + k)"
  proof
    assume e: "src ! (p + k) = src ! (p' + k)"
    have "bit ?v (8 * k + ctzll ?v mod 8)"
      using c(2) by (simp add: k)
    then show False
      using bit_read_ARCH [OF k8, of "ctzll ?v mod 8"] e by (simp add: bit_xor_iff)
  qed
qed

section \<open>The count is the common prefix\<close>

function lz4_common :: "bytes \<Rightarrow> nat \<Rightarrow> nat \<Rightarrow> nat \<Rightarrow> nat" where
  "lz4_common src i m lim = (if i < lim \<and> src ! m = src ! i then Suc (lz4_common src (i + 1) (m + 1) lim) else 0)"
  by pat_completeness auto
termination
  by (relation "measure (\<lambda>(src, i, m, lim). lim - i)") auto

declare lz4_common.simps [simp del]

lemma lz4_common_skip:
  assumes "k = 0 \<or> i + k \<le> lim" "\<And>q. q < k \<Longrightarrow> src ! (m + q) = src ! (i + q)"
  shows "lz4_common src i m lim = k + lz4_common src (i + k) (m + k) lim"
  using assms
proof (induction k arbitrary: i m)
  case (Suc k)
  have "lz4_common src (i + 1) (m + 1) lim = k + lz4_common src (i + 1 + k) (m + 1 + k) lim"
  proof (rule Suc.IH)
    show "src ! (m + 1 + q) = src ! (i + 1 + q)" if "q < k" for q
      using Suc.prems(2) [of "q + 1"] that by simp
  qed (use Suc.prems in simp)
  moreover have "src ! m = src ! i"
    using Suc.prems(2) [of 0] by simp
  ultimately show ?case
    using Suc.prems(1) by (subst lz4_common.simps) simp
qed simp

lemma lz4_common_stop: "i \<ge> lim \<or> src ! m \<noteq> src ! i \<Longrightarrow> lz4_common src i m lim = 0"
  by (subst lz4_common.simps) auto

lemma lz4_common_props:
  "i \<le> lim \<Longrightarrow> i + lz4_common src i m lim \<le> lim"
  "q < lz4_common src i m lim \<Longrightarrow> src ! (m + q) = src ! (i + q)"
proof (induction src i m lim arbitrary: q rule: lz4_common.induct)
  case (1 src i m lim)
  {
    case 1
    then show ?case
      using "1.IH"(1) by (subst lz4_common.simps) auto
  next
    case 2
    then show ?case
      using "1.IH"(2) [of "q - 1"] by (subst (asm) lz4_common.simps) (cases q; auto split: if_splits)
  }
qed

lemma LZ4_count_loop_common:
  assumes "s \<le> i"
  shows "LZ4_count_loop src s i m lim = i + lz4_common src i m lim - s"
  using assms
proof (induction src s i m lim rule: LZ4_count_loop.induct)
  case (1 src s i m lim)
  show ?case
  proof (cases "i + 7 < lim")
    case True
    show ?thesis
    proof (cases "LZ4_read_ARCH src m XOR LZ4_read_ARCH src i = 0")
      case eq: True
      then have "LZ4_read_ARCH src m = LZ4_read_ARCH src i"
        by (simp add: bit_eq_iff bit_xor_iff)
      then have "lz4_common src i m lim = 8 + lz4_common src (i + 8) (m + 8) lim"
        using True by (intro lz4_common_skip read_ARCH_eq_bytes) auto
      moreover have "LZ4_count_loop src s (i + 8) (m + 8) lim = i + 8 + lz4_common src (i + 8) (m + 8) lim - s"
        using "1.IH" True eq "1.prems" by simp
      ultimately show ?thesis
        using True eq by (subst LZ4_count_loop.simps) simp
    next
      case ne: False
      note k = NbCommonBytes_correct [OF ne refl]
      let ?k = "LZ4_NbCommonBytes (LZ4_read_ARCH src m XOR LZ4_read_ARCH src i)"
      have "lz4_common src i m lim = ?k + lz4_common src (i + ?k) (m + ?k) lim"
        using True k(1,2) by (intro lz4_common_skip) auto
      also have "lz4_common src (i + ?k) (m + ?k) lim = 0"
        using k(3) by (intro lz4_common_stop) simp
      finally show ?thesis
        using True ne by (subst LZ4_count_loop.simps) simp
    qed
  next
    case False
    define a where "a = (if i + 3 < lim \<and> LZ4_read32 src m = LZ4_read32 src i then 4 else 0 :: nat)"
    define b where "b = (if i + a + 1 < lim \<and> LZ4_read16 src (m + a) = LZ4_read16 src (i + a) then 2 else 0 :: nat)"
    define c where "c = (if i + a + b < lim \<and> src ! (m + a + b) = src ! (i + a + b) then 1 else 0 :: nat)"
    have 1: "lz4_common src i m lim = a + lz4_common src (i + a) (m + a) lim"
      by (rule lz4_common_skip) (auto simp: a_def intro: read32_eq_bytes split: if_splits)
    have 2: "lz4_common src (i + a) (m + a) lim = b + lz4_common src (i + a + b) (m + a + b) lim"
      by (rule lz4_common_skip) (auto simp: b_def intro: read16_eq_bytes split: if_splits)
    have 3: "lz4_common src (i + a + b) (m + a + b) lim = c"
    proof (cases "c = 0")
      case True
      then show ?thesis
        by (intro trans [OF lz4_common_stop]) (auto simp: c_def split: if_splits)
    next
      case c1: False
      then have "lz4_common src (i + a + b) (m + a + b) lim = 1 + lz4_common src (i + a + b + 1) (m + a + b + 1) lim"
        by (intro lz4_common_skip) (auto simp: c_def split: if_splits)
      also have "lz4_common src (i + a + b + 1) (m + a + b + 1) lim = 0"
      proof (rule lz4_common_stop)
        have "a = 4 \<and> b = 2 \<longrightarrow> lim \<le> i + a + b + 1"
          using False by simp
        moreover have "src ! (m + a + 1) \<noteq> src ! (i + a + 1)" if "b = 0" "i + a + 1 < lim"
          using that c1 by (auto simp: b_def c_def LZ4_read16_def split: if_splits)
        moreover have "src ! (m + 3) \<noteq> src ! (i + 3)" if "a = 0" "b = 2" "i + 3 < lim"
        proof
          assume three: "src ! (m + 3) = src ! (i + 3)"
          have "LZ4_read16 src m = LZ4_read16 src i" "src ! (m + 2) = src ! (i + 2)"
            using that c1 by (auto simp: b_def c_def split: if_splits)
          then have "LZ4_read32 src m = LZ4_read32 src i"
            using three read16_eq_bytes [of src m i 0] read16_eq_bytes [of src m i 1]
            by (simp add: LZ4_read32_def)
          then show False
            using that by (simp add: a_def)
        qed
        moreover have "a = 0 \<or> a = 4" "b = 0 \<or> b = 2"
          by (simp_all add: a_def b_def)
        moreover have "m + 0 + 2 + 1 = m + 3" "i + 0 + 2 + 1 = i + 3"
          by simp_all
        ultimately show "i + a + b + 1 \<ge> lim \<or> src ! (m + a + b + 1) \<noteq> src ! (i + a + b + 1)"
          by (metis add_0_right not_le)
      qed
      finally show ?thesis
        using c1 by (auto simp: c_def split: if_splits)
    qed
    have p1: "(if i + 3 < lim \<and> LZ4_read32 src m = LZ4_read32 src i then (i + 4, m + 4) else (i, m)) =
        (i + a, m + a)"
      by (simp add: a_def)
    have p2: "(if i + a + 1 < lim \<and> LZ4_read16 src (m + a) = LZ4_read16 src (i + a)
        then (i + a + 2, m + a + 2) else (i + a, m + a)) = (i + a + b, m + a + b)"
      by (simp add: b_def)
    have p3: "(if i + a + b < lim \<and> src ! (m + a + b) = src ! (i + a + b) then i + a + b + 1 else i + a + b) =
        i + a + b + c"
      by (simp add: c_def)
    have "LZ4_count_loop src s i m lim = i + a + b + c - s"
      by (subst LZ4_count_loop.simps) (simp only: False if_False Let_def p1 p2 p3 prod.case)
    then show ?thesis
      using 1 2 3 by simp
  qed
qed

text \<open>
  C22: Counting a match eight bytes at a time, with the first difference found by counting
  trailing zero bits, gives exactly the length of the longest common prefix of the two
  positions below the limit.
\<close>

theorem LZ4_count_correct: "LZ4_count src pIn pMatch pInLimit = lz4_common src pIn pMatch pInLimit"
  using LZ4_count_loop_common [of pIn pIn] by (simp add: LZ4_count_def)

lemma LZ4_count_props:
  "i \<le> lim \<Longrightarrow> i + LZ4_count src i m lim \<le> lim"
  "q < LZ4_count src i m lim \<Longrightarrow> src ! (m + q) = src ! (i + q)"
  using LZ4_count_loop_common [of i i src m lim] lz4_common_props by (simp_all add: LZ4_count_def)

end
