(* ===== verification/Lz4_Roundtrip.thy ===== *)
theory Lz4_Roundtrip
  imports Lz4_Format Lz4_Count
begin

text \<open>
  The round trip of the LZ4 codec: what \<open>LZ4_compress_fast_extState\<close> writes is a valid parse
  of its input, and \<open>LZ4_decompress_safe\<close> turns a valid parse back into the input. With it
  the bound on the compressed size that the callers' buffers rely on.
\<close>

section \<open>Parses\<close>

type_synonym lz4_seq = "nat \<times> nat \<times> nat"

fun enc_body :: "bytes \<Rightarrow> nat \<Rightarrow> lz4_seq list \<Rightarrow> bytes" where
  "enc_body orig pos [] = []"
| "enc_body orig pos ((l, off, c) # r) =
     enc_seq (read_at orig pos l) off c @ enc_body orig (pos + l + (c + 4)) r"

fun end_pos :: "nat \<Rightarrow> lz4_seq list \<Rightarrow> nat" where
  "end_pos pos [] = pos"
| "end_pos pos ((l, off, c) # r) = end_pos (pos + l + (c + 4)) r"

fun valid_parse :: "bytes \<Rightarrow> nat \<Rightarrow> lz4_seq list \<Rightarrow> bool" where
  "valid_parse orig pos [] \<longleftrightarrow> pos \<le> length orig"
| "valid_parse orig pos ((l, off, c) # r) \<longleftrightarrow>
     0 < off \<and> off \<le> pos + l \<and> off < 65536 \<and> pos + l + 12 \<le> length orig \<and>
     pos + l + (c + 4) + 5 \<le> length orig \<and>
     (\<forall>j<c + 4. orig ! (pos + l + j) = orig ! (pos + l + j - off)) \<and>
     valid_parse orig (pos + l + (c + 4)) r"

definition enc_block :: "bytes \<Rightarrow> nat \<Rightarrow> lz4_seq list \<Rightarrow> bytes" where
  "enc_block orig pos seqs = enc_body orig pos seqs @ enc_last (drop (end_pos pos seqs) orig)"

lemma enc_block_Cons:
  "enc_block orig pos ((l, off, c) # r) =
     enc_seq (read_at orig pos l) off c @ enc_block orig (pos + l + (c + 4)) r"
  by (simp add: enc_block_def)

lemma end_pos_le: "valid_parse orig pos seqs \<Longrightarrow> end_pos pos seqs \<le> length orig"
  by (induction orig pos seqs rule: valid_parse.induct) auto

lemma length_enc_last: "length (enc_last lits) \<ge> 1 + length lits"
  by (simp add: enc_last_def)

lemma length_enc_block:
  "valid_parse orig pos seqs \<Longrightarrow> pos + 5 \<le> length orig \<Longrightarrow> 6 \<le> length (enc_block orig pos seqs)"
proof (induction orig pos seqs rule: valid_parse.induct)
  case (1 orig pos)
  then show ?case
    using length_enc_last [of "drop pos orig"] by (simp add: enc_block_def)
next
  case (2 orig pos l off c r)
  then show ?case
    by (simp add: enc_block_Cons)
qed

lemma seq_done_orig:
  assumes "seq_done op (read_at orig op l) off c dst dst'" "take op dst = take op orig"
    and v: "0 < off" "off \<le> op + l" "op + l + (c + 4) \<le> length orig"
    "\<forall>j<c + 4. orig ! (op + l + j) = orig ! (op + l + j - off)"
    and len: "length orig \<le> length dst"
  shows "take (op + l + (c + 4)) dst' = take (op + l + (c + 4)) orig" "length dst' = length dst"
proof -
  have ll: "length (read_at orig op l) = l"
    using v(3) by (simp add: length_read_at)
  have nth: "dst' ! i = orig ! i" if "i < op + l + (c + 4)" for i
    using that
  proof (induction i rule: less_induct)
    case (less i)
    consider "i < op" | "op \<le> i" "i < op + l" | "op + l \<le> i"
      by linarith
    then show ?case
    proof cases
      case 1
      then have "dst ! i = orig ! i"
        using assms(2) by (metis nth_take)
      then show ?thesis
        using 1 assms(1) by (simp add: seq_done_def)
    next
      case 2
      then obtain j where j: "i = op + j" "j < l"
        by (metis le_Suc_ex nat_add_left_cancel_less)
      then have "dst' ! i = read_at orig op l ! j"
        using assms(1) ll by (simp add: seq_done_def)
      then show ?thesis
        using j v(3) by (simp add: nth_read_at)
    next
      case 3
      then obtain j where j: "i = op + l + j" "j < c + 4"
        using less.prems by (metis le_Suc_ex nat_add_left_cancel_less)
      have "dst' ! i = dst' ! (i - off)"
        using assms(1) 3 less.prems ll v(1) by (simp add: seq_done_def)
      also have "\<dots> = orig ! (i - off)"
        using less.IH [of "i - off"] less.prems v(1,2) 3 by simp
      also have "\<dots> = orig ! i"
        using v(4) j by simp
      finally show ?thesis .
    qed
  qed
  show l: "length dst' = length dst"
    using assms(1) by (simp add: seq_done_def)
  show "take (op + l + (c + 4)) dst' = take (op + l + (c + 4)) orig"
    by (rule nth_equalityI) (use l len v(3) nth in simp_all)
qed

section \<open>Decoding a valid parse\<close>

lemma last_orig:
  assumes "take pos dst = take pos orig" "pos \<le> length orig" "length orig \<le> length dst" "length dst' = length dst"
    "\<forall>i<pos. dst' ! i = dst ! i" "\<forall>i<length (drop pos orig). dst' ! (pos + i) = drop pos orig ! i"
  shows "take (length orig) dst' = orig"
proof (rule nth_equalityI)
  fix i
  assume "i < length (take (length orig) dst')"
  then have i: "i < length orig"
    using assms(3,4) by simp
  show "take (length orig) dst' ! i = orig ! i"
  proof (cases "i < pos")
    case True
    then have "dst ! i = orig ! i"
      using assms(1) by (metis nth_take)
    then show ?thesis
      using True assms(5) i by simp
  next
    case False
    then show ?thesis
      using assms(6) [rule_format, of "i - pos"] i assms(2) by simp
  qed
qed (use assms in simp)

lemma safe_loop_block:
  assumes "drop ip src = enc_block orig pos seqs" "valid_parse orig pos seqs"
    "take pos dst = take pos orig" "length orig \<le> length dst"
  shows "\<exists>dst'. safe_loop src dst ip pos = Some (Done (length orig) dst') \<and> take (length orig) dst' = orig \<and>
    length dst' = length dst"
  using assms
proof (induction orig pos seqs arbitrary: ip dst rule: valid_parse.induct)
  case (1 orig pos)
  then obtain dst' where s: "safe_step src dst ip pos = Some (Done (pos + length (drop pos orig)) dst')"
    "length dst' = length dst" "\<forall>i<pos. dst' ! i = dst ! i"
    "\<forall>i<length (drop pos orig). dst' ! (pos + i) = drop pos orig ! i"
    using safe_step_last [of ip src "drop pos orig" pos dst] by (auto simp: enc_block_def)
  have "take (length orig) dst' = orig"
    using last_orig [OF "1.prems"(3) _ "1.prems"(4) s(2,3,4)] "1.prems"(2) by simp
  then show ?case
    using s "1.prems"(2) by (subst safe_loop.simps) simp
next
  case (2 orig pos l off c r)
  let ?pos = "pos + l + (c + 4)"
  have d: "drop ip src = enc_seq (read_at orig pos l) off c @ enc_block orig ?pos r"
    using "2.prems"(1) by (simp add: enc_block_Cons)
  have ll: "l = length (read_at orig pos l)"
    using "2.prems"(2) by (auto simp: length_read_at)
  have rest: "6 \<le> length (enc_block orig ?pos r)"
    using "2.prems"(2) by (intro length_enc_block) simp_all
  obtain dst1 where s: "safe_step src dst ip pos =
      Some (Next (ip + length (enc_seq (read_at orig pos l) off c)) ?pos dst1)"
    "seq_done pos (read_at orig pos l) off c dst dst1"
    using safe_step_enc [OF d rest _ ll, of pos dst] "2.prems"(2,4) by auto
  have t: "take ?pos dst1 = take ?pos orig" "length dst1 = length dst"
    using seq_done_orig [OF s(2) "2.prems"(3)] "2.prems"(2,4) by auto
  obtain dst' where "safe_loop src dst1 (ip + length (enc_seq (read_at orig pos l) off c)) ?pos =
      Some (Done (length orig) dst')" "take (length orig) dst' = orig" "length dst' = length dst1"
    using "2.IH" [OF drop_append [OF d] _ t(1)] "2.prems"(2,4) t(2) by auto
  then show ?case
    using s(1) t(2) by (subst safe_loop.simps) simp
qed

lemma fast_loop_block:
  assumes "drop ip src = enc_block orig pos seqs" "valid_parse orig pos seqs"
    "take pos dst = take pos orig" "length orig \<le> length dst" "pos + 64 \<le> length dst"
  shows "\<exists>dst'. fast_loop src dst ip pos = Some (Done (length orig) dst') \<and> take (length orig) dst' = orig \<and>
    length dst' = length dst"
  using assms
proof (induction orig pos seqs arbitrary: ip dst rule: valid_parse.induct)
  case (1 orig pos)
  then obtain dst' where s: "fast_step src dst ip pos = Some (ToSafe (Done (pos + length (drop pos orig)) dst'))"
    "length dst' = length dst" "\<forall>i<pos. dst' ! i = dst ! i"
    "\<forall>i<length (drop pos orig). dst' ! (pos + i) = drop pos orig ! i"
    using fast_step_last [of ip src "drop pos orig" pos dst] by (auto simp: enc_block_def)
  have "take (length orig) dst' = orig"
    using last_orig [OF "1.prems"(3) _ "1.prems"(4) s(2,3,4)] "1.prems"(2) by simp
  then show ?case
    using s "1.prems"(2) by (subst fast_loop.simps) simp
next
  case (2 orig pos l off c r)
  let ?pos = "pos + l + (c + 4)" and ?ip = "ip + length (enc_seq (read_at orig pos l) off c)"
  have d: "drop ip src = enc_seq (read_at orig pos l) off c @ enc_block orig ?pos r"
    using "2.prems"(1) by (simp add: enc_block_Cons)
  have ll: "l = length (read_at orig pos l)"
    using "2.prems"(2) by (auto simp: length_read_at)
  have rest: "6 \<le> length (enc_block orig ?pos r)"
    using "2.prems"(2) by (intro length_enc_block) simp_all
  obtain dst1 where s: "fast_next (fast_step src dst ip pos) ?ip ?pos dst1"
    "seq_done pos (read_at orig pos l) off c dst dst1"
    using fast_step_enc [OF d rest _ ll, of pos dst] "2.prems"(2,4,5) by auto
  have t: "take ?pos dst1 = take ?pos orig" "length dst1 = length dst"
    using seq_done_orig [OF s(2) "2.prems"(3)] "2.prems"(2,4) by auto
  have v: "valid_parse orig ?pos r" "length orig \<le> length dst1"
    using "2.prems"(2,4) t(2) by simp_all
  from s(1) show ?case
    unfolding fast_next_def
  proof (elim disjE conjE)
    assume "fast_step src dst ip pos = Some (FastNext ?ip ?pos dst1)" "?pos + 64 \<le> length dst1"
    then show ?thesis
      using "2.IH" [OF drop_append [OF d] v(1) t(1) v(2)] t(2) by (subst fast_loop.simps) simp
  next
    assume "fast_step src dst ip pos = Some (ToSafe (Next ?ip ?pos dst1))"
    then show ?thesis
      using safe_loop_block [OF drop_append [OF d] v(1) t(1) v(2)] t(2) by (subst fast_loop.simps) simp
  qed
qed

lemma decompress_block:
  assumes "valid_parse orig 0 seqs" "orig \<noteq> []" "length orig \<le> length dst"
  shows "\<exists>dst'. LZ4_decompress_safe (enc_block orig 0 seqs) dst = Some (int (length orig), dst') \<and>
    take (length orig) dst' = orig \<and> length dst' = length dst"
proof -
  let ?src = "enc_block orig 0 seqs"
  have ne: "?src \<noteq> []" "dst \<noteq> []"
    using assms by (auto simp: enc_block_def enc_last_def)
  obtain dst' where "(if length dst < 64 then safe_loop ?src dst 0 0 else fast_loop ?src dst 0 0) =
      Some (Done (length orig) dst')" "take (length orig) dst' = orig" "length dst' = length dst"
    using safe_loop_block [of 0 ?src orig 0 seqs dst] fast_loop_block [of 0 ?src orig 0 seqs dst] assms
    by (cases "length dst < 64") auto
  then show ?thesis
    using ne by (simp add: LZ4_decompress_safe_def LZ4_decompress_generic_def lz4_const_defs)
qed

section \<open>The compressor writes a valid parse\<close>

lemma lz4_len_bytes_enc: "lz4_len_bytes n = enc_len n"
proof (induction n rule: lz4_len_bytes.induct)
  case (1 n)
  then show ?case
    by (subst lz4_len_bytes.simps) (auto simp: enc_len_def le_div_geq le_mod_geq)
qed

lemma replicate_four: "replicate (4 + n) a = [a, a, a, a] @ replicate n a"
  by (simp add: eval_nat_numeral)

lemma take_four: "n = 0 \<or> n = 1 \<or> n = 2 \<or> n = 3 \<Longrightarrow> take n [a, a, a, a] = replicate n a"
  by (elim disjE) (simp_all add: eval_nat_numeral)

lemma lz4_match_len_bytes_enc: "lz4_match_len_bytes n = enc_len n"
proof (induction n rule: lz4_match_len_bytes.induct)
  case (1 n)
  show ?case
  proof (cases "4 * 255 \<le> n")
    case True
    then obtain k where k: "n = 4 * 255 + k"
      using le_Suc_ex by blast
    have "n div 255 = 4 + k div 255"
      unfolding k by simp
    moreover have "n mod 255 = k mod 255"
      unfolding k by (rule mod_mult_self3)
    ultimately have "enc_len n = [255, 255, 255, 255] @ enc_len k"
      by (simp add: enc_len_def replicate_four)
    then show ?thesis
      using 1 True by (subst lz4_match_len_bytes.simps) (simp add: k)
  next
    case False
    then have "n div 255 = 0 \<or> n div 255 = 1 \<or> n div 255 = 2 \<or> n div 255 = 3"
      by linarith
    then have "take (n div 255) [255, 255, 255, 255] = replicate (n div 255) (255 :: u8)"
      by (rule take_four)
    then show ?thesis
      using False by (subst lz4_match_len_bytes.simps) (simp add: enc_len_def)
  qed
qed

lemma lz4_literals_enc:
  "lz4_literals src anchor l out = out @ seq_token l 0 # len_ext l @ read_at src anchor l"
  by (simp add: lz4_literals_def seq_token_def len_ext_def lz4_len_bytes_enc RUN_MASK_def min_def)

lemma lz4_last_literals_enc:
  "anchor \<le> length src \<Longrightarrow> lz4_last_literals src anchor out = out @ enc_last (drop anchor src)"
  by (simp add: lz4_last_literals_def lz4_literals_enc enc_last_def read_at_def)

lemma lz4_encode_match_enc:
  assumes "out = pre @ seq_token l 0 # len_ext l @ lits" "l = length lits"
    and "c = LZ4_count src (ip + 4) (m + 4) (length src - 5)"
  shows "lz4_encode_match src ip m (length pre) out = (ip + (c + 4), pre @ enc_seq lits (ip - m) c)"
proof -
  have tok: "seq_token l 0 + of_nat (min c 15) = seq_token l c"
    by (simp add: seq_token_def)
  show ?thesis
  proof (cases "15 \<le> c")
    case True
    have "seq_token l 0 + 15 = seq_token l c"
      using tok True by simp
    then show ?thesis
      using True assms
      by (simp add: lz4_encode_match_def Let_def lz4_const_defs enc_seq_def len_ext_def
          lz4_match_len_bytes_enc nth_append list_update_append)
  next
    case False
    have "seq_token l 0 + of_nat c = seq_token l c"
      using tok False by simp
    then show ?thesis
      using False assms
      by (simp add: lz4_encode_match_def Let_def lz4_const_defs enc_seq_def len_ext_def
          nth_append list_update_append)
  qed
qed

text \<open>Every index in the table is below the current position.\<close>

definition tab_below :: "hashTable \<Rightarrow> nat \<Rightarrow> bool" where
  "tab_below tab p \<longleftrightarrow> (\<forall>h. unat (tab h) < p)"

lemma tab_below_mono: "tab_below tab p \<Longrightarrow> p \<le> p' \<Longrightarrow> tab_below tab p'"
  by (auto simp: tab_below_def intro: less_le_trans)

lemma tab_below_put: "tab_below tab p \<Longrightarrow> idx < p \<Longrightarrow> tab_below (LZ4_putIndexOnHash idx h tab tt) p"
proof -
  assume t: "tab_below tab p" "idx < p"
  have "unat (of_nat idx :: u32) \<le> idx" "unat (ucast (of_nat idx :: u16) :: u32) \<le> idx"
    by (simp_all add: unsigned_of_nat unsigned_ucast_eq take_bit_nat_less_eq_self
        order.trans [OF take_bit_nat_less_eq_self take_bit_nat_less_eq_self])
  then show ?thesis
    using t by (auto simp: tab_below_def LZ4_putIndexOnHash_def split: tableType.splits)
qed

lemma lz4_find_spec:
  assumes "lz4_find tt src tab fwd h step nb = Some (tab', ip, m)" "tab_below tab fwd" "1 \<le> step" "64 \<le> nb"
  shows "ip + 1 \<le> mflimitPlusOne src \<and> m < ip \<and> LZ4_read32 src m = LZ4_read32 src ip \<and>
    (tt = byU16 \<or> ip \<le> m + 65535) \<and> tab_below tab' (ip + 1)"
  using assms
proof (induction tt src tab fwd h step nb rule: lz4_find.induct)
  case (1 tt src tab fwd h step nb)
  let ?mi = "LZ4_getIndexOnHash h tab tt" and ?tab = "LZ4_putIndexOnHash fwd h tab tt"
    and ?h = "LZ4_hashPosition src (fwd + step) tt"
  have lim: "\<not> fwd + step > mflimitPlusOne src"
    using "1.prems"(1) by (subst (asm) lz4_find.simps) (auto simp: Let_def split: if_splits)
  have below: "tab_below ?tab (fwd + 1)"
    using "1.prems"(2) by (intro tab_below_put) (auto elim: tab_below_mono)
  show ?case
  proof (cases "\<not> (tt \<noteq> byU16 \<and> ?mi + LZ4_DISTANCE_MAX < fwd) \<and> LZ4_read32 src ?mi = LZ4_read32 src fwd")
    case True
    then have "tab' = ?tab" "ip = fwd" "m = ?mi"
      using "1.prems"(1) lim by (subst (asm) lz4_find.simps; auto simp: Let_def split: if_splits)+
    then show ?thesis
      using True lim "1.prems"(2,3) below
      by (auto simp: tab_below_def LZ4_getIndexOnHash_def LZ4_DISTANCE_MAX_def not_less)
  next
    case False
    have rec: "lz4_find tt src ?tab (fwd + step) ?h (drop_bit LZ4_skipTrigger nb) (nb + 1) = Some (tab', ip, m)"
      using False lim "1.prems"(1) by (subst (asm) lz4_find.simps) (auto simp: Let_def split: if_splits)
    have pre: "tab_below ?tab (fwd + step)" "1 \<le> drop_bit LZ4_skipTrigger nb" "64 \<le> nb + 1"
      using below "1.prems"(3,4) by (auto elim: tab_below_mono simp: LZ4_skipTrigger_def drop_bit_eq_div)
    show ?thesis
    proof (cases "tt \<noteq> byU16 \<and> ?mi + LZ4_DISTANCE_MAX < fwd")
      case True
      show ?thesis
        using "1.IH"(1) [OF refl refl refl refl refl refl refl lim refl refl True rec pre] .
    next
      case far: False
      then have "\<not> LZ4_read32 src ?mi = LZ4_read32 src fwd"
        using False by blast
      then show ?thesis
        using "1.IH"(2) [OF refl refl refl refl refl refl refl lim refl refl far _ rec pre] by blast
    qed
  qed
qed

lemma lz4_back_spec:
  assumes "lz4_back src anchor ip m = (ip', m')" "anchor < ip" "0 < m" "m < ip" "src ! (ip - 1) = src ! (m - 1)"
    "\<And>q. q < n \<Longrightarrow> src ! (ip + q) = src ! (m + q)"
  shows "\<exists>k. ip = ip' + k \<and> m = m' + k \<and> anchor \<le> ip' \<and> (\<forall>q<k + n. src ! (ip' + q) = src ! (m' + q))"
  using assms
proof (induction src anchor ip m arbitrary: n rule: lz4_back.induct)
  case (1 src anchor ip m)
  have step: "src ! (ip - 1 + q) = src ! (m - 1 + q)" if "q < n + 1" for q
    using that "1.prems"(3,4,5) "1.prems"(6) [of "q - 1"] by (cases q) auto
  show ?case
  proof (cases "ip - 1 > anchor \<and> m - 1 > 0 \<and> src ! (ip - 1 - 1) = src ! (m - 1 - 1)")
    case True
    have rec: "lz4_back src anchor (ip - 1) (m - 1) = (ip', m')"
      using True "1.prems"(1) by (subst (asm) lz4_back.simps) (simp add: Let_def)
    have "m - 1 < ip - 1"
      using "1.prems"(3,4) by linarith
    then have "\<exists>k. ip - 1 = ip' + k \<and> m - 1 = m' + k \<and> anchor \<le> ip' \<and>
      (\<forall>q<k + (n + 1). src ! (ip' + q) = src ! (m' + q))"
      using True by (intro "1.IH" [OF refl refl True rec] step) simp_all
    then obtain k where "ip - 1 = ip' + k" "m - 1 = m' + k" "anchor \<le> ip'"
      "\<forall>q<k + (n + 1). src ! (ip' + q) = src ! (m' + q)"
      by blast
    then show ?thesis
      using "1.prems"(2,3) by (intro exI [of _ "k + 1"]) auto
  next
    case False
    then have "ip' = ip - 1" "m' = m - 1"
      using "1.prems"(1) by (subst (asm) lz4_back.simps; auto simp: Let_def)+
    then show ?thesis
      using "1.prems"(2,3,4) step by (intro exI [of _ 1]) auto
  qed
qed

lemma lz4_catch_up_spec:
  assumes "lz4_catch_up src anchor ip m = (ip', m')" "anchor < ip" "m < ip"
    "\<And>q. q < n \<Longrightarrow> src ! (ip + q) = src ! (m + q)"
  shows "\<exists>k. ip = ip' + k \<and> m = m' + k \<and> anchor \<le> ip' \<and> (\<forall>q<k + n. src ! (ip' + q) = src ! (m' + q))"
proof (cases "m > 0 \<and> src ! (ip - 1) = src ! (m - 1)")
  case True
  then show ?thesis
    using lz4_back_spec [of src anchor ip m ip' m' n] assms by (simp add: lz4_catch_up_def)
next
  case False
  then show ?thesis
    using assms by (auto simp: lz4_catch_up_def intro!: exI [of _ 0])
qed

text \<open>A match at \<open>ip\<close> the main loop may encode.\<close>

definition good_match :: "tableType \<Rightarrow> bytes \<Rightarrow> hashTable \<Rightarrow> nat \<Rightarrow> nat \<Rightarrow> bool" where
  "good_match tt src tab ip m \<longleftrightarrow> m < ip \<and> ip + 12 \<le> length src \<and> ip - m < 65536 \<and>
     (\<forall>q<4. src ! (ip + q) = src ! (m + q)) \<and>
     tab_below tab (ip + (LZ4_count src (ip + 4) (m + 4) (length src - 5) + 4))"

definition size_ok :: "tableType \<Rightarrow> bytes \<Rightarrow> bool" where
  "size_ok tt src \<longleftrightarrow> 13 \<le> length src \<and> (tt = byU16 \<longrightarrow> length src < LZ4_64Klimit)"

lemma LZ4_count_ge:
  assumes "\<And>q. q < k \<Longrightarrow> src ! (m + q) = src ! (i + q)" "i + k \<le> lim"
  shows "k \<le> LZ4_count src i m lim"
  using lz4_common_skip [of k i lim src m] LZ4_count_loop_common [of i i src m lim] assms
  by (simp add: LZ4_count_def)

lemma lz4_search_spec:
  assumes s: "lz4_search tt src tab (anchor + 1) anchor out = Some (tab', ip, m, token, out')"
    and t: "tab_below tab (anchor + 1)" and ok: "size_ok tt src"
  shows "good_match tt src tab' ip m \<and> anchor \<le> ip \<and> token = length out \<and>
    out' = out @ seq_token (ip - anchor) 0 # len_ext (ip - anchor) @ read_at src anchor (ip - anchor)"
proof -
  obtain i k where f: "lz4_find tt src tab (anchor + 1) (LZ4_hashPosition src (anchor + 1) tt) 1
      (push_bit LZ4_skipTrigger 1) = Some (tab', i, k)" and c: "lz4_catch_up src anchor i k = (ip, m)"
    and o: "token = length out" "out' = lz4_literals src anchor (ip - anchor) out"
    using s by (auto simp: lz4_search_def split: option.splits prod.splits)
  have i: "i + 12 \<le> length src" "k < i" "LZ4_read32 src k = LZ4_read32 src i" "tt = byU16 \<or> i \<le> k + 65535"
    "tab_below tab' (i + 1)" "anchor < i"
    using lz4_find_spec [OF f t] lz4_find_ip [OF f] ok
    by (auto simp: mflimitPlusOne_def MFLIMIT_def LZ4_skipTrigger_def push_bit_eq_mult size_ok_def)
  have "src ! (i + q) = src ! (k + q)" if "q < 4" for q
    using read32_eq_bytes [OF i(3) that] by simp
  then obtain j where j: "i = ip + j" "k = m + j" "anchor \<le> ip" "\<forall>q<j + 4. src ! (ip + q) = src ! (m + q)"
    using lz4_catch_up_spec [OF c i(6,2), of 4] by blast
  have "ip - m < 65536"
    using i(1,4) ok j(1,2) by (auto simp: size_ok_def LZ4_64Klimit_def MFLIMIT_def)
  moreover have "j \<le> LZ4_count src (ip + 4) (m + 4) (length src - 5)"
  proof (rule LZ4_count_ge)
    show "src ! (m + 4 + q) = src ! (ip + 4 + q)" if "q < j" for q
      using j(4) [rule_format, of "4 + q"] that by (simp add: add.assoc)
  qed (use i(1) j(1) in simp)
  then have "tab_below tab' (ip + (LZ4_count src (ip + 4) (m + 4) (length src - 5) + 4))"
    using i(5) j(1) by (auto elim: tab_below_mono)
  ultimately have "good_match tt src tab' ip m"
    using i(1,2) j by (simp add: good_match_def)
  then show ?thesis
    using j(3) o by (simp add: lz4_literals_enc)
qed

lemma good_match_seq:
  assumes g: "good_match tt src tab ip m" and c: "c = LZ4_count src (ip + 4) (m + 4) (length src - 5)"
    and l: "l \<le> ip"
  shows "valid_parse src (ip - l) ((l, ip - m, c) # r) \<longleftrightarrow> valid_parse src (ip + (c + 4)) r"
    "ip + (c + 4) + 5 \<le> length src"
proof -
  have lim: "ip + 4 + c \<le> length src - 5"
    unfolding c by (rule LZ4_count_props(1)) (use g in \<open>auto simp: good_match_def\<close>)
  then show e: "ip + (c + 4) + 5 \<le> length src"
    using g by (simp add: good_match_def)
  have "src ! (ip + j) = src ! (ip + j - (ip - m))" if j: "j < c + 4" for j
  proof -
    have "ip + j - (ip - m) = m + j"
      using g by (simp add: good_match_def)
    moreover have "src ! (ip + j) = src ! (m + j)"
    proof (cases "j < 4")
      case True
      then show ?thesis
        using g by (simp add: good_match_def)
    next
      case False
      then have "src ! (m + 4 + (j - 4)) = src ! (ip + 4 + (j - 4))"
        using LZ4_count_props(2) [of "j - 4" src "ip + 4" "m + 4" "length src - 5"] j c by simp
      then show ?thesis
        using False by simp
    qed
    ultimately show ?thesis
      by simp
  qed
  moreover have "0 < ip - m" "ip - m \<le> ip" "ip - m < 65536" "ip + 12 \<le> length src" "ip - l + l = ip"
    using g l by (simp_all add: good_match_def)
  ultimately show "valid_parse src (ip - l) ((l, ip - m, c) # r) \<longleftrightarrow> valid_parse src (ip + (c + 4)) r"
    using e by (simp only: valid_parse.simps) blast
qed

text \<open>
  The main loop, entered with the literals of the first sequence already written at
  \<open>length pre\<close>, appends a valid parse and returns where it ends.
\<close>

lemma lz4_next_match_spec:
  assumes "lz4_next_match tt src tab ip m token out = (anchor, out')" "size_ok tt src"
    "good_match tt src tab ip m" "l \<le> ip" "token = length pre"
    "out = pre @ seq_token l 0 # len_ext l @ read_at src (ip - l) l"
  shows "\<exists>seqs. valid_parse src (ip - l) seqs \<and> anchor = end_pos (ip - l) seqs \<and>
    out' = pre @ enc_body src (ip - l) seqs \<and> anchor + 5 \<le> length src"
  using assms
proof (induction tt src tab ip m token out arbitrary: pre l rule: lz4_next_match.induct)
  case (1 tt src tab ip m token out)
  note g = "1.prems"(3) and l = "1.prems"(4)
  define c where "c = LZ4_count src (ip + 4) (m + 4) (length src - 5)"
  define ip1 where "ip1 = ip + (c + 4)"
  define out1 where "out1 = pre @ enc_seq (read_at src (ip - l) l) (ip - m) c"
  have ll: "l = length (read_at src (ip - l) l)"
    using g l by (auto simp: good_match_def length_read_at)
  have e: "lz4_encode_match src ip m token out = (ip1, out1)"
    unfolding ip1_def out1_def "1.prems"(5) by (rule lz4_encode_match_enc [OF "1.prems"(6) ll c_def])
  note v = good_match_seq [OF g c_def l]
  have end1: "ip1 + 5 \<le> length src"
    using v(2) by (simp add: ip1_def)
  have fin: "\<exists>seqs. valid_parse src (ip - l) seqs \<and> anchor = end_pos (ip - l) seqs \<and>
      out' = pre @ enc_body src (ip - l) seqs \<and> anchor + 5 \<le> length src"
    if r: "valid_parse src ip1 r" "anchor = end_pos ip1 r" "out' = out1 @ enc_body src ip1 r"
      "anchor + 5 \<le> length src" for r
  proof (intro exI conjI)
    show "valid_parse src (ip - l) ((l, ip - m, c) # r)"
      using v(1) r(1) by (simp only: ip1_def)
    show "anchor = end_pos (ip - l) ((l, ip - m, c) # r)"
      "out' = pre @ enc_body src (ip - l) ((l, ip - m, c) # r)"
      using r(2,3) l by (simp_all add: ip1_def out1_def)
  qed (rule r(4))
  have stop: "\<exists>seqs. valid_parse src (ip - l) seqs \<and> anchor = end_pos (ip - l) seqs \<and>
      out' = pre @ enc_body src (ip - l) seqs \<and> anchor + 5 \<le> length src"
    if "anchor = ip1" "out' = out1"
    using fin [of "[]"] that end1 by simp
  show ?case
  proof (cases "ip1 \<ge> mflimitPlusOne src")
    case True
    then have "(ip1, out1) = (anchor, out')"
      using "1.prems"(1) e by (subst (asm) lz4_next_match.simps) simp
    then show ?thesis
      by (intro stop) simp_all
  next
    case more: False
    define tab1 where "tab1 = LZ4_putIndexOnHash (ip1 - 2) (LZ4_hashPosition src (ip1 - 2) tt) tab tt"
    define h where "h = LZ4_hashPosition src ip1 tt"
    define mi where "mi = LZ4_getIndexOnHash h tab1 tt"
    define tab2 where "tab2 = LZ4_putIndexOnHash ip1 h tab1 tt"
    let ?hit = "(tt = byU16 \<or> mi + LZ4_DISTANCE_MAX \<ge> ip1) \<and> LZ4_read32 src mi = LZ4_read32 src ip1"
    have step: "(anchor, out') =
        (if ?hit then lz4_next_match tt src tab2 ip1 mi (length out1) (out1 @ [0])
         else case lz4_search tt src tab2 (ip1 + 1) ip1 out1 of
           None \<Rightarrow> (ip1, out1)
         | Some (tab, ip, match, token, out) \<Rightarrow> lz4_next_match tt src tab ip match token out)"
      unfolding "1.prems"(1) [symmetric]
      by (subst lz4_next_match.simps)
        (simp only: e prod.case more if_False Let_def tab1_def h_def mi_def tab2_def)
    have ip12: "ip1 + 12 \<le> length src"
      using more "1.prems"(2) by (auto simp: mflimitPlusOne_def MFLIMIT_def size_ok_def)
    have b1: "tab_below tab1 ip1"
      unfolding tab1_def using g by (intro tab_below_put) (auto simp: good_match_def ip1_def c_def)
    have b2: "tab_below tab2 (ip1 + 1)"
      unfolding tab2_def using b1 by (intro tab_below_put) (auto elim: tab_below_mono)
    have mi: "mi < ip1"
      using b1 by (simp add: tab_below_def mi_def LZ4_getIndexOnHash_def)
    show ?thesis
    proof (cases ?hit)
      case True
      have rec: "lz4_next_match tt src tab2 ip1 mi (length out1) (out1 @ [0]) = (anchor, out')"
        using step unfolding if_P [OF True] by (rule sym)
      have eq: "src ! (ip1 + q) = src ! (mi + q)" if "q < 4" for q
        using read32_eq_bytes [of src mi ip1 q] True that by simp
      have "ip1 - mi < 65536"
        using True ip12 "1.prems"(2) mi
        by (auto simp: size_ok_def LZ4_64Klimit_def MFLIMIT_def LZ4_DISTANCE_MAX_def)
      then have g2: "good_match tt src tab2 ip1 mi"
        using mi ip12 eq tab_below_mono [OF b2] by (simp add: good_match_def)
      have o: "out1 @ [0] = out1 @ seq_token 0 0 # len_ext 0 @ read_at src (ip1 - 0) 0"
        by (simp add: seq_token_def len_ext_def read_at_def)
      note IH = "1.IH"(1) [OF e [symmetric] more tab1_def h_def refl mi_def tab2_def True rec
          "1.prems"(2) g2 le0 refl o, unfolded diff_zero]
      from IH obtain r where "valid_parse src ip1 r" "anchor = end_pos ip1 r" "out' = out1 @ enc_body src ip1 r"
        "anchor + 5 \<le> length src"
        by blast
      then show ?thesis
        by (rule fin)
    next
      case False
      show ?thesis
      proof (cases "lz4_search tt src tab2 (ip1 + 1) ip1 out1")
        case None
        then have "(ip1, out1) = (anchor, out')"
          using step unfolding if_not_P [OF False] by (simp only: None option.case)
        then show ?thesis
          by (intro stop) simp_all
      next
        case (Some z)
        obtain tab3 ip2 m2 tok2 out2 where z: "z = (tab3, ip2, m2, tok2, out2)"
          by (cases z) auto
        have rec: "lz4_next_match tt src tab3 ip2 m2 tok2 out2 = (anchor, out')"
          using step unfolding if_not_P [OF False] by (simp only: Some z option.case prod.case)
        have s: "good_match tt src tab3 ip2 m2" "ip1 \<le> ip2" "tok2 = length out1"
          "out2 = out1 @ seq_token (ip2 - ip1) 0 # len_ext (ip2 - ip1) @ read_at src ip1 (ip2 - ip1)"
          using lz4_search_spec [OF Some [unfolded z] b2 "1.prems"(2)] by auto
        have bk: "ip2 - (ip2 - ip1) = ip1"
          using s(2) by simp
        have o: "out2 = out1 @ seq_token (ip2 - ip1) 0 # len_ext (ip2 - ip1) @
            read_at src (ip2 - (ip2 - ip1)) (ip2 - ip1)"
          using s(4) by (simp only: bk)
        note IH = "1.IH"(2) [OF e [symmetric] more tab1_def h_def refl mi_def tab2_def False Some z [symmetric]
            refl refl refl rec "1.prems"(2) s(1) diff_le_self s(3) o, unfolded bk]
        from IH obtain r where "valid_parse src ip1 r" "anchor = end_pos ip1 r" "out' = out1 @ enc_body src ip1 r"
          "anchor + 5 \<le> length src"
          by blast
        then show ?thesis
          by (rule fin)
      qed
    qed
  qed
qed

lemma compress_parse:
  assumes "src \<noteq> []" "tt = byU16 \<longrightarrow> length src < LZ4_64Klimit"
  shows "\<exists>seqs. valid_parse src 0 seqs \<and> LZ4_compress_generic_validated tt src = enc_block src 0 seqs"
proof -
  have none: "\<exists>seqs. valid_parse src 0 seqs \<and> lz4_last_literals src 0 [] = enc_block src 0 seqs"
    by (rule exI [of _ "[]"]) (simp add: enc_block_def lz4_last_literals_enc)
  show ?thesis
  proof (cases "length src < LZ4_minLength")
    case True
    then show ?thesis
      using none by (simp add: LZ4_compress_generic_validated_def)
  next
    case False
    then have ok: "size_ok tt src"
      using assms(2) by (simp add: size_ok_def LZ4_minLength_def MFLIMIT_def)
    define tab where "tab = LZ4_putIndexOnHash 0 (LZ4_hashPosition src 0 tt) (\<lambda>_. 0) tt"
    have below: "tab_below tab (0 + 1)"
      unfolding tab_def by (rule tab_below_put) (simp_all add: tab_below_def)
    show ?thesis
    proof (cases "lz4_search tt src tab 1 0 []")
      case None
      then show ?thesis
        using none False by (simp add: LZ4_compress_generic_validated_def Let_def tab_def)
    next
      case (Some z)
      obtain tab1 ip m tok out where z: "z = (tab1, ip, m, tok, out)"
        by (cases z) auto
      obtain anchor out' where nm: "lz4_next_match tt src tab1 ip m tok out = (anchor, out')"
        by fastforce
      have s: "good_match tt src tab1 ip m" "tok = length ([] :: bytes)"
        "out = [] @ seq_token ip 0 # len_ext ip @ read_at src (ip - ip) ip"
        using lz4_search_spec [OF _ below ok, of "[]" tab1 ip m tok out] Some z by auto
      obtain seqs where "valid_parse src 0 seqs" "anchor = end_pos 0 seqs" "out' = enc_body src 0 seqs"
        "anchor + 5 \<le> length src"
        using lz4_next_match_spec [OF nm ok s(1) order.refl s(2,3)] by auto
      then show ?thesis
        using False Some z nm
        by (auto simp: LZ4_compress_generic_validated_def Let_def enc_block_def lz4_last_literals_enc
            simp flip: tab_def)
    qed
  qed
qed

lemma compress_enc_block:
  assumes "src \<noteq> []" "length src \<le> LZ4_MAX_INPUT_SIZE"
  obtains seqs where "valid_parse src 0 seqs" "LZ4_compress_fast_extState src = enc_block src 0 seqs"
proof -
  let ?tt = "if length src < LZ4_64Klimit then byU16 else byU32"
  obtain seqs where "valid_parse src 0 seqs" "LZ4_compress_generic_validated ?tt src = enc_block src 0 seqs"
    using compress_parse [OF assms(1), of ?tt] by (metis tableType.distinct(1))
  then show thesis
    using that assms by (simp add: LZ4_compress_fast_extState_def LZ4_compress_generic_def)
qed

section \<open>Round trip and size\<close>

lemma decompress_compress:
  assumes "src \<noteq> []" "length src \<le> LZ4_MAX_INPUT_SIZE" "length src \<le> length dst"
  shows "\<exists>dst'. LZ4_decompress_safe (LZ4_compress_fast_extState src) dst = Some (int (length src), dst') \<and>
    take (length src) dst' = src \<and> length dst' = length dst"
  using compress_enc_block [OF assms(1,2)] decompress_block [OF _ assms(1,3)] by metis

text \<open>
  C19: Decompressing what the compressor wrote returns the length of the input and leaves the
  input in the destination buffer, for every non-empty input up to \<open>LZ4_MAX_INPUT_SIZE\<close> and
  every destination that can hold it.
\<close>

theorem LZ4_roundtrip:
  assumes "src \<noteq> []" and "length src \<le> LZ4_MAX_INPUT_SIZE" and "length src \<le> length dst"
  shows "\<exists>dst'. LZ4_decompress_safe (LZ4_compress_fast_extState src) dst = Some (int (length src), dst') \<and>
    take (length src) dst' = src"
  using decompress_compress [OF assms] by blast

theorem LZ4_roundtrip_witness:
  "\<exists>dst'. LZ4_decompress_safe (LZ4_compress_fast_extState (replicate 100 7)) (replicate 100 0) =
     Some (100, dst') \<and> take 100 dst' = replicate 100 7"
  using LZ4_roundtrip [of "replicate 100 7" "replicate 100 0"] by (simp add: LZ4_MAX_INPUT_SIZE_def)

lemma length_len_ext: "length (len_ext n) = (if n \<ge> 15 then (n - 15) div 255 + 1 else 0)"
  by (simp add: len_ext_def length_enc_len)

lemma length_enc_seq: "length (enc_seq lits off c) \<le> length lits + length lits div 255 + (c + 4)"
proof -
  have "length (len_ext c) \<le> c" "length (len_ext (length lits)) \<le> length lits div 255 + 1"
    by (simp_all add: length_len_ext) linarith+
  then show ?thesis
    by (simp add: enc_seq_def)
qed

lemma length_enc_block_le:
  assumes "valid_parse orig pos seqs"
  shows "length (enc_block orig pos seqs) \<le> (length orig - pos) + (length orig - pos) div 255 + 2"
  using assms
proof (induction orig pos seqs rule: valid_parse.induct)
  case (1 orig pos)
  have "length (len_ext n) \<le> n div 255 + 1" for n
    by (simp add: length_len_ext) linarith
  from this [of "length orig - pos"] show ?case
    by (simp add: enc_block_def enc_last_def)
next
  case (2 orig pos l off c r)
  let ?p = "pos + l + (c + 4)"
  have ll: "length (read_at orig pos l) = l"
    using "2.prems" by (auto simp: length_read_at)
  have IH: "length (enc_block orig ?p r) \<le> (length orig - ?p) + (length orig - ?p) div 255 + 2"
    using 2 by simp
  have "length (enc_seq (read_at orig pos l) off c) \<le> l + l div 255 + (c + 4)"
    using length_enc_seq [of "read_at orig pos l" off c] ll by simp
  moreover have "l div 255 + (length orig - ?p) div 255 \<le> (l + (length orig - ?p)) div 255"
    using div_add1_eq [of l "length orig - ?p" 255] by linarith
  moreover have "(l + (length orig - ?p)) div 255 \<le> (length orig - pos) div 255"
    using "2.prems" by (intro div_le_mono) simp
  moreover have "?p \<le> length orig"
    using "2.prems" by auto
  ultimately show ?case
    using IH unfolding enc_block_Cons length_append by linarith
qed

lemma compress_bound:
  assumes "length src \<le> LZ4_MAX_INPUT_SIZE"
  shows "0 < length (LZ4_compress_fast_extState src) \<and>
    length (LZ4_compress_fast_extState src) \<le> LZ4_compressBound (length src)"
proof (cases "src = []")
  case True
  then show ?thesis
    by (simp add: LZ4_compress_fast_extState_def LZ4_compress_generic_def LZ4_compressBound_def)
next
  case False
  obtain seqs where v: "valid_parse src 0 seqs" and e: "LZ4_compress_fast_extState src = enc_block src 0 seqs"
    using compress_enc_block [OF False assms] .
  then show ?thesis
    using length_enc_block_le [OF v] assms by (simp add: LZ4_compressBound_def enc_block_def enc_last_def)
qed



section \<open>The contract of a block codec\<close>

text \<open>
  What the image layer relies on: a block decompresses to what was compressed, and its size is
  bounded. On disk a block is preceded by its size in big-endian order.
\<close>

locale block_codec =
  fixes comp :: "bytes \<Rightarrow> bytes" and decomp :: "bytes \<Rightarrow> bytes \<Rightarrow> (int \<times> bytes) option"
    and bound :: "nat \<Rightarrow> nat" and max_input :: nat
  assumes round_trip: "src \<noteq> [] \<Longrightarrow> length src \<le> max_input \<Longrightarrow> length src \<le> length dst \<Longrightarrow>
      \<exists>dst'. decomp (comp src) dst = Some (int (length src), dst') \<and> take (length src) dst' = src \<and>
        length dst' = length dst"
    and fits: "length src \<le> max_input \<Longrightarrow> length (comp src) \<le> bound (length src)"
begin

lemma exact:
  assumes "src \<noteq> []" "length src \<le> max_input" "length buf = length src"
  shows "decomp (comp src) buf = Some (int (length src), src)"
  using round_trip [OF assms(1,2), of buf] assms(3) by fastforce

lemma framed:
  assumes "length src \<le> max_input" "bound (length src) < 4294967296"
    and f: "f = write_at (write_at g p (be32 (of_nat (length (comp src))))) (p + 4) (comp src)"
  shows "unat (of_be32 (read_at f p 4)) = length (comp src)" "read_at f (p + 4) (length (comp src)) = comp src"
    "p + 4 + length (comp src) \<le> length f"
proof -
  let ?g = "write_at g p (be32 (of_nat (length (comp src))))"
  have "read_at f p 4 = read_at ?g p 4"
    unfolding f by (rule read_write_before) (simp_all add: length_write_at)
  also have "\<dots> = be32 (of_nat (length (comp src)))"
    using read_write_same [of g p "be32 (of_nat (length (comp src)))"] by simp
  finally have "unat (of_be32 (read_at f p 4)) = unat (of_nat (length (comp src)) :: u32)"
    by (simp add: of_be32_be32)
  then show "unat (of_be32 (read_at f p 4)) = length (comp src)"
    using fits [OF assms(1)] assms(2) by (simp add: unat_of_nat_u32)
  show "read_at f (p + 4) (length (comp src)) = comp src" "p + 4 + length (comp src) \<le> length f"
    unfolding f using length_write_at [of g p "be32 (of_nat (length (comp src)))"]
    by (simp_all add: length_write_at)
qed

end

interpretation lz4c: block_codec LZ4_compress_fast_extState LZ4_decompress_safe LZ4_compressBound LZ4_MAX_INPUT_SIZE
  by unfold_locales (use decompress_compress compress_bound in blast)+

end
