(* ===== verification/Qcow2_Image.thy ===== *)
theory Qcow2_Image
  imports Qcow2_Init Lz4_Roundtrip
begin

text \<open>
  What a well-formed image looks like, apart from the state of a device: which bytes a write
  leaves alone (\<open>unch\<close>), who owns which bytes of the file (\<open>owner\<close>, \<open>space\<close>), the free list as
  a chain of tombstones (\<open>chain\<close>), L2 tables (\<open>l2_ok\<close>) and stored clusters (\<open>stored\<close>). Each
  predicate comes with a frame lemma: a write elsewhere keeps it.
\<close>

section \<open>Unchanged bytes\<close>

definition unch :: "nat set \<Rightarrow> bytes \<Rightarrow> bytes \<Rightarrow> bool" where
  "unch W f f' \<longleftrightarrow> length f \<le> length f' \<and> (\<forall>x < length f. x \<notin> W \<longrightarrow> f' ! x = f ! x)"

lemma unch_refl [simp]: "unch W f f"
  by (simp add: unch_def)

lemma unch_trans: "unch W f f' \<Longrightarrow> unch W f' f'' \<Longrightarrow> unch W f f''"
  by (auto simp: unch_def)

lemma unch_mono: "unch W f f' \<Longrightarrow> W \<subseteq> W' \<Longrightarrow> unch W' f f'"
  by (auto simp: unch_def)

lemma unch_write: "{pos..<pos + length bs} \<subseteq> W \<Longrightarrow> unch W f (write_at f pos bs)"
  by (auto simp: unch_def length_write_at nth_write_at subset_eq)

lemma unch_length: "unch W f f' \<Longrightarrow> length f \<le> length f'"
  by (simp add: unch_def)

lemma unch_read:
  assumes "unch W f f'" "p + l \<le> length f" "{p..<p + l} \<inter> W = {}"
  shows "read_at f' p l = read_at f p l"
proof (rule nth_equalityI)
  show "length (read_at f' p l) = length (read_at f p l)"
    using assms(2) unch_length [OF assms(1)] by (simp add: length_read_at)
next
  fix i assume "i < length (read_at f' p l)"
  then have i: "i < l"
    by (simp add: length_read_at)
  then have "p + i \<in> {p..<p + l}"
    by simp
  then have "p + i \<notin> W"
    using assms(3) by blast
  then show "read_at f' p l ! i = read_at f p l ! i"
    using assms i by (simp add: unch_def nth_read_at)
qed

lemma disj_sub: "{a..<b} \<inter> W = {} \<Longrightarrow> a \<le> a' \<Longrightarrow> b' \<le> b \<Longrightarrow> {a'..<b'} \<inter> W = {}" for a :: nat
  by (auto simp: disjoint_iff)

section \<open>Big-endian tables\<close>

lemma length_concat_be64: "length (concat (map be64 xs)) = 8 * length xs"
  by (induction xs) auto

lemma read_concat_be64:
  "j < length xs \<Longrightarrow> read_at (concat (map be64 xs) @ ys) (8 * j) 8 = be64 (xs ! j)"
proof (induction xs arbitrary: j)
  case (Cons x xs)
  show ?case
  proof (cases j)
    case 0
    then show ?thesis
      by (simp add: read_at_def)
  next
    case (Suc k)
    then have "read_at (concat (map be64 (x # xs)) @ ys) (8 * j) 8 =
        read_at (concat (map be64 xs) @ ys) (8 * k) 8"
      by (simp add: read_at_append2)
    then show ?thesis
      using Cons Suc by simp
  qed
qed simp

lemma length_l2_encode:
  assumes "4 \<le> cs" "8 * n \<le> cs"
  shows "length (l2_encode crc cs n tab) = cs"
proof -
  have "8 * min (length tab) n \<le> cs"
    using assms by (simp add: min_def split: if_splits)
  then show ?thesis
    using assms by (simp add: l2_encode_def Let_def blit_def length_concat_be64)
qed

lemma l2_encode_split:
  assumes "8 * n + 4 \<le> cs" "length tab \<ge> n"
  shows "\<exists>pad. length pad = cs - 8 * n - 4 \<and>
    l2_encode crc cs n tab = concat (map be64 (take n tab)) @ pad @
      be32 (NOT (crc (NOT 0) (concat (map be64 (take n tab)) @ pad)))"
proof -
  let ?e = "concat (map be64 (take n tab))"
  have le: "length ?e = 8 * n"
    using assms(2) by (simp add: length_concat_be64)
  have "cs - 4 - 8 * n = cs - 8 * n - 4"
    using assms(1) by simp
  then have tk: "take (cs - 4) (?e @ replicate (cs - 8 * n) 0) = ?e @ replicate (cs - 8 * n - 4) 0"
    using assms(1) le by (simp del: diff_diff_left)
  show ?thesis
    using assms le by (intro exI [of _ "replicate (cs - 8 * n - 4) 0"])
      (simp add: l2_encode_def Let_def blit_def tk del: take_append diff_diff_left)
qed

lemma l2_crc_ok_append: "4 \<le> cs \<Longrightarrow> length xs = cs - 4 \<Longrightarrow> l2_crc_ok crc cs (xs @ be32 (NOT (crc (NOT 0) xs)))"
  by (simp add: l2_crc_ok_def kernel_get32_def read_at_append2 read_at_def byte_simps)

lemma l2_decode_append:
  "length tab = n \<Longrightarrow> l2_decode n (concat (map be64 tab) @ ys) = tab"
  by (auto intro!: nth_equalityI simp: l2_decode_def read_concat_be64 byte_simps)

lemma l2_codec:
  assumes "8 * n + 4 \<le> cs" "length tab \<ge> n"
  shows "l2_decode n (l2_encode crc cs n tab) = take n tab" "l2_crc_ok crc cs (l2_encode crc cs n tab)"
proof -
  obtain pad where p: "length pad = cs - 8 * n - 4"
    "l2_encode crc cs n tab = concat (map be64 (take n tab)) @ pad @
      be32 (NOT (crc (NOT 0) (concat (map be64 (take n tab)) @ pad)))"
    using l2_encode_split [OF assms, of crc] by blast
  show "l2_decode n (l2_encode crc cs n tab) = take n tab"
    unfolding p(2) using assms(2) by (intro l2_decode_append) simp
  have "length (concat (map be64 (take n tab)) @ pad) = cs - 4"
    using p(1) assms by (simp add: length_concat_be64)
  then show "l2_crc_ok crc cs (l2_encode crc cs n tab)"
    unfolding p(2) append_assoc [symmetric] using assms(1) by (intro l2_crc_ok_append) simp_all
qed

lemma concat_be64_zeros: "concat (map be64 (replicate n 0)) = replicate (8 * n) 0"
proof (induction n)
  case (Suc n)
  have "be64 0 = replicate 8 0"
    by (simp add: be64_def eval_nat_numeral)
  then show ?case
    using Suc by (simp flip: replicate_add)
qed simp

lemma l2_encode_zeros: "8 * n \<le> cs \<Longrightarrow> l2_encode crc cs 0 [] = l2_encode crc cs n (replicate n 0)"
  by (simp add: l2_encode_def Let_def concat_be64_zeros del: map_replicate take_append flip: replicate_add)

definition l2_ok :: "crc_fun \<Rightarrow> nat \<Rightarrow> nat \<Rightarrow> bytes \<Rightarrow> nat \<Rightarrow> u64 list \<Rightarrow> bool" where
  "l2_ok crc cs n f pos tab \<longleftrightarrow>
     pos + cs \<le> length f \<and> l2_crc_ok crc cs (read_at f pos cs) \<and> l2_decode n (read_at f pos cs) = tab"

lemma l2_ok_frame:
  assumes "l2_ok crc cs n f pos tab" "unch W f f'" "{pos..<pos + cs} \<inter> W = {}"
  shows "l2_ok crc cs n f' pos tab"
  using assms unch_read [OF assms(2) _ assms(3)] unch_length [OF assms(2)] by (simp add: l2_ok_def)

lemma l2_ok_write:
  assumes "8 * n + 4 \<le> cs" "length tab \<ge> n"
  shows "l2_ok crc cs n (write_at f pos (l2_encode crc cs n tab)) pos (take n tab)"
proof -
  have len: "length (l2_encode crc cs n tab) = cs"
    using assms by (intro length_l2_encode) auto
  then have "read_at (write_at f pos (l2_encode crc cs n tab)) pos cs = l2_encode crc cs n tab"
    by (metis read_write_same)
  moreover have "l2_encode crc cs n tab \<noteq> []"
    using len assms by auto
  ultimately show ?thesis
    using l2_codec [OF assms, of crc] len by (simp add: l2_ok_def length_write_at)
qed

lemma length_l2_ok: "l2_ok crc cs n f pos tab \<Longrightarrow> length tab = n"
  by (auto simp: l2_ok_def l2_decode_def)

section \<open>Stored clusters\<close>

definition entry_phys :: "u64 \<Rightarrow> nat" where
  "entry_phys entry = unat (entry AND LBD_QCOW2_L2_OFFSET_MASK)"

definition entry_compressed :: "u64 \<Rightarrow> bool" where
  "entry_compressed entry \<longleftrightarrow> entry AND LBD_QCOW2_L2_COMPRESSED \<noteq> 0"

definition align4096 :: "nat \<Rightarrow> nat" where
  "align4096 n = (n + 4095) div 4096 * 4096"

text \<open>The number of bytes an entry owns, counted from its physical offset.\<close>

definition ext_len :: "nat \<Rightarrow> bytes \<Rightarrow> u64 \<Rightarrow> nat" where
  "ext_len cs f entry =
     (if entry = 0 then 0
      else if entry_compressed entry then align4096 (4 + unat (of_be32 (read_at f (entry_phys entry) 4)))
      else cs)"

text \<open>The entry's extent holds the cluster \<open>content\<close>, whatever buffer it is decompressed into.\<close>

definition stored :: "nat \<Rightarrow> bytes \<Rightarrow> u64 \<Rightarrow> bytes \<Rightarrow> bool" where
  "stored cs f entry content \<longleftrightarrow>
     length content = cs \<and> entry_phys entry < 2 ^ 62 \<and>
     (if entry_compressed entry then
        (let m = unat (of_be32 (read_at f (entry_phys entry) 4)) in
         m \<le> LZ4_compressBound cs \<and> entry_phys entry + 4 + m \<le> length f \<and>
         (\<forall>buf. length buf = cs \<longrightarrow>
            LZ4_decompress_safe (read_at f (entry_phys entry + 4) m) buf = Some (int cs, content)))
      else entry_phys entry + cs \<le> length f \<and> read_at f (entry_phys entry) cs = content)"

lemma le_align4096: "n \<le> align4096 n"
proof -
  have "n + 4095 = (n + 4095) div 4096 * 4096 + (n + 4095) mod 4096"
    by presburger
  moreover have "(n + 4095) mod 4096 \<le> 4095"
    by (simp add: less_Suc_eq_le [symmetric])
  ultimately show ?thesis
    by (simp add: align4096_def)
qed

lemma align4096_le: "n \<le> m \<Longrightarrow> m mod 4096 = 0 \<Longrightarrow> align4096 n \<le> m"
  by (auto simp: align4096_def)

lemma align4096_ge: "0 < n \<Longrightarrow> 4096 \<le> align4096 n"
  using le_align4096 [of n] by (auto simp: align4096_def)

lemma stored_span:
  assumes "stored cs f entry content"
  shows "if entry_compressed entry
    then entry_phys entry + 4 + unat (of_be32 (read_at f (entry_phys entry) 4)) \<le> length f
    else entry_phys entry + cs \<le> length f"
  using assms by (auto simp: stored_def Let_def)

lemma stored_frame:
  assumes "stored cs f entry content" "unch W f f'" "entry \<noteq> 0"
    "{entry_phys entry..<entry_phys entry + ext_len cs f entry} \<inter> W = {}"
  shows "stored cs f' entry content \<and> ext_len cs f' entry = ext_len cs f entry"
proof (cases "entry_compressed entry")
  case True
  let ?p = "entry_phys entry" and ?m = "unat (of_be32 (read_at f (entry_phys entry) 4))"
  have span: "?p + 4 + ?m \<le> length f"
    using stored_span [OF assms(1)] True by simp
  have "{?p..<?p + (4 + ?m)} \<subseteq> {?p..<?p + ext_len cs f entry}"
    using True assms(3) le_align4096 [of "4 + ?m"] by (auto simp: ext_len_def)
  then have d: "{?p..<?p + (4 + ?m)} \<inter> W = {}"
    using assms(4) by blast
  have 1: "read_at f' ?p 4 = read_at f ?p 4"
    using span by (intro unch_read [OF assms(2)] disj_sub [OF d]) auto
  have 2: "read_at f' (?p + 4) ?m = read_at f (?p + 4) ?m"
    using span by (intro unch_read [OF assms(2)] disj_sub [OF d]) auto
  show ?thesis
    using assms(1) True span unch_length [OF assms(2)] by (auto simp: stored_def Let_def ext_len_def 1 2)
next
  case False
  have span: "entry_phys entry + cs \<le> length f"
    using stored_span [OF assms(1)] False by simp
  have "read_at f' (entry_phys entry) cs = read_at f (entry_phys entry) cs"
    using assms(2,3,4) span False by (intro unch_read) (auto simp: ext_len_def)
  then show ?thesis
    using assms(1) False span unch_length [OF assms(2)] by (auto simp: stored_def ext_len_def)
qed

section \<open>The free list\<close>

definition tombstone :: "nat \<Rightarrow> u64 \<Rightarrow> bytes" where
  "tombstone sz nxt = be32 LBD_QCOW2_FREE_TOMBSTONE @ be32 (of_nat sz) @ be64 nxt"

text \<open>A stretch of the chain: from \<open>cur\<close> through the extents \<open>FL\<close> to the pointer \<open>stop\<close>.\<close>

fun chain :: "bytes \<Rightarrow> u64 \<Rightarrow> (nat \<times> nat) list \<Rightarrow> u64 \<Rightarrow> bool" where
  "chain f cur [] stop \<longleftrightarrow> cur = stop"
| "chain f cur ((p, s) # FL) stop \<longleftrightarrow>
     cur \<noteq> 0 \<and> unat cur = p \<and> 16 \<le> s \<and> s < 2 ^ 32 \<and> p + 16 \<le> length f \<and>
     (\<exists>nxt. read_at f p 16 = tombstone s nxt \<and> chain f nxt FL stop)"

lemma chain_append: "chain f cur (xs @ ys) stop \<longleftrightarrow> (\<exists>mid. chain f cur xs mid \<and> chain f mid ys stop)"
  by (induction f cur xs stop rule: chain.induct) auto

lemma chain_frame:
  assumes "chain f cur FL stop" "unch W f f'" "\<And>p s. (p, s) \<in> set FL \<Longrightarrow> {p..<p + 16} \<inter> W = {}"
  shows "chain f' cur FL stop"
  using assms
proof (induction f cur FL stop rule: chain.induct)
  case (2 f cur p s FL stop)
  have "read_at f' p 16 = read_at f p 16"
    using "2.prems" by (intro unch_read) auto
  moreover have "chain f' nxt FL stop" if "chain f nxt FL stop" for nxt
    using that "2.prems"(2) by (rule "2.IH") (use "2.prems"(3) in auto)
  ultimately show ?case
    using "2.prems"(1) unch_length [OF "2.prems"(2)] by auto
qed simp

lemma length_tombstone [simp]: "length (tombstone sz nxt) = 16" "tombstone sz nxt \<noteq> []"
  by (simp_all add: tombstone_def)

lemma tombstone_fields:
  "kernel_get32 (tombstone sz nxt) 0 = LBD_QCOW2_FREE_TOMBSTONE"
  "kernel_get32 (tombstone sz nxt) 4 = of_nat sz"
  "kernel_get64 (tombstone sz nxt) 8 = nxt"
  by (simp_all add: tombstone_def kernel_get32_def kernel_get64_def read_at_def byte_simps)

lemma put_tombstone:
  "kernel_put64 (kernel_put32 (kernel_put32 (replicate 16 0) 0 LBD_QCOW2_FREE_TOMBSTONE) 4 (ucast extent)) 8 nxt
     = tombstone (unat extent) nxt" for extent :: u64
proof -
  have "(ucast extent :: u32) = of_nat (unat extent)"
    by (simp add: word_eq_iff_unsigned flip: unsigned_of_nat)
  then show ?thesis
    by (simp add: kernel_put32_def kernel_put64_def tombstone_def blit_def)
qed

lemma put64_be64: "kernel_put64 (replicate 8 0) 0 v = be64 v"
  by (simp add: kernel_put64_def blit_def)

end
