(* ===== verification/Qcow2_Space.thy ===== *)
theory Qcow2_Space
  imports Qcow2_Image
begin

text \<open>
  Correctness of the space management of \<^verbatim>\<open>src/src/lbd_qcow2.c\<close>: every byte of the image has at
  most one owner, the free list is a chain of tombstones inside extents it owns, and freeing
  and allocating move extents between owners without touching anybody else's bytes.
\<close>

section \<open>Owners\<close>

text \<open>\<open>Tmp\<close> owns the remainder of a split extent for the moment between unlinking and freeing it.\<close>

datatype owner = Hdr | L1 | L2 nat | Data nat | Free nat | Tmp

definition sep :: "(owner \<Rightarrow> nat set) \<Rightarrow> bool" where
  "sep G \<longleftrightarrow> (\<forall>x a b. x \<in> G a \<longrightarrow> x \<in> G b \<longrightarrow> a = b)"

definition space :: "(owner \<Rightarrow> nat set) \<Rightarrow> nat \<Rightarrow> bytes \<Rightarrow> (nat \<times> nat) list \<Rightarrow> u64 \<Rightarrow> bool" where
  "space G alloc f FL head \<longleftrightarrow>
     sep G \<and> (\<forall>a. G a \<subseteq> {..<alloc}) \<and> {48..<56} \<subseteq> G Hdr \<and>
     distinct (map fst FL) \<and>
     (\<forall>p s. (p, s) \<in> set FL \<longrightarrow> G (Free p) = {p..<p + s}) \<and>
     (\<forall>p. p \<notin> fst ` set FL \<longrightarrow> G (Free p) = {}) \<and>
     chain f head FL 0 \<and> alloc \<le> 2 ^ 62 \<and> 56 \<le> length f"

lemma spaceI:
  assumes "sep G" "\<And>a. G a \<subseteq> {..<alloc}" "{48..<56} \<subseteq> G Hdr" "distinct (map fst FL)"
    "\<And>p s. (p, s) \<in> set FL \<Longrightarrow> G (Free p) = {p..<p + s}" "\<And>p. p \<notin> fst ` set FL \<Longrightarrow> G (Free p) = {}"
    "chain f head FL 0" "alloc \<le> 2 ^ 62" "56 \<le> length f"
  shows "space G alloc f FL head"
  unfolding space_def using assms by (intro conjI allI impI)

lemma spaceD:
  assumes "space G alloc f FL head"
  shows "sep G" "G a \<subseteq> {..<alloc}" "{48..<56} \<subseteq> G Hdr" "distinct (map fst FL)"
    "(p, s) \<in> set FL \<Longrightarrow> G (Free p) = {p..<p + s}" "p \<notin> fst ` set FL \<Longrightarrow> G (Free p) = {}"
    "chain f head FL 0" "alloc \<le> 2 ^ 62" "56 \<le> length f"
  using assms unfolding space_def by blast+

lemma sep_disj: "sep G \<Longrightarrow> a \<noteq> b \<Longrightarrow> G a \<inter> G b = {}"
  by (auto simp: sep_def)

lemma chain_sizes: "chain f cur FL stop \<Longrightarrow> (p, s) \<in> set FL \<Longrightarrow> 16 \<le> s \<and> s < 2 ^ 32 \<and> p + 16 \<le> length f \<and> 0 < p"
  by (induction f cur FL stop rule: chain.induct) (auto simp: unat_gt_0)

lemma space_frame:
  assumes sp: "space G alloc f FL head" and u: "unch W f f'" and d: "\<And>p. G (Free p) \<inter> W = {}"
  shows "space G alloc f' FL head"
proof -
  note c = spaceD(7) [OF sp]
  have "{p..<p + 16} \<inter> W = {}" if "(p, s) \<in> set FL" for p s
  proof -
    have "{p..<p + s} \<inter> W = {}"
      using d [of p] spaceD(5) [OF sp that] by simp
    then show ?thesis
      by (rule disj_sub) (use chain_sizes [OF c that] in auto)
  qed
  then have c': "chain f' head FL 0"
    using chain_frame [OF c u] by blast
  have len: "56 \<le> length f'"
    using spaceD(9) [OF sp] unch_length [OF u] by simp
  show ?thesis
    by (rule spaceI [OF spaceD(1-6) [OF sp] c' spaceD(8) [OF sp] len])
qed

text \<open>Regions may move between owners other than the header and the free list.\<close>

lemma space_regions:
  assumes sp: "space G alloc f FL head" and "sep G'" "\<And>a. G' a \<subseteq> {..<alloc'}" "alloc' \<le> 2 ^ 62"
    and free: "\<And>p. G' (Free p) = G (Free p)" and hdr: "G' Hdr = G Hdr"
  shows "space G' alloc' f FL head"
  by (rule spaceI) (use assms spaceD [OF sp] in \<open>simp_all only: free hdr\<close>)

section \<open>Freeing an extent\<close>

lemma fst_not_free:
  assumes sp: "space G alloc f FL head" and a: "G a = {p..<p + s}" "0 < s" "\<forall>x. a \<noteq> Free x"
  shows "p \<notin> fst ` set FL"
proof
  assume "p \<in> fst ` set FL"
  then obtain s' where "(p, s') \<in> set FL"
    by auto
  then have "G (Free p) = {p..<p + s'}" "16 \<le> s'"
    using spaceD(5) [OF sp] chain_sizes [OF spaceD(7) [OF sp]] by blast+
  then have "p \<in> G (Free p)" "p \<in> G a"
    using a by auto
  then show False
    using spaceD(1) [OF sp] a(3) by (auto simp: sep_def)
qed

lemma space_free:
  assumes sp: "space G alloc f FL head" and a: "G a = {p..<p + s}" "\<forall>x. a \<noteq> Free x" "a \<noteq> Hdr"
    and s: "16 \<le> s" "s < 2 ^ 32" and p: "unat cur = p" "cur \<noteq> 0"
    and f': "f' = write_at f p (tombstone s head)"
  shows "space (G(a := {}, Free p := {p..<p + s})) alloc f' ((p, s) # FL) cur"
proof -
  let ?G = "G(a := {}, Free p := {p..<p + s})"
  have u: "unch {p..<p + s} f f'"
    unfolding f' using s by (intro unch_write) auto
  have nf: "p \<notin> fst ` set FL"
    using fst_not_free [OF sp a(1) _ a(2)] s by simp
  have disj: "G (Free q) \<inter> {p..<p + s} = {}" for q
    using sep_disj [OF spaceD(1) [OF sp], of "Free q" a] a by metis
  have sp': "space G alloc f' FL head"
    using space_frame [OF sp u disj] .
  have "read_at f' p 16 = tombstone s head" "p + 16 \<le> length f'"
    unfolding f' using read_write_same [of f p "tombstone s head"] by (simp_all add: length_write_at)
  then have ch: "chain f' cur ((p, s) # FL) 0"
    using spaceD(7) [OF sp'] s p by auto
  show ?thesis
  proof (rule spaceI)
    show "sep ?G"
      using spaceD(1) [OF sp] a(1,2) unfolding sep_def by (metis fun_upd_apply empty_iff)
    show "?G b \<subseteq> {..<alloc}" for b
      using spaceD(2) [OF sp, of b] spaceD(2) [OF sp, of a] a(1) by simp
    show "{48..<56} \<subseteq> ?G Hdr"
      using spaceD(3) [OF sp] a(3) by simp
    show "?G (Free q) = {q..<q + t}" if "(q, t) \<in> set ((p, s) # FL)" for q t
    proof (cases "q = p")
      case True
      then have "t = s"
        using that nf by force
      then show ?thesis
        using True by simp
    next
      case False
      then have "(q, t) \<in> set FL"
        using that by simp
      then show ?thesis
        using False a(2) spaceD(5) [OF sp, of q t] by auto
    qed
    show "?G (Free q) = {}" if "q \<notin> fst ` set ((p, s) # FL)" for q
      using that a(2) spaceD(6) [OF sp, of q] by auto
  qed (use ch spaceD [OF sp'] nf in \<open>simp_all\<close>)
qed

text \<open>What the space management leaves alone: everything but the file, the image state and statistics.\<close>

definition rest :: "lbd_device \<Rightarrow> lbd_device" where
  "rest dev = dev\<lparr>backing_file := [], qcow2 := undefined, stat_alloc_reused := 0, stat_alloc_new := 0,
     stat_alloc_freed := 0, stat_compressed := 0, stat_uncompressed := 0\<rparr>"

lemma rest_upd [simp]:
  "rest (dev\<lparr>backing_file := f\<rparr>) = rest dev"
  "rest (dev\<lparr>qcow2 := q\<rparr>) = rest dev"
  "rest (dev\<lparr>stat_alloc_reused := n\<rparr>) = rest dev"
  "rest (dev\<lparr>stat_alloc_new := n\<rparr>) = rest dev"
  "rest (dev\<lparr>stat_alloc_freed := n\<rparr>) = rest dev"
  "rest (dev\<lparr>stat_compressed := n\<rparr>) = rest dev"
  "rest (dev\<lparr>stat_uncompressed := n\<rparr>) = rest dev"
  by (simp_all add: rest_def)

lemma rest_fields:
  assumes "rest dev' = rest dev"
  shows "io_plan dev' = io_plan dev" "base dev' = base dev" "miss_handler dev' = miss_handler dev"
    "miss_replies dev' = miss_replies dev" "crashed dev' = crashed dev" "is_qcow2 dev' = is_qcow2 dev"
    "dev_size dev' = dev_size dev" "state dev' = state dev"
proof -
  have "io_plan (rest dev') = io_plan (rest dev)" "base (rest dev') = base (rest dev)"
    "miss_handler (rest dev') = miss_handler (rest dev)" "miss_replies (rest dev') = miss_replies (rest dev)"
    "crashed (rest dev') = crashed (rest dev)" "is_qcow2 (rest dev') = is_qcow2 (rest dev)"
    "dev_size (rest dev') = dev_size (rest dev)" "state (rest dev') = state (rest dev)"
    using assms by simp_all
  then show "io_plan dev' = io_plan dev" "base dev' = base dev" "miss_handler dev' = miss_handler dev"
    "miss_replies dev' = miss_replies dev" "crashed dev' = crashed dev" "is_qcow2 dev' = is_qcow2 dev"
    "dev_size dev' = dev_size dev" "state dev' = state dev"
    by (simp_all add: rest_def)
qed

lemma write_head_eq:
  "io_plan dev = [] \<Longrightarrow> lbd_qcow2_write_free_list_head dev =
     (Inr (), dev\<lparr>backing_file := write_at (backing_file dev) 48 (be64 (free_list_head (qcow2 dev)))\<rparr>)"
  by (simp add: lbd_qcow2_write_free_list_head_def Let_def put64_be64 write_full_Nil offset_defs)

lemma write_alloc_eq:
  "io_plan dev = [] \<Longrightarrow> lbd_qcow2_write_alloc_offset dev =
     (Inr (), dev\<lparr>backing_file := write_at (backing_file dev) 36 (be64 (alloc_offset (qcow2 dev)))\<rparr>)"
  by (simp add: lbd_qcow2_write_alloc_offset_def Let_def put64_be64 write_full_Nil offset_defs)

lemma space_write_head:
  assumes "space G alloc f FL head"
  shows "space G alloc (write_at f 48 (be64 v)) FL head"
proof -
  have "G (Free p) \<inter> {48..<56} = {}" for p
    using sep_disj [OF spaceD(1) [OF assms], of "Free p" Hdr] spaceD(3) [OF assms] by blast
  then show ?thesis
    by (intro space_frame [OF assms] unch_write) auto
qed

lemma free_extent_spec:
  assumes plan: "io_plan dev = []"
    and sp: "space G alloc (backing_file dev) FL (free_list_head (qcow2 dev))"
    and a: "G a = {unat cur..<unat cur + unat extent}" "\<forall>x. a \<noteq> Free x" "a \<noteq> Hdr"
    and s: "16 \<le> unat extent" "unat extent < 2 ^ 32" and p: "cur \<noteq> 0"
  shows "\<exists>dev'. lbd_qcow2_free_extent cur extent dev = (Inr (), dev') \<and>
    qcow2 dev' = (qcow2 dev)\<lparr>free_list_head := cur\<rparr> \<and> rest dev' = rest dev \<and>
    unch (G a \<union> {48..<56}) (backing_file dev) (backing_file dev') \<and>
    read_at (backing_file dev') 48 8 = be64 cur \<and>
    space (G(a := {}, Free (unat cur) := G a)) alloc (backing_file dev')
      ((unat cur, unat extent) # FL) cur"
proof -
  let ?p = "unat cur" and ?s = "unat extent" and ?f = "backing_file dev"
  define f1 where "f1 = write_at ?f ?p (tombstone ?s (free_list_head (qcow2 dev)))"
  define f2 where "f2 = write_at f1 48 (be64 cur)"
  have "{?p..<?p + ?s} \<subseteq> {..<alloc}" "alloc \<le> 2 ^ 62"
    using spaceD(2) [OF sp, of a] spaceD(8) [OF sp] a(1) by simp_all
  then have "?p + ?s \<le> 2 ^ 62"
    using s(1) by (auto simp: subset_eq dest: bspec [of _ _ "?p + ?s - 1"])
  then have "?p + 16 < 2 ^ 63"
    using s(1) by simp
  then have w: "write_full (tombstone ?s (free_list_head (qcow2 dev))) cur dev =
      (Inr (), dev\<lparr>backing_file := f1\<rparr>)"
    using plan by (simp add: write_full_Nil f1_def)
  have 1: "space (G(a := {}, Free ?p := {?p..<?p + ?s})) alloc f1 ((?p, ?s) # FL) cur"
    using space_free [OF sp a s refl p] f1_def by simp
  have 2: "space (G(a := {}, Free ?p := G a)) alloc f2 ((?p, ?s) # FL) cur"
    unfolding f2_def a(1) using 1 by (rule space_write_head)
  have sub: "{?p..<?p + length (tombstone ?s (free_list_head (qcow2 dev)))} \<subseteq> G a"
    using s(1) unfolding a(1) by simp
  have u1: "unch (G a \<union> {48..<56}) ?f f1"
    unfolding f1_def using sub by (rule unch_write [OF le_supI1])
  have u2: "unch (G a \<union> {48..<56}) f1 f2"
    unfolding f2_def by (rule unch_write [OF le_supI2]) simp
  have "read_at f2 48 8 = be64 cur"
    unfolding f2_def using read_write_same [of f1 48 "be64 cur"] by simp
  moreover have "lbd_qcow2_free_extent cur extent dev =
      (Inr (), dev\<lparr>backing_file := f2, qcow2 := (qcow2 dev)\<lparr>free_list_head := cur\<rparr>,
        stat_alloc_freed := stat_alloc_freed dev + 1\<rparr>)"
    using plan by (simp add: lbd_qcow2_free_extent_def Let_def put_tombstone w write_head_eq f2_def)
  ultimately show ?thesis
    using 2 unch_trans [OF u1 u2] by simp
qed

section \<open>Taking an extent from the free list\<close>

lemma distinct_fst_ne: "distinct (map fst (xs @ (a, b) # ys)) \<Longrightarrow> (q, r) \<in> set (xs @ ys) \<Longrightarrow> q \<noteq> a"
  by (auto dest: in_set_zipE simp: rev_image_eqI)

lemma tombstone_inj: "tombstone s nxt = tombstone s' nxt' \<Longrightarrow> nxt = nxt'"
  by (metis tombstone_fields(3))

lemma space_unlink_first:
  assumes sp: "space G alloc f ((p, s) # ys) head" and t: "read_at f p 16 = tombstone s nxt"
  shows "space (G(Free p := {})) alloc f ys nxt"
proof (rule spaceI)
  show "chain f nxt ys 0"
    using spaceD(7) [OF sp] t by (auto dest: tombstone_inj)
  show "sep (G(Free p := {}))"
    using spaceD(1) [OF sp] by (simp add: sep_def)
  show "(G(Free p := {})) a \<subseteq> {..<alloc}" for a
    using spaceD(2) [OF sp, of a] by simp
  show "distinct (map fst ys)"
    using spaceD(4) [OF sp] by simp
  show "(G(Free p := {})) (Free q) = {q..<q + t}" if "(q, t) \<in> set ys" for q t
  proof -
    have "q \<noteq> p"
      using distinct_fst_ne [of "[]" p s ys q t] spaceD(4) [OF sp] that by simp
    then show ?thesis
      using spaceD(5) [OF sp, of q t] that by simp
  qed
  show "(G(Free p := {})) (Free q) = {}" if "q \<notin> fst ` set ys" for q
    using that spaceD(6) [OF sp, of q] by (cases "q = p") auto
qed (use spaceD [OF sp] in simp_all)

lemma chain_unlink:
  assumes c: "chain f head (xs @ (pp, ps) # (p, s) # ys) 0" and t: "read_at f p 16 = tombstone s nxt"
    and f': "f' = write_at f (pp + 8) (be64 nxt)"
    and d: "\<And>q r. (q, r) \<in> set (xs @ ys) \<Longrightarrow> {q..<q + 16} \<inter> {pp..<pp + 16} = {}"
  shows "chain f' head (xs @ (pp, ps) # ys) 0"
proof -
  obtain mid nx where 1: "chain f head xs mid" "mid \<noteq> 0" "unat mid = pp" "16 \<le> ps" "ps < 2 ^ 32"
    "pp + 16 \<le> length f" "read_at f pp 16 = tombstone ps nx" "chain f nxt ys 0"
    using c t unfolding chain_append by (auto dest: tombstone_inj)
  have u: "unch {pp..<pp + 16} f f'"
    unfolding f' by (rule unch_write) simp
  have "chain f' head xs mid" "chain f' nxt ys 0"
    using chain_frame [OF 1(1) u] chain_frame [OF 1(8) u] d by fastforce+
  moreover have "read_at f' pp 16 = tombstone ps nxt"
  proof -
    have "read_at f' pp 8 = read_at f pp 8"
      unfolding f' using 1(6) by (intro read_write_before) simp_all
    also have "\<dots> = take 8 (tombstone ps nx)"
      using 1(7) [symmetric] by (simp add: read_at_def)
    also have "\<dots> = take 8 (tombstone ps nxt)"
      by (simp add: tombstone_def)
    finally have a: "read_at f' pp 8 = take 8 (tombstone ps nxt)" .
    have "read_at f' (pp + 8) 8 = be64 nxt"
      unfolding f' using read_write_same [of f "pp + 8" "be64 nxt"] by simp
    then have b: "read_at f' (pp + 8) 8 = drop 8 (tombstone ps nxt)"
      by (simp add: tombstone_def)
    show ?thesis
      using read_at_split [of f' pp 8 8] a b by simp
  qed
  ultimately show ?thesis
    unfolding chain_append using 1 unch_length [OF u] by auto
qed

lemma space_unlink:
  assumes sp: "space G alloc f (xs @ (pp, ps) # (p, s) # ys) head" and t: "read_at f p 16 = tombstone s nxt"
  shows "space (G(Free p := {})) alloc (write_at f (pp + 8) (be64 nxt)) (xs @ (pp, ps) # ys) head"
proof (rule spaceI)
  have "{q..<q + 16} \<inter> {pp..<pp + 16} = {}" if "(q, r) \<in> set (xs @ ys)" for q r
  proof -
    have q: "(q, r) \<in> set (xs @ (pp, ps) # (p, s) # ys)" and pp: "(pp, ps) \<in> set (xs @ (pp, ps) # (p, s) # ys)"
      using that by auto
    have "q \<noteq> pp"
      using distinct_fst_ne [of xs pp ps "(p, s) # ys" q r] spaceD(4) [OF sp] that by simp
    then have "G (Free q) \<inter> G (Free pp) = {}"
      using sep_disj [OF spaceD(1) [OF sp]] by blast
    then have "{q..<q + r} \<inter> {pp..<pp + ps} = {}"
      using spaceD(5) [OF sp q] spaceD(5) [OF sp pp] by simp
    moreover have "{q..<q + 16} \<subseteq> {q..<q + r}" "{pp..<pp + 16} \<subseteq> {pp..<pp + ps}"
      using chain_sizes [OF spaceD(7) [OF sp] q] chain_sizes [OF spaceD(7) [OF sp] pp] by auto
    ultimately show ?thesis
      by blast
  qed
  then show "chain (write_at f (pp + 8) (be64 nxt)) head (xs @ (pp, ps) # ys) 0"
    using chain_unlink [OF spaceD(7) [OF sp] t refl] by blast
  show "sep (G(Free p := {}))"
    using spaceD(1) [OF sp] by (simp add: sep_def)
  show "(G(Free p := {})) a \<subseteq> {..<alloc}" for a
    using spaceD(2) [OF sp, of a] by simp
  show "distinct (map fst (xs @ (pp, ps) # ys))"
    using spaceD(4) [OF sp] by auto
  show "(G(Free p := {})) (Free q) = {q..<q + t}" if "(q, t) \<in> set (xs @ (pp, ps) # ys)" for q t
  proof -
    have "q \<noteq> p"
      using distinct_fst_ne [of "xs @ [(pp, ps)]" p s ys q t] spaceD(4) [OF sp] that by simp
    then show ?thesis
      using spaceD(5) [OF sp, of q t] that by auto
  qed
  show "(G(Free p := {})) (Free q) = {}" if "q \<notin> fst ` set (xs @ (pp, ps) # ys)" for q
    using that spaceD(6) [OF sp, of q] by (cases "q = p") auto
  show "56 \<le> length (write_at f (pp + 8) (be64 nxt))"
    using spaceD(9) [OF sp] write_at_ge [of f "pp + 8" "be64 nxt"] by linarith
qed (use spaceD [OF sp] in simp_all)

section \<open>Allocating\<close>

text \<open>The bytes an allocation may write: extents of the free list and the head pointer in the header.\<close>

definition free_area :: "(owner \<Rightarrow> nat set) \<Rightarrow> nat set" where
  "free_area G = (\<Union>p. G (Free p)) \<union> {48..<56}"

text \<open>The allocation gave \<open>n\<close> bytes at \<open>phys\<close> to cluster \<open>c\<close> and took nothing from anybody else.\<close>

definition grants :: "(owner \<Rightarrow> nat set) \<Rightarrow> nat \<Rightarrow> nat \<Rightarrow> (owner \<Rightarrow> nat set) \<Rightarrow> nat \<Rightarrow> bool" where
  "grants G c n G' phys \<longleftrightarrow>
     G' (Data c) = {phys..<phys + n} \<and> (\<forall>a. a \<noteq> Data c \<longrightarrow> (\<forall>x. a \<noteq> Free x) \<longrightarrow> G' a = G a)"

lemma unlink_spec:
  assumes plan: "io_plan dev = []"
    and sp: "space G alloc (backing_file dev) (pre @ (p, s) # ys) (free_list_head (qcow2 dev))"
    and t: "read_at (backing_file dev) p 16 = tombstone s nxt"
    and pos: "is_first \<longleftrightarrow> pre = []" "pre \<noteq> [] \<Longrightarrow> unat prev = fst (last pre)"
  shows "\<exists>f1 head1. (if is_first then (True, dev\<lparr>qcow2 := (qcow2 dev)\<lparr>free_list_head := nxt\<rparr>\<rparr>)
         else (case write_full (kernel_put64 (replicate 8 0) 0 nxt) (prev + 8) dev of
              (Inl _, dev) \<Rightarrow> (False, dev) | (Inr _, dev) \<Rightarrow> (True, dev))) =
      (True, dev\<lparr>backing_file := f1, qcow2 := (qcow2 dev)\<lparr>free_list_head := head1\<rparr>\<rparr>) \<and>
    unch (free_area G) (backing_file dev) f1 \<and> space (G(Free p := {})) alloc f1 (pre @ ys) head1"
proof (cases "pre = []")
  case True
  then have "space (G(Free p := {})) alloc (backing_file dev) ys nxt"
    using space_unlink_first [of G alloc "backing_file dev" p s ys] sp t by simp
  then show ?thesis
    using True pos(1) by (intro exI [of _ "backing_file dev"] exI [of _ nxt]) simp
next
  case False
  obtain xs pp ps where pre: "pre = xs @ [(pp, ps)]"
    using False by (metis append_butlast_last_id surj_pair)
  then have pv: "unat prev = pp"
    using pos(2) False by simp
  let ?f1 = "write_at (backing_file dev) (pp + 8) (be64 nxt)"
  have in_FL: "(pp, ps) \<in> set (pre @ (p, s) # ys)"
    using pre by simp
  note sz = chain_sizes [OF spaceD(7) [OF sp] in_FL] and own = spaceD(5) [OF sp in_FL]
  have "{pp..<pp + ps} \<subseteq> {..<alloc}" "alloc \<le> 2 ^ 62"
    using spaceD(2) [OF sp, of "Free pp"] spaceD(8) [OF sp] own by simp_all
  then have "pp + ps \<le> 2 ^ 62"
    using sz by (auto simp: subset_eq dest: bspec [of _ _ "pp + ps - 1"])
  then have b: "pp + 8 + 8 < 2 ^ 63"
    using sz by simp
  have pv8: "unat (prev + 8) = pp + 8"
    using pv b unat_plus_u64 [of prev 8] by simp
  have w: "write_full (kernel_put64 (replicate 8 0) 0 nxt) (prev + 8) dev = (Inr (), dev\<lparr>backing_file := ?f1\<rparr>)"
    using plan pv8 b by (simp add: put64_be64 write_full_Nil)
  have "{pp + 8..<pp + 8 + length (be64 nxt)} \<subseteq> G (Free pp)"
    using sz by (simp add: own)
  then have "{pp + 8..<pp + 8 + length (be64 nxt)} \<subseteq> free_area G"
    unfolding free_area_def by blast
  then have "unch (free_area G) (backing_file dev) ?f1"
    by (rule unch_write)
  moreover have "space (G(Free p := {})) alloc ?f1 (pre @ ys) (free_list_head (qcow2 dev))"
    using space_unlink [of G alloc "backing_file dev" xs pp ps p s ys] sp t pre by simp
  ultimately show ?thesis
    using False pos(1) w by (intro exI [of _ ?f1] exI [of _ "free_list_head (qcow2 dev)"]) simp
qed

text \<open>An extent found on the list is handed out from its start; a usable remainder goes back.\<close>

lemma space_hand_out:
  assumes sp: "space (G(Free p := {})) alloc f FL head" and sepG: "sep G"
    and own: "G (Free p) = {p..<p + s}" "G (Data c) = {}" "G Tmp = {}" "G (Free p) \<subseteq> {..<alloc}"
    and n: "n \<le> s" and T: "T = {} \<or> T = {p + n..<p + s}"
  shows "space (G(Free p := {}, Data c := {p..<p + n}, Tmp := T)) alloc f FL head"
proof (rule space_regions [OF sp _ _ spaceD(8) [OF sp]])
  let ?G = "G(Free p := {}, Data c := {p..<p + n}, Tmp := T)"
  have old: "x \<in> G (Free p)" if "x \<in> {p..<p + n} \<or> x \<in> T" for x
    using that own(1) n T by auto
  have new: "\<not> (x \<in> {p..<p + n} \<and> x \<in> T)" for x
    using T by auto
  show "sep ?G"
    unfolding sep_def
  proof (intro allI impI)
    fix x a b assume x: "x \<in> ?G a" "x \<in> ?G b"
    have ga: "y \<in> G d \<Longrightarrow> y \<in> G e \<Longrightarrow> d = e" for y d e
      using sepG unfolding sep_def by blast
    show "a = b"
      using x old [of x] new [of x] ga [of x "Free p" a] ga [of x "Free p" b] ga [of x a b]
      by (auto split: if_splits)
  qed
  have "{p..<p + n} \<subseteq> {..<alloc}" "T \<subseteq> {..<alloc}"
    using old own(4) by blast+
  then show "?G a \<subseteq> {..<alloc}" for a
    using spaceD(2) [OF sp, of a] by (simp split: if_splits)
qed simp_all

lemma alloc_take_spec:
  assumes plan: "io_plan dev = []"
    and sp: "space G alloc (backing_file dev) (pre @ (p, s) # ys) (free_list_head (qcow2 dev))"
    and t: "read_at (backing_file dev) p 16 = tombstone s nxt" and cur: "unat cur = p"
    and pos: "is_first \<longleftrightarrow> pre = []" "pre \<noteq> [] \<Longrightarrow> unat prev = fst (last pre)"
    and n: "unat needed \<le> s" "unat remainder = s - unat needed"
    and own: "G (Data c) = {}" "G Tmp = {}"
  shows "\<exists>dev' G' FL' head'. alloc_take needed prev cur nxt remainder is_first dev = (Some cur, dev') \<and>
    qcow2 dev' = (qcow2 dev)\<lparr>free_list_head := head'\<rparr> \<and> rest dev' = rest dev \<and>
    unch (free_area G) (backing_file dev) (backing_file dev') \<and>
    read_at (backing_file dev') 48 8 = be64 head' \<and>
    space G' alloc (backing_file dev') FL' head' \<and> grants G c (unat needed) G' p"
proof -
  let ?n = "unat needed"
  obtain f1 head1 where un: "(if is_first then (True, dev\<lparr>qcow2 := (qcow2 dev)\<lparr>free_list_head := nxt\<rparr>\<rparr>)
         else (case write_full (kernel_put64 (replicate 8 0) 0 nxt) (prev + 8) dev of
              (Inl _, dev) \<Rightarrow> (False, dev) | (Inr _, dev) \<Rightarrow> (True, dev))) =
      (True, dev\<lparr>backing_file := f1, qcow2 := (qcow2 dev)\<lparr>free_list_head := head1\<rparr>\<rparr>)"
    and u1: "unch (free_area G) (backing_file dev) f1" and sp1: "space (G(Free p := {})) alloc f1 (pre @ ys) head1"
    using unlink_spec [OF plan sp t pos] by blast
  let ?dev1 = "dev\<lparr>backing_file := f1, qcow2 := (qcow2 dev)\<lparr>free_list_head := head1\<rparr>\<rparr>"
  have in_FL: "(p, s) \<in> set (pre @ (p, s) # ys)"
    by simp
  note sz = chain_sizes [OF spaceD(7) [OF sp] in_FL] and own_p = spaceD(5) [OF sp in_FL]
  have bound: "{p..<p + s} \<subseteq> {..<alloc}" "alloc \<le> 2 ^ 62"
    using spaceD(2) [OF sp, of "Free p"] spaceD(8) [OF sp] own_p by simp_all
  then have ps: "p + s \<le> 2 ^ 62"
    using sz by (auto simp: subset_eq dest: bspec [of _ _ "p + s - 1"])
  note hand = space_hand_out [OF sp1 spaceD(1) [OF sp] own_p own spaceD(2) [OF sp] n(1)]
  show ?thesis
  proof (cases "remainder \<ge> LBD_QCOW2_FREE_ENTRY_MIN")
    case True
    then have r: "16 \<le> unat remainder"
      by (simp add: LBD_QCOW2_FREE_ENTRY_MIN_def word_le_nat_alt)
    define G2 where "G2 = G(Free p := {}, Data c := {p..<p + ?n}, Tmp := {p + ?n..<p + s})"
    have sp2: "space G2 alloc f1 (pre @ ys) head1"
      unfolding G2_def using hand by blast
    have cn: "unat (cur + needed) = p + ?n"
      using cur n(1) ps unat_plus_u64 [of cur needed] by simp
    have tmp: "G2 Tmp = {unat (cur + needed)..<unat (cur + needed) + unat remainder}"
      using n cn by (simp add: G2_def)
    have r2: "unat remainder < 2 ^ 32"
      using n(2) sz by auto
    have nz: "cur + needed \<noteq> 0"
      using cn sz by auto
    obtain dev' where d: "lbd_qcow2_free_extent (cur + needed) remainder ?dev1 = (Inr (), dev')"
      "qcow2 dev' = (qcow2 dev)\<lparr>free_list_head := cur + needed\<rparr>" "rest dev' = rest dev"
      "unch (G2 Tmp \<union> {48..<56}) f1 (backing_file dev')"
      "read_at (backing_file dev') 48 8 = be64 (cur + needed)"
      "space (G2(Tmp := {}, Free (unat (cur + needed)) := G2 Tmp)) alloc (backing_file dev')
         ((unat (cur + needed), unat remainder) # pre @ ys) (cur + needed)"
      using free_extent_spec [of ?dev1 G2 alloc "pre @ ys" Tmp, OF _ _ tmp _ _ r r2 nz] plan sp2 by auto
    have "G2 Tmp \<subseteq> G (Free p)"
      using own_p by (auto simp: G2_def)
    then have "G2 Tmp \<union> {48..<56} \<subseteq> free_area G"
      unfolding free_area_def by blast
    then have u: "unch (free_area G) (backing_file dev) (backing_file dev')"
      using unch_trans [OF u1 unch_mono [OF d(4)]] by blast
    have gr: "grants G c ?n (G2(Tmp := {}, Free (unat (cur + needed)) := G2 Tmp)) p"
      using own by (auto simp: grants_def G2_def)
    have "alloc_take needed prev cur nxt remainder is_first dev =
        (Some cur, dev'\<lparr>stat_alloc_reused := stat_alloc_reused dev' + 1\<rparr>)"
      unfolding alloc_take_def Let_def un using True d(1) by simp
    then show ?thesis
      using d u gr
      by (intro exI [of _ "dev'\<lparr>stat_alloc_reused := stat_alloc_reused dev' + 1\<rparr>"]
          exI [of _ "G2(Tmp := {}, Free (unat (cur + needed)) := G2 Tmp)"]
          exI [of _ "(unat (cur + needed), unat remainder) # pre @ ys"] exI [of _ "cur + needed"]) simp
  next
    case False
    define G2 where "G2 = G(Free p := {}, Data c := {p..<p + ?n}, Tmp := {})"
    have sp2: "space G2 alloc f1 (pre @ ys) head1"
      unfolding G2_def using hand by blast
    define f2 where "f2 = write_at f1 48 (be64 head1)"
    have u: "unch (free_area G) (backing_file dev) f2"
      unfolding f2_def by (intro unch_trans [OF u1] unch_write) (auto simp: free_area_def)
    have rd: "read_at f2 48 8 = be64 head1"
      unfolding f2_def using read_write_same [of f1 48 "be64 head1"] by simp
    have sp3: "space G2 alloc f2 (pre @ ys) head1"
      unfolding f2_def using sp2 by (rule space_write_head)
    have gr: "grants G c ?n G2 p"
      using own by (auto simp: grants_def G2_def)
    have "alloc_take needed prev cur nxt remainder is_first dev =
        (Some cur, ?dev1\<lparr>backing_file := f2, stat_alloc_reused := stat_alloc_reused dev + 1\<rparr>)"
      unfolding alloc_take_def Let_def un using False plan by (simp add: write_head_eq f2_def)
    then show ?thesis
      using u rd sp3 gr
      by (intro exI [of _ "?dev1\<lparr>backing_file := f2, stat_alloc_reused := stat_alloc_reused dev + 1\<rparr>"]
          exI [of _ G2] exI [of _ "pre @ ys"] exI [of _ head1]) simp
  qed
qed

text \<open>The scan: a prefix \<open>pre\<close> of the list has been passed, the rest starts at \<open>cur\<close>.\<close>

lemma alloc_scan_spec:
  assumes plan: "io_plan dev = []"
    and own: "G (Data c) = {}" "G Tmp = {}"
    and sp: "space G alloc (backing_file dev) (pre @ ys) (free_list_head (qcow2 dev))"
    and cur: "chain (backing_file dev) cur ys 0"
    and pos: "is_first \<longleftrightarrow> pre = []" "pre \<noteq> [] \<Longrightarrow> unat prev = fst (last pre)"
  shows "alloc_scan needed prev cur scanned is_first dev = (None, dev) \<or>
    (\<exists>phys dev' G' FL' head'. alloc_scan needed prev cur scanned is_first dev = (Some phys, dev') \<and> phys \<noteq> 0 \<and>
      qcow2 dev' = (qcow2 dev)\<lparr>free_list_head := head'\<rparr> \<and> rest dev' = rest dev \<and>
      unch (free_area G) (backing_file dev) (backing_file dev') \<and>
      read_at (backing_file dev') 48 8 = be64 head' \<and>
      space G' alloc (backing_file dev') FL' head' \<and> grants G c (unat needed) G' (unat phys))"
  using sp cur pos
proof (induction ys arbitrary: pre prev cur scanned is_first)
  case Nil
  then show ?case
    by (subst alloc_scan.simps) simp
next
  case (Cons e ys)
  obtain p s where e: "e = (p, s)"
    by (cases e)
  obtain nxt where ch: "cur \<noteq> 0" "unat cur = p" "16 \<le> s" "s < 2 ^ 32" "p + 16 \<le> length (backing_file dev)"
    "read_at (backing_file dev) p 16 = tombstone s nxt" "chain (backing_file dev) nxt ys 0"
    using Cons.prems(2) e by auto
  have in_FL: "(p, s) \<in> set (pre @ e # ys)"
    using e by simp
  have "{p..<p + s} \<subseteq> {..<alloc}" "alloc \<le> 2 ^ 62"
    using spaceD(2) [OF Cons.prems(1), of "Free p"] spaceD(8) [OF Cons.prems(1)]
      spaceD(5) [OF Cons.prems(1) in_FL] by simp_all
  then have "p + s \<le> 2 ^ 62"
    using ch(3) by (auto simp: subset_eq dest: bspec [of _ _ "p + s - 1"])
  then have rd: "read_full (backing_file dev) 16 cur dev = (Inr (tombstone s nxt), dev)"
    using plan ch by (simp add: read_full_Nil)
  have us: "unat (ucast (of_nat s :: u32) :: u64) = s"
    using ch(4) by (simp add: unat_of_nat_u32)
  show ?case
  proof (cases "scanned < LBD_QCOW2_FREE_SCAN_LIMIT")
    case False
    then show ?thesis
      by (subst alloc_scan.simps) simp
  next
    case lim: True
    show ?thesis
    proof (cases "ucast (of_nat s :: u32) \<ge> needed")
      case True
      then have le: "unat needed \<le> s"
        using us by (simp add: word_le_nat_alt)
      have rem: "unat ((ucast (of_nat s :: u32) :: u64) - needed) = s - unat needed"
        using True us by (simp add: unat_sub)
      have "alloc_scan needed prev cur scanned is_first dev =
          alloc_take needed prev cur nxt (ucast (of_nat s :: u32) - needed) is_first dev"
        using ch(1) lim True by (subst alloc_scan.simps) (simp add: rd tombstone_fields Let_def)
      then show ?thesis
        using alloc_take_spec [OF plan Cons.prems(1) [unfolded e] ch(6,2) Cons.prems(3,4) le rem own] ch(1,2)
        by metis
    next
      case False
      have "alloc_scan needed prev cur scanned is_first dev = alloc_scan needed cur nxt (scanned + 1) False dev"
        using ch(1) lim False by (subst alloc_scan.simps) (simp add: rd tombstone_fields Let_def)
      then show ?thesis
        using Cons.IH [of "pre @ [e]" nxt False cur "scanned + 1"] Cons.prems(1) ch(2,7) e by simp
    qed
  qed
qed

lemma space_append:
  assumes sp: "space G alloc f FL head" and own: "G (Data c) = {}" and n: "alloc + n \<le> 2 ^ 62"
  shows "space (G(Data c := {alloc..<alloc + n})) (alloc + n) f FL head"
proof (rule space_regions [OF sp _ _ n])
  have b: "x \<in> G a \<Longrightarrow> x < alloc" for x a
    using spaceD(2) [OF sp, of a] by auto
  show "(G(Data c := {alloc..<alloc + n})) a \<subseteq> {..<alloc + n}" for a
    using b [of _ a] by (auto intro: trans_less_add1)
  show "sep (G(Data c := {alloc..<alloc + n}))"
    unfolding sep_def
  proof (intro allI impI)
    fix x a d assume x: "x \<in> (G(Data c := {alloc..<alloc + n})) a" "x \<in> (G(Data c := {alloc..<alloc + n})) d"
    show "a = d"
      using x b [of x a] b [of x d] spaceD(1) [OF sp] by (auto simp: sep_def split: if_splits)
  qed
qed simp_all

text \<open>
  Allocation returns an extent of the requested size that overlaps nothing in use, whether it
  comes from the free list or from the end of the image.
\<close>

lemma alloc_space_spec:
  assumes plan: "io_plan dev = []"
    and sp: "space G (unat (alloc_offset (qcow2 dev))) (backing_file dev) FL (free_list_head (qcow2 dev))"
    and hd: "read_at (backing_file dev) 48 8 = be64 (free_list_head (qcow2 dev))"
    and own: "G (Data c) = {}" "G Tmp = {}"
    and n: "unat (alloc_offset (qcow2 dev)) + unat needed \<le> 2 ^ 62"
  shows "\<exists>phys dev' G' FL' head' alloc'. lbd_qcow2_alloc_space needed dev = (phys, dev') \<and> phys \<noteq> 0 \<and>
    qcow2 dev' = (qcow2 dev)\<lparr>free_list_head := head', alloc_offset := alloc'\<rparr> \<and> rest dev' = rest dev \<and>
    unat (alloc_offset (qcow2 dev)) \<le> unat alloc' \<and>
    unat alloc' \<le> unat (alloc_offset (qcow2 dev)) + unat needed \<and>
    unch (free_area G) (backing_file dev) (backing_file dev') \<and>
    read_at (backing_file dev') 48 8 = be64 head' \<and>
    space G' (unat alloc') (backing_file dev') FL' head' \<and> grants G c (unat needed) G' (unat phys)"
proof -
  let ?alloc = "alloc_offset (qcow2 dev)"
  let ?scan = "alloc_scan needed 0 (free_list_head (qcow2 dev)) 0 True dev"
  note scan = alloc_scan_spec [OF plan own, of "unat ?alloc" "[]" FL "free_list_head (qcow2 dev)" True 0 needed 0,
      unfolded append_Nil, OF sp spaceD(7) [OF sp]]
  consider "?scan = (None, dev)"
    | phys dev' G' FL' head' where "?scan = (Some phys, dev')" "phys \<noteq> 0"
      "qcow2 dev' = (qcow2 dev)\<lparr>free_list_head := head'\<rparr>" "rest dev' = rest dev"
      "unch (free_area G) (backing_file dev) (backing_file dev')"
      "read_at (backing_file dev') 48 8 = be64 head'"
      "space G' (unat ?alloc) (backing_file dev') FL' head'" "grants G c (unat needed) G' (unat phys)"
    using scan by blast
  then show ?thesis
  proof cases
    case 1
    have a: "unat (?alloc + needed) = unat ?alloc + unat needed"
      using n unat_plus_u64 [of ?alloc needed] by simp
    have "48 \<in> G Hdr"
      using spaceD(3) [OF sp] by auto
    then have "48 < unat ?alloc"
      using spaceD(2) [OF sp, of Hdr] by auto
    then have nz: "?alloc \<noteq> 0"
      by auto
    have "grants G c (unat needed) (G(Data c := {unat ?alloc..<unat ?alloc + unat needed})) (unat ?alloc)"
      by (simp add: grants_def)
    then show ?thesis
      using 1 nz hd a space_append [OF sp own(1) n]
      by (intro exI [of _ ?alloc]
          exI [of _ "dev\<lparr>qcow2 := (qcow2 dev)\<lparr>alloc_offset := ?alloc + needed\<rparr>,
               stat_alloc_new := stat_alloc_new dev + 1\<rparr>"]
          exI [of _ "G(Data c := {unat ?alloc..<unat ?alloc + unat needed})"] exI [of _ FL]
          exI [of _ "free_list_head (qcow2 dev)"] exI [of _ "?alloc + needed"])
        (simp add: lbd_qcow2_alloc_space_def)
  next
    case (2 phys dev' G' FL' head')
    then show ?thesis
      by (intro exI [of _ phys] exI [of _ dev'] exI [of _ G'] exI [of _ FL'] exI [of _ head'] exI [of _ ?alloc])
        (simp add: lbd_qcow2_alloc_space_def)
  qed
qed

end
