(* ===== verification/Lru_Cache.thy ===== *)
theory Lru_Cache
  imports Qcow2_Cache
begin

text \<open>
  The discipline the two caches of \<^verbatim>\<open>src/src/lbd_qcow2.c\<close> share: slots with a key, a validity
  flag and the tick of their last use; lookup by scanning, eviction of an invalid slot or of
  the one used longest ago. The locale \<open>cache\<close> states what touching a slot keeps; it is
  interpreted for L2 tables and for clusters.
\<close>

text \<open>
  A cache is coherent when every valid slot satisfies \<open>R\<close> for its key and payload, was last
  used before \<open>tick\<close>, and no key occurs in two valid slots.
\<close>

definition coherent ::
  "('e \<Rightarrow> bool) \<Rightarrow> ('e \<Rightarrow> 'k) \<Rightarrow> ('e \<Rightarrow> u64) \<Rightarrow> ('e \<Rightarrow> 'p) \<Rightarrow> ('k \<Rightarrow> 'p \<Rightarrow> bool) \<Rightarrow> u64 \<Rightarrow> 'e list \<Rightarrow> bool"
  where
  "coherent valid key lru payload R tick es \<longleftrightarrow>
     (\<forall>e \<in> set es. valid e \<longrightarrow> R (key e) (payload e) \<and> lru e < tick) \<and>
     (\<forall>i < length es. \<forall>j < length es. valid (es ! i) \<longrightarrow> valid (es ! j) \<longrightarrow>
        key (es ! i) = key (es ! j) \<longrightarrow> i = j)"

lemma first_slot_Some:
  "first_slot P es k = Some i \<Longrightarrow> k \<le> i \<and> i < k + length es \<and> P (es ! (i - k))"
proof (induction P es k rule: first_slot.induct)
  case (2 P e es k)
  then show ?case
    by (cases "P e") (auto simp: nth_Cons')
qed simp

lemma first_slot_None: "first_slot P es k = None \<longleftrightarrow> (\<forall>e \<in> set es. \<not> P e)"
  by (induction P es k rule: first_slot.induct) auto

lemma lru_slot_range:
  "lru_slot valid lru es k oldest best = Some i \<Longrightarrow> best = Some i \<or> (k \<le> i \<and> i < k + length es)"
  by (induction valid lru es k oldest best rule: lru_slot.induct) (fastforce split: if_splits)+

text \<open>The slot chosen for eviction is invalid, or no valid slot was used longer ago.\<close>

lemma lru_slot_oldest:
  assumes "lru_slot valid lru es k oldest best = Some i"
  shows "(k \<le> i \<and> i < k + length es \<and>
      (\<not> valid (es ! (i - k)) \<or>
       lru (es ! (i - k)) < oldest \<and> (\<forall>e \<in> set es. valid e \<and> lru (es ! (i - k)) \<le> lru e))) \<or>
    (best = Some i \<and> (\<forall>e \<in> set es. valid e \<and> oldest \<le> lru e))"
  using assms
proof (induction valid lru es k oldest best rule: lru_slot.induct)
  case (2 valid lru e es k oldest best)
  show ?case
  proof (cases "valid e")
    case False
    then show ?thesis
      using "2.prems" by auto
  next
    case v: True
    show ?thesis
    proof (cases "lru e < oldest")
      case True
      then have "lru_slot valid lru es (k + 1) (lru e) (Some k) = Some i"
        using "2.prems" v by simp
      then show ?thesis
        using "2.IH"(1) [OF _ True] v True by (auto simp: nth_Cons' Suc_le_eq not_less_eq_eq)
    next
      case False
      then have "lru_slot valid lru es (k + 1) oldest best = Some i"
        using "2.prems" v by simp
      then show ?thesis
        using "2.IH"(2) [OF _ False] v False by (auto simp: nth_Cons' Suc_le_eq not_less_eq_eq)
    qed
  qed
qed simp

lemma lru_slot_exists:
  assumes "\<exists>e \<in> set es. \<not> valid e \<or> lru e < oldest"
  shows "\<exists>i. lru_slot valid lru es k oldest best = Some i"
proof -
  have some: "\<exists>i. lru_slot valid lru es k oldest (Some b) = Some i" for es k oldest b
    by (induction es arbitrary: k oldest b) auto
  show ?thesis
    using assms
  proof (induction es arbitrary: k)
    case (Cons e es)
    then show ?case
      using some by (cases "valid e"; cases "lru e < oldest") auto
  qed simp
qed

locale cache =
  fixes valid :: "'e \<Rightarrow> bool" and key :: "'e \<Rightarrow> 'k" and lru :: "'e \<Rightarrow> u64" and payload :: "'e \<Rightarrow> 'p"
    and touch :: "u64 \<Rightarrow> 'e \<Rightarrow> 'e"
  assumes valid_touch: "valid (touch t e) = valid e"
    and key_touch: "key (touch t e) = key e"
    and lru_touch: "lru (touch t e) = t"
    and payload_touch: "payload (touch t e) = payload e"
begin

lemma coherentD:
  assumes "coherent valid key lru payload R tick es" "i < length es" "valid (es ! i)"
  shows "R (key (es ! i)) (payload (es ! i))" "lru (es ! i) < tick"
  using assms by (auto simp: coherent_def)

lemma hit:
  assumes "first_slot (\<lambda>e. valid e \<and> key e = k) es 0 = Some i"
  shows "i < length es" "valid (es ! i)" "key (es ! i) = k"
  using first_slot_Some [OF assms] by auto

lemma victim_exists:
  assumes "coherent valid key lru payload R tick es" "es \<noteq> []"
  shows "\<exists>i < length es. lru_slot valid lru es 0 (- 1) None = Some i"
proof -
  have "hd es \<in> set es"
    using assms(2) by simp
  then have "\<not> valid (hd es) \<or> lru (hd es) < - 1"
    using assms(1) by (auto simp: coherent_def intro: order.strict_trans2)
  then obtain i where "lru_slot valid lru es 0 (- 1) None = Some i"
    using lru_slot_exists [of es valid lru "- 1" 0 None] \<open>hd es \<in> set es\<close> by blast
  then show ?thesis
    using lru_slot_range [of valid lru es 0 "- 1" None i] by auto
qed

lemma coherent_mono:
  "coherent valid key lru payload R tick es \<Longrightarrow> tick \<le> tick' \<Longrightarrow>
   (\<And>e. e \<in> set es \<Longrightarrow> valid e \<Longrightarrow> R (key e) (payload e) \<Longrightarrow> R' (key e) (payload e)) \<Longrightarrow>
   coherent valid key lru payload R' tick' es"
  unfolding coherent_def by (meson order.strict_trans2)

text \<open>Replacing a slot keeps coherence if the new slot is coherent and its key is in no other valid slot.\<close>

lemma coherent_update:
  assumes c: "coherent valid key lru payload R tick es" and t: "tick \<le> tick'" and i: "i < length es"
    and new: "valid e' \<Longrightarrow> R (key e') (payload e') \<and> lru e' < tick'"
    and other: "\<And>j. valid e' \<Longrightarrow> j < length es \<Longrightarrow> j \<noteq> i \<Longrightarrow> valid (es ! j) \<Longrightarrow> key (es ! j) \<noteq> key e'"
  shows "coherent valid key lru payload R tick' (es[i := e'])"
  unfolding coherent_def
proof (intro conjI ballI allI impI)
  fix e assume "e \<in> set (es[i := e'])" "valid e"
  then have "e = e' \<or> e \<in> set es"
    using set_update_subset_insert [of es i e'] by blast
  then show "R (key e) (payload e)" "lru e < tick'"
    using \<open>valid e\<close> new c t by (auto simp: coherent_def intro: order.strict_trans2)
next
  fix a b
  assume ab: "a < length (es[i := e'])" "b < length (es[i := e'])" "valid (es[i := e'] ! a)"
    "valid (es[i := e'] ! b)" "key (es[i := e'] ! a) = key (es[i := e'] ! b)"
  show "a = b"
  proof (cases "a = i \<or> b = i")
    case True
    then show ?thesis
      using ab other [of a] other [of b] i by (cases "a = i"; cases "b = i") auto
  next
    case False
    then show ?thesis
      using ab c by (auto simp: coherent_def)
  qed
qed

lemma coherent_touch:
  assumes c: "coherent valid key lru payload R tick es" and t: "tick < tick'" and i: "i < length es"
  shows "coherent valid key lru payload R tick' (es[i := touch tick (es ! i)])"
proof (rule coherent_update [OF c less_imp_le [OF t] i])
  show "R (key (touch tick (es ! i))) (payload (touch tick (es ! i))) \<and> lru (touch tick (es ! i)) < tick'"
    if "valid (touch tick (es ! i))"
    using that coherentD [OF c i] t by (simp add: valid_touch key_touch payload_touch lru_touch)
  show "key (es ! j) \<noteq> key (touch tick (es ! i))"
    if "valid (touch tick (es ! i))" "j < length es" "j \<noteq> i" "valid (es ! j)" for j
    using that c i by (auto simp: valid_touch key_touch coherent_def)
qed

lemma coherent_invalid:
  assumes "coherent valid key lru payload R tick es" "i < length es" "\<not> valid e'"
  shows "coherent valid key lru payload R tick (es[i := e'])"
  by (rule coherent_update [OF assms(1) order_refl assms(2)]) (use assms(3) in auto)

text \<open>A valid slot may be given a new payload when what the cache stands for changes at its key only.\<close>

lemma coherent_write:
  assumes c: "coherent valid key lru payload R tick es" and i: "i < length es" "valid (es ! i)"
    and e': "key e' = key (es ! i)" "lru e' < tick" "R' (key e') (payload e')"
    and other: "\<And>k p. k \<noteq> key (es ! i) \<Longrightarrow> R k p \<Longrightarrow> R' k p"
  shows "coherent valid key lru payload R' tick (es[i := e'])"
proof -
  have uniq: "a = b" if "a < length es" "b < length es" "valid (es ! a)" "valid (es ! b)" "key (es ! a) = key (es ! b)" for a b
    using c that unfolding coherent_def by blast
  have good: "R (key (es ! a)) (payload (es ! a))" "lru (es ! a) < tick" if "a < length es" "valid (es ! a)" for a
    using coherentD [OF c that] by blast+
  show ?thesis
    unfolding coherent_def
  proof (intro conjI ballI allI impI)
    fix e assume e: "e \<in> set (es[i := e'])" "valid e"
    then obtain j where j: "j < length es" "es[i := e'] ! j = e"
      by (metis in_set_conv_nth length_list_update)
    have "R' (key e) (payload e) \<and> lru e < tick"
    proof (cases "j = i")
      case True
      then show ?thesis
        using j i e' by simp
    next
      case False
      then have "es ! j = e"
        using j by simp
      moreover have "key e \<noteq> key (es ! i)"
        using uniq [of j i] False j(1) i e(2) \<open>es ! j = e\<close> by auto
      ultimately show ?thesis
        using good [of j] j(1) e(2) other [of "key e" "payload e"] by auto
    qed
    then show "R' (key e) (payload e)" "lru e < tick"
      by blast+
  next
    fix a b assume ab: "a < length (es[i := e'])" "b < length (es[i := e'])" "valid (es[i := e'] ! a)"
      "valid (es[i := e'] ! b)" "key (es[i := e'] ! a) = key (es[i := e'] ! b)"
    have k: "key (es[i := e'] ! d) = key (es ! d)" "d < length es \<Longrightarrow> valid (es[i := e'] ! d) \<Longrightarrow> valid (es ! d)" for d
      using i e'(1) by (cases "d = i"; simp)+
    show "a = b"
      using ab k by (intro uniq) (simp_all only: length_list_update)
  qed
qed

lemma coherent_weaken:
  assumes "coherent valid key lru payload R tick es" "length es' = length es"
    "\<And>i. i < length es \<Longrightarrow> es' ! i = es ! i \<or> \<not> valid (es' ! i)"
  shows "coherent valid key lru payload R tick es'"
  unfolding coherent_def
proof (intro conjI ballI allI impI)
  fix e assume "e \<in> set es'" "valid e"
  then obtain i where "i < length es" "es' ! i = e"
    using assms(2) by (metis in_set_conv_nth)
  then show "R (key e) (payload e)" "lru e < tick"
    using \<open>valid e\<close> assms(1) assms(3) [of i] by (auto simp: coherent_def)
next
  fix i j assume "i < length es'" "j < length es'" "valid (es' ! i)" "valid (es' ! j)" "key (es' ! i) = key (es' ! j)"
  then show "i = j"
    using assms(1,2) assms(3) [of i] assms(3) [of j] by (auto simp: coherent_def)
qed

end

interpretation l2c: cache l2_valid l2_l1_index l2_lru "\<lambda>e. (l2_dirty e, l2_table e)" "\<lambda>t e. e\<lparr>l2_lru := t\<rparr>"
  by unfold_locales simp_all

interpretation clc: cache cl_valid cl_cluster_index cl_lru cl_data "\<lambda>t e. e\<lparr>cl_lru := t\<rparr>"
  by unfold_locales simp_all

end
