(* ===== verification/Qcow2_Inv.thy ===== *)
theory Qcow2_Inv
  imports Qcow2_Space Lru_Cache
begin

text \<open>
  The invariant of a device with a primary image, and the correctness of the two cached
  lookups: L2 tables and clusters. The ghosts are \<open>T\<close>, the L2 table of each L1 index, \<open>C\<close>, the
  contents of each stored cluster, \<open>FL\<close>, the free list, and \<open>B\<close>, what the base layer holds.
\<close>

section \<open>Geometry\<close>

abbreviation csz :: "lbd_qcow2 \<Rightarrow> nat" where "csz q \<equiv> unat (cluster_size q)"
abbreviation nent :: "lbd_qcow2 \<Rightarrow> nat" where "nent q \<equiv> unat (l2_entries q)"

definition geom :: "lbd_qcow2 \<Rightarrow> bool" where
  "geom q \<longleftrightarrow> 12 \<le> unat (cluster_bits q) \<and> unat (cluster_bits q) \<le> 24 \<and>
     cluster_size q = push_bit (unat (cluster_bits q)) 1 \<and>
     l2_entries q = (cluster_size q - 8) div 8 \<and> length (l1_table q) = unat (l1_size q)"

lemma cluster_bits_cases: "12 \<le> (b :: nat) \<Longrightarrow> b \<le> 24 \<Longrightarrow>
  b = 12 \<or> b = 13 \<or> b = 14 \<or> b = 15 \<or> b = 16 \<or> b = 17 \<or> b = 18 \<or> b = 19 \<or> b = 20 \<or> b = 21 \<or>
  b = 22 \<or> b = 23 \<or> b = 24"
  by presburger

lemma geomD:
  assumes "geom q"
  shows csz_pow: "csz q = 2 ^ unat (cluster_bits q)"
    and csz_ge: "4096 \<le> csz q" and csz_le: "csz q \<le> 16777216" and csz_mod: "csz q mod 4096 = 0"
    and nent_csz: "8 * nent q + 8 = csz q"
    and l1_len: "length (l1_table q) = unat (l1_size q)"
proof -
  let ?b = "unat (cluster_bits q)"
  have b: "12 \<le> ?b" "?b \<le> 24" and cs: "cluster_size q = push_bit ?b 1"
    and n: "l2_entries q = (cluster_size q - 8) div 8"
    using assms by (auto simp: geom_def)
  have "unat (push_bit k 1 :: u32) = 2 ^ k \<and>
      8 * unat ((push_bit k 1 - 8 :: u32) div 8) + 8 = 2 ^ k \<and> (2 :: nat) ^ k mod 4096 = 0 \<and>
      4096 \<le> (2 :: nat) ^ k \<and> (2 :: nat) ^ k \<le> 16777216" if "12 \<le> k" "k \<le> 24" for k
    using cluster_bits_cases [OF that] by (elim disjE) simp_all
  from this [OF b] show "csz q = 2 ^ ?b" "4096 \<le> csz q" "csz q \<le> 16777216" "csz q mod 4096 = 0"
    "8 * nent q + 8 = csz q"
    unfolding n cs by simp_all
  show "length (l1_table q) = unat (l1_size q)"
    using assms by (simp add: geom_def)
qed

lemma nent_pos: "geom q \<Longrightarrow> 0 < nent q"
  using nent_csz [of q] csz_ge [of q] by simp

lemma csz_div8: "geom q \<Longrightarrow> csz q div 8 = nent q + 1"
  using nent_csz [of q] by simp

lemma l2_fits: "geom q \<Longrightarrow> 8 * nent q + 4 \<le> csz q"
  using nent_csz [of q] by simp

section \<open>L2 tables and their cache\<close>

text \<open>The tables on disk: those the L1 table points to hold \<open>T\<close>, the others count as zeros.\<close>

definition l2disk ::
  "crc_fun \<Rightarrow> nat \<Rightarrow> nat \<Rightarrow> u64 list \<Rightarrow> nat \<Rightarrow> bytes \<Rightarrow> (nat \<Rightarrow> u64 list) \<Rightarrow> bool" where
  "l2disk crc cs n l1 l1n f T \<longleftrightarrow>
     (\<forall>i. length (T i) = n \<and>
        (if i < l1n \<and> l1 ! i \<noteq> 0 then l2_ok crc cs n f (unat (l1 ! i)) (T i) \<and> unat (l1 ! i) + cs < 2 ^ 63
         else T i = replicate n 0))"

definition l2coh :: "nat \<Rightarrow> nat \<Rightarrow> (nat \<Rightarrow> u64 list) \<Rightarrow> u64 \<Rightarrow> lbd_l2_cache_entry list \<Rightarrow> bool" where
  "l2coh cs n T tick es \<longleftrightarrow>
     length es = 16 \<and> (\<forall>e \<in> set es. length (l2_table e) = cs div 8) \<and>
     coherent l2_valid l2_l1_index l2_lru (\<lambda>e. (l2_dirty e, l2_table e))
       (\<lambda>i (d, tab). \<not> d \<and> take n tab = T (unat i)) tick es"

lemma l2coh_entry:
  assumes "l2coh cs n T tick es" "k < 16" "l2_valid (es ! k)"
  shows "\<not> l2_dirty (es ! k)" "take n (l2_table (es ! k)) = T (unat (l2_l1_index (es ! k)))"
    "length (l2_table (es ! k)) = cs div 8"
  using assms l2c.coherentD(1) [of "\<lambda>i (d, tab). \<not> d \<and> take n tab = T (unat i)" tick es k]
  by (auto simp: l2coh_def)

lemma l2coh_lookup:
  assumes "l2coh cs n T tick es" "k < 16" "l2_valid (es ! k)" "l2_l1_index (es ! k) = i" "j < n"
  shows "l2_table (es ! k) ! j = T (unat i) ! j"
  using l2coh_entry [OF assms(1-3)] assms(4,5) by (metis nth_take)

lemma l2coh_touch:
  assumes c: "l2coh cs n T tick es" and t: "tick < tick'" and i: "i < 16"
  shows "l2coh cs n T tick' (es[i := (es ! i)\<lparr>l2_lru := tick\<rparr>])"
proof -
  have "\<forall>e \<in> set (es[i := (es ! i)\<lparr>l2_lru := tick\<rparr>]). length (l2_table e) = cs div 8"
    using c i set_update_subset_insert [of es i "(es ! i)\<lparr>l2_lru := tick\<rparr>"] by (auto simp: l2coh_def)
  then show ?thesis
    using c t i l2c.coherent_touch [of _ tick es tick' i] by (simp add: l2coh_def)
qed

lemma l2coh_update:
  assumes c: "l2coh cs n T tick es" and t: "tick < tick'" and i: "i < 16"
    and len: "length (l2_table e') = cs div 8"
    and new: "l2_valid e' \<Longrightarrow> \<not> l2_dirty e' \<and> take n (l2_table e') = T (unat (l2_l1_index e')) \<and> l2_lru e' < tick'"
    and other: "\<And>e. l2_valid e' \<Longrightarrow> e \<in> set es \<Longrightarrow> l2_valid e \<Longrightarrow> l2_l1_index e \<noteq> l2_l1_index e'"
  shows "l2coh cs n T tick' (es[i := e'])"
proof -
  have "\<forall>e \<in> set (es[i := e']). length (l2_table e) = cs div 8"
    using c i len set_update_subset_insert [of es i e'] by (auto simp: l2coh_def)
  moreover have "coherent l2_valid l2_l1_index l2_lru (\<lambda>e. (l2_dirty e, l2_table e))
       (\<lambda>i (d, tab). \<not> d \<and> take n tab = T (unat i)) tick' (es[i := e'])"
    by (rule l2c.coherent_update [of _ tick]) (use c t i new other in \<open>auto simp: l2coh_def\<close>)
  ultimately show ?thesis
    using c by (simp add: l2coh_def)
qed

lemma l2coh_victim:
  assumes "l2coh cs n T tick es"
  obtains i where "i < 16" "l2_victim es = Some i"
proof -
  have "es \<noteq> []"
    using assms by (auto simp: l2coh_def)
  then show thesis
    using assms l2c.victim_exists [of _ tick es] that by (auto simp: l2coh_def l2_victim_def)
qed

lemma l2coh_hit:
  assumes "l2coh cs n T tick es" "l2_hit es i = Some k"
  shows "k < 16" "l2_valid (es ! k)" "l2_l1_index (es ! k) = i"
  using assms l2c.hit [of i es k] by (auto simp: l2_hit_def l2coh_def)

lemma l2_hit_None: "l2_hit es i = None \<Longrightarrow> e \<in> set es \<Longrightarrow> l2_valid e \<Longrightarrow> l2_l1_index e \<noteq> i"
  by (auto simp: l2_hit_def first_slot_None)

section \<open>Looking up an L2 table\<close>

lemma kvmalloc_plan:
  assumes "kvmalloc dev = (ok, dev')"
  obtains pl where "dev' = dev\<lparr>io_plan := pl\<rparr>" "io_plan dev = [] \<Longrightarrow> pl = []" "io_plan dev = [] \<Longrightarrow> ok"
proof -
  obtain pl where "dev' = dev\<lparr>io_plan := pl\<rparr>" "io_plan dev = [] \<longrightarrow> pl = []"
    using kvmalloc_same [OF assms] by (auto simp: same_but_io_def)
  moreover have "io_plan dev = [] \<Longrightarrow> ok"
    using assms by simp
  ultimately show thesis
    using that [of pl] by blast
qed

lemma read_full_plan:
  assumes "read_full f n pos dev = (r, dev')"
  obtains pl where "dev' = dev\<lparr>io_plan := pl\<rparr>" "io_plan dev = [] \<Longrightarrow> pl = []"
  using read_full_same [OF assms] by (auto simp: same_but_io_def)

text \<open>
  Loading a table: under any outcome of the file operations the slot ends up holding the right
  table, or invalid.
\<close>

lemma l2_load_spec:
  assumes d: "l2disk crc cs n l1 (unat l1n) f T" and n: "cs div 8 = n + 1"
    and len: "length (l2_table e) = cs div 8" and cl: "\<not> l2_dirty e"
  shows "\<exists>ok e' pl. l2_load crc f cs n l1 l1n i e dev = (ok, e', dev\<lparr>io_plan := pl\<rparr>) \<and>
    (io_plan dev = [] \<longrightarrow> pl = [] \<and> ok) \<and> length (l2_table e') = cs div 8 \<and>
    l2_lru e' = l2_lru e \<and> l2_l1_index e' = l2_l1_index e \<and> \<not> l2_dirty e' \<and> l2_valid e' = ok \<and>
    (ok \<longrightarrow> take n (l2_table e') = T (unat i))"
proof (cases "i < l1n \<and> l1 ! unat i \<noteq> 0")
  case False
  have z: "T (unat i) = replicate n 0"
    using d False by (auto simp: l2disk_def word_less_nat_alt)
  define e' where "e' = e\<lparr>l2_table := replicate (cs div 8) 0, l2_valid := True\<rparr>"
  have "l2_load crc f cs n l1 l1n i e dev = (True, e', dev\<lparr>io_plan := io_plan dev\<rparr>)"
    using False by (auto simp: l2_load_def e'_def)
  moreover have "take n (replicate (cs div 8) (0 :: u64)) = replicate n 0"
    using n by (simp add: take_replicate del: replicate_Suc)
  ultimately show ?thesis
    using z cl by (intro exI [of _ True] exI [of _ e'] exI [of _ "io_plan dev"]) (simp add: e'_def)
next
  case True
  let ?pos = "l1 ! unat i"
  have l2: "l2_ok crc cs n f (unat ?pos) (T (unat i))" "unat ?pos + cs < 2 ^ 63"
    using True spec [OF d [unfolded l2disk_def], of "unat i"] by (simp_all add: word_less_nat_alt)
  obtain ok dev1 where k: "kvmalloc dev = (ok, dev1)"
    by fastforce
  obtain pl1 where d1: "dev1 = dev\<lparr>io_plan := pl1\<rparr>" "io_plan dev = [] \<Longrightarrow> pl1 = []" "io_plan dev = [] \<Longrightarrow> ok"
    using kvmalloc_plan [OF k] by blast
  define e0 where "e0 = e\<lparr>l2_valid := False\<rparr>"
  show ?thesis
  proof (cases ok)
    case False
    then have "l2_load crc f cs n l1 l1n i e dev = (False, e0, dev\<lparr>io_plan := pl1\<rparr>)"
      using True k d1(1) by (simp add: l2_load_def e0_def)
    then show ?thesis
      using False d1 cl len by (intro exI [of _ False] exI [of _ e0] exI [of _ pl1]) (auto simp: e0_def)
  next
    case ok: True
    obtain r dev2 where rd: "read_full f cs ?pos dev1 = (r, dev2)"
      by fastforce
    obtain pl2 where d2: "dev2 = dev\<lparr>io_plan := pl2\<rparr>" "io_plan dev = [] \<Longrightarrow> pl2 = []"
      using read_full_plan [OF rd] d1 by auto
    show ?thesis
    proof (cases r)
      case (Inl err)
      then have ne: "io_plan dev \<noteq> []"
        using rd d1 l2 read_full_Nil [of dev1 ?pos cs f] by (auto simp: l2_ok_def)
      have "l2_load crc f cs n l1 l1n i e dev = (False, e0, dev\<lparr>io_plan := pl2\<rparr>)"
        using True k ok rd Inl d2(1) by (simp add: l2_load_def e0_def)
      then show ?thesis
        using ne cl len by (intro exI [of _ False] exI [of _ e0] exI [of _ pl2]) (auto simp: e0_def)
    next
      case (Inr raw)
      then have raw: "raw = read_at f (unat ?pos) cs"
        using read_full_Inr [of f cs ?pos dev1 raw dev2] rd by simp
      define e' where "e' = e\<lparr>l2_table := T (unat i) @ drop n (l2_table e), l2_valid := True\<rparr>"
      have "l2_load crc f cs n l1 l1n i e dev = (True, e', dev\<lparr>io_plan := pl2\<rparr>)"
        using True k ok rd Inr d2(1) l2 raw by (simp add: l2_load_def e'_def l2_ok_def)
      then show ?thesis
        using cl len length_l2_ok [OF l2(1)] n d2(2)
        by (intro exI [of _ True] exI [of _ e'] exI [of _ pl2]) (auto simp: e'_def)
    qed
  qed
qed

text \<open>
  The table caches of the primary and of the base layer, each under any outcome of the file
  operations: the result is a slot holding the table of \<open>i\<close>, or null after a failure.
\<close>

lemma l2_get_spec:
  assumes g: "geom (qcow2 dev)"
    and d: "l2disk crc (csz (qcow2 dev)) (nent (qcow2 dev)) (l1_table (qcow2 dev)) (unat (l1_size (qcow2 dev)))
      (backing_file dev) T"
    and c: "l2coh (csz (qcow2 dev)) (nent (qcow2 dev)) T (lru_tick (qcow2 dev)) (l2_cache (qcow2 dev))"
    and t: "lru_tick (qcow2 dev) < lru_tick (qcow2 dev) + 1"
  shows "\<exists>p es' pl. lbd_qcow2_l2_get crc i dev =
      (p, dev\<lparr>qcow2 := (qcow2 dev)\<lparr>lru_tick := lru_tick (qcow2 dev) + 1, l2_cache := es'\<rparr>, io_plan := pl\<rparr>) \<and>
    (io_plan dev = [] \<longrightarrow> pl = []) \<and>
    l2coh (csz (qcow2 dev)) (nent (qcow2 dev)) T (lru_tick (qcow2 dev) + 1) es' \<and>
    ((\<exists>k < 16. p = Ptr k \<and> l2_valid (es' ! k) \<and> l2_l1_index (es' ! k) = i) \<or> (p = Null \<and> io_plan dev \<noteq> []))"
proof -
  let ?q = "qcow2 dev"
  let ?es = "l2_cache ?q" and ?t = "lru_tick ?q"
  have len: "length ?es = 16"
    using c by (simp add: l2coh_def)
  show ?thesis
  proof (cases "l2_hit ?es i")
    case (Some k)
    note h = l2coh_hit [OF c Some]
    have "lbd_qcow2_l2_get crc i dev =
        (Ptr k, dev\<lparr>qcow2 := ?q\<lparr>lru_tick := ?t + 1, l2_cache := ?es[k := (?es ! k)\<lparr>l2_lru := ?t\<rparr>]\<rparr>,
           io_plan := io_plan dev\<rparr>)"
      using Some by (simp add: lbd_qcow2_l2_get_def lbd_qcow2_lru_tick_def upd_l2_def)
    then show ?thesis
      using h len l2coh_touch [OF c t h(1)]
      by (intro exI [of _ "Ptr k"] exI [of _ "?es[k := (?es ! k)\<lparr>l2_lru := ?t\<rparr>]"] exI [of _ "io_plan dev"]) auto
  next
    case None
    obtain best where best: "best < 16" "l2_victim ?es = Some best"
      using l2coh_victim [OF c] .
    have ev: "l2_evict crc best dev = dev"
      using l2coh_entry [OF c best(1)] by (auto simp: l2_evict_def)
    define e1 where "e1 = (?es ! best)\<lparr>l2_l1_index := i, l2_dirty := False, l2_lru := ?t\<rparr>"
    define dev1 where "dev1 = dev\<lparr>qcow2 := ?q\<lparr>lru_tick := ?t + 1\<rparr>\<rparr>"
    have len1: "length (l2_table e1) = csz ?q div 8" "\<not> l2_dirty e1"
      using c best(1) len by (auto simp: e1_def l2coh_def)
    obtain ok e' pl where f: "l2_load crc (backing_file dev) (csz ?q) (nent ?q) (l1_table ?q) (l1_size ?q) i e1 dev1 =
        (ok, e', dev1\<lparr>io_plan := pl\<rparr>)"
      "io_plan dev = [] \<longrightarrow> pl = [] \<and> ok" "length (l2_table e') = csz ?q div 8" "l2_lru e' = ?t"
      "l2_l1_index e' = i" "\<not> l2_dirty e'" "l2_valid e' = ok" "ok \<longrightarrow> take (nent ?q) (l2_table e') = T (unat i)"
      using l2_load_spec [OF d csz_div8 [OF g] len1, of i dev1] by (auto simp: dev1_def e1_def)
    have "lbd_qcow2_l2_get crc i dev = (if ok then Ptr best else Null,
        dev\<lparr>qcow2 := ?q\<lparr>lru_tick := ?t + 1, l2_cache := ?es[best := e']\<rparr>, io_plan := pl\<rparr>)"
      using None best(2) ev f(1)
      by (simp add: lbd_qcow2_l2_get_def Let_def lbd_qcow2_lru_tick_def upd_l2_def dev1_def e1_def)
    moreover have "l2coh (csz ?q) (nent ?q) T (?t + 1) (?es[best := e'])"
      by (rule l2coh_update [OF c t best(1) f(3)]) (use f t l2_hit_None [OF None] in auto)
    ultimately show ?thesis
      using f best(1) len
      by (intro exI [of _ "if ok then Ptr best else Null"] exI [of _ "?es[best := e']"] exI [of _ pl]) auto
  qed
qed

lemma base_l2_get_spec:
  assumes n: "unat (b_cluster_size b) div 8 = unat (b_l2_entries b) + 1"
    and d: "l2disk crc (unat (b_cluster_size b)) (unat (b_l2_entries b)) (b_l1_table b) (unat (b_l1_size b)) (b_file b) T"
    and c: "l2coh (unat (b_cluster_size b)) (unat (b_l2_entries b)) T (b_lru_tick b) (b_l2_cache b)"
    and t: "b_lru_tick b < b_lru_tick b + 1"
  shows "\<exists>p es' pl. lbd_qcow2_base_l2_get crc i b dev =
      (p, b\<lparr>b_lru_tick := b_lru_tick b + 1, b_l2_cache := es'\<rparr>, dev\<lparr>io_plan := pl\<rparr>) \<and>
    (io_plan dev = [] \<longrightarrow> pl = []) \<and>
    l2coh (unat (b_cluster_size b)) (unat (b_l2_entries b)) T (b_lru_tick b + 1) es' \<and>
    ((\<exists>k < 16. p = Ptr k \<and> l2_valid (es' ! k) \<and> l2_l1_index (es' ! k) = i) \<or> (p = Null \<and> io_plan dev \<noteq> []))"
proof -
  let ?es = "b_l2_cache b" and ?t = "b_lru_tick b"
  have len: "length ?es = 16"
    using c by (simp add: l2coh_def)
  show ?thesis
  proof (cases "l2_hit ?es i")
    case (Some k)
    note h = l2coh_hit [OF c Some]
    have "lbd_qcow2_base_l2_get crc i b dev =
        (Ptr k, b\<lparr>b_lru_tick := ?t + 1, b_l2_cache := ?es[k := (?es ! k)\<lparr>l2_lru := ?t\<rparr>]\<rparr>, dev\<lparr>io_plan := io_plan dev\<rparr>)"
      using Some by (simp add: lbd_qcow2_base_l2_get_def lbd_qcow2_base_lru_tick_def upd_base_l2_def)
    then show ?thesis
      using h len l2coh_touch [OF c t h(1)]
      by (intro exI [of _ "Ptr k"] exI [of _ "?es[k := (?es ! k)\<lparr>l2_lru := ?t\<rparr>]"] exI [of _ "io_plan dev"]) auto
  next
    case None
    obtain best where best: "best < 16" "l2_victim ?es = Some best"
      using l2coh_victim [OF c] .
    define e1 where "e1 = (?es ! best)\<lparr>l2_l1_index := i, l2_dirty := False, l2_lru := ?t\<rparr>"
    have len1: "length (l2_table e1) = unat (b_cluster_size b) div 8" "\<not> l2_dirty e1"
      using c best(1) len by (auto simp: e1_def l2coh_def)
    obtain ok e' pl where f: "l2_load crc (b_file b) (unat (b_cluster_size b)) (unat (b_l2_entries b)) (b_l1_table b)
          (b_l1_size b) i e1 dev = (ok, e', dev\<lparr>io_plan := pl\<rparr>)"
      "io_plan dev = [] \<longrightarrow> pl = [] \<and> ok" "length (l2_table e') = unat (b_cluster_size b) div 8" "l2_lru e' = ?t"
      "l2_l1_index e' = i" "\<not> l2_dirty e'" "l2_valid e' = ok"
      "ok \<longrightarrow> take (unat (b_l2_entries b)) (l2_table e') = T (unat i)"
      using l2_load_spec [OF d n len1, of i dev] by (auto simp: e1_def)
    have "lbd_qcow2_base_l2_get crc i b dev = (if ok then Ptr best else Null,
        b\<lparr>b_lru_tick := ?t + 1, b_l2_cache := ?es[best := e']\<rparr>, dev\<lparr>io_plan := pl\<rparr>)"
      using None best(2) f(1)
      by (simp add: lbd_qcow2_base_l2_get_def Let_def lbd_qcow2_base_lru_tick_def upd_base_l2_def e1_def)
    moreover have "l2coh (unat (b_cluster_size b)) (unat (b_l2_entries b)) T (?t + 1) (?es[best := e'])"
      by (rule l2coh_update [OF c t best(1) f(3)]) (use f t l2_hit_None [OF None] in auto)
    ultimately show ?thesis
      using f best(1) len
      by (intro exI [of _ "if ok then Ptr best else Null"] exI [of _ "?es[best := e']"] exI [of _ pl]) auto
  qed
qed

section \<open>Fetching a cluster\<close>

lemma compressBound_lt: "cs \<le> 16777216 \<Longrightarrow> LZ4_compressBound cs < 2 ^ 32"
  by (simp add: LZ4_compressBound_def LZ4_MAX_INPUT_SIZE_def)

lemma entry_phys_unat: "entry_phys entry = unat (entry AND LBD_QCOW2_L2_OFFSET_MASK)"
  by (simp add: entry_phys_def)

text \<open>Reading a stored cluster gives its contents, or an error after a failed file operation.\<close>

lemma fetch_spec:
  assumes st: "stored cs f entry content" and cs: "cs \<le> 16777216" and buf: "length buf = cs"
  shows "\<exists>r pl. fetch_cluster f cs entry buf dev = (r, dev\<lparr>io_plan := pl\<rparr>) \<and> (io_plan dev = [] \<longrightarrow> pl = []) \<and>
    (r = Inr content \<or> ((\<exists>e. r = Inl e) \<and> io_plan dev \<noteq> []))"
proof -
  let ?phys = "entry AND LBD_QCOW2_L2_OFFSET_MASK"
  have ph: "unat ?phys = entry_phys entry" "entry_phys entry < 2 ^ 62"
    using st by (simp_all add: entry_phys_def stored_def)
  show ?thesis
  proof (cases "entry_compressed entry")
    case False
    then have s: "entry_phys entry + cs \<le> length f" "read_at f (entry_phys entry) cs = content"
      using st by (auto simp: stored_def)
    obtain r dev1 where rd: "read_full f cs ?phys dev = (r, dev1)"
      by fastforce
    obtain pl where "dev1 = dev\<lparr>io_plan := pl\<rparr>" "io_plan dev = [] \<Longrightarrow> pl = []"
      using read_full_plan [OF rd] by blast
    moreover have "r = Inr content \<or> ((\<exists>e. r = Inl e) \<and> io_plan dev \<noteq> [])"
      using read_full_cases [of ?phys cs f dev] rd ph s cs by auto
    ultimately show ?thesis
      using False rd by (auto simp: fetch_cluster_def Let_def entry_compressed_def)
  next
    case True
    define m where "m = unat (of_be32 (read_at f (entry_phys entry) 4))"
    have s: "m \<le> LZ4_compressBound cs" "entry_phys entry + 4 + m \<le> length f"
      "LZ4_decompress_safe (read_at f (entry_phys entry + 4) m) buf = Some (int cs, content)"
      using st True buf by (auto simp: stored_def Let_def m_def)
    have m32: "m < 2 ^ 32"
      using s(1) compressBound_lt [OF cs] by simp
    have ph4: "unat (?phys + 4) = entry_phys entry + 4"
      using ph unat_plus_u64 [of ?phys 4] by simp
    obtain r dev1 where rd: "read_full f 4 ?phys dev = (r, dev1)"
      by fastforce
    obtain pl1 where d1: "dev1 = dev\<lparr>io_plan := pl1\<rparr>" "io_plan dev = [] \<Longrightarrow> pl1 = []"
      using read_full_plan [OF rd] by blast
    have r: "r = Inr (read_at f (entry_phys entry) 4) \<or> ((\<exists>e. r = Inl e) \<and> io_plan dev \<noteq> [])"
      using read_full_cases [of ?phys 4 f dev] rd ph s by auto
    obtain r2 dev2 where rd2: "read_full f m (?phys + 4) dev1 = (r2, dev2)"
      by fastforce
    obtain pl2 where d2: "dev2 = dev\<lparr>io_plan := pl2\<rparr>" "io_plan dev = [] \<Longrightarrow> pl2 = []"
      using read_full_plan [OF rd2] d1 by auto
    have "unat (?phys + 4) + m < 2 ^ 63"
      using ph4 ph(2) m32 by simp
    then have "fst (read_full f m (?phys + 4) dev1) = Inr (read_at f (unat (?phys + 4)) m) \<or>
        io_plan dev1 \<noteq> [] \<and> (\<exists>e. fst (read_full f m (?phys + 4) dev1) = Inl e)"
      using read_full_cases [of "?phys + 4" m f dev1] ph4 s by simp
    then have r2: "r2 = Inr (read_at f (entry_phys entry + 4) m) \<or> ((\<exists>e. r2 = Inl e) \<and> io_plan dev \<noteq> [])"
      using rd2 ph4 d1 by auto
    show ?thesis
    proof (cases r)
      case (Inl e)
      then have "fetch_cluster f cs entry buf dev = (Inl e, dev\<lparr>io_plan := pl1\<rparr>)"
        using True rd d1(1) by (simp add: fetch_cluster_def Let_def entry_compressed_def)
      then show ?thesis
        using r Inl d1(2) by blast
    next
      case (Inr bs)
      then have m: "unat (of_be32 bs) = m"
        using r by (simp add: m_def)
      have "fetch_cluster f cs entry buf dev =
          ((case r2 of Inl e \<Rightarrow> Inl e | Inr _ \<Rightarrow> Inr content), dev\<lparr>io_plan := pl2\<rparr>)"
        using True rd rd2 r2 d1(1) d2(1) s Inr m
        by (cases r2) (simp_all add: fetch_cluster_def Let_def entry_compressed_def)
      moreover have "(case r2 of Inl e \<Rightarrow> Inl e | Inr _ \<Rightarrow> Inr content) = (Inr content :: bytes res) \<or>
          ((\<exists>e. (case r2 of Inl e \<Rightarrow> Inl e | Inr _ \<Rightarrow> Inr content) = (Inl e :: bytes res)) \<and> io_plan dev \<noteq> [])"
        using r2 by (cases r2) simp_all
      ultimately show ?thesis
        using d2(2) by blast
    qed
  qed
qed

section \<open>The base layer\<close>

definition ent :: "nat \<Rightarrow> (nat \<Rightarrow> u64 list) \<Rightarrow> nat \<Rightarrow> u64" where
  "ent n T c = T (c div n) ! (c mod n)"

text \<open>The entries of \<open>T\<close> are stored clusters with the contents \<open>B\<close>.\<close>

definition holds :: "nat \<Rightarrow> nat \<Rightarrow> bytes \<Rightarrow> (nat \<Rightarrow> u64 list) \<Rightarrow> (nat \<Rightarrow> bytes option) \<Rightarrow> bool" where
  "holds cs n f T B \<longleftrightarrow>
     (\<forall>c. (B c = None \<longrightarrow> ent n T c = 0) \<and>
        (\<forall>bs. B c = Some bs \<longrightarrow> ent n T c \<noteq> 0 \<and> stored cs f (ent n T c) bs))"

text \<open>The base layer holds \<open>B c\<close> for cluster \<open>c\<close>, and nothing where that is \<open>None\<close>.\<close>

definition binv :: "crc_fun \<Rightarrow> nat \<Rightarrow> lbd_qcow2_base \<Rightarrow> (nat \<Rightarrow> bytes option) \<Rightarrow> bool" where
  "binv crc cs b B \<longleftrightarrow>
     (if b_is_qcow2 b then
        (\<exists>T. unat (b_cluster_size b) = cs \<and> cs div 8 = unat (b_l2_entries b) + 1 \<and>
           l2disk crc cs (unat (b_l2_entries b)) (b_l1_table b) (unat (b_l1_size b)) (b_file b) T \<and>
           l2coh cs (unat (b_l2_entries b)) T (b_lru_tick b) (b_l2_cache b) \<and>
           holds cs (unat (b_l2_entries b)) (b_file b) T B)
      else unat (b_size b) = length (b_file b) \<and> length (b_file b) < 2 ^ 63 \<and>
        (\<forall>c. B c = (if (c + 1) * cs \<le> length (b_file b) then Some (read_at (b_file b) (c * cs) cs) else None)))"

text \<open>Cluster numbers whose L1 index fits 32 bits and whose bytes have valid file offsets.\<close>

definition cbound :: "nat \<Rightarrow> nat \<Rightarrow> u64 \<Rightarrow> bool" where
  "cbound cs n c \<longleftrightarrow> unat c < 2 ^ 32 * n \<and> (unat c + 1) * cs < 2 ^ 63"

lemma unat_l1_idx:
  fixes c :: u64 and n :: u32
  assumes "unat c < 2 ^ 32 * unat n"
  shows "unat (ucast (c div ucast n) :: u32) = unat c div unat n"
proof -
  have "unat c div unat n < 2 ^ 32"
    using assms by (metis less_mult_imp_div_less)
  then show ?thesis
    by (simp add: unsigned_ucast_eq unat_div take_bit_nat_eq_self)
qed

lemma unat_l2_idx: "unat (c mod ucast n) = unat c mod unat n" for c :: u64 and n :: u32
  by (simp add: unat_mod)

lemma base_read_spec:
  assumes bi: "binv crc (csz (qcow2 dev)) b B" and cs: "csz (qcow2 dev) \<le> 16777216"
    and buf: "length buf = csz (qcow2 dev)" and c: "cbound (csz (qcow2 dev)) (csz (qcow2 dev) div 8 - 1) c"
    and t: "b_lru_tick b < b_lru_tick b + 1"
  shows "\<exists>r b' pl. lbd_qcow2_base_read_cluster crc c buf b dev = (r, b', dev\<lparr>io_plan := pl\<rparr>) \<and>
    (io_plan dev = [] \<longrightarrow> pl = []) \<and> binv crc (csz (qcow2 dev)) b' B \<and>
    (b_lru_tick b' = b_lru_tick b \<or> b_lru_tick b' = b_lru_tick b + 1) \<and>
    ((r = BaseHole \<and> B (unat c) = None) \<or> (\<exists>bs. r = BaseData bs \<and> B (unat c) = Some bs) \<or>
     ((\<exists>e. r = BaseErr e) \<and> io_plan dev \<noteq> []))"
proof (cases "b_is_qcow2 b")
  case False
  let ?cs = "cluster_size (qcow2 dev)" and ?cz = "csz (qcow2 dev)"
  have s: "unat (b_size b) = length (b_file b)" "length (b_file b) < 2 ^ 63"
    "B (unat c) = (if (unat c + 1) * ?cz \<le> length (b_file b) then Some (read_at (b_file b) (unat c * ?cz) ?cz) else None)"
    using bi False by (auto simp: binv_def)
  have cb: "unat c * ?cz + ?cz < 2 ^ 63"
    using c by (simp add: cbound_def algebra_simps)
  then have p1: "unat (c * ucast ?cs) = unat c * ?cz"
    by (simp add: unat_mult_lem [THEN iffD1])
  then have p2: "unat (c * ucast ?cs + ucast ?cs) = unat c * ?cz + ?cz"
    using cb by (simp add: unat_plus_u64)
  obtain r dev1 where rd: "read_full (b_file b) ?cz (c * ucast ?cs) dev = (r, dev1)"
    by fastforce
  obtain pl where d1: "dev1 = dev\<lparr>io_plan := pl\<rparr>" "io_plan dev = [] \<Longrightarrow> pl = []"
    using read_full_plan [OF rd] by blast
  have gt: "c * ucast ?cs + ucast ?cs > b_size b \<longleftrightarrow> \<not> (unat c + 1) * ?cz \<le> length (b_file b)"
    using p2 s(1) by (simp add: word_less_nat_alt not_le algebra_simps)
  show ?thesis
  proof (cases "(unat c + 1) * ?cz \<le> length (b_file b)")
    case True
    then have r: "r = Inr (read_at (b_file b) (unat c * ?cz) ?cz) \<or> ((\<exists>e. r = Inl e) \<and> io_plan dev \<noteq> [])"
      using read_full_cases [of "c * ucast ?cs" ?cz "b_file b" dev] rd p1 cb by (auto simp: algebra_simps)
    have "\<not> c * ucast ?cs + ucast ?cs > b_size b"
      using gt True by simp
    then have "lbd_qcow2_base_read_cluster crc c buf b dev =
        ((case r of Inl e \<Rightarrow> BaseErr e | Inr bs \<Rightarrow> BaseData bs), b, dev\<lparr>io_plan := pl\<rparr>)"
      using False rd d1(1) by (simp add: lbd_qcow2_base_read_cluster_def Let_def split: sum.splits)
    moreover have "(\<exists>bs. (case r of Inl e \<Rightarrow> BaseErr e | Inr bs \<Rightarrow> BaseData bs) = BaseData bs \<and> B (unat c) = Some bs) \<or>
        ((\<exists>e. (case r of Inl e \<Rightarrow> BaseErr e | Inr bs \<Rightarrow> BaseData bs) = BaseErr e) \<and> io_plan dev \<noteq> [])"
      using r s(3) True by (cases r) simp_all
    ultimately show ?thesis
      using d1(2) bi by blast
  next
    case hole: False
    then show ?thesis
      using False gt s(3) bi
      by (intro exI [of _ BaseHole] exI [of _ b] exI [of _ "io_plan dev"])
        (simp add: lbd_qcow2_base_read_cluster_def Let_def)
  qed
next
  case True
  let ?n = "unat (b_l2_entries b)" and ?cz = "csz (qcow2 dev)"
  obtain T where T: "unat (b_cluster_size b) = ?cz" "?cz div 8 = ?n + 1"
    "l2disk crc ?cz ?n (b_l1_table b) (unat (b_l1_size b)) (b_file b) T"
    "l2coh ?cz ?n T (b_lru_tick b) (b_l2_cache b)"
    "holds ?cz ?n (b_file b) T B"
    using bi True unfolding binv_def by auto
  have cn: "unat c < 2 ^ 32 * ?n"
    using c T(2) by (simp add: cbound_def)
  then have n0: "0 < ?n"
    by (cases ?n) auto
  define i where "i = (ucast (c div ucast (b_l2_entries b)) :: u32)"
  have i: "unat i = unat c div ?n"
    unfolding i_def using cn by (rule unat_l1_idx)
  obtain p es' pl1 where g: "lbd_qcow2_base_l2_get crc i b dev =
      (p, b\<lparr>b_lru_tick := b_lru_tick b + 1, b_l2_cache := es'\<rparr>, dev\<lparr>io_plan := pl1\<rparr>)"
    "io_plan dev = [] \<longrightarrow> pl1 = []" "l2coh ?cz ?n T (b_lru_tick b + 1) es'"
    "(\<exists>k < 16. p = Ptr k \<and> l2_valid (es' ! k) \<and> l2_l1_index (es' ! k) = i) \<or> (p = Null \<and> io_plan dev \<noteq> [])"
    using base_l2_get_spec [of b crc T i dev] T t by auto
  define b' where "b' = b\<lparr>b_lru_tick := b_lru_tick b + 1, b_l2_cache := es'\<rparr>"
  have bi': "binv crc ?cz b' B"
    unfolding binv_def using True T g(3) by (auto simp: b'_def intro!: exI [of _ T])
  consider (hit) k where "k < 16" "p = Ptr k" "l2_valid (es' ! k)" "l2_l1_index (es' ! k) = i"
    | (err) "p = Null" "io_plan dev \<noteq> []"
    using g(4) by blast
  then show ?thesis
  proof cases
    case err
    then show ?thesis
      using True g(1,2) bi'
      by (intro exI [of _ "BaseErr EIO"] exI [of _ b'] exI [of _ pl1])
        (simp add: lbd_qcow2_base_read_cluster_def Let_def i_def b'_def)
  next
    case hit
    define e where "e = ent ?n T (unat c)"
    have entry: "l2_table (es' ! k) ! (unat c mod ?n) = e"
      using l2coh_lookup [OF g(3) hit(1,3,4), of "unat c mod ?n"] n0 i by (simp add: e_def ent_def)
    show ?thesis
    proof (cases "B (unat c)")
      case None
      then have "e = 0"
        using T(5) by (simp add: holds_def e_def)
      then show ?thesis
        using True g(1,2) bi' hit(2) entry None
        by (intro exI [of _ BaseHole] exI [of _ b'] exI [of _ pl1])
          (simp add: lbd_qcow2_base_read_cluster_def Let_def i_def b'_def unat_l2_idx)
    next
      case (Some bs)
      then have st: "e \<noteq> 0" "stored ?cz (b_file b) e bs"
        using T(5) by (simp_all add: holds_def e_def)
      obtain r pl where f: "fetch_cluster (b_file b) ?cz e buf (dev\<lparr>io_plan := pl1\<rparr>) = (r, dev\<lparr>io_plan := pl\<rparr>)"
        "pl1 = [] \<longrightarrow> pl = []" "r = Inr bs \<or> ((\<exists>e. r = Inl e) \<and> pl1 \<noteq> [])"
        using fetch_spec [OF st(2) cs buf, of "dev\<lparr>io_plan := pl1\<rparr>"] by auto
      have "lbd_qcow2_base_read_cluster crc c buf b dev =
          ((case r of Inl e \<Rightarrow> BaseErr e | Inr bs \<Rightarrow> BaseData bs), b', dev\<lparr>io_plan := pl\<rparr>)"
        using True g(1) hit(2) entry st(1) f(1)
        by (simp add: lbd_qcow2_base_read_cluster_def Let_def i_def b'_def unat_l2_idx split: sum.splits)
      moreover have "(\<exists>bs. (case r of Inl e \<Rightarrow> BaseErr e | Inr bs \<Rightarrow> BaseData bs) = BaseData bs \<and> B (unat c) = Some bs) \<or>
          ((\<exists>e. (case r of Inl e \<Rightarrow> BaseErr e | Inr bs \<Rightarrow> BaseData bs) = BaseErr e) \<and> io_plan dev \<noteq> [])"
        using f(3) g(2) Some by (cases r) auto
      moreover have "io_plan dev = [] \<longrightarrow> pl = []" "b_lru_tick b' = b_lru_tick b + 1"
        using f(2) g(2) by (auto simp: b'_def)
      ultimately show ?thesis
        using bi' by blast
    qed
  qed
qed

end
