(* ===== verification/Qcow2_Load.thy ===== *)
theory Qcow2_Load
  imports Qcow2_Inv
begin

text \<open>
  The invariant \<open>qinv\<close> of a device with a primary image, and the loading of clusters through
  the caches (\<open>lbd_qcow2_cl_load\<close>): it keeps the invariant, and under any outcome of the file
  operations a cluster in the cache holds what the disk view \<open>view\<close> says.
\<close>

section \<open>The invariant\<close>

text \<open>The owners of the bytes of the image file.\<close>

fun lay :: "lbd_qcow2 \<Rightarrow> bytes \<Rightarrow> (nat \<Rightarrow> u64 list) \<Rightarrow> (nat \<times> nat) list \<Rightarrow> owner \<Rightarrow> nat set" where
  "lay q f T FL Hdr = {0..<4096}"
| "lay q f T FL L1 = {unat (l1_offset q)..<unat (l1_offset q) + 8 * unat (l1_size q)}"
| "lay q f T FL (L2 i) =
     (if i < unat (l1_size q) \<and> l1_table q ! i \<noteq> 0
      then {unat (l1_table q ! i)..<unat (l1_table q ! i) + csz q} else {})"
| "lay q f T FL (Data c) =
     {entry_phys (ent (nent q) T c)..<entry_phys (ent (nent q) T c) + ext_len (csz q) f (ent (nent q) T c)}"
| "lay q f T FL (Free p) = (case map_of FL p of Some s \<Rightarrow> {p..<p + s} | None \<Rightarrow> {})"
| "lay q f T FL Tmp = {}"

text \<open>The header fields that never change.\<close>

definition hdr_ok :: "lbd_qcow2 \<Rightarrow> bytes \<Rightarrow> bool" where
  "hdr_ok q f \<longleftrightarrow> 4096 \<le> length f \<and>
     read_at f 0 36 = be64 LBD_QCOW2_MAGIC @ be32 LBD_QCOW2_VERSION @ be32 (cluster_bits q) @
       be64 (virtual_size q) @ be64 (l1_offset q) @ be32 (l1_size q)"

definition l1_disk :: "lbd_qcow2 \<Rightarrow> bytes \<Rightarrow> bool" where
  "l1_disk q f \<longleftrightarrow> unat (l1_offset q) < 2 ^ 62 \<and> unat (l1_offset q) + 8 * unat (l1_size q) \<le> length f \<and>
     (\<forall>i < unat (l1_size q). read_at f (unat (l1_offset q) + 8 * i) 8 = be64 (l1_table q ! i))"

definition dinv ::
  "crc_fun \<Rightarrow> lbd_qcow2 \<Rightarrow> bytes \<Rightarrow> (nat \<Rightarrow> u64 list) \<Rightarrow> (nat \<Rightarrow> bytes) \<Rightarrow> (nat \<times> nat) list \<Rightarrow> bool" where
  "dinv crc q f T C FL \<longleftrightarrow>
     geom q \<and> hdr_ok q f \<and> l1_disk q f \<and>
     space (lay q f T FL) (unat (alloc_offset q)) f FL (free_list_head q) \<and>
     read_at f 48 8 = be64 (free_list_head q) \<and>
     l2disk crc (csz q) (nent q) (l1_table q) (unat (l1_size q)) f T \<and>
     (\<forall>c. ent (nent q) T c \<noteq> 0 \<longrightarrow> stored (csz q) f (ent (nent q) T c) (C c))"

text \<open>What the device shows as cluster \<open>c\<close>: the stored cluster, else the base layer, else zeros.\<close>

definition view :: "nat \<Rightarrow> nat \<Rightarrow> (nat \<Rightarrow> u64 list) \<Rightarrow> (nat \<Rightarrow> bytes) \<Rightarrow> (nat \<Rightarrow> bytes option) \<Rightarrow> nat \<Rightarrow> bytes" where
  "view cs n T C B c =
     (if ent n T c \<noteq> 0 then C c else (case B c of Some bs \<Rightarrow> bs | None \<Rightarrow> replicate cs 0))"

definition clcoh :: "nat \<Rightarrow> (nat \<Rightarrow> bytes) \<Rightarrow> u64 \<Rightarrow> lbd_cl_cache_entry list \<Rightarrow> bool" where
  "clcoh cs V tick es \<longleftrightarrow>
     length es = 16 \<and> (\<forall>e \<in> set es. length (cl_data e) = cs) \<and>
     coherent cl_valid cl_cluster_index cl_lru cl_data (\<lambda>c bs. bs = V (unat c)) tick es"

definition base_ok :: "crc_fun \<Rightarrow> lbd_device \<Rightarrow> (nat \<Rightarrow> bytes option) \<Rightarrow> bool" where
  "base_ok crc dev B \<longleftrightarrow>
     (case base dev of None \<Rightarrow> B = (\<lambda>_. None) | Some b \<Rightarrow> binv crc (csz (qcow2 dev)) b B)"

abbreviation vw :: "lbd_qcow2 \<Rightarrow> (nat \<Rightarrow> u64 list) \<Rightarrow> (nat \<Rightarrow> bytes) \<Rightarrow> (nat \<Rightarrow> bytes option) \<Rightarrow> nat \<Rightarrow> bytes" where
  "vw q T C B \<equiv> view (csz q) (nent q) T C B"

definition qinv ::
  "crc_fun \<Rightarrow> lbd_device \<Rightarrow> (nat \<Rightarrow> u64 list) \<Rightarrow> (nat \<Rightarrow> bytes) \<Rightarrow> (nat \<times> nat) list \<Rightarrow> (nat \<Rightarrow> bytes option) \<Rightarrow> bool"
  where
  "qinv crc dev T C FL B \<longleftrightarrow>
     dinv crc (qcow2 dev) (backing_file dev) T C FL \<and>
     l2coh (csz (qcow2 dev)) (nent (qcow2 dev)) T (lru_tick (qcow2 dev)) (l2_cache (qcow2 dev)) \<and>
     clcoh (csz (qcow2 dev)) (vw (qcow2 dev) T C B) (lru_tick (qcow2 dev)) (cl_cache (qcow2 dev)) \<and>
     base_ok crc dev B \<and> \<not> crashed dev"

text \<open>Room for \<open>k\<close> more cache accesses before a tick counter wraps around.\<close>

definition ticks :: "lbd_device \<Rightarrow> nat \<Rightarrow> bool" where
  "ticks dev k \<longleftrightarrow> unat (lru_tick (qcow2 dev)) + k < 2 ^ 64 - 1 \<and>
     (\<forall>b. base dev = Some b \<longrightarrow> unat (b_lru_tick b) + k < 2 ^ 64 - 1)"

lemma tick_Suc:
  assumes "unat (t :: u64) + k < 2 ^ 64 - 1"
  shows "t < t + 1" "unat (t + 1) = unat t + 1"
proof -
  show "unat (t + 1) = unat t + 1"
    using assms by (simp add: unat_plus_u64)
  then show "t < t + 1"
    by (simp add: word_less_nat_alt)
qed

section \<open>Operations that only touch caches\<close>

text \<open>What loading leaves alone: all but the caches, the ticks, the base's cache and the plan.\<close>

definition qshell :: "lbd_qcow2 \<Rightarrow> lbd_qcow2" where
  "qshell q = q\<lparr>l2_cache := [], cl_cache := [], lru_tick := 0\<rparr>"

definition shell :: "lbd_device \<Rightarrow> lbd_device" where
  "shell dev = dev\<lparr>qcow2 := qshell (qcow2 dev), base := None, io_plan := []\<rparr>"

lemma qshell_upd [simp]:
  "qshell (q\<lparr>l2_cache := x\<rparr>) = qshell q" "qshell (q\<lparr>cl_cache := y\<rparr>) = qshell q" "qshell (q\<lparr>lru_tick := z\<rparr>) = qshell q"
  by (simp_all add: qshell_def)

lemma qshell_fields:
  assumes "qshell q' = qshell q"
  shows "cluster_bits q' = cluster_bits q" "cluster_size q' = cluster_size q" "l2_entries q' = l2_entries q"
    "virtual_size q' = virtual_size q" "l1_table q' = l1_table q" "l1_size q' = l1_size q"
    "l1_offset q' = l1_offset q" "alloc_offset q' = alloc_offset q" "free_list_head q' = free_list_head q"
  using assms by (cases q; cases q'; simp add: qshell_def)+

lemma shell_fields:
  assumes "shell dev' = shell dev"
  shows "backing_file dev' = backing_file dev" "qshell (qcow2 dev') = qshell (qcow2 dev)"
    "miss_handler dev' = miss_handler dev" "miss_replies dev' = miss_replies dev" "crashed dev' = crashed dev"
    "stat_reads dev' = stat_reads dev" "stat_read_bytes dev' = stat_read_bytes dev"
proof -
  have "backing_file (shell dev') = backing_file (shell dev)" "qcow2 (shell dev') = qcow2 (shell dev)"
    "miss_handler (shell dev') = miss_handler (shell dev)" "miss_replies (shell dev') = miss_replies (shell dev)"
    "crashed (shell dev') = crashed (shell dev)" "stat_reads (shell dev') = stat_reads (shell dev)"
    "stat_read_bytes (shell dev') = stat_read_bytes (shell dev)"
    using assms by simp_all
  then show "backing_file dev' = backing_file dev" "qshell (qcow2 dev') = qshell (qcow2 dev)"
    "miss_handler dev' = miss_handler dev" "miss_replies dev' = miss_replies dev" "crashed dev' = crashed dev"
    "stat_reads dev' = stat_reads dev" "stat_read_bytes dev' = stat_read_bytes dev"
    by (simp_all add: shell_def)
qed

lemma shell_upd [simp]:
  "shell (dev\<lparr>io_plan := pl\<rparr>) = shell dev" "shell (dev\<lparr>base := b\<rparr>) = shell dev"
  "qshell q = qshell (qcow2 dev) \<Longrightarrow> shell (dev\<lparr>qcow2 := q\<rparr>) = shell dev"
  by (simp_all add: shell_def)

lemma geom_shell: "qshell q' = qshell q \<Longrightarrow> geom q' = geom q"
  by (simp add: geom_def qshell_fields [of q' q])

lemma lay_shell: "qshell q' = qshell q \<Longrightarrow> lay q' f T FL a = lay q f T FL a"
  by (cases a) (simp_all add: qshell_fields [of q' q])

lemma dinv_shell:
  assumes "qshell q' = qshell q"
  shows "dinv crc q' f T C FL = dinv crc q f T C FL"
proof -
  have "lay q' f T FL = lay q f T FL"
    using lay_shell [OF assms] by blast
  then show ?thesis
    by (simp add: dinv_def geom_shell [OF assms] hdr_ok_def l1_disk_def qshell_fields [OF assms])
qed

lemma qinvD:
  assumes "qinv crc dev T C FL B"
  shows "dinv crc (qcow2 dev) (backing_file dev) T C FL" "geom (qcow2 dev)"
    "l2disk crc (csz (qcow2 dev)) (nent (qcow2 dev)) (l1_table (qcow2 dev)) (unat (l1_size (qcow2 dev)))
      (backing_file dev) T"
    "l2coh (csz (qcow2 dev)) (nent (qcow2 dev)) T (lru_tick (qcow2 dev)) (l2_cache (qcow2 dev))"
    "clcoh (csz (qcow2 dev)) (vw (qcow2 dev) T C B) (lru_tick (qcow2 dev)) (cl_cache (qcow2 dev))"
    "base_ok crc dev B" "\<not> crashed dev"
    "ent (nent (qcow2 dev)) T c \<noteq> 0 \<Longrightarrow> stored (csz (qcow2 dev)) (backing_file dev) (ent (nent (qcow2 dev)) T c) (C c)"
  using assms by (simp_all add: qinv_def dinv_def)

lemma qinvI_shell:
  assumes q: "qinv crc dev T C FL B" and s: "shell dev' = shell dev"
    and l2: "l2coh (csz (qcow2 dev)) (nent (qcow2 dev)) T (lru_tick (qcow2 dev')) (l2_cache (qcow2 dev'))"
    and cl: "clcoh (csz (qcow2 dev)) (vw (qcow2 dev) T C B) (lru_tick (qcow2 dev')) (cl_cache (qcow2 dev'))"
    and b: "base_ok crc dev' B"
  shows "qinv crc dev' T C FL B"
  using q l2 cl b
  by (simp add: qinv_def dinv_shell [OF shell_fields(2) [OF s]] qshell_fields [OF shell_fields(2) [OF s]]
      shell_fields [OF s])

lemma base_ok_same: "base_ok crc dev B \<Longrightarrow> base dev' = base dev \<Longrightarrow> cluster_size (qcow2 dev') = cluster_size (qcow2 dev) \<Longrightarrow>
  base_ok crc dev' B"
  by (simp add: base_ok_def split: option.splits)

section \<open>The cluster cache\<close>

lemma clcoh_entry:
  assumes "clcoh cs V tick es" "k < 16"
  shows "length (cl_data (es ! k)) = cs" "cl_valid (es ! k) \<Longrightarrow> cl_data (es ! k) = V (unat (cl_cluster_index (es ! k)))"
  using assms clc.coherentD(1) [of "\<lambda>c bs. bs = V (unat c)" tick es k] by (auto simp: clcoh_def)

lemma clcoh_mono: "clcoh cs V tick es \<Longrightarrow> tick \<le> tick' \<Longrightarrow> clcoh cs V tick' es"
  by (auto simp: clcoh_def intro: clc.coherent_mono)

lemma l2coh_mono: "l2coh cs n T tick es \<Longrightarrow> tick \<le> tick' \<Longrightarrow> l2coh cs n T tick' es"
  by (auto simp: l2coh_def intro: l2c.coherent_mono)

lemma clcoh_update:
  assumes c: "clcoh cs V tick es" and t: "tick \<le> tick'" and i: "i < 16"
    and len: "length (cl_data e') = cs"
    and new: "cl_valid e' \<Longrightarrow> cl_data e' = V (unat (cl_cluster_index e')) \<and> cl_lru e' < tick'"
    and other: "\<And>j. cl_valid e' \<Longrightarrow> j < 16 \<Longrightarrow> j \<noteq> i \<Longrightarrow> cl_valid (es ! j) \<Longrightarrow> cl_cluster_index (es ! j) \<noteq> cl_cluster_index e'"
  shows "clcoh cs V tick' (es[i := e'])"
proof -
  have "\<forall>e \<in> set (es[i := e']). length (cl_data e) = cs"
    using c i len set_update_subset_insert [of es i e'] by (auto simp: clcoh_def)
  moreover have "coherent cl_valid cl_cluster_index cl_lru cl_data (\<lambda>c bs. bs = V (unat c)) tick' (es[i := e'])"
    by (rule clc.coherent_update [of _ tick]) (use c t i new other in \<open>auto simp: clcoh_def\<close>)
  ultimately show ?thesis
    using c by (simp add: clcoh_def)
qed

definition cl_absent :: "u64 \<Rightarrow> lbd_cl_cache_entry list \<Rightarrow> bool" where
  "cl_absent c es \<longleftrightarrow> (\<forall>e \<in> set es. cl_valid e \<longrightarrow> cl_cluster_index e \<noteq> c)"

lemma cl_absent_update: "cl_absent c es \<Longrightarrow> \<not> cl_valid e \<Longrightarrow> cl_absent c (es[i := e])"
  using set_update_subset_insert [of es i e] by (auto simp: cl_absent_def)

lemma cl_find_spec:
  assumes q: "qinv crc dev T C FL B" and t: "ticks dev k" and p: "lbd_qcow2_cl_find c dev = (p, dev')"
  shows "(p = Null \<and> dev' = dev \<and> cl_absent c (cl_cache (qcow2 dev))) \<or>
    (\<exists>i < 16. p = Ptr i \<and> cl_valid (cl_at dev' i) \<and> cl_cluster_index (cl_at dev' i) = c \<and>
       qinv crc dev' T C FL B \<and> shell dev' = shell dev \<and> base dev' = base dev \<and> io_plan dev' = io_plan dev \<and>
       unat (lru_tick (qcow2 dev')) = unat (lru_tick (qcow2 dev)) + 1)"
proof -
  let ?q = "qcow2 dev" and ?es = "cl_cache (qcow2 dev)" and ?t = "lru_tick (qcow2 dev)"
  have tick: "?t < ?t + 1" "unat (?t + 1) = unat ?t + 1"
    using t tick_Suc [of ?t k] by (auto simp: ticks_def)
  note coh = qinvD(5) [OF q]
  show ?thesis
  proof (cases "first_slot (\<lambda>e. cl_valid e \<and> cl_cluster_index e = c) ?es 0")
    case None
    then show ?thesis
      using p None [unfolded first_slot_None] by (simp add: lbd_qcow2_cl_find_def cl_absent_def)
  next
    case (Some i)
    have i: "i < 16" "cl_valid (?es ! i)" "cl_cluster_index (?es ! i) = c"
      using clc.hit [OF Some] coh by (auto simp: clcoh_def)
    let ?es' = "?es[i := (?es ! i)\<lparr>cl_lru := ?t\<rparr>]"
    have d: "p = Ptr i" "dev' = dev\<lparr>qcow2 := ?q\<lparr>lru_tick := ?t + 1, cl_cache := ?es'\<rparr>\<rparr>"
      using p Some by (simp_all add: lbd_qcow2_cl_find_def lbd_qcow2_lru_tick_def upd_cl_def)
    have len: "length ?es = 16"
      using coh by (simp add: clcoh_def)
    have "clcoh (csz ?q) (vw ?q T C B) (?t + 1) ?es'"
    proof (rule clcoh_update [OF coh less_imp_le [OF tick(1)] i(1)])
      show "length (cl_data ((?es ! i)\<lparr>cl_lru := ?t\<rparr>)) = csz ?q"
        using clcoh_entry(1) [OF coh i(1)] by simp
      show "cl_cluster_index (?es ! j) \<noteq> cl_cluster_index ((?es ! i)\<lparr>cl_lru := ?t\<rparr>)"
        if "j < 16" "j \<noteq> i" "cl_valid (?es ! j)" for j
        using coh that i len by (auto simp: clcoh_def coherent_def)
    qed (use clcoh_entry(2) [OF coh i(1)] tick i in auto)
    moreover have "l2coh (csz ?q) (nent ?q) T (?t + 1) (l2_cache ?q)"
      using qinvD(4) [OF q] tick(1) by (auto intro: l2coh_mono)
    ultimately have "qinv crc dev' T C FL B"
      using qinvD(6) [OF q] by (intro qinvI_shell [OF q]) (auto simp: d(2) intro: base_ok_same)
    then show ?thesis
      using i d len tick(2) by (intro disjI2 exI [of _ i]) simp
  qed
qed

lemma cl_alloc_spec:
  assumes q: "qinv crc dev T C FL B" and p: "lbd_qcow2_cl_alloc_entry dev = (p, dev')"
  shows "\<exists>i < 16. p = Ptr i \<and> qinv crc dev' T C FL B \<and> \<not> cl_valid (cl_at dev' i) \<and>
    dev' = dev\<lparr>qcow2 := (qcow2 dev)\<lparr>cl_cache := (cl_cache (qcow2 dev))[i := (cl_at dev i)\<lparr>cl_valid := False\<rparr>]\<rparr>\<rparr>"
proof -
  let ?q = "qcow2 dev" and ?es = "cl_cache (qcow2 dev)"
  note coh = qinvD(5) [OF q]
  have len: "length ?es = 16"
    using coh by (simp add: clcoh_def)
  then have "?es \<noteq> []"
    by auto
  then obtain i where i: "i < 16" "lru_slot cl_valid cl_lru ?es 0 (- 1) None = Some i"
    using clc.victim_exists [of _ "lru_tick ?q" ?es] coh len by (auto simp: clcoh_def)
  have d: "p = Ptr i" "dev' = dev\<lparr>qcow2 := ?q\<lparr>cl_cache := ?es[i := (?es ! i)\<lparr>cl_valid := False\<rparr>]\<rparr>\<rparr>"
    using p i by (simp_all add: lbd_qcow2_cl_alloc_entry_def upd_cl_def)
  have "clcoh (csz ?q) (vw ?q T C B) (lru_tick ?q) (?es[i := (?es ! i)\<lparr>cl_valid := False\<rparr>])"
    by (rule clcoh_update [OF coh order_refl i(1)]) (use clcoh_entry(1) [OF coh i(1)] in auto)
  then have "qinv crc dev' T C FL B"
    using qinvD(4,6) [OF q] by (intro qinvI_shell [OF q]) (auto simp: d(2) intro: base_ok_same)
  then show ?thesis
    using i d len by auto
qed

text \<open>An invalid slot reserved for a cluster may be filled with what the device shows there.\<close>

lemma cl_done_spec:
  assumes q: "qinv crc dev T C FL B" and i: "i < 16" "cl_cluster_index (cl_at dev i) = c"
    "cl_lru (cl_at dev i) < lru_tick (qcow2 dev)"
    and a: "cl_absent c (cl_cache (qcow2 dev))"
    and bs: "bs = vw (qcow2 dev) T C B (unat c)" "length bs = csz (qcow2 dev)"
  shows "qinv crc (upd_cl i (\<lambda>e. e\<lparr>cl_data := bs, cl_valid := True\<rparr>) dev) T C FL B"
proof -
  let ?q = "qcow2 dev" and ?es = "cl_cache (qcow2 dev)"
  let ?e = "(?es ! i)\<lparr>cl_data := bs, cl_valid := True\<rparr>"
  note coh = qinvD(5) [OF q]
  have "clcoh (csz ?q) (vw ?q T C B) (lru_tick ?q) (?es[i := ?e])"
  proof (rule clcoh_update [OF coh order_refl i(1)])
    show "cl_cluster_index (?es ! j) \<noteq> cl_cluster_index ?e" if "j < 16" "cl_valid (?es ! j)" for j
      using that a coh i(2) by (auto simp: cl_absent_def clcoh_def)
  qed (use i bs in auto)
  then show ?thesis
    using qinvD(4,6) [OF q] by (intro qinvI_shell [OF q]) (auto simp: upd_cl_def intro: base_ok_same)
qed

lemma binv_len:
  assumes "binv crc cs b B" "B c = Some bs"
  shows "length bs = cs"
proof (cases "b_is_qcow2 b")
  case True
  then obtain T where "holds cs (unat (b_l2_entries b)) (b_file b) T B"
    using assms(1) by (auto simp: binv_def)
  then have "stored cs (b_file b) (ent (unat (b_l2_entries b)) T c) bs"
    using assms(2) by (simp add: holds_def)
  then show ?thesis
    by (simp add: stored_def)
next
  case False
  then have "B c = (if (c + 1) * cs \<le> length (b_file b) then Some (read_at (b_file b) (c * cs) cs) else None)"
    using assms(1) by (simp add: binv_def)
  then show ?thesis
    using assms(2) by (auto simp: length_read_at split: if_splits)
qed

lemma view_length:
  assumes "qinv crc dev T C FL B"
  shows "length (vw (qcow2 dev) T C B c) = csz (qcow2 dev)"
proof (cases "ent (nent (qcow2 dev)) T c = 0")
  case False
  then show ?thesis
    using qinvD(8) [OF assms, of c] by (simp add: view_def stored_def)
next
  case True
  then show ?thesis
    using qinvD(6) [OF assms] binv_len [of crc "csz (qcow2 dev)" _ B c]
    by (auto simp: view_def base_ok_def split: option.splits)
qed

text \<open>The ticks an operation used.\<close>

definition spent :: "lbd_device \<Rightarrow> lbd_device \<Rightarrow> nat \<Rightarrow> bool" where
  "spent dev dev' k \<longleftrightarrow> unat (lru_tick (qcow2 dev')) \<le> unat (lru_tick (qcow2 dev)) + k \<and>
     (\<forall>b'. base dev' = Some b' \<longrightarrow> (\<exists>b. base dev = Some b \<and> unat (b_lru_tick b') \<le> unat (b_lru_tick b) + k))"

lemma spent_ticks: "ticks dev (k + m) \<Longrightarrow> spent dev dev' k \<Longrightarrow> ticks dev' m"
  unfolding ticks_def spent_def by fastforce

lemma spent_trans: "spent dev dev' k \<Longrightarrow> spent dev' dev'' m \<Longrightarrow> spent dev dev'' (k + m)"
  unfolding spent_def by fastforce

lemma spent_mono: "spent dev dev' k \<Longrightarrow> k \<le> m \<Longrightarrow> spent dev dev' m"
  unfolding spent_def by fastforce

lemma spent_same: "lru_tick (qcow2 dev') = lru_tick (qcow2 dev) \<Longrightarrow> base dev' = base dev \<Longrightarrow> spent dev dev' k"
  unfolding spent_def by auto

lemma cl_fill_spec:
  assumes q: "qinv crc dev T C FL B" and i: "i < 16" "cl_cluster_index (cl_at dev i) = c"
    "cl_lru (cl_at dev i) < lru_tick (qcow2 dev)"
    and a: "cl_absent c (cl_cache (qcow2 dev))"
    and c: "cbound (csz (qcow2 dev)) (nent (qcow2 dev)) c" and t: "ticks dev k"
    and e: "entry = ent (nent (qcow2 dev)) T (unat c)"
  shows "\<exists>p dev'. cl_fill crc i c entry dev = (p, dev') \<and> qinv crc dev' T C FL B \<and> shell dev' = shell dev \<and>
    spent dev dev' 1 \<and> (io_plan dev = [] \<longrightarrow> io_plan dev' = []) \<and>
    ((p = Ptr i \<and> cl_valid (cl_at dev' i) \<and> cl_cluster_index (cl_at dev' i) = c) \<or>
     (p = ErrPtr ENODATA \<and> miss_handler dev \<noteq> None \<and> entry = 0 \<and> B (unat c) = None \<and> cl_absent c (cl_cache (qcow2 dev'))) \<or>
     (p = Null \<and> io_plan dev \<noteq> []))"
proof -
  let ?q = "qcow2 dev" and ?es = "cl_cache (qcow2 dev)" and ?V = "vw (qcow2 dev) T C B (unat c)"
  have cs: "csz ?q \<le> 16777216"
    using csz_le [OF qinvD(2) [OF q]] .
  have len: "length ?es = 16" "length (cl_data (?es ! i)) = csz ?q"
    using qinvD(5) [OF q] i(1) clcoh_entry(1) [OF qinvD(5) [OF q]] by (auto simp: clcoh_def)
  have full: "?thesis" if "cl_fill crc i c entry dev = (Ptr i, upd_cl i (\<lambda>e. e\<lparr>cl_data := ?V, cl_valid := True\<rparr>) dev1)"
    "qinv crc dev1 T C FL B" "shell dev1 = shell dev" "spent dev dev1 1" "io_plan dev = [] \<longrightarrow> io_plan dev1 = []"
    "qcow2 dev1 = ?q" for dev1
  proof -
    let ?dev' = "upd_cl i (\<lambda>e. e\<lparr>cl_data := ?V, cl_valid := True\<rparr>) dev1"
    have "qinv crc ?dev' T C FL B"
      using that(6) i a view_length [OF q] by (intro cl_done_spec [OF that(2)]) simp_all
    moreover have "shell ?dev' = shell dev" "spent dev ?dev' 1" "cl_valid (cl_at ?dev' i)"
      "cl_cluster_index (cl_at ?dev' i) = c"
      using that i len by (simp_all add: upd_cl_def spent_def)
    ultimately show ?thesis
      using that(1,5) by (simp add: upd_cl_def)
  qed
  show ?thesis
  proof (cases "entry = 0")
    case False
    then have st: "stored (csz ?q) (backing_file dev) entry (C (unat c))" and V: "?V = C (unat c)"
      using qinvD(8) [OF q, of "unat c"] e by (simp_all add: view_def)
    obtain r pl where f: "fetch_cluster (backing_file dev) (csz ?q) entry (cl_data (?es ! i)) dev =
        (r, dev\<lparr>io_plan := pl\<rparr>)" "io_plan dev = [] \<longrightarrow> pl = []"
      "r = Inr (C (unat c)) \<or> ((\<exists>e. r = Inl e) \<and> io_plan dev \<noteq> [])"
      using fetch_spec [OF st cs len(2)] by blast
    have q': "qinv crc (dev\<lparr>io_plan := pl\<rparr>) T C FL B"
      using qinvD(4,5,6) [OF q] by (intro qinvI_shell [OF q]) (auto intro: base_ok_same)
    show ?thesis
    proof (cases r)
      case (Inr bs)
      then show ?thesis
        using f q' V False by (intro full [of "dev\<lparr>io_plan := pl\<rparr>"]) (auto simp: cl_fill_def Let_def intro: spent_same)
    next
      case (Inl err)
      then have "cl_fill crc i c entry dev = (Null, dev\<lparr>io_plan := pl\<rparr>)"
        using f(1) False by (simp add: cl_fill_def Let_def)
      then show ?thesis
        using f q' Inl by (auto intro: spent_same)
    qed
  next
    case zero: True
    show ?thesis
    proof (cases "base dev")
      case None
      then have B: "B (unat c) = None"
        using qinvD(6) [OF q] by (simp add: base_ok_def)
      show ?thesis
      proof (cases "miss_handler dev = None")
        case True
        then show ?thesis
          using None zero B e q by (intro full [of dev]) (auto simp: cl_fill_def Let_def view_def intro: spent_same)
      next
        case False
        then show ?thesis
          using None zero B e q a by (auto simp: cl_fill_def Let_def intro: spent_same)
      qed
    next
      case (Some b)
      then have bi: "binv crc (csz ?q) b B"
        using qinvD(6) [OF q] by (simp add: base_ok_def)
      have n: "csz ?q div 8 - 1 = nent ?q"
        using csz_div8 [OF qinvD(2) [OF q]] by simp
      have bt: "b_lru_tick b < b_lru_tick b + 1" "unat (b_lru_tick b + 1) = unat (b_lru_tick b) + 1"
        using t Some tick_Suc [of "b_lru_tick b" k] by (auto simp: ticks_def)
      obtain r b' pl where r: "lbd_qcow2_base_read_cluster crc c (cl_data (?es ! i)) b dev = (r, b', dev\<lparr>io_plan := pl\<rparr>)"
        "io_plan dev = [] \<longrightarrow> pl = []" "binv crc (csz ?q) b' B"
        "b_lru_tick b' = b_lru_tick b \<or> b_lru_tick b' = b_lru_tick b + 1"
        "(r = BaseHole \<and> B (unat c) = None) \<or> (\<exists>bs. r = BaseData bs \<and> B (unat c) = Some bs) \<or>
         ((\<exists>e. r = BaseErr e) \<and> io_plan dev \<noteq> [])"
        using base_read_spec [OF bi cs len(2) c [folded n] bt(1)] by blast
      define dev1 where "dev1 = dev\<lparr>io_plan := pl, base := Some b'\<rparr>"
      have q1: "qinv crc dev1 T C FL B"
        using qinvD(4,5) [OF q] r(3) by (intro qinvI_shell [OF q]) (auto simp: dev1_def base_ok_def)
      have s1: "spent dev dev1 1" "shell dev1 = shell dev" "qcow2 dev1 = ?q" "io_plan dev1 = pl"
        using r(4) bt(2) Some by (auto simp: spent_def dev1_def)
      have unf: "cl_fill crc i c entry dev = (case r of
            BaseHole \<Rightarrow> if miss_handler dev \<noteq> None then (ErrPtr ENODATA, dev1)
              else (Ptr i, upd_cl i (\<lambda>e. e\<lparr>cl_data := replicate (csz ?q) 0, cl_valid := True\<rparr>) dev1)
          | BaseErr _ \<Rightarrow> (Null, dev1)
          | BaseData bs \<Rightarrow> (Ptr i, upd_cl i (\<lambda>e. e\<lparr>cl_data := bs, cl_valid := True\<rparr>) dev1))"
        using zero Some r(1) by (cases r) (simp_all add: cl_fill_def Let_def dev1_def)
      show ?thesis
      proof (cases r)
        case (BaseData bs)
        then have "?V = bs"
          using r(5) zero e by (auto simp: view_def)
        then show ?thesis
          using unf BaseData q1 s1 r(2) by (intro full [of dev1]) auto
      next
        case BaseHole
        then have B: "B (unat c) = None" and V: "?V = replicate (csz ?q) 0"
          using r(5) zero e by (auto simp: view_def)
        show ?thesis
        proof (cases "miss_handler dev = None")
          case True
          then show ?thesis
            using unf BaseHole q1 s1 r(2) V by (intro full [of dev1]) auto
        next
          case False
          then show ?thesis
            using unf BaseHole q1 s1 r(2) B zero a by auto
        qed
      next
        case (BaseErr err)
        then show ?thesis
          using unf q1 s1 r(2,5) by auto
      qed
    qed
  qed
qed

text \<open>
  Loading a cluster: the result is a valid slot for it, a miss (only with a handler attached
  and only where neither layer has the cluster), or null after a failed file operation.
\<close>

lemma cl_load_spec:
  assumes q: "qinv crc dev T C FL B" and c: "cbound (csz (qcow2 dev)) (nent (qcow2 dev)) c" and t: "ticks dev (3 + k)"
  shows "\<exists>p dev'. lbd_qcow2_cl_load crc c dev = (p, dev') \<and> qinv crc dev' T C FL B \<and> shell dev' = shell dev \<and>
    spent dev dev' 3 \<and> (io_plan dev = [] \<longrightarrow> io_plan dev' = []) \<and>
    ((\<exists>i < 16. p = Ptr i \<and> cl_valid (cl_at dev' i) \<and> cl_cluster_index (cl_at dev' i) = c) \<or>
     (p = ErrPtr ENODATA \<and> miss_handler dev \<noteq> None \<and> ent (nent (qcow2 dev)) T (unat c) = 0 \<and> B (unat c) = None \<and>
        cl_absent c (cl_cache (qcow2 dev'))) \<or>
     (p = Null \<and> io_plan dev \<noteq> []))"
proof -
  let ?q = "qcow2 dev" and ?t = "lru_tick (qcow2 dev)"
  obtain p0 dev0 where f: "lbd_qcow2_cl_find c dev = (p0, dev0)"
    by fastforce
  consider (hit) i where "i < 16" "p0 = Ptr i" "cl_valid (cl_at dev0 i)" "cl_cluster_index (cl_at dev0 i) = c"
      "qinv crc dev0 T C FL B" "shell dev0 = shell dev" "base dev0 = base dev" "io_plan dev0 = io_plan dev"
      "unat (lru_tick (qcow2 dev0)) = unat ?t + 1"
    | (miss) "p0 = Null" "dev0 = dev" "cl_absent c (cl_cache ?q)"
    using cl_find_spec [OF q t f] by blast
  then show ?thesis
  proof cases
    case hit
    then show ?thesis
      using f by (intro exI [of _ p0] exI [of _ dev0]) (auto simp: lbd_qcow2_cl_load_def spent_def)
  next
    case miss
    define l1i where "l1i = (ucast (c div ucast (l2_entries ?q)) :: u32)"
    have l1i: "unat l1i = unat c div nent ?q"
      unfolding l1i_def using c by (intro unat_l1_idx) (simp add: cbound_def)
    have n0: "0 < nent ?q"
      using nent_pos [OF qinvD(2) [OF q]] .
    have tk: "?t < ?t + 1" "unat (?t + 1) = unat ?t + 1"
      using t tick_Suc [of ?t "3 + k"] by (auto simp: ticks_def)
    obtain p1 es pl where g: "lbd_qcow2_l2_get crc l1i dev =
        (p1, dev\<lparr>qcow2 := ?q\<lparr>lru_tick := ?t + 1, l2_cache := es\<rparr>, io_plan := pl\<rparr>)"
      "io_plan dev = [] \<longrightarrow> pl = []" "l2coh (csz ?q) (nent ?q) T (?t + 1) es"
      "(\<exists>k < 16. p1 = Ptr k \<and> l2_valid (es ! k) \<and> l2_l1_index (es ! k) = l1i) \<or> (p1 = Null \<and> io_plan dev \<noteq> [])"
      using l2_get_spec [OF qinvD(2,3,4) [OF q] tk(1), where i = l1i] by blast
    define dev1 where "dev1 = dev\<lparr>qcow2 := ?q\<lparr>lru_tick := ?t + 1, l2_cache := es\<rparr>, io_plan := pl\<rparr>"
    have q1: "qinv crc dev1 T C FL B"
      using g(3) clcoh_mono [OF qinvD(5) [OF q] less_imp_le [OF tk(1)]] qinvD(6) [OF q]
      by (intro qinvI_shell [OF q]) (auto simp: dev1_def intro: base_ok_same)
    have s1: "shell dev1 = shell dev" "spent dev dev1 1" "io_plan dev1 = pl"
      using tk(2) by (simp_all add: dev1_def spent_def)
    show ?thesis
    proof (cases p1)
      case (Ptr k')
      then have k': "k' < 16" "l2_valid (es ! k')" "l2_l1_index (es ! k') = l1i"
        using g(4) by auto
      define entry where "entry = l2_table (es ! k') ! unat (c mod ucast (l2_entries ?q))"
      have entry: "entry = ent (nent ?q) T (unat c)"
        using l2coh_lookup [OF g(3) k', of "unat c mod nent ?q"] n0 l1i by (simp add: entry_def ent_def unat_l2_idx)
      obtain p2 dev2 where al: "lbd_qcow2_cl_alloc_entry dev1 = (p2, dev2)"
        by fastforce
      obtain i where i: "i < 16" "p2 = Ptr i" "qinv crc dev2 T C FL B" "\<not> cl_valid (cl_at dev2 i)"
        "dev2 = dev1\<lparr>qcow2 := (qcow2 dev1)\<lparr>cl_cache := (cl_cache (qcow2 dev1))[i := (cl_at dev1 i)\<lparr>cl_valid := False\<rparr>]\<rparr>\<rparr>"
        using cl_alloc_spec [OF q1 al] by blast
      have ab2: "cl_absent c (cl_cache (qcow2 dev2))"
        using miss(3) by (auto simp: i(5) dev1_def intro: cl_absent_update)
      define e3 where "e3 = (cl_at dev2 i)\<lparr>cl_cluster_index := c, cl_lru := ?t + 1, cl_dirty := False\<rparr>"
      define dev3 where "dev3 = dev2\<lparr>qcow2 := (qcow2 dev2)\<lparr>lru_tick := ?t + 1 + 1,
          cl_cache := (cl_cache (qcow2 dev2))[i := e3]\<rparr>\<rparr>"
      have tk2: "?t + 1 < ?t + 1 + 1" "unat (?t + 1 + 1) = unat ?t + 2"
        using t tk(2) tick_Suc [of "?t + 1" k] by (auto simp: ticks_def)
      have q2q: "lru_tick (qcow2 dev2) = ?t + 1" "csz (qcow2 dev2) = csz ?q" "nent (qcow2 dev2) = nent ?q"
        "l2_cache (qcow2 dev2) = es" "length (cl_cache (qcow2 dev2)) = 16"
        using qinvD(5) [OF i(3)] by (simp_all add: i(5) dev1_def clcoh_def)
      have "clcoh (csz ?q) (vw ?q T C B) (?t + 1 + 1) ((cl_cache (qcow2 dev2))[i := e3])"
        using qinvD(5) [OF i(3)] tk2(1) i(1,4) clcoh_entry(1) [OF qinvD(5) [OF i(3)] i(1)]
        by (intro clcoh_update [of _ _ "?t + 1"]) (auto simp: q2q e3_def)
      moreover have "l2coh (csz ?q) (nent ?q) T (?t + 1 + 1) es"
        using g(3) tk2(1) by (auto intro: l2coh_mono)
      ultimately have q3: "qinv crc dev3 T C FL B"
        using qinvD(6) [OF i(3)] by (intro qinvI_shell [OF i(3)]) (auto simp: dev3_def q2q intro: base_ok_same)
      have s3: "shell dev3 = shell dev" "io_plan dev3 = pl" "miss_handler dev3 = miss_handler dev"
        "csz (qcow2 dev3) = csz ?q" "nent (qcow2 dev3) = nent ?q" "base dev3 = base dev"
        "unat (lru_tick (qcow2 dev3)) = unat ?t + 2"
        using tk2(2) by (simp_all add: dev3_def i(5) dev1_def)
      have slot: "cl_cluster_index (cl_at dev3 i) = c" "cl_lru (cl_at dev3 i) < lru_tick (qcow2 dev3)"
        using i(1) q2q(5) tk2(1) by (simp_all add: dev3_def e3_def)
      have ab3: "cl_absent c (cl_cache (qcow2 dev3))"
        using ab2 i(4) by (simp add: dev3_def e3_def cl_absent_update)
      have load: "lbd_qcow2_cl_load crc c dev = cl_fill crc i c entry dev3"
        using f miss g(1) Ptr al i(2) q2q(1)
        by (simp add: lbd_qcow2_cl_load_def Let_def l1i_def [symmetric] dev1_def [symmetric] entry_def
            lbd_qcow2_lru_tick_def upd_cl_def dev3_def e3_def) (simp add: dev1_def)
      have t3: "ticks dev3 k"
        using t s3(6,7) by (auto simp: ticks_def)
      obtain p dev' where r: "cl_fill crc i c entry dev3 = (p, dev')" "qinv crc dev' T C FL B" "shell dev' = shell dev3"
        "spent dev3 dev' 1" "io_plan dev3 = [] \<longrightarrow> io_plan dev' = []"
        "(p = Ptr i \<and> cl_valid (cl_at dev' i) \<and> cl_cluster_index (cl_at dev' i) = c) \<or>
         (p = ErrPtr ENODATA \<and> miss_handler dev3 \<noteq> None \<and> entry = 0 \<and> B (unat c) = None \<and> cl_absent c (cl_cache (qcow2 dev'))) \<or>
         (p = Null \<and> io_plan dev3 \<noteq> [])"
        using cl_fill_spec [OF q3 i(1) slot ab3 _ t3] c entry s3(4,5) by auto
      have "spent dev dev3 2"
        using s3(6,7) by (simp add: spent_def)
      then have "spent dev dev' 3"
        using spent_trans [OF _ r(4)] by force
      then show ?thesis
        using load r s3 g(2) i(1) entry by auto
    next
      case Null
      then have "lbd_qcow2_cl_load crc c dev = (Null, dev1)"
        using f miss g(1) by (simp add: lbd_qcow2_cl_load_def Let_def l1i_def [symmetric] dev1_def)
      then show ?thesis
        using q1 s1 g(2,4) Null by (auto intro: spent_mono)
    next
      case (ErrPtr err)
      then show ?thesis
        using g(4) by auto
    qed
  qed
qed

end
