(* ===== verification/Qcow2_Read.thy ===== *)
theory Qcow2_Read
  imports Qcow2_Load
begin

text \<open>
  Correctness of reads: a device refines a two-layer store of clusters (\<open>abs_img\<close>), and
  \<open>lbd_qcow2_read\<close> returns the bytes the store shows, or an error after a failed file
  operation, whatever the miss handler answers.
\<close>

section \<open>The abstract store\<close>

text \<open>
  The clusters stored in the primary image and those of the base layer; a cluster in neither
  reads as zeros. The disk is the concatenation of the clusters.
\<close>

type_synonym layers = "(nat \<rightharpoonup> bytes) \<times> (nat \<rightharpoonup> bytes)"

definition shown :: "nat \<Rightarrow> layers \<Rightarrow> nat \<Rightarrow> bytes" where
  "shown cs L c =
     (case fst L c of Some bs \<Rightarrow> bs | None \<Rightarrow> (case snd L c of Some bs \<Rightarrow> bs | None \<Rightarrow> replicate cs 0))"

definition disk_byte :: "nat \<Rightarrow> layers \<Rightarrow> nat \<Rightarrow> u8" where
  "disk_byte cs L x = shown cs L (x div cs) ! (x mod cs)"

definition stored_layer :: "nat \<Rightarrow> (nat \<Rightarrow> u64 list) \<Rightarrow> (nat \<Rightarrow> bytes) \<Rightarrow> (nat \<rightharpoonup> bytes)" where
  "stored_layer n T C = (\<lambda>c. if ent n T c \<noteq> 0 then Some (C c) else None)"

text \<open>The refinement relation between a device and the store.\<close>

definition abs_img :: "crc_fun \<Rightarrow> lbd_device \<Rightarrow> layers \<Rightarrow> bool" where
  "abs_img crc dev L \<longleftrightarrow>
     (\<exists>T C FL B. qinv crc dev T C FL B \<and> L = (stored_layer (nent (qcow2 dev)) T C, B))"

lemma shown_view: "shown cs (stored_layer n T C, B) = view cs n T C B"
  by (auto simp: shown_def stored_layer_def view_def)

section \<open>Chunks\<close>

lemma unat_take_bit: "unat (take_bit k (x :: 'a::len word)) = unat x mod 2 ^ k"
  unfolding unsigned_take_bit_eq by (rule take_bit_eq_mod)

lemma chunk_spec:
  assumes g: "geom q"
  shows "unat (chunk_cluster q x) = unat x div csz q" "unat (chunk_off q x) = unat x mod csz q"
    "unat (chunk_bytes q x r) = min (unat r) (csz q - unat x mod csz q)"
proof -
  let ?b = "unat (cluster_bits q)"
  have b: "12 \<le> ?b" "?b \<le> 24" and cs: "cluster_size q = push_bit ?b 1"
    using g by (auto simp: geom_def)
  have pow: "csz q = 2 ^ ?b"
    using csz_pow [OF g] .
  show "unat (chunk_cluster q x) = unat x div csz q"
    unfolding chunk_cluster_def pow unat_drop_bit_eq by (rule drop_bit_eq_div)
  have m: "cluster_size q - 1 = (mask ?b :: u32)"
    by (simp add: cs mask_eq_exp_minus_1)
  have "ucast (mask ?b :: u32) = (mask ?b :: u64)"
    using b by (simp add: unsigned_ucast_eq bit_eq_iff bit_simps) arith
  then have o: "chunk_off q x = ucast (take_bit ?b x)"
    by (simp add: chunk_off_def m take_bit_eq_mask)
  have lt: "unat x mod 2 ^ ?b < 2 ^ 32"
    using b by (intro order.strict_trans2 [OF mod_less_divisor power_increasing]) auto
  show off: "unat (chunk_off q x) = unat x mod csz q"
    using lt by (simp add: o unsigned_ucast_eq unat_take_bit take_bit_nat_eq_self pow)
  have "chunk_off q x \<le> cluster_size q"
    using off csz_ge [OF g] by (simp add: word_le_nat_alt)
  then have "unat (cluster_size q - chunk_off q x) = csz q - unat x mod csz q"
    using off by (simp add: unat_sub)
  then show "unat (chunk_bytes q x r) = min (unat r) (csz q - unat x mod csz q)"
    by (simp add: chunk_bytes_def min_def word_le_nat_alt)
qed

lemma chunk_bytes_pos: "geom q \<Longrightarrow> 0 < r \<Longrightarrow> 0 < unat (chunk_bytes q x r)"
  using chunk_spec(3) [of q x r] csz_ge [of q] by (simp add: word_less_nat_alt)

text \<open>A chunk of a cluster is a stretch of the disk.\<close>

lemma chunk_bytes_disk:
  assumes "length (shown cs L (x div cs)) = cs" "x mod cs + n \<le> cs" "0 < cs"
  shows "read_at (shown cs L (x div cs)) (x mod cs) n = map (disk_byte cs L) [x..<x + n]"
proof (rule nth_equalityI)
  show "length (read_at (shown cs L (x div cs)) (x mod cs) n) = length (map (disk_byte cs L) [x..<x + n])"
    using assms by (simp add: length_read_at)
next
  fix i assume "i < length (read_at (shown cs L (x div cs)) (x mod cs) n)"
  then have i: "i < n"
    by (simp add: length_read_at)
  have "(x + i) div cs = x div cs \<and> (x + i) mod cs = x mod cs + i"
  proof -
    have "x + i = x div cs * cs + (x mod cs + i)" "x mod cs + i < cs"
      using assms(2) i by simp_all
    then show ?thesis
      using assms(3) by (metis add.commute div_mult_self1 div_less mod_less mod_mult_self3 add_0 less_numeral_extra(3))
  qed
  then show "read_at (shown cs L (x div cs)) (x mod cs) n ! i = map (disk_byte cs L) [x..<x + n] ! i"
    using i assms by (simp add: nth_read_at disk_byte_def)
qed

section \<open>The retry loop\<close>

text \<open>
  The miss handler is absent, or it answers \<open>n\<close> more misses; its answers leave the base file
  alone.
\<close>

definition quiet :: "lbd_device \<Rightarrow> bool" where
  "quiet dev \<longleftrightarrow> (\<forall>r \<in> set (miss_replies dev). \<exists>a. r = MissReply a None)"

definition answers :: "lbd_device \<Rightarrow> nat \<Rightarrow> bool" where
  "answers dev n \<longleftrightarrow> miss_handler dev = None \<or> n \<le> length (miss_replies dev)"

text \<open>What a read leaves alone: the shell but for the pending answers.\<close>

definition rshell :: "lbd_device \<Rightarrow> lbd_device" where
  "rshell dev = (shell dev)\<lparr>miss_replies := []\<rparr>"

lemma shell_rshell: "shell dev' = shell dev \<Longrightarrow> rshell dev' = rshell dev"
  by (simp add: rshell_def)

lemma rshell_upd [simp]: "rshell (dev\<lparr>miss_replies := r\<rparr>) = rshell dev"
  by (cases dev) (simp add: rshell_def shell_def)

lemma rshell_fields:
  assumes "rshell dev' = rshell dev"
  shows "backing_file dev' = backing_file dev" "qshell (qcow2 dev') = qshell (qcow2 dev)"
    "miss_handler dev' = miss_handler dev" "crashed dev' = crashed dev"
proof -
  have "backing_file (rshell dev') = backing_file (rshell dev)" "qcow2 (rshell dev') = qcow2 (rshell dev)"
    "miss_handler (rshell dev') = miss_handler (rshell dev)" "crashed (rshell dev') = crashed (rshell dev)"
    using assms by simp_all
  then show "backing_file dev' = backing_file dev" "qshell (qcow2 dev') = qshell (qcow2 dev)"
    "miss_handler dev' = miss_handler dev" "crashed dev' = crashed dev"
    by (simp_all add: rshell_def shell_def)
qed

text \<open>Invalidating cached entries keeps the invariant.\<close>

lemma clcoh_invalidate:
  assumes "clcoh cs V tick es"
  shows "clcoh cs V tick (map (\<lambda>e. if P e then e\<lparr>cl_valid := False\<rparr> else e) es)"
proof -
  have "coherent cl_valid cl_cluster_index cl_lru cl_data (\<lambda>c bs. bs = V (unat c)) tick
      (map (\<lambda>e. if P e then e\<lparr>cl_valid := False\<rparr> else e) es)"
    by (rule clc.coherent_weaken [of _ _ es]) (use assms in \<open>auto simp: clcoh_def\<close>)
  then show ?thesis
    using assms by (auto simp: clcoh_def)
qed

lemma l2coh_invalidate:
  assumes "l2coh cs n T tick es"
  shows "l2coh cs n T tick (map (\<lambda>e. if P e then e\<lparr>l2_valid := False\<rparr> else e) es)"
proof -
  have "coherent l2_valid l2_l1_index l2_lru (\<lambda>e. (l2_dirty e, l2_table e))
       (\<lambda>i (d, tab). \<not> d \<and> take n tab = T (unat i)) tick (map (\<lambda>e. if P e then e\<lparr>l2_valid := False\<rparr> else e) es)"
    by (rule l2c.coherent_weaken [of _ _ es]) (use assms in \<open>auto simp: l2coh_def\<close>)
  then show ?thesis
    using assms by (auto simp: l2coh_def)
qed

lemma binv_invalidate:
  assumes "binv crc cs b B"
  shows "binv crc cs (b\<lparr>b_l2_cache := map (\<lambda>e. if P e then e\<lparr>l2_valid := False\<rparr> else e) (b_l2_cache b)\<rparr>) B"
proof (cases "b_is_qcow2 b")
  case True
  then obtain T where "unat (b_cluster_size b) = cs" "cs div 8 = unat (b_l2_entries b) + 1"
    "l2disk crc cs (unat (b_l2_entries b)) (b_l1_table b) (unat (b_l1_size b)) (b_file b) T"
    "l2coh cs (unat (b_l2_entries b)) T (b_lru_tick b) (b_l2_cache b)"
    "holds cs (unat (b_l2_entries b)) (b_file b) T B"
    using assms by (auto simp: binv_def)
  then show ?thesis
    using True l2coh_invalidate [of cs "unat (b_l2_entries b)" T "b_lru_tick b" "b_l2_cache b" P]
    by (simp add: binv_def) blast
next
  case False
  then show ?thesis
    using assms by (simp add: binv_def)
qed

lemma invalidate_spec:
  assumes q: "qinv crc dev T C FL B"
  shows "qinv crc (lbd_qcow2_invalidate_for_retry c dev) T C FL B"
    "shell (lbd_qcow2_invalidate_for_retry c dev) = shell dev"
    "spent dev (lbd_qcow2_invalidate_for_retry c dev) 0"
    "io_plan (lbd_qcow2_invalidate_for_retry c dev) = io_plan dev"
    "miss_replies (lbd_qcow2_invalidate_for_retry c dev) = miss_replies dev"
proof -
  let ?q = "qcow2 dev"
  let ?P = "\<lambda>e. cl_valid e \<and> cl_cluster_index e = c"
  let ?es = "map (\<lambda>e. if cl_valid e \<and> cl_cluster_index e = c then e\<lparr>cl_valid := False\<rparr> else e) (cl_cache ?q)"
  let ?dev' = "lbd_qcow2_invalidate_for_retry c dev"
  have s: "shell ?dev' = shell dev" "qcow2 ?dev' = ?q\<lparr>cl_cache := ?es\<rparr>"
    by (simp_all add: lbd_qcow2_invalidate_for_retry_def Let_def split: option.split)
  then show "shell ?dev' = shell dev" "io_plan ?dev' = io_plan dev" "miss_replies ?dev' = miss_replies dev"
    by (simp_all add: lbd_qcow2_invalidate_for_retry_def Let_def split: option.split)
  show "spent dev ?dev' 0"
    by (simp add: spent_def lbd_qcow2_invalidate_for_retry_def Let_def split: option.split)
  have "base_ok crc ?dev' B"
  proof (cases "base dev")
    case None
    then show ?thesis
      using qinvD(6) [OF q] by (simp add: base_ok_def lbd_qcow2_invalidate_for_retry_def Let_def)
  next
    case (Some b)
    then have "binv crc (csz ?q) b B"
      using qinvD(6) [OF q] by (simp add: base_ok_def)
    then show ?thesis
      using Some binv_invalidate [of crc "csz ?q" b B "\<lambda>e. l2_valid e \<and> l2_l1_index e = ucast (c div ucast (b_l2_entries b))"]
      by (simp add: base_ok_def lbd_qcow2_invalidate_for_retry_def Let_def)
  qed
  then show "qinv crc ?dev' T C FL B"
    using qinvD(4) [OF q] clcoh_invalidate [OF qinvD(5) [OF q], of ?P]
    by (intro qinvI_shell [OF q s(1)]) (simp_all add: s(2))
qed

lemma qinv_replies:
  assumes "qinv crc dev T C FL B"
  shows "qinv crc (dev\<lparr>miss_replies := r\<rparr>) T C FL B"
  using assms by (auto simp: qinv_def intro: base_ok_same)

text \<open>
  The data of one chunk: the part of the shown cluster, or an error after a failed file
  operation. At most four misses are posted for it.
\<close>

lemma read_retry_spec:
  assumes q: "qinv crc dev T C FL B" and c: "cbound (csz (qcow2 dev)) (nent (qcow2 dev)) c"
    and t: "ticks dev (3 * (4 - retries) + k)" and n: "off + n \<le> csz (qcow2 dev)"
    and m: "quiet dev" "answers dev (4 - retries + m)" and r: "retries \<le> 3"
  shows "\<exists>r dev'. read_retry crc c off n retries dev = Some (r, dev') \<and> qinv crc dev' T C FL B \<and>
    rshell dev' = rshell dev \<and> spent dev dev' (3 * (4 - retries)) \<and> quiet dev' \<and> answers dev' m \<and>
    (io_plan dev = [] \<longrightarrow> io_plan dev' = []) \<and>
    (r = Inr (read_at (vw (qcow2 dev) T C B (unat c)) off n) \<or> r = Inl EIO \<and> io_plan dev \<noteq> [])"
  using assms
proof (induction "3 - retries" arbitrary: retries dev rule: less_induct)
  case less
  note q = less.prems(1) and c = less.prems(2)
  let ?q = "qcow2 dev" and ?V = "vw (qcow2 dev) T C B (unat c)"
  have "3 * (4 - retries) + k = 3 + (3 * (3 - retries) + k)"
    using less.prems(7) by simp
  then have t: "ticks dev (3 + (3 * (3 - retries) + k))"
    using less.prems(3) by (simp add: add.assoc)
  obtain p dev1 where l: "lbd_qcow2_cl_load crc c dev = (p, dev1)" "qinv crc dev1 T C FL B" "shell dev1 = shell dev"
    "spent dev dev1 3" "io_plan dev = [] \<longrightarrow> io_plan dev1 = []"
    "(\<exists>i < 16. p = Ptr i \<and> cl_valid (cl_at dev1 i) \<and> cl_cluster_index (cl_at dev1 i) = c) \<or>
     (p = ErrPtr ENODATA \<and> miss_handler dev \<noteq> None \<and> ent (nent ?q) T (unat c) = 0 \<and> B (unat c) = None \<and>
        cl_absent c (cl_cache (qcow2 dev1))) \<or> (p = Null \<and> io_plan dev \<noteq> [])"
    using cl_load_spec [OF q c t] by blast
  note sf = shell_fields [OF l(3)] and qf = qshell_fields [OF shell_fields(2) [OF l(3)]]
  have sp: "spent dev dev1 (3 * (4 - retries))"
    using spent_mono [OF l(4)] less.prems(7) by simp
  have m1: "quiet dev1" "answers dev1 (4 - retries + m)" "answers dev1 m"
    using less.prems(5,6) sf by (auto simp: quiet_def answers_def)
  show ?case
  proof (cases p)
    case (Ptr i)
    then have "i < 16" "cl_data (cl_at dev1 i) = vw (qcow2 dev1) T C B (unat c)"
      using l(6) clcoh_entry(2) [OF qinvD(5) [OF l(2)]] by auto
    then have "read_retry crc c off n retries dev = Some (Inr (read_at ?V off n), dev1)"
      using l(1) Ptr by (simp add: read_retry.simps qf)
    then show ?thesis
      using l(2,5) m1 sp shell_rshell [OF l(3)] by blast
  next
    case Null
    then have "read_retry crc c off n retries dev = Some (Inl EIO, dev1)" "io_plan dev \<noteq> []"
      using l(1,6) by (auto simp: read_retry.simps)
    then show ?thesis
      using l(2,5) m1 sp shell_rshell [OF l(3)] by blast
  next
    case (ErrPtr e)
    then have h: "miss_handler dev1 \<noteq> None" and V: "?V = replicate (csz ?q) 0"
      using l(6) sf by (auto simp: view_def)
    have "miss_replies dev1 \<noteq> []"
      using h m1(2) less.prems(7) by (auto simp: answers_def)
    then obtain a rest where rep: "miss_replies dev1 = MissReply a None # rest"
      using m1(1) by (cases "miss_replies dev1") (auto simp: quiet_def)
    define dev2 where "dev2 = dev1\<lparr>miss_replies := rest\<rparr>"
    have hm: "lbd_qcow2_handle_miss c dev1 = Some (a, dev2)"
      using h rep by (auto simp: lbd_qcow2_handle_miss_def dev2_def)
    have q2: "qinv crc dev2 T C FL B" "rshell dev2 = rshell dev" "quiet dev2" "answers dev2 (3 - retries + m)"
      "spent dev dev2 3" "io_plan dev2 = io_plan dev1" "qcow2 dev2 = qcow2 dev1"
      using qinv_replies [OF l(2)] shell_rshell [OF l(3)] m1(1,2) rep h l(4) less.prems(7)
      by (auto simp: dev2_def quiet_def answers_def spent_def)
    show ?thesis
    proof (cases "a = LBD_MISS_RETRY \<and> retries < 3")
      case False
      have z: "read_at ?V off n = replicate n 0"
        using less.prems(4) by (simp add: V read_at_def min_def)
      have "read_retry crc c off n retries dev = Some (Inr (replicate n 0), dev2)"
        using l(1) ErrPtr hm False by (auto simp: read_retry.simps)
      moreover have "answers dev2 m" "spent dev dev2 (3 * (4 - retries))"
        using q2(4) spent_mono [OF q2(5)] less.prems(7) by (auto simp: answers_def)
      ultimately show ?thesis
        using q2 z l(5) by auto
    next
      case True
      define dev3 where "dev3 = lbd_qcow2_invalidate_for_retry c dev2"
      note inv = invalidate_spec [OF q2(1), of c, folded dev3_def]
      have sf3: "rshell dev3 = rshell dev"
        using shell_rshell [OF inv(2)] q2(2) by simp
      note qf3 = qshell_fields [OF rshell_fields(2) [OF sf3]]
      have sp3: "spent dev dev3 3"
        using spent_trans [OF q2(5) inv(3)] by simp
      have nx: "3 - (retries + 1) < 3 - retries" "4 - (retries + 1) = 3 - retries" "retries + 1 \<le> 3"
        using True by auto
      have "\<exists>r dev'. read_retry crc c off n (retries + 1) dev3 = Some (r, dev') \<and> qinv crc dev' T C FL B \<and>
        rshell dev' = rshell dev3 \<and> spent dev3 dev' (3 * (4 - (retries + 1))) \<and> quiet dev' \<and> answers dev' m \<and>
        (io_plan dev3 = [] \<longrightarrow> io_plan dev' = []) \<and>
        (r = Inr (read_at (vw (qcow2 dev3) T C B (unat c)) off n) \<or> r = Inl EIO \<and> io_plan dev3 \<noteq> [])"
      proof (rule less.hyps [OF nx(1) inv(1)])
        show "cbound (csz (qcow2 dev3)) (nent (qcow2 dev3)) c" "off + n \<le> csz (qcow2 dev3)"
          using c less.prems(4) by (simp_all add: qf3)
        show "ticks dev3 (3 * (4 - (retries + 1)) + k)"
          using spent_ticks [OF t sp3] nx(2) by simp
        show "quiet dev3" "answers dev3 (4 - (retries + 1) + m)"
          using q2(3,4) inv(5) nx(2) rshell_fields(3) [OF shell_rshell [OF inv(2)]] by (auto simp: quiet_def answers_def)
      qed (use nx in auto)
      then obtain r dev' where r: "read_retry crc c off n (retries + 1) dev3 = Some (r, dev')" "qinv crc dev' T C FL B"
        "rshell dev' = rshell dev3" "spent dev3 dev' (3 * (4 - (retries + 1)))" "quiet dev'" "answers dev' m"
        "io_plan dev3 = [] \<longrightarrow> io_plan dev' = []"
        "r = Inr (read_at (vw (qcow2 dev3) T C B (unat c)) off n) \<or> r = Inl EIO \<and> io_plan dev3 \<noteq> []"
        by blast
      have "read_retry crc c off n retries dev = Some (r, dev')"
        using l(1) ErrPtr hm True r(1) by (subst read_retry.simps) (simp add: dev3_def)
      moreover have "spent dev dev' (3 * (4 - retries))"
        using spent_trans [OF sp3 r(4)] nx True by (auto intro: spent_mono)
      moreover have "io_plan dev = [] \<longrightarrow> io_plan dev3 = []"
        using l(5) q2(6) inv(4) by simp
      moreover have "vw (qcow2 dev3) T C B = vw ?q T C B"
        by (simp add: qf3)
      ultimately show ?thesis
        using r(2,3,5,6,7,8) sf3 by auto
    qed
  qed
qed

section \<open>The loops\<close>

text \<open>The number of clusters that \<open>n\<close> bytes at \<open>x\<close> touch.\<close>

definition span :: "nat \<Rightarrow> nat \<Rightarrow> nat \<Rightarrow> nat" where
  "span cs x n = (if n = 0 then 0 else (x + n - 1) div cs - x div cs + 1)"

lemma span_step:
  assumes "0 < n" "0 < cs" and b: "b = min n (cs - x mod cs)"
  shows "span cs x n = Suc (span cs (x + b) (n - b))" "(x + b) mod cs = 0 \<or> b = n" "x mod cs + b \<le> cs"
    "0 < b" "b \<le> n"
proof -
  have m: "x mod cs < cs" "x = x div cs * cs + x mod cs"
    using assms by simp_all
  show "x mod cs + b \<le> cs" "0 < b" "b \<le> n"
    using assms m(1) by auto
  show "(x + b) mod cs = 0 \<or> b = n"
  proof (cases "n \<le> cs - x mod cs")
    case False
    then have "b = cs - x mod cs"
      using b by simp
    then have "x + b = x div cs * cs + cs"
      using m by linarith
    then show ?thesis
      by simp
  qed (use b in auto)
  show "span cs x n = Suc (span cs (x + b) (n - b))"
  proof (cases "n \<le> cs - x mod cs")
    case True
    then have "x + n - 1 = x div cs * cs + (x mod cs + n - 1)" "x mod cs + n - 1 < cs"
      using m assms(1) by linarith+
    then have "(x + n - 1) div cs = x div cs"
      using assms(2) by (metis add.commute div_less div_mult_self1 add_0 less_numeral_extra(3))
    then show ?thesis
      using True b assms(1) by (simp add: span_def)
  next
    case False
    then have l: "b < n" and bb: "b = cs - x mod cs"
      using b by simp_all
    have "x + b = x div cs * cs + cs"
      using m bb by linarith
    then have e: "x + b = (x div cs + 1) * cs"
      by simp
    have "(x + b) div cs = x div cs + 1"
      using e assms(2) by (metis nonzero_mult_div_cancel_right less_numeral_extra(3))
    moreover have "x + b + (n - b) - 1 = x + n - 1"
      using l by simp
    moreover have "(x + b) div cs \<le> (x + n - 1) div cs"
      using l by (intro div_le_mono) simp
    ultimately show ?thesis
      using l assms(1) by (simp add: span_def)
  qed
qed

text \<open>Guest ranges the image can address, by their end.\<close>

definition inside :: "lbd_qcow2 \<Rightarrow> nat \<Rightarrow> bool" where
  "inside q x \<longleftrightarrow> x \<le> 2 ^ 62 \<and> x \<le> 2 ^ 32 * nent q * csz q"

lemma inside_cbound:
  assumes g: "geom q" and i: "inside q y" and x: "unat x < y"
  shows "cbound (csz q) (nent q) (chunk_cluster q x)"
proof -
  have c: "unat (chunk_cluster q x) = unat x div csz q" and cs: "4096 \<le> csz q" "csz q \<le> 16777216"
    using chunk_spec(1) [OF g] csz_ge [OF g] csz_le [OF g] by auto
  have lt: "unat x div csz q < 2 ^ 32 * nent q"
    using i x cs by (intro div_less_iff_less_mult [THEN iffD2]) (auto simp: inside_def)
  have "unat x div csz q * csz q \<le> unat x"
    by simp
  moreover have "y \<le> 4611686018427387904"
    using i by (simp add: inside_def)
  ultimately have "unat x div csz q * csz q + csz q < 9223372036854775808"
    using x cs by linarith
  then have "(unat x div csz q + 1) * csz q < 2 ^ 63"
    by simp
  then show ?thesis
    using lt by (simp add: cbound_def c)
qed

lemma ucast_split: "b \<le> n \<Longrightarrow> ucast b + ucast (n - b) = (ucast n :: u64)" for b n :: u32
proof -
  assume "b \<le> n"
  moreover have "unat n < 4294967296"
    using unsigned_less [of n, where ?'a = nat] by simp
  ultimately have "unat (ucast b + ucast (n - b) :: u64) = unat (ucast n :: u64)"
    by (simp add: unat_plus_u64 unat_sub word_le_nat_alt)
  then show ?thesis
    by (rule word_unat_eq_iff [THEN iffD2])
qed

lemma map_upt_append: "map f [x..<x + a] @ map f [x + a..<x + a + b] = map f [x..<x + a + b]"
  by (simp add: upt_add_eq_append [of x "x + a" b] flip: map_append)

lemma read_segment_spec:
  assumes "qinv crc dev T C FL B" "inside (qcow2 dev) (unat x + unat n)"
    "ticks dev (12 * span (csz (qcow2 dev)) (unat x) (unat n) + k)" "quiet dev"
    "answers dev (4 * span (csz (qcow2 dev)) (unat x) (unat n) + m)"
  shows "\<exists>r dev'. read_segment crc x n dev = Some (r, dev') \<and> qinv crc dev' T C FL B \<and> rshell dev' = rshell dev \<and>
    (io_plan dev = [] \<longrightarrow> io_plan dev' = []) \<and>
    (r = Inl EIO \<and> io_plan dev \<noteq> [] \<or>
     r = Inr (map (disk_byte (csz (qcow2 dev)) (stored_layer (nent (qcow2 dev)) T C, B)) [unat x..<unat x + unat n],
        x + ucast n) \<and>
      ticks dev' k \<and> quiet dev' \<and> answers dev' m)"
  using assms
proof (induction "unat n" arbitrary: x n dev rule: less_induct)
  case less
  let ?q = "qcow2 dev" and ?cs = "csz (qcow2 dev)"
  let ?D = "disk_byte ?cs (stored_layer (nent ?q) T C, B)"
  note q = less.prems(1)
  have g: "geom ?q"
    using qinvD(2) [OF q] .
  show ?case
  proof (cases "n = 0")
    case True
    then show ?thesis
      using less.prems by (subst read_segment.simps) (simp add: span_def)
  next
    case False
    then have n0: "0 < unat n" "0 < n"
      by (simp_all add: unat_gt_0 word_gt_0)
    define b where "b = chunk_bytes ?q x n"
    have cs0: "0 < ?cs"
      using csz_ge [OF g] by simp
    have ub: "unat b = min (unat n) (?cs - unat x mod ?cs)"
      using chunk_spec(3) [OF g] by (simp add: b_def)
    note st = span_step [OF n0(1) cs0 ub]
    have ux: "unat (x + ucast b) = unat x + unat b" "unat (n - b) = unat n - unat b"
      using less.prems(2) st(5) by (auto simp: inside_def unat_plus_u64 unat_sub word_le_nat_alt)
    let ?s = "span ?cs (unat x + unat b) (unat n - unat b)"
    have t: "ticks dev (3 * (4 - 0) + (12 * ?s + k))"
      using less.prems(3) unfolding st(1) by (simp add: add.assoc)
    have an: "answers dev (4 - 0 + (4 * ?s + m))"
      using less.prems(5) unfolding st(1) by (simp add: add.assoc)
    have cb: "cbound ?cs (nent ?q) (chunk_cluster ?q x)"
      using inside_cbound [OF g less.prems(2)] n0 by simp
    have off: "unat (chunk_off ?q x) + unat b \<le> ?cs"
      using st(3) chunk_spec(2) [OF g] by simp
    obtain r dev1 where r: "read_retry crc (chunk_cluster ?q x) (unat (chunk_off ?q x)) (unat b) 0 dev = Some (r, dev1)"
      "qinv crc dev1 T C FL B" "rshell dev1 = rshell dev" "spent dev dev1 (3 * (4 - 0))" "quiet dev1"
      "answers dev1 (4 * ?s + m)" "io_plan dev = [] \<longrightarrow> io_plan dev1 = []"
      "r = Inr (read_at (vw ?q T C B (unat (chunk_cluster ?q x))) (unat (chunk_off ?q x)) (unat b)) \<or>
       r = Inl EIO \<and> io_plan dev \<noteq> []"
      using read_retry_spec [OF q cb t off less.prems(4) an] by blast
    note qf = qshell_fields [OF rshell_fields(2) [OF r(3)]]
    have t1: "ticks dev1 (12 * ?s + k)"
      using spent_ticks [OF t r(4)] .
    show ?thesis
    proof (cases "r = Inl EIO")
      case True
      then have "read_segment crc x n dev = Some (Inl EIO, dev1)"
        using n0 r(1) by (subst read_segment.simps) (simp add: Let_def b_def)
      then show ?thesis
        using r(2,3,7,8) True by auto
    next
      case False
      then have d: "r = Inr (map ?D [unat x..<unat x + unat b])"
        using r(8) chunk_bytes_disk [of ?cs "(stored_layer (nent ?q) T C, B)" "unat x" "unat b"] st(3) cs0
          view_length [OF q] chunk_spec(1,2) [OF g] by (simp add: shown_view)
      have "\<exists>r dev'. read_segment crc (x + ucast b) (n - b) dev1 = Some (r, dev') \<and> qinv crc dev' T C FL B \<and>
        rshell dev' = rshell dev1 \<and> (io_plan dev1 = [] \<longrightarrow> io_plan dev' = []) \<and>
        (r = Inl EIO \<and> io_plan dev1 \<noteq> [] \<or>
         r = Inr (map (disk_byte (csz (qcow2 dev1)) (stored_layer (nent (qcow2 dev1)) T C, B))
           [unat (x + ucast b)..<unat (x + ucast b) + unat (n - b)], x + ucast b + ucast (n - b)) \<and>
         ticks dev' k \<and> quiet dev' \<and> answers dev' m)"
        by (rule less.hyps [OF _ r(2)])
          (use st(4,5) less.prems(2) t1 r(5,6) in \<open>simp_all add: ux qf inside_def\<close>)
      then obtain r' dev2 where r2: "read_segment crc (x + ucast b) (n - b) dev1 = Some (r', dev2)" "qinv crc dev2 T C FL B"
        "rshell dev2 = rshell dev1" "io_plan dev1 = [] \<longrightarrow> io_plan dev2 = []"
        "r' = Inl EIO \<and> io_plan dev1 \<noteq> [] \<or>
         r' = Inr (map ?D [unat x + unat b..<unat x + unat n], x + ucast n) \<and> ticks dev2 k \<and> quiet dev2 \<and> answers dev2 m"
        using st(5) by (auto simp: ux qf add.assoc ucast_split word_le_nat_alt)
      show ?thesis
      proof (cases "r' = Inl EIO")
        case True
        then have "read_segment crc x n dev = Some (Inl EIO, dev2)"
          using n0 r(1) d r2(1) by (subst read_segment.simps) (simp add: Let_def b_def)
        then show ?thesis
          using r2 r(3,7) True by auto
      next
        case False
        then have e: "r' = Inr (map ?D [unat x + unat b..<unat x + unat n], x + ucast n)" "ticks dev2 k" "quiet dev2" "answers dev2 m"
          using r2(5) by auto
        have "map ?D [unat x..<unat x + unat b] @ map ?D [unat x + unat b..<unat x + unat n] = map ?D [unat x..<unat x + unat n]"
          using map_upt_append [of ?D "unat x" "unat b" "unat n - unat b"] st(5) by simp
        then have "read_segment crc x n dev = Some (Inr (map ?D [unat x..<unat x + unat n], x + ucast n), dev2)"
          using n0 r(1) d r2(1) e(1) by (subst read_segment.simps) (simp add: Let_def b_def)
        then show ?thesis
          using r2(2,3,4) r(3,7) e by auto
      qed
    qed
  qed
qed

text \<open>The clusters touched by a request, counted per segment.\<close>

fun spans :: "nat \<Rightarrow> nat \<Rightarrow> bytes list \<Rightarrow> nat" where
  "spans cs x [] = 0"
| "spans cs x (seg # segs) = span cs x (length seg) + spans cs (x + length seg) segs"

text \<open>The disk's bytes at a position, cut into the segments of a request.\<close>

fun scatter :: "(nat \<Rightarrow> u8) \<Rightarrow> nat \<Rightarrow> bytes list \<Rightarrow> bytes list" where
  "scatter D x [] = []"
| "scatter D x (seg # segs) = map D [x..<x + length seg] # scatter D (x + length seg) segs"

lemma concat_scatter: "concat (scatter D x segs) = map D [x..<x + length (concat segs)]"
  by (induction segs arbitrary: x) (simp_all add: map_upt_append flip: add.assoc)

lemma read_segments_spec:
  assumes "qinv crc dev T C FL B" "inside (qcow2 dev) (unat x + length (concat segs))"
    "ticks dev (12 * spans (csz (qcow2 dev)) (unat x) segs + k)" "quiet dev"
    "answers dev (4 * spans (csz (qcow2 dev)) (unat x) segs + m)"
    "\<And>seg. seg \<in> set segs \<Longrightarrow> length seg < 2 ^ 32"
  shows "\<exists>r dev'. read_segments crc x segs dev = Some (r, dev') \<and> qinv crc dev' T C FL B \<and> rshell dev' = rshell dev \<and>
    (io_plan dev = [] \<longrightarrow> io_plan dev' = []) \<and>
    (r = Inl EIO \<and> io_plan dev \<noteq> [] \<or>
     r = Inr (scatter (disk_byte (csz (qcow2 dev)) (stored_layer (nent (qcow2 dev)) T C, B)) (unat x) segs) \<and>
     ticks dev' k \<and> quiet dev' \<and> answers dev' m)"
  using assms
proof (induction segs arbitrary: x dev)
  case Nil
  then show ?case
    by simp
next
  case (Cons seg segs)
  let ?q = "qcow2 dev" and ?cs = "csz (qcow2 dev)" and ?n = "of_nat (length seg) :: u32"
  let ?D = "disk_byte ?cs (stored_layer (nent ?q) T C, B)"
  let ?s = "spans ?cs (unat x + length seg) segs"
  have n: "unat ?n = length seg"
    using Cons.prems(6) [of seg] by (simp add: unsigned_of_nat take_bit_nat_eq_self)
  have ux: "unat (x + ucast ?n) = unat x + length seg"
    using Cons.prems(2) n by (simp add: inside_def unat_plus_u64)
  obtain r dev1 where r: "read_segment crc x ?n dev = Some (r, dev1)" "qinv crc dev1 T C FL B" "rshell dev1 = rshell dev"
    "io_plan dev = [] \<longrightarrow> io_plan dev1 = []"
    "r = Inl EIO \<and> io_plan dev \<noteq> [] \<or> r = Inr (map ?D [unat x..<unat x + length seg], x + ucast ?n) \<and>
      ticks dev1 (12 * ?s + k) \<and> quiet dev1 \<and> answers dev1 (4 * ?s + m)"
    using read_segment_spec [OF Cons.prems(1), of x ?n "12 * ?s + k" "4 * ?s + m"] Cons.prems(2-5)
    by (simp add: n inside_def distrib_left add.assoc) blast
  note qf = qshell_fields [OF rshell_fields(2) [OF r(3)]]
  show ?case
  proof (cases "r = Inl EIO")
    case True
    then show ?thesis
      using r by auto
  next
    case False
    then have e: "r = Inr (map ?D [unat x..<unat x + length seg], x + ucast ?n)" "ticks dev1 (12 * ?s + k)"
      "quiet dev1" "answers dev1 (4 * ?s + m)"
      using r(5) by auto
    obtain r' dev2 where r2: "read_segments crc (x + ucast ?n) segs dev1 = Some (r', dev2)" "qinv crc dev2 T C FL B"
      "rshell dev2 = rshell dev1" "io_plan dev1 = [] \<longrightarrow> io_plan dev2 = []"
      "r' = Inl EIO \<and> io_plan dev1 \<noteq> [] \<or> r' = Inr (scatter ?D (unat x + length seg) segs) \<and>
        ticks dev2 k \<and> quiet dev2 \<and> answers dev2 m"
      using Cons.IH [OF r(2), of "x + ucast ?n"] Cons.prems(2,6) e(2-4) by (auto simp: ux qf inside_def)
    show ?thesis
      using r(1,3,4) e(1) r2 by auto
  qed
qed

text \<open>What a read request leaves alone: the statistics of reads are updated.\<close>

definition rframe :: "lbd_device \<Rightarrow> lbd_device" where
  "rframe dev = (rshell dev)\<lparr>stat_reads := 0, stat_read_bytes := 0\<rparr>"

lemma rframe_upd: "rframe (dev\<lparr>stat_reads := n, stat_read_bytes := k\<rparr>) = rframe dev"
  by (cases dev) (simp add: rframe_def rshell_def shell_def)

lemma read_spec:
  assumes "abs_img crc dev L"
    and "inside (qcow2 dev) (512 * unat (rq_pos rq) + length (concat (rq_segs rq)))"
    and "\<And>seg. seg \<in> set (rq_segs rq) \<Longrightarrow> length seg < 2 ^ 32"
    and "ticks dev (12 * spans (csz (qcow2 dev)) (512 * unat (rq_pos rq)) (rq_segs rq) + k)"
    and "quiet dev" "answers dev (4 * spans (csz (qcow2 dev)) (512 * unat (rq_pos rq)) (rq_segs rq) + m)"
  shows "\<exists>r dev'. lbd_qcow2_read crc rq dev = Some (r, dev') \<and> abs_img crc dev' L \<and> rframe dev' = rframe dev \<and>
    (io_plan dev = [] \<longrightarrow> io_plan dev' = []) \<and>
    (r = Inl EIO \<and> io_plan dev \<noteq> [] \<or>
     r = Inr (scatter (disk_byte (csz (qcow2 dev)) L) (512 * unat (rq_pos rq)) (rq_segs rq)) \<and>
     ticks dev' k \<and> quiet dev' \<and> answers dev' m)"
proof -
  obtain T C FL B where q: "qinv crc dev T C FL B" and L: "L = (stored_layer (nent (qcow2 dev)) T C, B)"
    using assms(1) by (auto simp: abs_img_def)
  have x: "unat (push_bit SECTOR_SHIFT (rq_pos rq)) = 512 * unat (rq_pos rq)"
    using assms(2) by (simp add: SECTOR_SHIFT_def push_bit_eq_mult inside_def unat_mult_lem [THEN iffD1] mult.commute)
  obtain r dev1 where r: "read_segments crc (push_bit SECTOR_SHIFT (rq_pos rq)) (rq_segs rq) dev = Some (r, dev1)"
    "qinv crc dev1 T C FL B" "rshell dev1 = rshell dev" "io_plan dev = [] \<longrightarrow> io_plan dev1 = []"
    "r = Inl EIO \<and> io_plan dev \<noteq> [] \<or>
     r = Inr (scatter (disk_byte (csz (qcow2 dev)) L) (512 * unat (rq_pos rq)) (rq_segs rq)) \<and>
     ticks dev1 k \<and> quiet dev1 \<and> answers dev1 m"
    using read_segments_spec [OF q, of "push_bit SECTOR_SHIFT (rq_pos rq)" "rq_segs rq" k m] assms(2-) by (auto simp: x L)
  note rf = rshell_fields [OF r(3)] and qf = qshell_fields [OF rshell_fields(2) [OF r(3)]]
  have a1: "abs_img crc dev1 L"
    using r(2) L by (auto simp: abs_img_def qf)
  define dev2 where "dev2 = dev1\<lparr>stat_reads := stat_reads dev1 + 1,
    stat_read_bytes := stat_read_bytes dev1 + ucast (rq_bytes rq)\<rparr>"
  have "qinv crc dev2 T C FL B"
    using r(2) by (auto simp: dev2_def qinv_def intro: base_ok_same)
  then have a2: "abs_img crc dev2 L"
    using L by (auto simp: abs_img_def qf dev2_def)
  have s1: "rframe dev1 = rframe dev"
    using r(3) by (simp add: rframe_def)
  then have s2: "rframe dev2 = rframe dev"
    by (simp add: dev2_def rframe_upd)
  have t: "ticks dev2 j = ticks dev1 j" "quiet dev2 = quiet dev1" "answers dev2 j = answers dev1 j" "io_plan dev2 = io_plan dev1" for j
    by (simp_all add: dev2_def ticks_def quiet_def answers_def)
  show ?thesis
  proof (cases r)
    case (Inl e)
    then show ?thesis
      using r(1,4,5) a1 s1 by (simp add: lbd_qcow2_read_def Let_def)
  next
    case (Inr segs)
    then have "lbd_qcow2_read crc rq dev = Some (Inr segs, dev2)"
      using r(1) by (simp add: lbd_qcow2_read_def Let_def dev2_def)
    then show ?thesis
      using Inr r(4,5) a2 s2 t by simp
  qed
qed


end
