(* ===== verification/Qcow2_Store.thy ===== *)
theory Qcow2_Store
  imports Qcow2_Read
begin

text \<open>
  Storing a cluster: \<open>place_extent\<close> finds room for it without touching anybody else's bytes,
  \<open>store_cluster\<close> writes it compressed or plain so that it can be read back, and
  \<open>commit_cluster\<close> enters it into its L2 table and keeps the invariant of the device.
\<close>

section \<open>Finding room\<close>

lemma space_shrink:
  assumes sp: "space G alloc f FL head" and "R \<subseteq> G (Data c)"
  shows "space (G(Data c := R)) alloc f FL head"
proof (rule space_regions [OF sp _ _ spaceD(8) [OF sp]])
  show "sep (G(Data c := R))"
    using spaceD(1) [OF sp] assms(2) unfolding sep_def by (metis fun_upd_apply in_mono)
  show "(G(Data c := R)) a \<subseteq> {..<alloc}" for a
    using spaceD(2) [OF sp, of a] spaceD(2) [OF sp, of "Data c"] assms(2) by auto
qed simp_all

lemma free_area_free: "free_area (G(Data c := {}, Free p := R)) \<subseteq> free_area G \<union> R"
  by (auto simp: free_area_def split: if_splits)

lemma place_extent_spec:
  assumes plan: "io_plan dev = []"
    and sp: "space G (unat (alloc_offset (qcow2 dev))) (backing_file dev) FL (free_list_head (qcow2 dev))"
    and hd: "read_at (backing_file dev) 48 8 = be64 (free_list_head (qcow2 dev))"
    and old: "G (Data c) = {entry_phys entry..<entry_phys entry + unat old}"
      "0 < unat old \<Longrightarrow> entry_phys entry \<noteq> 0 \<and> 16 \<le> unat old \<and> unat old < 2 ^ 32"
    and tmp: "G Tmp = {}"
    and n: "unat (alloc_offset (qcow2 dev)) + unat needed \<le> 2 ^ 62"
  shows "\<exists>phys dev' G' FL' head' alloc'. place_extent check entry old needed dev = (Inr phys, dev') \<and> phys \<noteq> 0 \<and>
    qcow2 dev' = (qcow2 dev)\<lparr>free_list_head := head', alloc_offset := alloc'\<rparr> \<and> rest dev' = rest dev \<and>
    unat (alloc_offset (qcow2 dev)) \<le> unat alloc' \<and>
    unat alloc' \<le> unat (alloc_offset (qcow2 dev)) + unat needed \<and>
    unch (free_area G \<union> G (Data c)) (backing_file dev) (backing_file dev') \<and>
    read_at (backing_file dev') 48 8 = be64 head' \<and>
    space G' (unat alloc') (backing_file dev') FL' head' \<and> grants G c (unat needed) G' (unat phys)"
proof (cases "old > 0 \<and> needed \<le> old")
  case True
  let ?phys = "entry AND LBD_QCOW2_L2_OFFSET_MASK"
  let ?dev' = "dev\<lparr>stat_alloc_reused := stat_alloc_reused dev + 1\<rparr>"
  let ?G' = "G(Data c := {unat ?phys..<unat ?phys + unat needed})"
  have "?phys \<noteq> 0"
    using old(2) True by (auto simp: entry_phys_def word_less_nat_alt)
  moreover have "{unat ?phys..<unat ?phys + unat needed} \<subseteq> G (Data c)"
    using True by (auto simp: old(1) entry_phys_def word_le_nat_alt)
  note space_shrink [OF sp this]
  moreover have "grants G c (unat needed) ?G' (unat ?phys)"
    by (simp add: grants_def)
  ultimately show ?thesis
    using True hd
    by (intro exI [of _ ?phys] exI [of _ ?dev'] exI [of _ ?G'] exI [of _ FL] exI [of _ "free_list_head (qcow2 dev)"]
        exI [of _ "alloc_offset (qcow2 dev)"]) (simp add: place_extent_def)
next
  case move: False
  show ?thesis
  proof (cases "old > 0")
    case False
    then have "old = 0"
      by (simp add: word_gt_0)
    then have e: "G (Data c) = {}"
      using old(1) by simp
    obtain phys dev' where a: "lbd_qcow2_alloc_space needed dev = (phys, dev')"
      by fastforce
    then have pl: "place_extent check entry old needed dev = (Inr phys, dev')"
      using \<open>old = 0\<close> by (simp add: place_extent_def)
    show ?thesis
      using alloc_space_spec [OF plan sp hd e tmp n] by (simp only: e Un_empty_right a pl prod.inject sum.inject)
  next
    case True
    let ?phys = "entry AND LBD_QCOW2_L2_OFFSET_MASK"
    have o: "entry_phys entry \<noteq> 0" "16 \<le> unat old" "unat old < 2 ^ 32"
      using old(2) True by (auto simp: word_less_nat_alt)
    have reg: "G (Data c) = {unat ?phys..<unat ?phys + unat old}" "?phys \<noteq> 0"
      using old(1) o(1) by (auto simp: entry_phys_def)
    obtain dev1 where d: "lbd_qcow2_free_extent ?phys old dev = (Inr (), dev1)"
      "qcow2 dev1 = (qcow2 dev)\<lparr>free_list_head := ?phys\<rparr>" "rest dev1 = rest dev"
      "unch (G (Data c) \<union> {48..<56}) (backing_file dev) (backing_file dev1)"
      "read_at (backing_file dev1) 48 8 = be64 ?phys"
      "space (G(Data c := {}, Free (unat ?phys) := G (Data c))) (unat (alloc_offset (qcow2 dev))) (backing_file dev1)
        ((unat ?phys, unat old) # FL) ?phys"
      using free_extent_spec [OF plan sp reg(1) _ _ o(2,3) reg(2)] by auto
    let ?G1 = "G(Data c := {}, Free (unat ?phys) := G (Data c))"
    have plan1: "io_plan dev1 = []"
      using plan rest_fields(1) [OF d(3)] by simp
    have sp1: "space ?G1 (unat (alloc_offset (qcow2 dev1))) (backing_file dev1) ((unat ?phys, unat old) # FL)
        (free_list_head (qcow2 dev1))"
      and hd1: "read_at (backing_file dev1) 48 8 = be64 (free_list_head (qcow2 dev1))"
      and own1: "?G1 (Data c) = {}" "?G1 Tmp = {}"
      and n1: "unat (alloc_offset (qcow2 dev1)) + unat needed \<le> 2 ^ 62"
      using d(2,5,6) tmp n by simp_all
    obtain phys dev' G' FL' head' alloc' where a: "lbd_qcow2_alloc_space needed dev1 = (phys, dev')" "phys \<noteq> 0"
      "qcow2 dev' = (qcow2 dev1)\<lparr>free_list_head := head', alloc_offset := alloc'\<rparr>" "rest dev' = rest dev1"
      "unat (alloc_offset (qcow2 dev1)) \<le> unat alloc'"
      "unat alloc' \<le> unat (alloc_offset (qcow2 dev1)) + unat needed"
      "unch (free_area ?G1) (backing_file dev1) (backing_file dev')"
      "read_at (backing_file dev') 48 8 = be64 head'"
      "space G' (unat alloc') (backing_file dev') FL' head'" "grants ?G1 c (unat needed) G' (unat phys)"
      using alloc_space_spec [OF plan1 sp1 hd1 own1 n1] by blast
    have "unch (free_area G \<union> G (Data c)) (backing_file dev) (backing_file dev1)"
      using d(4) by (rule unch_mono) (auto simp: free_area_def)
    moreover have "unch (free_area G \<union> G (Data c)) (backing_file dev1) (backing_file dev')"
      using a(7) free_area_free by (rule unch_mono)
    ultimately have "unch (free_area G \<union> G (Data c)) (backing_file dev) (backing_file dev')"
      by (rule unch_trans)
    moreover have "grants G c (unat needed) G' (unat phys)"
      using a(10) by (auto simp: grants_def)
    moreover have "place_extent check entry old needed dev = (Inr phys, dev')"
      using move True d(1) a(1) by (simp add: place_extent_def)
    moreover have "qcow2 dev' = (qcow2 dev)\<lparr>free_list_head := head', alloc_offset := alloc'\<rparr>"
      using a(3) d(2) by simp
    ultimately show ?thesis
      using a d(2,3) by (intro exI [of _ phys] exI [of _ dev'] exI [of _ G'] exI [of _ FL'] exI [of _ head'] exI [of _ alloc']) simp
  qed
qed

section \<open>Writing the extent\<close>

lemma unat_ALIGN_4096: "unat x + 4095 < 2 ^ 64 \<Longrightarrow> unat (ALIGN_4096 x) = align4096 (unat x)"
proof -
  assume a: "unat x + 4095 < 2 ^ 64"
  have "(4095 :: u64) = mask 12"
    by (simp add: mask_eq_exp_minus_1)
  then have "ALIGN_4096 x = push_bit 12 (drop_bit 12 (x + 4095))"
    by (simp add: ALIGN_4096_def bit_eq_iff bit_simps) auto
  moreover have u: "unat (x + 4095) = unat x + 4095"
    using a by (simp add: unat_plus_u64)
  moreover have "unat (drop_bit 12 (x + 4095)) = (unat x + 4095) div 4096"
    unfolding unat_drop_bit_eq u by (simp add: drop_bit_eq_div)
  moreover have "(unat x + 4095) div 4096 * 4096 < 2 ^ 64"
    using a by (intro order.strict_trans1 [OF div_times_less_eq_dividend]) simp
  ultimately show ?thesis
    by (simp add: align4096_def push_bit_eq_mult unat_mult_lem [THEN iffD1] mult.commute)
qed

lemma mask62: "LBD_QCOW2_L2_OFFSET_MASK = mask 62"
  by (simp add: LBD_QCOW2_L2_OFFSET_MASK_def mask_eq_exp_minus_1)

lemma take_bit_62: "unat phys < 2 ^ 62 \<Longrightarrow> take_bit 62 phys = phys" for phys :: u64
  unfolding word_unat_eq_iff unat_take_bit by (rule mod_less)

lemma bit_COMPRESSED: "bit LBD_QCOW2_L2_COMPRESSED n \<longleftrightarrow> n = 63"
  unfolding LBD_QCOW2_L2_COMPRESSED_def bit_push_bit_iff bit_1_iff by auto

lemma entry_plain:
  assumes "unat phys < 2 ^ 62"
  shows "entry_phys phys = unat phys" "\<not> entry_compressed phys"
proof -
  have t: "take_bit 62 phys = phys"
    using assms by (rule take_bit_62)
  then show "entry_phys phys = unat phys"
    by (simp add: entry_phys_def mask62 flip: take_bit_eq_mask)
  have "\<not> bit phys 63"
    using arg_cong [OF t, of "\<lambda>w. bit w 63"] by (simp add: bit_take_bit_iff)
  then show "\<not> entry_compressed phys"
    by (auto simp: entry_compressed_def bit_and_iff bit_COMPRESSED intro!: bit_eqI)
qed

lemma entry_comp:
  assumes "unat phys < 2 ^ 62"
  shows "entry_phys (LBD_QCOW2_L2_COMPRESSED OR phys) = unat phys" "entry_compressed (LBD_QCOW2_L2_COMPRESSED OR phys)"
    "LBD_QCOW2_L2_COMPRESSED OR phys \<noteq> 0"
proof -
  have t: "take_bit 62 phys = phys"
    using assms by (rule take_bit_62)
  have "take_bit 62 LBD_QCOW2_L2_COMPRESSED = 0"
    by (auto simp: bit_take_bit_iff bit_COMPRESSED intro!: bit_eqI)
  then have "take_bit 62 (LBD_QCOW2_L2_COMPRESSED OR phys) = phys"
    using t by (simp add: take_bit_or)
  then show "entry_phys (LBD_QCOW2_L2_COMPRESSED OR phys) = unat phys"
    by (simp add: entry_phys_def mask62 flip: take_bit_eq_mask)
  have b: "bit (LBD_QCOW2_L2_COMPRESSED OR phys) 63" "bit ((LBD_QCOW2_L2_COMPRESSED OR phys) AND LBD_QCOW2_L2_COMPRESSED) 63"
    by (simp_all add: bit_COMPRESSED bit_and_iff bit_or_iff)
  then show "entry_compressed (LBD_QCOW2_L2_COMPRESSED OR phys)" "LBD_QCOW2_L2_COMPRESSED OR phys \<noteq> 0"
    unfolding entry_compressed_def by (metis bit_0_eq bot_apply bot_bool_def)+
qed

text \<open>
  The result of storing \<open>data\<close> for cluster \<open>c\<close>: an extent of its own that holds the data, and
  nothing else changed but the old extent and free space.
\<close>

definition stores ::
  "(owner \<Rightarrow> nat set) \<Rightarrow> nat \<Rightarrow> nat \<Rightarrow> bytes \<Rightarrow> lbd_device \<Rightarrow> u64 \<Rightarrow> lbd_device \<Rightarrow> (owner \<Rightarrow> nat set) \<Rightarrow>
     (nat \<times> nat) list \<Rightarrow> bool" where
  "stores G c cs data dev entry dev' G' FL' \<longleftrightarrow>
     entry \<noteq> 0 \<and> rest dev' = rest dev \<and>
     qcow2 dev' = (qcow2 dev)\<lparr>free_list_head := free_list_head (qcow2 dev'), alloc_offset := alloc_offset (qcow2 dev')\<rparr> \<and>
     unat (alloc_offset (qcow2 dev)) \<le> unat (alloc_offset (qcow2 dev')) \<and>
     unat (alloc_offset (qcow2 dev')) \<le> unat (alloc_offset (qcow2 dev)) + cs \<and>
     unch (free_area G \<union> G (Data c) \<union> G' (Data c)) (backing_file dev) (backing_file dev') \<and>
     read_at (backing_file dev') 48 8 = be64 (free_list_head (qcow2 dev')) \<and>
     space G' (unat (alloc_offset (qcow2 dev'))) (backing_file dev') FL' (free_list_head (qcow2 dev')) \<and>
     grants G c (ext_len cs (backing_file dev') entry) G' (entry_phys entry) \<and>
     stored cs (backing_file dev') entry data"

lemma free_hdr_disjoint:
  assumes "space G' alloc f FL head"
  shows "{48..<56} \<inter> G' (Data c) = {}" "G' (Free p) \<inter> G' (Data c) = {}"
  using spaceD(1,3) [OF assms] sep_disj [of G' Hdr "Data c"] sep_disj [of G' "Free p" "Data c"] by blast+

lemma place_write:
  assumes plan: "io_plan dev = []"
    and sp: "space G (unat (alloc_offset (qcow2 dev))) (backing_file dev) FL (free_list_head (qcow2 dev))"
    and hd: "read_at (backing_file dev) 48 8 = be64 (free_list_head (qcow2 dev))"
    and old: "G (Data c) = {entry_phys entry..<entry_phys entry + unat old}"
      "0 < unat old \<Longrightarrow> entry_phys entry \<noteq> 0 \<and> 16 \<le> unat old \<and> unat old < 2 ^ 32"
    and tmp: "G Tmp = {}"
    and n: "unat (alloc_offset (qcow2 dev)) + unat needed \<le> 2 ^ 62" "0 < unat needed" "unat needed \<le> cs"
  shows "\<exists>phys dev' G' FL'. place_extent check entry old needed dev = (Inr phys, dev') \<and> phys \<noteq> 0 \<and>
    io_plan dev' = [] \<and> unat phys < 2 ^ 62 \<and> unat phys + unat needed \<le> 2 ^ 62 \<and>
    (\<forall>f' dev'' entry' data. rest dev'' = rest dev' \<longrightarrow> qcow2 dev'' = qcow2 dev' \<longrightarrow> backing_file dev'' = f' \<longrightarrow>
       unch {unat phys..<unat phys + unat needed} (backing_file dev') f' \<longrightarrow> entry' \<noteq> 0 \<longrightarrow>
       entry_phys entry' = unat phys \<longrightarrow> ext_len cs f' entry' = unat needed \<longrightarrow> stored cs f' entry' data \<longrightarrow>
       stores G c cs data dev entry' dev'' G' FL')"
proof -
  obtain phys dev' G' FL' head' alloc' where pe: "place_extent check entry old needed dev = (Inr phys, dev')" "phys \<noteq> 0"
    "qcow2 dev' = (qcow2 dev)\<lparr>free_list_head := head', alloc_offset := alloc'\<rparr>" "rest dev' = rest dev"
    "unat (alloc_offset (qcow2 dev)) \<le> unat alloc'"
    "unat alloc' \<le> unat (alloc_offset (qcow2 dev)) + unat needed"
    "unch (free_area G \<union> G (Data c)) (backing_file dev) (backing_file dev')"
    "read_at (backing_file dev') 48 8 = be64 head'"
    "space G' (unat alloc') (backing_file dev') FL' head'" "grants G c (unat needed) G' (unat phys)"
    using place_extent_spec [OF plan sp hd old tmp n(1), of check] by blast
  have reg: "G' (Data c) = {unat phys..<unat phys + unat needed}"
    using pe(10) by (simp add: grants_def)
  have "unat phys + unat needed - 1 \<in> G' (Data c)"
    using n(2) by (simp add: reg)
  then have "unat phys + unat needed - 1 < unat alloc'"
    using spaceD(2) [OF pe(9), of "Data c"] by auto
  then have le: "unat phys + unat needed \<le> 2 ^ 62"
    using spaceD(8) [OF pe(9)] n(2) by simp
  have "stores G c cs data dev entry' dev'' G' FL'"
    if d: "rest dev'' = rest dev'" "qcow2 dev'' = qcow2 dev'" and u: "unch (G' (Data c)) (backing_file dev') (backing_file dev'')"
      and e: "entry' \<noteq> 0" "entry_phys entry' = unat phys" "ext_len cs (backing_file dev'') entry' = unat needed"
      "stored cs (backing_file dev'') entry' data" for dev'' entry' data
  proof -
    have "space G' (unat alloc') (backing_file dev'') FL' head'"
      using space_frame [OF pe(9) u] free_hdr_disjoint(2) [OF pe(9)] by blast
    moreover have "read_at (backing_file dev'') 48 8 = be64 head'"
      using unch_read [OF u] pe(8) spaceD(9) [OF pe(9)] free_hdr_disjoint(1) [OF pe(9)] by simp
    moreover have "unch (free_area G \<union> G (Data c) \<union> G' (Data c)) (backing_file dev) (backing_file dev')"
      using pe(7) by (rule unch_mono) blast
    then have "unch (free_area G \<union> G (Data c) \<union> G' (Data c)) (backing_file dev) (backing_file dev'')"
      using unch_mono [OF u] by (rule unch_trans) blast
    ultimately show ?thesis
      using d e pe(3,4,5,6,10) n(3) by (simp add: stores_def)
  qed
  then show ?thesis
    using pe(1,2,4) le n(2) plan rest_fields(1) [OF pe(4)] unfolding reg
    by (intro exI [of _ phys] exI [of _ dev'] exI [of _ G'] exI [of _ FL']) auto
qed

lemma store_cluster_spec:
  assumes g: "geom (qcow2 dev)" and data: "length data = csz (qcow2 dev)" and plan: "io_plan dev = []"
    and sp: "space G (unat (alloc_offset (qcow2 dev))) (backing_file dev) FL (free_list_head (qcow2 dev))"
    and hd: "read_at (backing_file dev) 48 8 = be64 (free_list_head (qcow2 dev))"
    and old: "G (Data c) = {entry_phys entry0..<entry_phys entry0 + unat old}"
      "0 < unat old \<Longrightarrow> entry_phys entry0 \<noteq> 0 \<and> 16 \<le> unat old \<and> unat old < 2 ^ 32"
    and tmp: "G Tmp = {}" and room: "unat (alloc_offset (qcow2 dev)) + csz (qcow2 dev) \<le> 2 ^ 62"
  shows "\<exists>entry dev' G' FL'. store_cluster check data entry0 old dev = (Inr entry, dev') \<and>
    stores G c (csz (qcow2 dev)) data dev entry dev' G' FL'"
proof -
  let ?cs = "csz (qcow2 dev)" and ?cb = "LZ4_compress_fast_extState data"
  let ?m = "length (LZ4_compress_fast_extState data)"
  have cs: "4096 \<le> ?cs" "?cs \<le> 16777216" "?cs mod 4096 = 0"
    using csz_ge [OF g] csz_le [OF g] csz_mod [OF g] by auto
  have mx: "length data \<le> LZ4_MAX_INPUT_SIZE" "LZ4_compressBound (length data) < 4294967296" "data \<noteq> []"
    using cs data compressBound_lt [of ?cs] by (auto simp: LZ4_MAX_INPUT_SIZE_def)
  have m32: "?m < 4294967296"
    using lz4c.fits [OF mx(1)] mx(2) by simp
  have um: "unat (of_nat ?m :: u32) = ?m" "unat (of_nat ?m :: u64) = ?m"
    using m32 by (simp_all add: unat_of_nat_u32 unat_of_nat_u64)
  have "(4 :: u32) \<le> cluster_size (qcow2 dev)"
    using cs(1) by (simp add: word_le_nat_alt)
  then have cs4: "unat (cluster_size (qcow2 dev) - 4) = ?cs - 4"
    by (simp add: unat_sub)
  show ?thesis
  proof (cases "?m > 0 \<and> (of_nat ?m :: u32) < cluster_size (qcow2 dev) - 4")
    case True
    then have m: "0 < ?m" "?m < ?cs - 4"
      using um cs4 by (simp_all add: word_less_nat_alt)
    let ?need = "ALIGN_4096 (4 + of_nat ?m)"
    have u4: "unat (4 + of_nat ?m :: u64) = 4 + ?m"
      using m32 um unat_plus_u64 [of 4 "of_nat ?m"] by simp
    have need: "unat ?need = align4096 (4 + ?m)" "0 < unat ?need" "unat ?need \<le> ?cs"
      using unat_ALIGN_4096 [of "4 + of_nat ?m"] m32 u4 le_align4096 [of "4 + ?m"] align4096_le [of "4 + ?m" ?cs] m cs(3)
      by simp_all
    have room': "unat (alloc_offset (qcow2 dev)) + unat ?need \<le> 2 ^ 62"
      using room need(3) by simp
    obtain phys dev1 G' FL' where pw: "place_extent check entry0 old ?need dev = (Inr phys, dev1)" "phys \<noteq> 0"
      "io_plan dev1 = []" "unat phys < 2 ^ 62" "unat phys + unat ?need \<le> 2 ^ 62"
      "\<And>dev'' entry'. rest dev'' = rest dev1 \<Longrightarrow> qcow2 dev'' = qcow2 dev1 \<Longrightarrow>
         unch {unat phys..<unat phys + unat ?need} (backing_file dev1) (backing_file dev'') \<Longrightarrow> entry' \<noteq> 0 \<Longrightarrow>
         entry_phys entry' = unat phys \<Longrightarrow> ext_len ?cs (backing_file dev'') entry' = unat ?need \<Longrightarrow>
         stored ?cs (backing_file dev'') entry' data \<Longrightarrow> stores G c ?cs data dev entry' dev'' G' FL'"
      using place_write [OF plan sp hd old tmp room' need(2,3), of check] by metis
    let ?e = "LBD_QCOW2_L2_COMPRESSED OR phys"
    note ep = entry_comp [OF pw(4)]
    define f1 where "f1 = write_at (backing_file dev1) (unat phys) (be32 (of_nat ?m))"
    define f2 where "f2 = write_at f1 (unat phys + 4) ?cb"
    note fr = lz4c.framed [OF mx(1,2) f2_def [unfolded f1_def]]
    have le: "4 + ?m \<le> unat ?need"
      using need(1) le_align4096 [of "4 + ?m"] by simp
    have p4: "unat (phys + 4) = unat phys + 4"
      using pw(4) unat_plus_u64 [of phys 4] by simp
    have w1: "write_full (be32 (of_nat ?m)) phys dev1 = (Inr (), dev1\<lparr>backing_file := f1\<rparr>)"
      using pw(3,4) by (simp add: write_full_Nil f1_def)
    have w2: "write_full ?cb (phys + 4) (dev1\<lparr>backing_file := f1\<rparr>) = (Inr (), dev1\<lparr>backing_file := f2\<rparr>)"
      using pw(3,4) p4 m32 by (simp add: write_full_Nil f2_def)
    let ?dev2 = "dev1\<lparr>backing_file := f2, stat_compressed := stat_compressed dev1 + 1\<rparr>"
    have "unch {unat phys..<unat phys + unat ?need} (backing_file dev1) f1"
      unfolding f1_def using le by (intro unch_write) auto
    moreover have "unch {unat phys..<unat phys + unat ?need} f1 f2"
      unfolding f2_def using le by (intro unch_write) auto
    ultimately have u: "unch {unat phys..<unat phys + unat ?need} (backing_file dev1) f2"
      by (rule unch_trans)
    have "ext_len ?cs f2 ?e = unat ?need"
      using ep need(1) fr(1) by (simp add: ext_len_def)
    moreover have "stored ?cs f2 ?e data"
      using ep data pw(4) fr lz4c.fits [OF mx(1)] lz4c.exact [OF mx(3,1)]
      by (simp add: stored_def Let_def)
    ultimately have "stores G c ?cs data dev ?e ?dev2 G' FL'"
      using u ep by (intro pw(6)) simp_all
    moreover have "store_cluster check data entry0 old dev = (Inr ?e, ?dev2)"
      using True pw(1) w1 w2 by (simp add: store_cluster_def Let_def)
    ultimately show ?thesis
      by blast
  next
    case False
    let ?need = "ucast (cluster_size (qcow2 dev)) :: u64"
    have need: "unat ?need = ?cs" "0 < unat ?need" "unat ?need \<le> ?cs"
      using cs by simp_all
    have room': "unat (alloc_offset (qcow2 dev)) + unat ?need \<le> 2 ^ 62"
      using room need(3) by simp
    obtain phys dev1 G' FL' where pw: "place_extent check entry0 old ?need dev = (Inr phys, dev1)" "phys \<noteq> 0"
      "io_plan dev1 = []" "unat phys < 2 ^ 62"
      "\<And>dev'' entry'. rest dev'' = rest dev1 \<Longrightarrow> qcow2 dev'' = qcow2 dev1 \<Longrightarrow>
         unch {unat phys..<unat phys + unat ?need} (backing_file dev1) (backing_file dev'') \<Longrightarrow> entry' \<noteq> 0 \<Longrightarrow>
         entry_phys entry' = unat phys \<Longrightarrow> ext_len ?cs (backing_file dev'') entry' = unat ?need \<Longrightarrow>
         stored ?cs (backing_file dev'') entry' data \<Longrightarrow> stores G c ?cs data dev entry' dev'' G' FL'"
      using place_write [OF plan sp hd old tmp room' need(2,3), of check] by metis
    note ep = entry_plain [OF pw(4)]
    define f1 where "f1 = write_at (backing_file dev1) (unat phys) data"
    have w1: "write_full data phys dev1 = (Inr (), dev1\<lparr>backing_file := f1\<rparr>)"
      using pw(3,4) data cs(2) by (simp add: write_full_Nil f1_def)
    let ?dev2 = "dev1\<lparr>backing_file := f1, stat_uncompressed := stat_uncompressed dev1 + 1\<rparr>"
    have "stored ?cs f1 phys data"
      using ep data pw(4) mx(3) read_write_same [of "backing_file dev1" "unat phys" data]
      by (simp add: stored_def f1_def length_write_at)
    moreover have "unch {unat phys..<unat phys + unat ?need} (backing_file dev1) f1"
      unfolding f1_def using data need(1) by (intro unch_write) simp
    ultimately have "stores G c ?cs data dev phys ?dev2 G' FL'"
      using ep pw(2) need(1) by (intro pw(5)) (simp_all add: ext_len_def)
    moreover have "store_cluster check data entry0 old dev = (Inr phys, ?dev2)"
      unfolding store_cluster_def Let_def if_not_P [OF False] using pw(1) w1 by simp
    ultimately show ?thesis
      by blast
  qed
qed

section \<open>Updating one entry\<close>

text \<open>
  The bytes that an update of cluster \<open>c\<close> in table \<open>i\<close> must not touch: the fixed part of the
  header, the L1 table, the other tables and the extents of the other clusters.
\<close>

definition others :: "(owner \<Rightarrow> nat set) \<Rightarrow> nat \<Rightarrow> nat \<Rightarrow> nat set" where
  "others G i c = {0..<36} \<union> G L1 \<union> (\<Union>k \<in> - {i}. G (L2 k)) \<union> (\<Union>d \<in> - {c}. G (Data d))"

lemma others_disjoint:
  assumes "sep G" "G Hdr = {0..<4096}"
  shows "G (Free p) \<subseteq> - others G i c" "G (L2 i) \<subseteq> - others G i c" "G (Data c) \<subseteq> - others G i c"
    "{36..<4096} \<subseteq> - others G i c"
proof -
  have d: "x \<in> G a \<Longrightarrow> x \<in> G b \<Longrightarrow> a = b" for x a b
    using assms(1) unfolding sep_def by blast
  have h: "x \<in> {0..<36} \<Longrightarrow> x \<in> G Hdr" for x
    using assms(2) by simp
  show "G (Free p) \<subseteq> - others G i c" "G (L2 i) \<subseteq> - others G i c" "G (Data c) \<subseteq> - others G i c"
    using d h unfolding others_def by blast+
  have "x \<in> {36..<4096} \<Longrightarrow> x \<in> G Hdr \<and> x \<notin> {0..<36}" for x
    using assms(2) by simp
  then show "{36..<4096} \<subseteq> - others G i c"
    using d unfolding others_def by blast
qed

lemma others_cong:
  assumes "\<And>a. a \<noteq> Data c \<Longrightarrow> (\<And>x. a \<noteq> Free x) \<Longrightarrow> G' a = G a"
  shows "others G' i c = others G i c"
  using assms unfolding others_def by simp

lemma free_area_others:
  assumes "sep G" "G Hdr = {0..<4096}"
  shows "free_area G \<subseteq> - others G i c"
proof -
  have "{48..<56} \<subseteq> {36..<4096 :: nat}"
    by auto
  then have "{48..<56} \<subseteq> - others G i c"
    using others_disjoint(4) [OF assms] by blast
  then show ?thesis
    unfolding free_area_def using others_disjoint(1) [OF assms] by (intro Un_least UN_least)
qed

lemma lay_free:
  assumes "space G alloc f FL head"
  shows "G (Free p) = (case map_of FL p of Some s \<Rightarrow> {p..<p + s} | None \<Rightarrow> {})"
proof (cases "map_of FL p")
  case None
  then have "p \<notin> fst ` set FL"
    by (simp add: map_of_eq_None_iff)
  then show ?thesis
    using spaceD(6) [OF assms, of p] None by simp
next
  case (Some s)
  then show ?thesis
    using spaceD(5) [OF assms map_of_SomeD] by simp
qed

lemma ent_upd:
  assumes "length (T (c div n)) = n" "0 < n"
  shows "ent n (T(c div n := (T (c div n))[c mod n := entry])) d = (if d = c then entry else ent n T d)"
proof (cases "d = c")
  case True
  then show ?thesis
    using assms by (simp add: ent_def)
next
  case False
  then have "d div n \<noteq> c div n \<or> d mod n \<noteq> c mod n"
    by (metis div_mult_mod_eq)
  then show ?thesis
    using False by (auto simp: ent_def)
qed

lemma dinv_update:
  assumes di: "dinv crc q f T C FL"
    and q': "q' = q\<lparr>free_list_head := head', alloc_offset := alloc'\<rparr>"
    and i: "i = c div nent q" "i < unat (l1_size q)" "l1_table q ! i \<noteq> 0"
    and u: "unch (- others (lay q f T FL) i c) f f'"
    and sp: "space G' (unat alloc') f' FL' head'" and hd: "read_at f' 48 8 = be64 head'"
    and gr: "grants (lay q f T FL) c n G' (entry_phys entry)"
    and l2: "l2_ok crc (csz q) (nent q) f' (unat (l1_table q ! i)) ((T i)[c mod nent q := entry])"
    and e: "ext_len (csz q) f' entry = n" "entry \<noteq> 0 \<Longrightarrow> stored (csz q) f' entry data"
  shows "dinv crc q' f' (T(i := (T i)[c mod nent q := entry])) (C(c := data)) FL'"
proof -
  let ?T = "T(i := (T i)[c mod nent q := entry])" and ?G = "lay q f T FL"
  have g: "geom q" and sp0: "space ?G (unat (alloc_offset q)) f FL (free_list_head q)"
    and hdr: "hdr_ok q f" and l1: "l1_disk q f" and l2d: "l2disk crc (csz q) (nent q) (l1_table q) (unat (l1_size q)) f T"
    and st: "\<And>c. ent (nent q) T c \<noteq> 0 \<Longrightarrow> stored (csz q) f (ent (nent q) T c) (C c)"
    using di by (simp_all add: dinv_def)
  have n0: "0 < nent q"
    using nent_pos [OF g] .
  have lenT: "length (T k) = nent q" for k
    using l2d by (simp add: l2disk_def)
  have en: "ent (nent q) ?T d = (if d = c then entry else ent (nent q) T d)" for d
    unfolding i(1) by (rule ent_upd [OF lenT n0])
  have W: "{0..<36} \<inter> - others ?G i c = {}" "?G L1 \<inter> - others ?G i c = {}"
    "k \<noteq> i \<Longrightarrow> ?G (L2 k) \<inter> - others ?G i c = {}" "d \<noteq> c \<Longrightarrow> ?G (Data d) \<inter> - others ?G i c = {}" for k d
    unfolding others_def by blast+
  have fr: "stored (csz q) f' (ent (nent q) T d) (C d) \<and> ext_len (csz q) f' (ent (nent q) T d) = ext_len (csz q) f (ent (nent q) T d)"
    if "d \<noteq> c" "ent (nent q) T d \<noteq> 0" for d
    using stored_frame [OF st [OF that(2)] u that(2)] W(4) [OF that(1)] by simp
  have lay: "lay q' f' ?T FL' a = G' a" for a
  proof (cases a)
    case (Data d)
    show ?thesis
    proof (cases "d = c")
      case True
      then show ?thesis
        using Data gr e(1) q' en by (simp add: grants_def)
    next
      case False
      then have "G' (Data d) = ?G (Data d)"
        using gr by (simp add: grants_def)
      then show ?thesis
        using Data False fr [of d] q' en by (cases "ent (nent q) T d = 0") (simp_all add: ext_len_def)
    qed
  next
    case (Free p)
    then show ?thesis
      using lay_free [OF sp, of p] by simp
  qed (use gr q' in \<open>simp_all add: grants_def\<close>)
  then have lay': "lay q' f' ?T FL' = G'"
    by blast
  have "read_at f' 0 36 = read_at f 0 36"
    using hdr W(1) by (intro unch_read [OF u]) (simp_all add: hdr_ok_def)
  then have "hdr_ok q' f'"
    using hdr unch_length [OF u] by (simp add: hdr_ok_def q')
  moreover have "l1_disk q' f'"
  proof -
    have len: "unat (l1_offset q) + 8 * unat (l1_size q) \<le> length f"
      using l1 by (simp add: l1_disk_def)
    have "read_at f' (unat (l1_offset q) + 8 * k) 8 = read_at f (unat (l1_offset q) + 8 * k) 8" if "k < unat (l1_size q)" for k
      using that len by (intro unch_read [OF u] disj_sub [OF W(2) [unfolded lay.simps]]) auto
    then show ?thesis
      using l1 unch_length [OF u] by (auto simp: l1_disk_def q')
  qed
  moreover have "l2disk crc (csz q) (nent q) (l1_table q) (unat (l1_size q)) f' ?T"
    unfolding l2disk_def
  proof (intro allI conjI)
    fix k
    show "length (?T k) = nent q"
      using lenT by simp
    have old: "if k < unat (l1_size q) \<and> l1_table q ! k \<noteq> 0
        then l2_ok crc (csz q) (nent q) f (unat (l1_table q ! k)) (T k) \<and> unat (l1_table q ! k) + csz q < 2 ^ 63
        else T k = replicate (nent q) 0"
      using l2d unfolding l2disk_def by blast
    show "if k < unat (l1_size q) \<and> l1_table q ! k \<noteq> 0
        then l2_ok crc (csz q) (nent q) f' (unat (l1_table q ! k)) (?T k) \<and> unat (l1_table q ! k) + csz q < 2 ^ 63
        else ?T k = replicate (nent q) 0"
    proof (cases "k = i")
      case True
      then show ?thesis
        using old i l2 by simp
    next
      case False
      then show ?thesis
        using old l2_ok_frame [OF _ u, of crc "csz q" "nent q" "unat (l1_table q ! k)" "T k"] W(3) [OF False] by auto
    qed
  qed
  moreover have "stored (csz q) f' (ent (nent q) ?T d) ((C(c := data)) d)" if "ent (nent q) ?T d \<noteq> 0" for d
    using that fr [of d] e(2) by (cases "d = c") (simp_all add: en)
  moreover have "geom q'"
    using g by (simp add: geom_def q')
  moreover have "space (lay q' f' ?T FL') (unat (alloc_offset q')) f' FL' (free_list_head q')"
    unfolding lay' using sp by (simp add: q')
  ultimately show ?thesis
    unfolding dinv_def using hd by (simp add: q')
qed

section \<open>The caches after an update\<close>

lemma l2coh_set:
  assumes c: "l2coh cs n T tick es" and k: "k < 16" "l2_valid (es ! k)" "l2_l1_index (es ! k) = i" and j: "j < n"
  shows "l2coh cs n (T(unat i := (T (unat i))[j := x])) tick
    (es[k := (es ! k)\<lparr>l2_table := (l2_table (es ! k))[j := x], l2_dirty := False\<rparr>])"
proof -
  let ?e = "(es ! k)\<lparr>l2_table := (l2_table (es ! k))[j := x], l2_dirty := False\<rparr>"
  let ?R = "\<lambda>T i (d, tab). \<not> d \<and> take n tab = (T :: nat \<Rightarrow> u64 list) (unat (i :: u32))"
  have co: "coherent l2_valid l2_l1_index l2_lru (\<lambda>e. (l2_dirty e, l2_table e)) (?R T) tick es"
    and len: "length es = 16" and tl: "\<forall>e \<in> set es. length (l2_table e) = cs div 8"
    using c by (simp_all add: l2coh_def)
  have "coherent l2_valid l2_l1_index l2_lru (\<lambda>e. (l2_dirty e, l2_table e))
      (?R (T(unat i := (T (unat i))[j := x]))) tick (es[k := ?e])"
  proof (rule l2c.coherent_write [OF co])
    show "l2_lru ?e < tick"
      using l2c.coherentD(2) [OF co] k len by simp
    show "?R (T(unat i := (T (unat i))[j := x])) (l2_l1_index ?e) (l2_dirty ?e, l2_table ?e)"
      using l2coh_entry(2) [OF c k(1,2)] k(3) j by (simp add: take_update_swap)
  qed (use k len in \<open>auto simp: word_unat_eq_iff\<close>)
  moreover have "\<forall>e \<in> set (es[k := ?e]). length (l2_table e) = cs div 8"
    using tl k(1) len set_update_subset_insert [of es k ?e] by auto
  ultimately show ?thesis
    using len by (simp add: l2coh_def)
qed

lemma clcoh_set:
  assumes c: "clcoh cs V tick es" and i: "i < 16" "cl_valid (es ! i)" "cl_cluster_index (es ! i) = c"
    and len: "length data = cs"
  shows "clcoh cs (V(unat c := data)) tick (es[i := (es ! i)\<lparr>cl_data := data\<rparr>])"
proof -
  let ?e = "(es ! i)\<lparr>cl_data := data\<rparr>"
  have co: "coherent cl_valid cl_cluster_index cl_lru cl_data (\<lambda>c bs. bs = V (unat c)) tick es"
    and l: "length es = 16" and dl: "\<forall>e \<in> set es. length (cl_data e) = cs"
    using c by (simp_all add: clcoh_def)
  have "coherent cl_valid cl_cluster_index cl_lru cl_data (\<lambda>d bs. bs = (V(unat c := data)) (unat d)) tick (es[i := ?e])"
    by (rule clc.coherent_write [OF co])
      (use i l clc.coherentD(2) [OF co] in \<open>auto simp: word_unat_eq_iff\<close>)
  moreover have "\<forall>e \<in> set (es[i := ?e]). length (cl_data e) = cs"
    using dl len set_update_subset_insert [of es i ?e] by auto
  ultimately show ?thesis
    using l by (simp add: clcoh_def)
qed

lemma view_upd:
  assumes "length (T (c div n)) = n" "0 < n" "entry \<noteq> 0"
  shows "view cs n (T(c div n := (T (c div n))[c mod n := entry])) (C(c := data)) B = (view cs n T C B)(c := data)"
    "stored_layer n (T(c div n := (T (c div n))[c mod n := entry])) (C(c := data)) = (stored_layer n T C)(c \<mapsto> data)"
  using assms(3) by (auto simp: view_def stored_layer_def ent_upd [of T c n, OF assms(1,2)] fun_eq_iff)

lemma read_old_spec:
  assumes plan: "io_plan dev = []" and cs: "csz (qcow2 dev) \<le> 16777216"
    and st: "entry \<noteq> 0 \<Longrightarrow> stored (csz (qcow2 dev)) (backing_file dev) entry content"
  shows "\<exists>old. lbd_qcow2_read_old_alloc_size entry dev = (old, dev) \<and>
    unat old = ext_len (csz (qcow2 dev)) (backing_file dev) entry"
proof (cases "entry = 0 \<or> \<not> entry_compressed entry")
  case True
  then show ?thesis
    by (auto simp: lbd_qcow2_read_old_alloc_size_def ext_len_def entry_compressed_def)
next
  case False
  let ?phys = "entry AND LBD_QCOW2_L2_OFFSET_MASK" and ?f = "backing_file dev"
  let ?m = "of_be32 (read_at (backing_file dev) (entry_phys entry) 4)"
  have s: "entry_phys entry < 2 ^ 62" "entry_phys entry + 4 + unat ?m \<le> length ?f" "unat ?m \<le> LZ4_compressBound (csz (qcow2 dev))"
    using st False by (auto simp: stored_def Let_def)
  have "read_full ?f 4 ?phys dev = (Inr (read_at ?f (entry_phys entry) 4), dev)"
    using plan s by (simp add: read_full_Nil entry_phys_def)
  then have r: "lbd_qcow2_read_old_alloc_size entry dev = (ALIGN_4096 (4 + ucast ?m), dev)"
    using False by (simp add: lbd_qcow2_read_old_alloc_size_def entry_compressed_def Let_def)
  have "unat (4 + ucast ?m :: u64) = 4 + unat ?m"
    using unat_u32_lt [of ?m] by (simp add: unat_plus_u64)
  then have "unat (ALIGN_4096 (4 + ucast ?m)) = align4096 (4 + unat ?m)"
    using unat_ALIGN_4096 [of "4 + ucast ?m"] unat_u32_lt [of ?m] by simp
  then show ?thesis
    using r False by (simp add: ext_len_def)
qed

lemma ext_len_bounds:
  assumes "entry \<noteq> 0" "stored cs f entry content" "4096 \<le> cs" "cs \<le> 16777216"
  shows "4096 \<le> ext_len cs f entry" "ext_len cs f entry < 4294967296"
proof -
  let ?m = "unat (of_be32 (read_at f (entry_phys entry) 4))"
  have "align4096 (4 + ?m) \<le> 4294963200" if "entry_compressed entry"
  proof (rule align4096_le)
    have "?m \<le> LZ4_compressBound cs"
      using that assms(2) by (auto simp: stored_def Let_def)
    also have "\<dots> \<le> 20000000"
      using assms(4) div_le_mono [OF assms(4), of 255] by (simp add: LZ4_compressBound_def)
    finally show "4 + ?m \<le> 4294963200"
      by simp
  qed simp
  then show "4096 \<le> ext_len cs f entry" "ext_len cs f entry < 4294967296"
    using assms align4096_ge [of "4 + ?m"] by (auto simp: ext_len_def)
qed

end
