(* ===== verification/Qcow2_Commit.thy ===== *)
theory Qcow2_Commit
  imports Qcow2_Store
begin

text \<open>
  Committing a changed cluster: \<open>commit_cluster\<close> stores the data, enters the extent into the L2
  table, and writes the table and the allocation cursor. Afterwards the device refines the
  store with that one cluster replaced, and the image on disk is complete (\<open>synced\<close>).
\<close>

section \<open>What the operations keep\<close>

text \<open>The geometry of the image, which never changes while it is attached.\<close>

definition geo :: "lbd_qcow2 \<Rightarrow> u32 \<times> u32 \<times> u32 \<times> u64 \<times> u32 \<times> u64" where
  "geo q = (cluster_bits q, cluster_size q, l2_entries q, virtual_size q, l1_size q, l1_offset q)"

text \<open>The device state outside the image, the base layer and the statistics.\<close>

definition frame :: "lbd_device \<Rightarrow> lbd_device" where
  "frame dev = rest (dev\<lparr>base := None\<rparr>)"

definition evolves :: "lbd_device \<Rightarrow> lbd_device \<Rightarrow> bool" where
  "evolves dev dev' \<longleftrightarrow> frame dev' = frame dev \<and> geo (qcow2 dev') = geo (qcow2 dev)"

lemma evolves_refl [simp]: "evolves dev dev"
  by (simp add: evolves_def)

lemma evolves_trans: "evolves dev dev' \<Longrightarrow> evolves dev' dev'' \<Longrightarrow> evolves dev dev''"
  by (simp add: evolves_def)

lemma rest_frame: "rest dev' = rest dev \<Longrightarrow> frame dev' = frame dev"
proof -
  assume "rest dev' = rest dev"
  then have "(rest dev')\<lparr>base := None\<rparr> = (rest dev)\<lparr>base := None\<rparr>"
    by simp
  then show ?thesis
    by (cases dev; cases dev') (simp add: frame_def rest_def)
qed

lemma shell_frame: "shell dev' = shell dev \<Longrightarrow> io_plan dev' = io_plan dev \<Longrightarrow> frame dev' = frame dev"
proof -
  assume s: "shell dev' = shell dev" "io_plan dev' = io_plan dev"
  then have "rest ((shell dev')\<lparr>io_plan := io_plan dev'\<rparr>) = rest ((shell dev)\<lparr>io_plan := io_plan dev\<rparr>)"
    by simp
  then show ?thesis
    by (cases dev; cases dev') (simp add: frame_def rest_def shell_def)
qed

lemma shell_evolves:
  assumes "shell dev' = shell dev" "io_plan dev' = io_plan dev"
  shows "evolves dev dev'"
  using shell_frame [OF assms] by (simp add: evolves_def geo_def qshell_fields [OF shell_fields(2) [OF assms(1)]])

lemma evolves_fields:
  assumes "evolves dev dev'"
  shows "cluster_bits (qcow2 dev') = cluster_bits (qcow2 dev)" "cluster_size (qcow2 dev') = cluster_size (qcow2 dev)"
    "l2_entries (qcow2 dev') = l2_entries (qcow2 dev)" "virtual_size (qcow2 dev') = virtual_size (qcow2 dev)"
    "l1_size (qcow2 dev') = l1_size (qcow2 dev)" "l1_offset (qcow2 dev') = l1_offset (qcow2 dev)"
    "io_plan dev' = io_plan dev" "miss_handler dev' = miss_handler dev" "miss_replies dev' = miss_replies dev"
proof -
  show "cluster_bits (qcow2 dev') = cluster_bits (qcow2 dev)" "cluster_size (qcow2 dev') = cluster_size (qcow2 dev)"
    "l2_entries (qcow2 dev') = l2_entries (qcow2 dev)" "virtual_size (qcow2 dev') = virtual_size (qcow2 dev)"
    "l1_size (qcow2 dev') = l1_size (qcow2 dev)" "l1_offset (qcow2 dev') = l1_offset (qcow2 dev)"
    using assms by (simp_all add: evolves_def geo_def)
  have "rest (dev'\<lparr>base := None\<rparr>) = rest (dev\<lparr>base := None\<rparr>)"
    using assms by (simp add: evolves_def frame_def)
  from rest_fields [OF this] show "io_plan dev' = io_plan dev" "miss_handler dev' = miss_handler dev"
    "miss_replies dev' = miss_replies dev"
    by simp_all
qed

text \<open>The allocation cursor on disk is the one in memory.\<close>

definition synced :: "lbd_device \<Rightarrow> bool" where
  "synced dev \<longleftrightarrow> read_at (backing_file dev) 36 8 = be64 (alloc_offset (qcow2 dev))"

section \<open>Committing\<close>

text \<open>
  The write-out after the data: the L2 table in slot \<open>k\<close> with the new entry, then the
  allocation cursor.
\<close>

lemma flush_spec:
  assumes plan: "io_plan dev = []" and k: "k < length (l2_cache (qcow2 dev))" "l2_valid (l2_at dev k)"
    and l1: "unat (l2_l1_index (l2_at dev k)) < length (l1_table (qcow2 dev))"
      "p = l1_table (qcow2 dev) ! unat (l2_l1_index (l2_at dev k))" "p \<noteq> 0" "unat p + csz (qcow2 dev) < 2 ^ 63"
    and n: "8 * nent (qcow2 dev) + 4 \<le> csz (qcow2 dev)"
    and f: "f' = write_at (backing_file dev) (unat p) (l2_encode crc (csz (qcow2 dev)) (nent (qcow2 dev))
        ((l2_table (l2_at dev k))[j := entry]))"
  shows "lbd_qcow2_l2_flush crc k (upd_l2 k (\<lambda>e. e\<lparr>l2_table := (l2_table e)[j := entry], l2_dirty := True\<rparr>) dev) =
    (Inr (), dev\<lparr>backing_file := f', qcow2 := (qcow2 dev)\<lparr>l2_cache := (l2_cache (qcow2 dev))
      [k := (l2_at dev k)\<lparr>l2_table := (l2_table (l2_at dev k))[j := entry], l2_dirty := False\<rparr>]\<rparr>\<rparr>)"
proof -
  have "length (l2_encode crc (csz (qcow2 dev)) (nent (qcow2 dev)) ((l2_table (l2_at dev k))[j := entry])) = csz (qcow2 dev)"
    using n by (intro length_l2_encode) simp_all
  then show ?thesis
    using plan k l1 by (simp add: lbd_qcow2_l2_flush_def upd_l2_def l1_at_def Let_def write_full_Nil f)
qed

text \<open>The old extent of a cluster, as \<open>place_extent\<close> needs it.\<close>

lemma old_extent:
  assumes di: "dinv crc q f T C FL" and old: "unat old = ext_len (csz q) f (ent (nent q) T c)"
  shows "lay q f T FL (Data c) = {entry_phys (ent (nent q) T c)..<entry_phys (ent (nent q) T c) + unat old}"
    "0 < unat old \<Longrightarrow> entry_phys (ent (nent q) T c) \<noteq> 0 \<and> 16 \<le> unat old \<and> unat old < 2 ^ 32"
proof -
  show reg: "lay q f T FL (Data c) = {entry_phys (ent (nent q) T c)..<entry_phys (ent (nent q) T c) + unat old}"
    using old by simp
  assume "0 < unat old"
  then have e: "ent (nent q) T c \<noteq> 0"
    using old by (auto simp: ext_len_def)
  have g: "geom q" and sp: "space (lay q f T FL) (unat (alloc_offset q)) f FL (free_list_head q)"
    using di by (simp_all add: dinv_def)
  have "stored (csz q) f (ent (nent q) T c) (C c)"
    using di e by (simp add: dinv_def)
  note b = ext_len_bounds [OF e this csz_ge [OF g] csz_le [OF g]]
  have "entry_phys (ent (nent q) T c) \<noteq> 0"
  proof
    assume "entry_phys (ent (nent q) T c) = 0"
    then have "0 \<in> lay q f T FL (Data c)"
      using b by simp
    moreover have "0 \<in> lay q f T FL Hdr"
      by simp
    ultimately show False
      using sep_disj [OF spaceD(1) [OF sp], of "Data c" Hdr] by blast
  qed
  then show "entry_phys (ent (nent q) T c) \<noteq> 0 \<and> 16 \<le> unat old \<and> unat old < 2 ^ 32"
    using b old by simp
qed

text \<open>Writes inside the variable part of the header keep the image, if the list head stays.\<close>

lemma dinv_hdr:
  assumes di: "dinv crc q f T C FL" and u: "unch W f f'" "W \<subseteq> {36..<4096}"
    and hd: "read_at f' 48 8 = be64 (free_list_head q)"
  shows "dinv crc q f' T C FL"
proof -
  let ?G = "lay q f T FL"
  have g: "geom q" and sp: "space ?G (unat (alloc_offset q)) f FL (free_list_head q)"
    and h: "hdr_ok q f" and l1: "l1_disk q f" and l2d: "l2disk crc (csz q) (nent q) (l1_table q) (unat (l1_size q)) f T"
    and st: "\<And>c. ent (nent q) T c \<noteq> 0 \<Longrightarrow> stored (csz q) f (ent (nent q) T c) (C c)"
    using di by (simp_all add: dinv_def)
  have WH: "W \<subseteq> ?G Hdr"
    using u(2) by auto
  have dj: "?G a \<inter> W = {}" if "a \<noteq> Hdr" for a
    using sep_disj [OF spaceD(1) [OF sp] that] WH by blast
  have fr: "stored (csz q) f' (ent (nent q) T d) (C d) \<and> ext_len (csz q) f' (ent (nent q) T d) = ext_len (csz q) f (ent (nent q) T d)"
    if "ent (nent q) T d \<noteq> 0" for d
    using stored_frame [OF st [OF that] u(1) that] dj [of "Data d"] by simp
  have lay: "lay q f' T FL = ?G"
  proof
    fix a show "lay q f' T FL a = ?G a"
    proof (cases a)
      case (Data d)
      then show ?thesis
        using fr [of d] by (cases "ent (nent q) T d = 0") (simp_all add: ext_len_def)
    qed simp_all
  qed
  have "{0..<0 + 36} \<inter> W = {}"
    using u(2) by auto
  then have "read_at f' 0 36 = read_at f 0 36"
    using h by (intro unch_read [OF u(1)]) (simp_all add: hdr_ok_def)
  then have "hdr_ok q f'"
    using h unch_length [OF u(1)] by (simp add: hdr_ok_def)
  moreover have "l1_disk q f'"
  proof -
    have len: "unat (l1_offset q) + 8 * unat (l1_size q) \<le> length f"
      using l1 by (simp add: l1_disk_def)
    have d: "{unat (l1_offset q)..<unat (l1_offset q) + 8 * unat (l1_size q)} \<inter> W = {}"
      using dj [of L1] by simp
    have "read_at f' (unat (l1_offset q) + 8 * k) 8 = read_at f (unat (l1_offset q) + 8 * k) 8" if "k < unat (l1_size q)" for k
      using that len by (intro unch_read [OF u(1)] disj_sub [OF d]) auto
    then show ?thesis
      using l1 unch_length [OF u(1)] by (auto simp: l1_disk_def)
  qed
  moreover have "l2disk crc (csz q) (nent q) (l1_table q) (unat (l1_size q)) f' T"
    unfolding l2disk_def
  proof (intro allI conjI)
    fix k
    have old: "length (T k) = nent q \<and> (if k < unat (l1_size q) \<and> l1_table q ! k \<noteq> 0
        then l2_ok crc (csz q) (nent q) f (unat (l1_table q ! k)) (T k) \<and> unat (l1_table q ! k) + csz q < 2 ^ 63
        else T k = replicate (nent q) 0)"
      using l2d unfolding l2disk_def by blast
    then show "length (T k) = nent q"
      by blast
    show "if k < unat (l1_size q) \<and> l1_table q ! k \<noteq> 0
        then l2_ok crc (csz q) (nent q) f' (unat (l1_table q ! k)) (T k) \<and> unat (l1_table q ! k) + csz q < 2 ^ 63
        else T k = replicate (nent q) 0"
      using old l2_ok_frame [OF _ u(1), of crc "csz q" "nent q" "unat (l1_table q ! k)" "T k"] dj [of "L2 k"] by auto
  qed
  moreover have "space ?G (unat (alloc_offset q)) f' FL (free_list_head q)"
    by (rule space_frame [OF sp u(1)]) (rule dj, simp)
  ultimately show ?thesis
    using g fr hd unfolding dinv_def lay by simp
qed

text \<open>Writing the table with the changed entry, after the data and the free list were updated.\<close>

lemma table_disk:
  assumes di: "dinv crc q f T C FL" and i: "i = c div nent q" "i < unat (l1_size q)" "l1_table q ! i \<noteq> 0"
    and u1: "unch (- others (lay q f T FL) i c) f f1"
    and sp1: "space G' (unat alloc') f1 FL' head'" and hd1: "read_at f1 48 8 = be64 head'"
    and gr: "grants (lay q f T FL) c (ext_len (csz q) f1 entry) G' (entry_phys entry)"
    and st: "entry \<noteq> 0 \<Longrightarrow> stored (csz q) f1 entry data"
    and tab: "length tab \<ge> nent q" "take (nent q) tab = (T i)[c mod nent q := entry]"
    and f3: "f3 = write_at f1 (unat (l1_table q ! i)) (l2_encode crc (csz q) (nent q) tab)"
  shows "dinv crc (q\<lparr>free_list_head := head', alloc_offset := alloc'\<rparr>) f3
      (T(i := (T i)[c mod nent q := entry])) (C(c := data)) FL'"
proof -
  let ?G = "lay q f T FL" and ?W = "- others (lay q f T FL) i c"
  let ?R = "{unat (l1_table q ! i)..<unat (l1_table q ! i) + csz q}"
  have g: "geom q" and sp0: "space ?G (unat (alloc_offset q)) f FL (free_list_head q)"
    using di by (simp_all add: dinv_def)
  have same: "G' a = ?G a" if "a \<noteq> Data c" "\<And>x. a \<noteq> Free x" for a
    using gr that by (auto simp: grants_def)
  have hdr: "?G Hdr = {0..<4096}" "G' Hdr = {0..<4096}"
    using same [of Hdr] by simp_all
  have R: "?G (L2 i) = ?R" "G' (L2 i) = ?R"
    using same [of "L2 i"] i by simp_all
  have n: "8 * nent q + 4 \<le> csz q"
    using nent_csz [OF g] by simp
  have len: "length (l2_encode crc (csz q) (nent q) tab) = csz q"
    using n by (intro length_l2_encode) simp_all
  have u3: "unch ?R f1 f3"
    unfolding f3 by (intro unch_write) (simp add: len)
  have "?R \<subseteq> ?W"
    using others_disjoint(2) [OF spaceD(1) [OF sp0] hdr(1), where i = i and c = c] unfolding R .
  then have u: "unch ?W f f3"
    using u1 unch_mono [OF u3] by (blast intro: unch_trans)
  have dj: "G' a \<inter> ?R = {}" if "a \<noteq> L2 i" for a
    using sep_disj [OF spaceD(1) [OF sp1] that] unfolding R .
  have sp: "space G' (unat alloc') f3 FL' head'"
    using space_frame [OF sp1 u3] dj by blast
  have "{0..<4096} \<inter> ?R = {}"
    using dj [of Hdr] unfolding hdr by simp
  then have h48: "{48..<48 + 8} \<inter> ?R = {}"
    by (rule disj_sub) simp_all
  have "read_at f3 48 8 = read_at f1 48 8"
    using h48 spaceD(9) [OF sp1] by (intro unch_read [OF u3]) simp_all
  then have hd: "read_at f3 48 8 = be64 head'"
    using hd1 by simp
  have reg: "{entry_phys entry..<entry_phys entry + ext_len (csz q) f1 entry} \<inter> ?R = {}"
    using dj [of "Data c"] gr by (simp add: grants_def)
  have fr: "entry \<noteq> 0 \<Longrightarrow> stored (csz q) f3 entry data" "ext_len (csz q) f3 entry = ext_len (csz q) f1 entry"
    using stored_frame [OF st u3 _ reg] by (auto simp: ext_len_def)
  have l2: "l2_ok crc (csz q) (nent q) f3 (unat (l1_table q ! i)) ((T i)[c mod nent q := entry])"
    using l2_ok_write [OF n tab(1)] tab(2) unfolding f3 by simp
  show ?thesis
    by (rule dinv_update [OF di refl i u sp hd gr l2 fr(2,1)])
qed

lemma commit_disk:
  assumes di: "dinv crc q f T C FL" and i: "i = c div nent q" "i < unat (l1_size q)" "l1_table q ! i \<noteq> 0"
    and st: "stores (lay q f T FL) c (csz q) data dev entry dev1 G' FL'"
    and dev: "qcow2 dev = q\<lparr>cl_cache := es\<rparr>" "backing_file dev = f"
    and tab: "length tab \<ge> nent q" "take (nent q) tab = (T i)[c mod nent q := entry]"
    and f3: "f3 = write_at (backing_file dev1) (unat (l1_table q ! i)) (l2_encode crc (csz q) (nent q) tab)"
    and f4: "f4 = write_at f3 36 (be64 (alloc_offset (qcow2 dev1)))"
  shows "dinv crc (q\<lparr>free_list_head := free_list_head (qcow2 dev1), alloc_offset := alloc_offset (qcow2 dev1)\<rparr>) f4
      (T(i := (T i)[c mod nent q := entry])) (C(c := data)) FL'"
    "read_at f4 36 8 = be64 (alloc_offset (qcow2 dev1))"
proof -
  let ?G = "lay q f T FL" and ?W = "- others (lay q f T FL) i c"
  let ?q = "q\<lparr>free_list_head := free_list_head (qcow2 dev1), alloc_offset := alloc_offset (qcow2 dev1)\<rparr>"
  have sp0: "space ?G (unat (alloc_offset q)) f FL (free_list_head q)"
    using di by (simp add: dinv_def)
  have s: "unch (free_area ?G \<union> ?G (Data c) \<union> G' (Data c)) f (backing_file dev1)"
    "read_at (backing_file dev1) 48 8 = be64 (free_list_head (qcow2 dev1))"
    "space G' (unat (alloc_offset (qcow2 dev1))) (backing_file dev1) FL' (free_list_head (qcow2 dev1))"
    "grants ?G c (ext_len (csz q) (backing_file dev1) entry) G' (entry_phys entry)"
    "stored (csz q) (backing_file dev1) entry data"
    using st dev by (simp_all add: stores_def)
  have same: "G' a = ?G a" if "a \<noteq> Data c" "\<And>x. a \<noteq> Free x" for a
    using s(4) that by (auto simp: grants_def)
  have hdr: "?G Hdr = {0..<4096}" "G' Hdr = {0..<4096}"
    using same [of Hdr] by simp_all
  have "others G' i c = others ?G i c"
    using same by (rule others_cong)
  then have "G' (Data c) \<subseteq> ?W"
    using others_disjoint(3) [OF spaceD(1) [OF s(3)] hdr(2), where i = i and c = c] by simp
  then have "free_area ?G \<union> ?G (Data c) \<union> G' (Data c) \<subseteq> ?W"
    using free_area_others [OF spaceD(1) [OF sp0] hdr(1)] others_disjoint(3) [OF spaceD(1) [OF sp0] hdr(1)]
    by (intro Un_least)
  then have u1: "unch ?W f (backing_file dev1)"
    by (rule unch_mono [OF s(1)])
  have d3: "dinv crc ?q f3 (T(i := (T i)[c mod nent q := entry])) (C(c := data)) FL'"
    by (rule table_disk [OF di i u1 s(3,2,4) _ tab f3]) (rule s(5))
  have u4: "unch {36..<44} f3 f4"
    unfolding f4 by (intro unch_write) simp
  have "read_at f4 48 8 = read_at f3 48 8"
    unfolding f4 by (rule read_write_after) simp
  then show "dinv crc ?q f4 (T(i := (T i)[c mod nent q := entry])) (C(c := data)) FL'"
    using d3 by (intro dinv_hdr [OF d3 u4]) (auto simp: dinv_def)
  show "read_at f4 36 8 = be64 (alloc_offset (qcow2 dev1))"
    unfolding f4 using read_write_same [of f3 36 "be64 (alloc_offset (qcow2 dev1))"] by simp
qed

lemma upd_cl_fields [simp]:
  "backing_file (upd_cl i g dev) = backing_file dev" "io_plan (upd_cl i g dev) = io_plan dev"
  "qcow2 (upd_cl i g dev) = (qcow2 dev)\<lparr>cl_cache := (cl_cache (qcow2 dev))[i := g (cl_at dev i)]\<rparr>"
  "base (upd_cl i g dev) = base dev" "rest (upd_cl i g dev) = rest dev" "crashed (upd_cl i g dev) = crashed dev"
  by (simp_all add: upd_cl_def)

lemma commit_spec:
  assumes q: "qinv crc dev0 T C FL B" and plan: "io_plan dev0 = []"
    and l1: "unat c div nent (qcow2 dev0) < unat (l1_size (qcow2 dev0))"
      "l1_table (qcow2 dev0) ! (unat c div nent (qcow2 dev0)) \<noteq> 0"
    and i: "i < 16" "cl_valid (cl_at dev0 i)" "cl_cluster_index (cl_at dev0 i) = c"
    and k: "k < 16" "l2_valid (l2_at dev0 k)" "unat (l2_l1_index (l2_at dev0 k)) = unat c div nent (qcow2 dev0)"
    and j: "unat j = unat c mod nent (qcow2 dev0)" and data: "length data = csz (qcow2 dev0)"
    and old: "unat old = ext_len (csz (qcow2 dev0)) (backing_file dev0) (ent (nent (qcow2 dev0)) T (unat c))"
    and room: "unat (alloc_offset (qcow2 dev0)) + csz (qcow2 dev0) \<le> 2 ^ 62"
  shows "\<exists>dev' T' C' FL'. commit_cluster crc check i k j (ent (nent (qcow2 dev0)) T (unat c)) old
      (upd_cl i (\<lambda>e. e\<lparr>cl_data := data\<rparr>) dev0) = (Inr (), dev') \<and> qinv crc dev' T' C' FL' B \<and>
    stored_layer (nent (qcow2 dev0)) T' C' = (stored_layer (nent (qcow2 dev0)) T C)(unat c \<mapsto> data) \<and>
    evolves dev0 dev' \<and> base dev' = base dev0 \<and> lru_tick (qcow2 dev') = lru_tick (qcow2 dev0) \<and> synced dev' \<and>
    unat (alloc_offset (qcow2 dev')) \<le> unat (alloc_offset (qcow2 dev0)) + csz (qcow2 dev0)"
proof -
  let ?q = "qcow2 dev0" and ?f = "backing_file dev0" and ?c = "unat c" and ?i = "unat c div nent (qcow2 dev0)"
  let ?e = "ent (nent ?q) T ?c" and ?cs = "csz ?q" and ?n = "nent ?q"
  define dev where "dev = upd_cl i (\<lambda>e. e\<lparr>cl_data := data\<rparr>) dev0"
  let ?es = "(cl_cache ?q)[i := (cl_at dev0 i)\<lparr>cl_data := data\<rparr>]"
  have dq: "qcow2 dev = ?q\<lparr>cl_cache := ?es\<rparr>" "backing_file dev = ?f" "io_plan dev = []" "rest dev = rest dev0"
    using plan by (simp_all add: dev_def)
  note di = qinvD(1) [OF q] and g = qinvD(2) [OF q]
  have sp: "space (lay ?q ?f T FL) (unat (alloc_offset ?q)) ?f FL (free_list_head ?q)"
    and hd: "read_at ?f 48 8 = be64 (free_list_head ?q)" and l2d: "l2disk crc ?cs ?n (l1_table ?q) (unat (l1_size ?q)) ?f T"
    using di by (simp_all add: dinv_def)
  have g': "geom (qcow2 dev)"
    using g geom_shell [of "qcow2 dev" ?q] dq(1) by simp
  obtain entry dev1 G' FL' where sc: "store_cluster check data ?e old dev = (Inr entry, dev1)"
    and st: "stores (lay ?q ?f T FL) ?c ?cs data dev entry dev1 G' FL'"
    using store_cluster_spec [OF g', of data "lay ?q ?f T FL" FL ?c ?e old check] old_extent [OF di old] data sp hd room
    by (auto simp: dq)
  have s1: "rest dev1 = rest dev" "entry \<noteq> 0"
    "qcow2 dev1 = (qcow2 dev)\<lparr>free_list_head := free_list_head (qcow2 dev1), alloc_offset := alloc_offset (qcow2 dev1)\<rparr>"
    "unat (alloc_offset (qcow2 dev1)) \<le> unat (alloc_offset ?q) + ?cs"
    using st dq by (simp_all add: stores_def)
  note q1 = arg_cong [OF s1(3), of cluster_size] arg_cong [OF s1(3), of l2_entries] arg_cong [OF s1(3), of l1_table]
    arg_cong [OF s1(3), of l2_cache] arg_cong [OF s1(3), of cl_cache] arg_cong [OF s1(3), of lru_tick]
    arg_cong [OF s1(3), of l1_size]
  have qf: "cluster_size (qcow2 dev1) = cluster_size ?q" "l2_entries (qcow2 dev1) = l2_entries ?q"
    "l1_table (qcow2 dev1) = l1_table ?q" "l2_cache (qcow2 dev1) = l2_cache ?q" "cl_cache (qcow2 dev1) = ?es"
    "lru_tick (qcow2 dev1) = lru_tick ?q"
    using q1 dq(1) by simp_all
  have lens: "length (l2_cache ?q) = 16" "length (cl_cache ?q) = 16" "length (l1_table ?q) = unat (l1_size ?q)"
    using qinvD(4,5) [OF q] l1_len [OF g] by (simp_all add: l2coh_def clcoh_def)
  let ?tab = "(l2_table (l2_at dev0 k))[unat j := entry]" and ?p = "l1_table ?q ! ?i"
  note l2e = l2coh_entry [OF qinvD(4) [OF q] k(1,2)]
  have n0: "0 < ?n" and n8: "?cs div 8 = ?n + 1" and n4: "8 * ?n + 4 \<le> ?cs"
    using nent_pos [OF g] csz_div8 [OF g] nent_csz [OF g] by simp_all
  have jn: "unat j < ?n"
    using j n0 by simp
  have tab: "length ?tab \<ge> ?n" "take ?n ?tab = (T ?i)[?c mod ?n := entry]"
    using l2e(2,3) n8 jn k(3) j by (simp_all add: take_update_swap)
  have p: "unat ?p + ?cs < 2 ^ 63"
    using spec [OF l2d [unfolded l2disk_def], of ?i] l1 by simp
  define f3 where "f3 = write_at (backing_file dev1) (unat ?p) (l2_encode crc ?cs ?n ?tab)"
  define f4 where "f4 = write_at f3 36 (be64 (alloc_offset (qcow2 dev1)))"
  define es2 where "es2 = (l2_cache ?q)[k := (l2_at dev0 k)\<lparr>l2_table := ?tab, l2_dirty := False\<rparr>]"
  define dev3 where "dev3 = dev1\<lparr>backing_file := f3, qcow2 := (qcow2 dev1)\<lparr>l2_cache := es2\<rparr>\<rparr>"
  define dev4 where "dev4 = dev1\<lparr>backing_file := f4, qcow2 := (qcow2 dev1)\<lparr>l2_cache := es2\<rparr>\<rparr>"
  have pl1: "io_plan dev1 = []"
    using rest_fields(1) [OF s1(1)] dq(3) by simp
  have fl: "lbd_qcow2_l2_flush crc k (upd_l2 k (\<lambda>e. e\<lparr>l2_table := (l2_table e)[unat j := entry], l2_dirty := True\<rparr>) dev1) =
      (Inr (), dev3)"
    using flush_spec [OF pl1, of k ?p f3 crc "unat j" entry] k l1 lens p n4
    by (simp add: qf f3_def es2_def dev3_def)
  have "lbd_qcow2_write_alloc_offset dev3 = (Inr (), dev4)"
    using pl1 write_alloc_eq [of dev3] by (simp add: dev3_def dev4_def f4_def)
  then have run: "commit_cluster crc check i k j ?e old dev = (Inr (), dev4)"
    using sc fl i(1) lens(2) dq(1) by (simp add: commit_cluster_def)
  let ?T' = "T(?i := (T ?i)[?c mod ?n := entry])" and ?C' = "C(?c := data)"
  have cd: "dinv crc (?q\<lparr>free_list_head := free_list_head (qcow2 dev1), alloc_offset := alloc_offset (qcow2 dev1)\<rparr>) f4
      ?T' ?C' FL'" "read_at f4 36 8 = be64 (alloc_offset (qcow2 dev1))"
    using commit_disk [OF di refl l1 st dq(1,2) tab f3_def f4_def] by simp_all
  have sh: "qshell (qcow2 dev4) =
      qshell (?q\<lparr>free_list_head := free_list_head (qcow2 dev1), alloc_offset := alloc_offset (qcow2 dev1)\<rparr>)"
    using s1(3) dq(1) unfolding qshell_def dev4_def by (cases "qcow2 dev1"; cases ?q) simp
  have lenT: "length (T ?i) = ?n"
    using l2d unfolding l2disk_def by blast
  note vu = view_upd [of T ?c ?n, OF lenT n0 s1(2)]
  have "l2coh ?cs ?n ?T' (lru_tick ?q) es2"
    using l2coh_set [OF qinvD(4) [OF q] k(1,2) refl jn, of entry] k(3) j by (simp add: es2_def)
  moreover have "clcoh ?cs (vw ?q ?T' ?C' B) (lru_tick ?q) ?es"
    using clcoh_set [OF qinvD(5) [OF q] i data] by (simp add: vu(1))
  moreover have "base dev4 = base dev0" "\<not> crashed dev4"
    using rest_fields(2,5) [OF s1(1)] qinvD(7) [OF q] by (simp_all add: dev4_def dev_def)
  moreover have "base_ok crc dev4 B"
    using qinvD(6) [OF q] calculation(3) by (rule base_ok_same) (simp add: dev4_def qf)
  ultimately have "qinv crc dev4 ?T' ?C' FL' B"
    using cd(1) unfolding qinv_def dinv_shell [OF sh] by (simp add: dev4_def qf)
  moreover have "frame dev4 = frame dev0"
    using s1(1) dq(4) by (intro rest_frame) (simp add: dev4_def)
  moreover have "geo (qcow2 dev4) = geo ?q"
    using qshell_fields [OF sh] by (simp add: geo_def)
  ultimately show ?thesis
    using run vu(2) \<open>base dev4 = base dev0\<close> s1(4) cd(2) unfolding dev_def [symmetric]
    by (intro exI [of _ dev4] exI [of _ ?T'] exI [of _ ?C'] exI [of _ FL'])
      (simp add: evolves_def synced_def dev4_def qf)
qed

end
