(* ===== verification/Qcow2_Write.thy ===== *)
theory Qcow2_Write
  imports Qcow2_Commit
begin

text \<open>
  Correctness of \<open>lbd_qcow2_write\<close>: with no I/O failure a write within the L1 table returns
  success and the device then refines the store in which exactly the written byte range has
  changed, and the image on disk is complete.
\<close>

section \<open>Allocating an L2 table\<close>

lemma space_append_L2:
  assumes sp: "space G alloc f FL head" and own: "G (L2 i) = {}" and n: "alloc + n \<le> 2 ^ 62"
  shows "space (G(L2 i := {alloc..<alloc + n})) (alloc + n) f FL head"
proof (rule space_regions [OF sp _ _ n])
  have b: "x \<in> G a \<Longrightarrow> x < alloc" for x a
    using spaceD(2) [OF sp, of a] by auto
  show "(G(L2 i := {alloc..<alloc + n})) a \<subseteq> {..<alloc + n}" for a
    using b [of _ a] by (auto intro: trans_less_add1)
  show "sep (G(L2 i := {alloc..<alloc + n}))"
    unfolding sep_def
  proof (intro allI impI)
    fix x a d assume x: "x \<in> (G(L2 i := {alloc..<alloc + n})) a" "x \<in> (G(L2 i := {alloc..<alloc + n})) d"
    show "a = d"
      using x b [of x a] b [of x d] spaceD(1) [OF sp] by (auto simp: sep_def split: if_splits)
  qed
qed simp_all

lemma dinv_l2_alloc:
  assumes di: "dinv crc q f T C FL" and i: "i < unat (l1_size q)" "l1_table q ! i = 0"
    and room: "unat (alloc_offset q) + csz q \<le> 2 ^ 62"
    and q': "q' = q\<lparr>l1_table := (l1_table q)[i := alloc_offset q], alloc_offset := alloc\<rparr>"
      "unat alloc = unat (alloc_offset q) + csz q"
    and f1: "f1 = write_at f (unat (alloc_offset q)) (l2_encode crc (csz q) 0 [])"
    and f2: "f2 = write_at f1 (unat (l1_offset q) + 8 * i) (be64 (alloc_offset q))"
  shows "dinv crc q' f2 T C FL" "alloc_offset q \<noteq> 0"
proof -
  let ?G = "lay q f T FL" and ?a = "unat (alloc_offset q)" and ?cs = "csz q" and ?n = "nent q"
  let ?P = "{unat (l1_offset q) + 8 * i..<unat (l1_offset q) + 8 * i + 8}" and ?A = "{?a..<?a + ?cs}"
  let ?W = "?A \<union> ?P"
  have g: "geom q" and sp0: "space ?G ?a f FL (free_list_head q)"
    and hdr: "hdr_ok q f" and l1: "l1_disk q f" and l2d: "l2disk crc ?cs ?n (l1_table q) (unat (l1_size q)) f T"
    and st: "\<And>c. ent ?n T c \<noteq> 0 \<Longrightarrow> stored ?cs f (ent ?n T c) (C c)"
    and hd: "read_at f 48 8 = be64 (free_list_head q)"
    using di by (simp_all add: dinv_def)
  note sep = spaceD(1) [OF sp0]
  have n4: "8 * ?n + 4 \<le> ?cs" "8 * ?n \<le> ?cs"
    using nent_csz [OF g] by simp_all
  have PL: "?P \<subseteq> ?G L1"
    using i(1) by auto
  have below: "?G a \<subseteq> {..<?a}" for a
    using spaceD(2) [OF sp0] .
  have low: "X \<inter> ?A = {}" if "X \<subseteq> {..<?a}" for X
  proof -
    have "{..<?a} \<inter> ?A = {}"
      by auto
    then show ?thesis
      using that by blast
  qed
  have PA: "?P \<inter> ?A = {}"
    by (rule low [OF order_trans [OF PL below]])
  have dj: "?G a \<inter> ?W = {}" if "a \<noteq> L1" for a
    using sep_disj [OF sep that] PL low [OF below, of a] by blast
  have Hdr: "?G Hdr = {0..<4096}"
    by simp
  have "4095 < ?a"
    using below [of Hdr] by (auto simp: subset_eq)
  then show nz: "alloc_offset q \<noteq> 0"
    by auto
  have T0: "T i = replicate ?n 0"
    using spec [OF l2d [unfolded l2disk_def], of i] i by simp
  have len0: "length (l2_encode crc ?cs 0 []) = ?cs"
    using n4 by (intro length_l2_encode) simp_all
  have u1: "unch ?A f f1" and u2: "unch ?P f1 f2"
    unfolding f1 f2 by (intro unch_write; simp add: len0)+
  have u: "unch ?W f f2"
    using unch_mono [OF u1, of ?W] unch_mono [OF u2, of ?W] by (blast intro: unch_trans)
  have fr: "stored ?cs f2 (ent ?n T d) (C d) \<and> ext_len ?cs f2 (ent ?n T d) = ext_len ?cs f (ent ?n T d)"
    if "ent ?n T d \<noteq> 0" for d
    using stored_frame [OF st [OF that] u that] dj [of "Data d"] by simp
  have il: "i < length (l1_table q)"
    using i(1) l1_len [OF g] by simp
  have lay: "lay q' f2 T FL a = (?G(L2 i := ?A)) a" for a
  proof (cases a)
    case (Data d)
    then show ?thesis
      using fr [of d] q' by (cases "ent ?n T d = 0") (simp_all add: ext_len_def)
  next
    case (L2 k)
    then show ?thesis
      using q' nz i il by (cases "k = i") simp_all
  qed (use q' in simp_all)
  have own: "?G (L2 i) = {}"
    using i by simp
  have "space (?G(L2 i := ?A)) (unat alloc) f FL (free_list_head q)"
    using space_append_L2 [OF sp0 own room] q'(2) by simp
  then have "space (?G(L2 i := ?A)) (unat alloc) f2 FL (free_list_head q)"
    by (rule space_frame [OF _ u]) (simp only: fun_upd_apply owner.distinct if_False dj simp_thms)
  then have sp: "space (lay q' f2 T FL) (unat (alloc_offset q')) f2 FL (free_list_head q')"
    unfolding ext [of "lay q' f2 T FL", OF lay] using q'(1) by simp
  have "{0..<4096} \<inter> ?W = {}"
    using dj [of Hdr] unfolding Hdr by simp
  then have h: "{0..<0 + 36} \<inter> ?W = {}" "{48..<48 + 8} \<inter> ?W = {}"
    by (rule disj_sub; simp)+
  have "read_at f2 0 36 = read_at f 0 36"
    using hdr h(1) by (intro unch_read [OF u]) (simp_all add: hdr_ok_def)
  then have 1: "hdr_ok q' f2"
    using hdr unch_length [OF u] q'(1) by (simp add: hdr_ok_def)
  have "read_at f2 48 8 = read_at f 48 8"
    using h(2) spaceD(9) [OF sp0] by (intro unch_read [OF u]) simp_all
  then have 2: "read_at f2 48 8 = be64 (free_list_head q')"
    using hd q'(1) by simp
  have 3: "l1_disk q' f2"
    unfolding l1_disk_def
  proof (intro conjI allI impI)
    show "unat (l1_offset q') < 2 ^ 62"
      using l1 q'(1) by (simp add: l1_disk_def)
    have len: "unat (l1_offset q) + 8 * unat (l1_size q) \<le> length f"
      using l1 by (simp add: l1_disk_def)
    then show "unat (l1_offset q') + 8 * unat (l1_size q') \<le> length f2"
      using unch_length [OF u] q'(1) by simp
    fix k assume k: "k < unat (l1_size q')"
    show "read_at f2 (unat (l1_offset q') + 8 * k) 8 = be64 (l1_table q' ! k)"
    proof (cases "k = i")
      case True
      then show ?thesis
        using read_write_same [of f1 "unat (l1_offset q) + 8 * i" "be64 (alloc_offset q)"] q'(1) il by (simp add: f2)
    next
      case False
      have "{unat (l1_offset q) + 8 * k..<unat (l1_offset q) + 8 * k + 8} \<subseteq> ?G L1"
        using k q'(1) by auto
      then have "{unat (l1_offset q) + 8 * k..<unat (l1_offset q) + 8 * k + 8} \<inter> ?A = {}"
        by (intro low order_trans [OF _ below])
      moreover have "{unat (l1_offset q) + 8 * k..<unat (l1_offset q) + 8 * k + 8} \<inter> ?P = {}"
        using False by auto
      ultimately have "read_at f2 (unat (l1_offset q) + 8 * k) 8 = read_at f (unat (l1_offset q) + 8 * k) 8"
        using k q'(1) len by (intro unch_read [OF u]) (simp_all add: Int_Un_distrib)
      then show ?thesis
        using False l1 k q'(1) by (simp add: l1_disk_def)
    qed
  qed
  have 4: "l2disk crc ?cs ?n (l1_table q') (unat (l1_size q')) f2 T"
    unfolding l2disk_def
  proof (intro allI conjI)
    fix k
    have old: "length (T k) = ?n \<and> (if k < unat (l1_size q) \<and> l1_table q ! k \<noteq> 0
        then l2_ok crc ?cs ?n f (unat (l1_table q ! k)) (T k) \<and> unat (l1_table q ! k) + ?cs < 2 ^ 63
        else T k = replicate ?n 0)"
      using l2d unfolding l2disk_def by blast
    then show "length (T k) = ?n"
      by blast
    show "if k < unat (l1_size q') \<and> l1_table q' ! k \<noteq> 0
        then l2_ok crc ?cs ?n f2 (unat (l1_table q' ! k)) (T k) \<and> unat (l1_table q' ! k) + ?cs < 2 ^ 63
        else T k = replicate ?n 0"
    proof (cases "k = i")
      case True
      have "l2_ok crc ?cs ?n f1 ?a (take ?n (replicate ?n 0))"
        unfolding f1 l2_encode_zeros [OF n4(2)] using n4(1) by (intro l2_ok_write) simp_all
      then have "l2_ok crc ?cs ?n f2 ?a (T i)"
        using l2_ok_frame [OF _ u2] PA T0 by (simp add: Int_commute)
      then show ?thesis
        using True q'(1) nz i il room by simp
    next
      case False
      then show ?thesis
        using old l2_ok_frame [OF _ u, of crc ?cs ?n "unat (l1_table q ! k)" "T k"] dj [of "L2 k"] q'(1)
        by (auto split: if_splits)
    qed
  qed
  have "geom q'"
    using g q'(1) by (simp add: geom_def)
  then show "dinv crc q' f2 T C FL"
    using 1 2 3 4 sp fr q'(1) unfolding dinv_def by simp
qed

text \<open>With room in the image a table is present after \<open>lbd_qcow2_l2_alloc\<close>; its contents do not change.\<close>

lemma l2_alloc_spec:
  assumes q: "qinv crc dev T C FL B" and plan: "io_plan dev = []" and i: "unat l1i < unat (l1_size (qcow2 dev))"
    and room: "unat (alloc_offset (qcow2 dev)) + csz (qcow2 dev) \<le> 2 ^ 62"
  shows "\<exists>dev'. lbd_qcow2_l2_alloc crc l1i dev = (Inr (), dev') \<and> qinv crc dev' T C FL B \<and> evolves dev dev' \<and>
    base dev' = base dev \<and> lru_tick (qcow2 dev') = lru_tick (qcow2 dev) \<and> l1_table (qcow2 dev') ! unat l1i \<noteq> 0 \<and>
    unat (alloc_offset (qcow2 dev')) \<le> unat (alloc_offset (qcow2 dev)) + csz (qcow2 dev)"
proof (cases "l1_table (qcow2 dev) ! unat l1i = 0")
  case False
  then show ?thesis
    using q i by (simp add: lbd_qcow2_l2_alloc_def word_le_nat_alt Let_def)
next
  case True
  let ?q = "qcow2 dev" and ?f = "backing_file dev" and ?i = "unat l1i" and ?a = "unat (alloc_offset (qcow2 dev))"
  note di = qinvD(1) [OF q] and g = qinvD(2) [OF q]
  define q1 where "q1 = ?q\<lparr>l1_table := (l1_table ?q)[?i := alloc_offset ?q],
    alloc_offset := alloc_offset ?q + ucast (cluster_size ?q)\<rparr>"
  define f1 where "f1 = write_at ?f ?a (l2_encode crc (csz ?q) 0 [])"
  define f2 where "f2 = write_at f1 (unat (l1_offset ?q) + 8 * ?i) (be64 (alloc_offset ?q))"
  define dev' where "dev' = dev\<lparr>qcow2 := q1, backing_file := f2\<rparr>"
  have sp: "space (lay ?q ?f T FL) ?a ?f FL (free_list_head ?q)"
    using di by (simp add: dinv_def)
  have a: "unat (alloc_offset ?q + ucast (cluster_size ?q)) = ?a + csz ?q"
    using room unat_plus_u64 [of "alloc_offset ?q" "ucast (cluster_size ?q)"] by simp
  have di': "dinv crc q1 f2 T C FL" "alloc_offset ?q \<noteq> 0"
    using dinv_l2_alloc [OF di i True room q1_def a f1_def f2_def] by simp_all
  have "unat (l1_offset ?q) + 8 * unat (l1_size ?q) - 1 \<in> lay ?q ?f T FL L1"
    using i by simp
  then have "unat (l1_offset ?q) + 8 * unat (l1_size ?q) - 1 < ?a"
    using spaceD(2) [OF sp, of L1] by blast
  then have b: "unat (l1_offset ?q) + 8 * ?i + 8 \<le> 2 ^ 62"
    using spaceD(8) [OF sp] i by simp
  have "unat (ucast l1i * 8 :: u64) = 8 * ?i"
    using unat_u32_lt [of l1i] by (simp add: unat_mult_lem [THEN iffD1] mult.commute)
  then have pos: "unat (l1_offset ?q + ucast l1i * 8) = unat (l1_offset ?q) + 8 * ?i"
    using b unat_plus_u64 [of "l1_offset ?q" "ucast l1i * 8"] by simp
  have len0: "length (l2_encode crc (csz ?q) 0 []) = csz ?q"
    using csz_ge [OF g] by (intro length_l2_encode) simp_all
  have w1: "write_full (l2_encode crc (csz ?q) 0 []) (alloc_offset ?q) (dev\<lparr>qcow2 := q1\<rparr>) =
      (Inr (), dev\<lparr>qcow2 := q1, backing_file := f1\<rparr>)"
    using plan room len0 by (simp add: write_full_Nil f1_def)
  have w2: "write_full (be64 (alloc_offset ?q)) (l1_offset ?q + ucast l1i * 8) (dev\<lparr>qcow2 := q1, backing_file := f1\<rparr>) =
      (Inr (), dev')"
    using plan b by (simp add: write_full_Nil pos f2_def dev'_def)
  have run: "lbd_qcow2_l2_alloc crc l1i dev = (Inr (), dev')"
    using i True plan w1 w2 by (simp add: lbd_qcow2_l2_alloc_def Let_def word_le_nat_alt q1_def [symmetric])
  have "base_ok crc dev' B"
    using qinvD(6) [OF q] by (rule base_ok_same) (simp_all add: dev'_def q1_def)
  then have "qinv crc dev' T C FL B"
    using di'(1) qinvD(4,5,7) [OF q] unfolding qinv_def by (simp add: dev'_def q1_def)
  moreover have "frame dev' = frame dev"
    by (rule rest_frame) (simp add: dev'_def)
  moreover have "geo q1 = geo ?q"
    by (simp add: geo_def q1_def)
  ultimately show ?thesis
    using run di'(2) i a l1_len [OF g] by (intro exI [of _ dev']) (simp add: evolves_def dev'_def q1_def)
qed

section \<open>One chunk\<close>

lemma cl_get_zero_spec:
  assumes q: "qinv crc dev T C FL B" and t: "ticks dev (1 + k)" and a: "cl_absent c (cl_cache (qcow2 dev))"
    and hole: "vw (qcow2 dev) T C B (unat c) = replicate (csz (qcow2 dev)) 0"
  shows "\<exists>i dev'. lbd_qcow2_cl_get_zero c dev = (Ptr i, dev') \<and> i < 16 \<and> cl_valid (cl_at dev' i) \<and>
    cl_cluster_index (cl_at dev' i) = c \<and> qinv crc dev' T C FL B \<and> shell dev' = shell dev \<and> spent dev dev' 1 \<and>
    io_plan dev' = io_plan dev"
proof -
  let ?q = "qcow2 dev" and ?t = "lru_tick (qcow2 dev)"
  have nf: "lbd_qcow2_cl_find c dev = (Null, dev)"
    using a by (simp add: lbd_qcow2_cl_find_def cl_absent_def first_slot_None [THEN iffD2])
  obtain p dev1 where al: "lbd_qcow2_cl_alloc_entry dev = (p, dev1)"
    by fastforce
  obtain i where i: "i < 16" "p = Ptr i" "qinv crc dev1 T C FL B" "\<not> cl_valid (cl_at dev1 i)"
    "dev1 = dev\<lparr>qcow2 := ?q\<lparr>cl_cache := (cl_cache ?q)[i := (cl_at dev i)\<lparr>cl_valid := False\<rparr>]\<rparr>\<rparr>"
    using cl_alloc_spec [OF q al] by blast
  have tk: "?t < ?t + 1" "unat (?t + 1) = unat ?t + 1"
    using t tick_Suc [of ?t "1 + k"] by (auto simp: ticks_def)
  let ?es1 = "cl_cache (qcow2 dev1)"
  define e where "e = (cl_at dev1 i)\<lparr>cl_cluster_index := c, cl_lru := ?t, cl_dirty := False,
    cl_data := replicate (csz ?q) 0, cl_valid := True\<rparr>"
  define dev2 where "dev2 = dev1\<lparr>qcow2 := (qcow2 dev1)\<lparr>lru_tick := ?t + 1, cl_cache := ?es1[i := e]\<rparr>\<rparr>"
  have f1: "lru_tick (qcow2 dev1) = ?t" "csz (qcow2 dev1) = csz ?q" "nent (qcow2 dev1) = nent ?q"
    "l2_cache (qcow2 dev1) = l2_cache ?q" "length ?es1 = 16" "base dev1 = base dev"
    using qinvD(5) [OF i(3)] by (simp_all add: i(5) clcoh_def)
  have run: "lbd_qcow2_cl_get_zero c dev = (Ptr i, dev2)"
    using nf al i(2) f1 by (simp add: lbd_qcow2_cl_get_zero_def lbd_qcow2_lru_tick_def upd_cl_def e_def dev2_def)
  have ab: "cl_absent c ?es1"
    using a by (simp add: i(5) cl_absent_update)
  have "clcoh (csz ?q) (vw ?q T C B) (?t + 1) (?es1[i := e])"
  proof (rule clcoh_update [of _ _ ?t])
    show "clcoh (csz ?q) (vw ?q T C B) ?t ?es1"
      using qinvD(5) [OF i(3)] by (simp add: f1)
    show "cl_cluster_index (?es1 ! j) \<noteq> cl_cluster_index e" if "j < 16" "cl_valid (?es1 ! j)" for j
      using that ab f1(5) by (auto simp: cl_absent_def e_def)
  qed (use i(1) tk(1) hole in \<open>auto simp: e_def\<close>)
  moreover have "l2coh (csz ?q) (nent ?q) T (?t + 1) (l2_cache ?q)"
    using l2coh_mono [OF qinvD(4) [OF q] less_imp_le [OF tk(1)]] .
  ultimately have "qinv crc dev2 T C FL B"
    using qinvD(6) [OF i(3)]
    by (intro qinvI_shell [OF i(3)]) (auto simp: dev2_def f1 intro: base_ok_same)
  then show ?thesis
    using run i(1) f1 tk(2) by (intro exI [of _ i] exI [of _ dev2]) (simp add: dev2_def e_def spent_def i(5))
qed

lemma chunk_idx:
  assumes "unat c < 2 ^ 32 * nent q"
  shows "unat (chunk_l1 q c) = unat c div nent q" "unat (chunk_l2 q c) = unat c mod nent q"
proof -
  show "unat (chunk_l1 q c) = unat c div nent q"
    unfolding chunk_l1_def using assms by (rule unat_l1_idx)
  have "0 < nent q"
    using assms by (cases "nent q") auto
  then have "unat c mod nent q < 4294967296"
    using unat_u32_lt [of "l2_entries q"] mod_less_divisor [of "nent q" "unat c"] by linarith
  then show "unat (chunk_l2 q c) = unat c mod nent q"
    by (simp add: chunk_l2_def unsigned_ucast_eq unat_l2_idx take_bit_nat_eq_self)
qed

text \<open>The table of a cluster in the cache, and the cluster's entry in it.\<close>

lemma l2_ready:
  assumes q: "qinv crc dev T C FL B" and plan: "io_plan dev = []" and c: "unat c < 2 ^ 32 * nent (qcow2 dev)"
    and t: "ticks dev (1 + m)"
  shows "\<exists>k dev'. lbd_qcow2_l2_get crc (chunk_l1 (qcow2 dev) c) dev = (Ptr k, dev') \<and> k < 16 \<and> l2_valid (l2_at dev' k) \<and>
    unat (l2_l1_index (l2_at dev' k)) = unat c div nent (qcow2 dev) \<and>
    l2_table (l2_at dev' k) ! unat (chunk_l2 (qcow2 dev) c) = ent (nent (qcow2 dev)) T (unat c) \<and>
    qinv crc dev' T C FL B \<and> shell dev' = shell dev \<and> spent dev dev' 1 \<and> io_plan dev' = [] \<and>
    cl_cache (qcow2 dev') = cl_cache (qcow2 dev)"
proof -
  let ?q = "qcow2 dev" and ?t = "lru_tick (qcow2 dev)" and ?l1 = "chunk_l1 (qcow2 dev) c"
  note idx = chunk_idx [OF c]
  have tk: "?t < ?t + 1" "unat (?t + 1) = unat ?t + 1"
    using t tick_Suc [of ?t "1 + m"] by (auto simp: ticks_def)
  obtain p1 es pl where g: "lbd_qcow2_l2_get crc ?l1 dev = (p1, dev\<lparr>qcow2 := ?q\<lparr>lru_tick := ?t + 1, l2_cache := es\<rparr>, io_plan := pl\<rparr>)"
    "io_plan dev = [] \<longrightarrow> pl = []" "l2coh (csz ?q) (nent ?q) T (?t + 1) es"
    "(\<exists>k < 16. p1 = Ptr k \<and> l2_valid (es ! k) \<and> l2_l1_index (es ! k) = ?l1) \<or> (p1 = Null \<and> io_plan dev \<noteq> [])"
    using l2_get_spec [OF qinvD(2,3,4) [OF q] tk(1), where i = ?l1] by blast
  then obtain k where k: "k < 16" "p1 = Ptr k" "l2_valid (es ! k)" "l2_l1_index (es ! k) = ?l1"
    using plan by blast
  define dev' where "dev' = dev\<lparr>qcow2 := ?q\<lparr>lru_tick := ?t + 1, l2_cache := es\<rparr>, io_plan := pl\<rparr>"
  have "qinv crc dev' T C FL B"
    using g(3) clcoh_mono [OF qinvD(5) [OF q] less_imp_le [OF tk(1)]] qinvD(6) [OF q]
    by (intro qinvI_shell [OF q]) (auto simp: dev'_def intro: base_ok_same)
  moreover have "l2_table (es ! k) ! unat (chunk_l2 ?q c) = ent (nent ?q) T (unat c)"
    using l2coh_lookup [OF g(3) k(1,3,4), of "unat c mod nent ?q"] idx nent_pos [OF qinvD(2) [OF q]] by (simp add: ent_def)
  ultimately show ?thesis
    using g(1,2) k plan idx(1) tk(2) by (intro exI [of _ k] exI [of _ dev']) (simp add: dev'_def spent_def)
qed

text \<open>The cluster's slot for a write: loaded, or zeroed when no layer has the cluster.\<close>

lemma write_slot:
  assumes q: "qinv crc dev T C FL B" and plan: "io_plan dev = []" and c: "cbound (csz (qcow2 dev)) (nent (qcow2 dev)) c"
    and t: "ticks dev (4 + m)"
  shows "\<exists>i dev'. (case lbd_qcow2_cl_load crc c dev of (ErrPtr _, dev) \<Rightarrow> lbd_qcow2_cl_get_zero c dev | r \<Rightarrow> r) = (Ptr i, dev') \<and>
    i < 16 \<and> cl_valid (cl_at dev' i) \<and> cl_cluster_index (cl_at dev' i) = c \<and> qinv crc dev' T C FL B \<and>
    shell dev' = shell dev \<and> spent dev dev' 4 \<and> io_plan dev' = []"
proof -
  have t': "ticks dev (3 + (1 + m))"
    using t by (simp add: ticks_def)
  obtain p dev1 where l: "lbd_qcow2_cl_load crc c dev = (p, dev1)" "qinv crc dev1 T C FL B" "shell dev1 = shell dev"
    "spent dev dev1 3" "io_plan dev = [] \<longrightarrow> io_plan dev1 = []"
    "(\<exists>i < 16. p = Ptr i \<and> cl_valid (cl_at dev1 i) \<and> cl_cluster_index (cl_at dev1 i) = c) \<or>
     (p = ErrPtr ENODATA \<and> miss_handler dev \<noteq> None \<and> ent (nent (qcow2 dev)) T (unat c) = 0 \<and> B (unat c) = None \<and>
        cl_absent c (cl_cache (qcow2 dev1))) \<or> (p = Null \<and> io_plan dev \<noteq> [])"
    using cl_load_spec [OF q c t'] by blast
  note qf = qshell_fields [OF shell_fields(2) [OF l(3)]]
  show ?thesis
  proof (cases p)
    case (Ptr i)
    then show ?thesis
      using l plan by (intro exI [of _ i] exI [of _ dev1]) (auto intro: spent_mono)
  next
    case (ErrPtr e)
    then have h: "vw (qcow2 dev1) T C B (unat c) = replicate (csz (qcow2 dev1)) 0" "cl_absent c (cl_cache (qcow2 dev1))"
      using l(6) by (auto simp: view_def qf)
    obtain i dev2 where z: "lbd_qcow2_cl_get_zero c dev1 = (Ptr i, dev2)" "i < 16" "cl_valid (cl_at dev2 i)"
      "cl_cluster_index (cl_at dev2 i) = c" "qinv crc dev2 T C FL B" "shell dev2 = shell dev1" "spent dev1 dev2 1"
      "io_plan dev2 = io_plan dev1"
      using cl_get_zero_spec [OF l(2) spent_ticks [OF t' l(4)] h(2,1)] by blast
    then show ?thesis
      using l(1,3,5) ErrPtr plan spent_trans [OF l(4) z(7)] by (intro exI [of _ i] exI [of _ dev2]) simp
  next
    case Null
    then show ?thesis
      using l(6) plan by auto
  qed
qed

lemma spent_evolve:
  "base dev' = base dev \<Longrightarrow> lru_tick (qcow2 dev') = lru_tick (qcow2 dev) \<Longrightarrow> spent dev dev' 0"
  by (simp add: spent_def)

text \<open>
  From a loaded slot on: the table is fetched, the old extent measured, and any new contents
  of the slot can be committed.
\<close>

lemma chunk_commit:
  assumes q: "qinv crc dev T C FL B" and plan: "io_plan dev = []" and c: "unat c < 2 ^ 32 * nent (qcow2 dev)"
    and l1: "unat c div nent (qcow2 dev) < unat (l1_size (qcow2 dev))" "l1_table (qcow2 dev) ! (unat c div nent (qcow2 dev)) \<noteq> 0"
    and i: "i < 16" "cl_valid (cl_at dev i)" "cl_cluster_index (cl_at dev i) = c"
    and t: "ticks dev (1 + m)" and room: "unat (alloc_offset (qcow2 dev)) + csz (qcow2 dev) \<le> 2 ^ 62"
  shows "\<exists>k dev1 old. lbd_qcow2_l2_get crc (chunk_l1 (qcow2 dev) c) dev = (Ptr k, dev1) \<and>
    l2_table (l2_at dev1 k) ! unat (chunk_l2 (qcow2 dev) c) = ent (nent (qcow2 dev)) T (unat c) \<and>
    cl_data (cl_at dev1 i) = vw (qcow2 dev) T C B (unat c) \<and> qinv crc dev1 T C FL B \<and> shell dev1 = shell dev \<and>
    spent dev dev1 1 \<and> io_plan dev1 = [] \<and>
    lbd_qcow2_read_old_alloc_size (ent (nent (qcow2 dev)) T (unat c)) dev1 = (old, dev1) \<and>
    (\<forall>data. lbd_qcow2_read_old_alloc_size (ent (nent (qcow2 dev)) T (unat c)) (upd_cl i (\<lambda>e. e\<lparr>cl_data := data\<rparr>) dev1) =
       (old, upd_cl i (\<lambda>e. e\<lparr>cl_data := data\<rparr>) dev1)) \<and>
    (\<forall>check data. length data = csz (qcow2 dev) \<longrightarrow>
       (\<exists>dev' T' C' FL'. commit_cluster crc check i k (chunk_l2 (qcow2 dev) c) (ent (nent (qcow2 dev)) T (unat c)) old
           (upd_cl i (\<lambda>e. e\<lparr>cl_data := data\<rparr>) dev1) = (Inr (), dev') \<and> qinv crc dev' T' C' FL' B \<and>
         stored_layer (nent (qcow2 dev)) T' C' = (stored_layer (nent (qcow2 dev)) T C)(unat c \<mapsto> data) \<and>
         evolves dev dev' \<and> spent dev dev' 1 \<and> synced dev' \<and>
         unat (alloc_offset (qcow2 dev')) \<le> unat (alloc_offset (qcow2 dev)) + csz (qcow2 dev)))"
proof -
  let ?q = "qcow2 dev" and ?cs = "csz (qcow2 dev)" and ?n = "nent (qcow2 dev)"
  let ?e = "ent (nent (qcow2 dev)) T (unat c)" and ?j = "chunk_l2 (qcow2 dev) c"
  note idx = chunk_idx [OF c]
  obtain k dev1 where d: "lbd_qcow2_l2_get crc (chunk_l1 ?q c) dev = (Ptr k, dev1)" "k < 16" "l2_valid (l2_at dev1 k)"
    "unat (l2_l1_index (l2_at dev1 k)) = unat c div ?n" "l2_table (l2_at dev1 k) ! unat ?j = ?e"
    "qinv crc dev1 T C FL B" "shell dev1 = shell dev" "spent dev dev1 1" "io_plan dev1 = []"
    "cl_cache (qcow2 dev1) = cl_cache ?q"
    using l2_ready [OF q plan c t] by blast
  note s = qshell_fields [OF shell_fields(2) [OF d(7)]]
  have V: "cl_data (cl_at dev1 i) = vw ?q T C B (unat c)"
    using clcoh_entry(2) [OF qinvD(5) [OF d(6)] i(1)] i(2,3) d(10) by (simp add: s)
  have cs1: "csz (qcow2 dev1) \<le> 16777216"
    using csz_le [OF qinvD(2) [OF d(6)]] .
  have st: "?e \<noteq> 0 \<Longrightarrow> stored (csz (qcow2 dev1)) (backing_file dev1) ?e (C (unat c))"
    using qinvD(8) [OF d(6), of "unat c"] by (simp add: s)
  obtain old where o: "lbd_qcow2_read_old_alloc_size ?e dev1 = (old, dev1)"
    "unat old = ext_len (csz (qcow2 dev1)) (backing_file dev1) ?e"
    using read_old_spec [OF d(9) cs1 st] by auto
  have o2: "lbd_qcow2_read_old_alloc_size ?e (upd_cl i (\<lambda>e. e\<lparr>cl_data := data\<rparr>) dev1) =
      (old, upd_cl i (\<lambda>e. e\<lparr>cl_data := data\<rparr>) dev1)" for data
    using read_old_spec [of "upd_cl i (\<lambda>e. e\<lparr>cl_data := data\<rparr>) dev1" ?e "C (unat c)"] d(9) cs1 st o(2)
    by (auto simp: word_unat_eq_iff)
  have cm: "\<exists>dev' T' C' FL'. commit_cluster crc check i k ?j ?e old (upd_cl i (\<lambda>e. e\<lparr>cl_data := data\<rparr>) dev1) = (Inr (), dev') \<and>
      qinv crc dev' T' C' FL' B \<and> stored_layer ?n T' C' = (stored_layer ?n T C)(unat c \<mapsto> data) \<and>
      evolves dev dev' \<and> spent dev dev' 1 \<and> synced dev' \<and> unat (alloc_offset (qcow2 dev')) \<le> unat (alloc_offset ?q) + ?cs"
    if len: "length data = ?cs" for check data
  proof -
    have "unat c div nent (qcow2 dev1) < unat (l1_size (qcow2 dev1))"
      "l1_table (qcow2 dev1) ! (unat c div nent (qcow2 dev1)) \<noteq> 0"
      "cl_valid (cl_at dev1 i)" "cl_cluster_index (cl_at dev1 i) = c"
      "unat (l2_l1_index (l2_at dev1 k)) = unat c div nent (qcow2 dev1)" "unat ?j = unat c mod nent (qcow2 dev1)"
      "length data = csz (qcow2 dev1)"
      "unat old = ext_len (csz (qcow2 dev1)) (backing_file dev1) (ent (nent (qcow2 dev1)) T (unat c))"
      "unat (alloc_offset (qcow2 dev1)) + csz (qcow2 dev1) \<le> 2 ^ 62"
      using l1 idx i d(4,10) o(2) room len by (simp_all add: s)
    then obtain dev' T' C' FL' where m: "commit_cluster crc check i k ?j (ent (nent (qcow2 dev1)) T (unat c)) old
        (upd_cl i (\<lambda>e. e\<lparr>cl_data := data\<rparr>) dev1) = (Inr (), dev')" "qinv crc dev' T' C' FL' B"
      "stored_layer (nent (qcow2 dev1)) T' C' = (stored_layer (nent (qcow2 dev1)) T C)(unat c \<mapsto> data)"
      "evolves dev1 dev'" "base dev' = base dev1" "lru_tick (qcow2 dev') = lru_tick (qcow2 dev1)" "synced dev'"
      "unat (alloc_offset (qcow2 dev')) \<le> unat (alloc_offset (qcow2 dev1)) + csz (qcow2 dev1)"
      using commit_spec [OF d(6,9) _ _ i(1) _ _ d(2,3)] by blast
    have "evolves dev dev'" "spent dev dev' 1"
      using evolves_trans [OF shell_evolves [OF d(7)] m(4)] d(9) plan spent_trans [OF d(8) spent_evolve [OF m(5,6)]] by simp_all
    then show ?thesis
      using m(1,2,3,7,8) by (intro exI [of _ dev'] exI [of _ T'] exI [of _ C'] exI [of _ FL']) (simp add: s)
  qed
  show ?thesis
    using d(1,5,6,7,8,9) V o(1) o2 cm by (intro exI [of _ k] exI [of _ dev1] exI [of _ old]) blast
qed

lemma write_chunk_spec:
  assumes q: "qinv crc dev T C FL B" and plan: "io_plan dev = []"
    and c: "cbound (csz (qcow2 dev)) (nent (qcow2 dev)) c" "unat c div nent (qcow2 dev) < unat (l1_size (qcow2 dev))"
    and t: "ticks dev (5 + m)" and n: "unat off + length bs \<le> csz (qcow2 dev)"
    and room: "unat (alloc_offset (qcow2 dev)) + 2 * csz (qcow2 dev) \<le> 2 ^ 62"
  shows "\<exists>dev' T' C' FL'. write_chunk crc bs c off dev = (Inr (), dev') \<and> qinv crc dev' T' C' FL' B \<and>
    stored_layer (nent (qcow2 dev)) T' C' = (stored_layer (nent (qcow2 dev)) T C)
      (unat c \<mapsto> blit (vw (qcow2 dev) T C B (unat c)) (unat off) bs) \<and>
    evolves dev dev' \<and> spent dev dev' 5 \<and> synced dev' \<and>
    unat (alloc_offset (qcow2 dev')) \<le> unat (alloc_offset (qcow2 dev)) + 2 * csz (qcow2 dev)"
proof -
  let ?q = "qcow2 dev" and ?l1 = "chunk_l1 (qcow2 dev) c" and ?cs = "csz (qcow2 dev)" and ?n = "nent (qcow2 dev)"
  have cn: "unat c < 2 ^ 32 * ?n"
    using c(1) by (simp add: cbound_def)
  note idx = chunk_idx [OF cn]
  have l1: "unat ?l1 < unat (l1_size ?q)" and room1: "unat (alloc_offset ?q) + ?cs \<le> 2 ^ 62"
    using c(2) idx(1) room by simp_all
  obtain dev1 where a: "lbd_qcow2_l2_alloc crc ?l1 dev = (Inr (), dev1)" "qinv crc dev1 T C FL B" "evolves dev dev1"
    "base dev1 = base dev" "lru_tick (qcow2 dev1) = lru_tick ?q" "l1_table (qcow2 dev1) ! unat ?l1 \<noteq> 0"
    "unat (alloc_offset (qcow2 dev1)) \<le> unat (alloc_offset ?q) + ?cs"
    using l2_alloc_spec [OF q plan l1 room1] by blast
  note e1 = evolves_fields [OF a(3)]
  have t1: "ticks dev1 (4 + (1 + m))"
    using t a(4,5) by (simp add: ticks_def)
  have plan1: "io_plan dev1 = []" and c1: "cbound (csz (qcow2 dev1)) (nent (qcow2 dev1)) c"
    using plan c(1) by (simp_all add: e1)
  obtain i dev2 where b: "(case lbd_qcow2_cl_load crc c dev1 of (ErrPtr _, dev) \<Rightarrow> lbd_qcow2_cl_get_zero c dev | r \<Rightarrow> r) = (Ptr i, dev2)"
    "i < 16" "cl_valid (cl_at dev2 i)" "cl_cluster_index (cl_at dev2 i) = c" "qinv crc dev2 T C FL B"
    "shell dev2 = shell dev1" "spent dev1 dev2 4" "io_plan dev2 = []"
    using write_slot [OF a(2) plan1 c1 t1] by blast
  note s2 = qshell_fields [OF shell_fields(2) [OF b(6)]]
  have f: "csz (qcow2 dev2) = ?cs" "nent (qcow2 dev2) = ?n" "l1_size (qcow2 dev2) = l1_size ?q"
    "alloc_offset (qcow2 dev2) = alloc_offset (qcow2 dev1)" "chunk_l1 (qcow2 dev2) c = ?l1" "chunk_l2 (qcow2 dev2) c = chunk_l2 ?q c"
    by (simp_all add: s2 e1 chunk_l1_def chunk_l2_def)
  have pre: "unat c < 2 ^ 32 * nent (qcow2 dev2)" "unat c div nent (qcow2 dev2) < unat (l1_size (qcow2 dev2))"
    "l1_table (qcow2 dev2) ! (unat c div nent (qcow2 dev2)) \<noteq> 0" "unat (alloc_offset (qcow2 dev2)) + csz (qcow2 dev2) \<le> 2 ^ 62"
    using cn c(2) a(6,7) idx room by (simp_all add: s2 e1)
  let ?data = "blit (vw ?q T C B (unat c)) (unat off) bs"
  have len: "length ?data = ?cs"
    using n view_length [OF q] by (simp add: length_blit)
  obtain k dev3 old where d: "lbd_qcow2_l2_get crc ?l1 dev2 = (Ptr k, dev3)"
    "l2_table (l2_at dev3 k) ! unat (chunk_l2 ?q c) = ent ?n T (unat c)" "cl_data (cl_at dev3 i) = vw ?q T C B (unat c)"
    "lbd_qcow2_read_old_alloc_size (ent ?n T (unat c)) dev3 = (old, dev3)"
    and cm: "\<And>check data. length data = ?cs \<Longrightarrow> \<exists>dev' T' C' FL'. commit_cluster crc check i k (chunk_l2 ?q c) (ent ?n T (unat c)) old
        (upd_cl i (\<lambda>e. e\<lparr>cl_data := data\<rparr>) dev3) = (Inr (), dev') \<and> qinv crc dev' T' C' FL' B \<and>
      stored_layer ?n T' C' = (stored_layer ?n T C)(unat c \<mapsto> data) \<and>
      evolves dev2 dev' \<and> spent dev2 dev' 1 \<and> synced dev' \<and> unat (alloc_offset (qcow2 dev')) \<le> unat (alloc_offset (qcow2 dev1)) + ?cs"
    using chunk_commit [OF b(5,8) pre(1,2,3) b(2,3,4) spent_ticks [OF t1 b(7)] pre(4)] unfolding f by blast
  obtain dev4 T' C' FL' where m: "commit_cluster crc True i k (chunk_l2 ?q c) (ent ?n T (unat c)) old
      (upd_cl i (\<lambda>e. e\<lparr>cl_data := ?data\<rparr>) dev3) = (Inr (), dev4)" "qinv crc dev4 T' C' FL' B"
    "stored_layer ?n T' C' = (stored_layer ?n T C)(unat c \<mapsto> ?data)" "evolves dev2 dev4" "spent dev2 dev4 1" "synced dev4"
    "unat (alloc_offset (qcow2 dev4)) \<le> unat (alloc_offset (qcow2 dev1)) + ?cs"
    using cm [OF len, of True] by blast
  have "upd_cl i (\<lambda>e. e\<lparr>cl_data := blit (cl_data e) (unat off) bs\<rparr>) dev3 = upd_cl i (\<lambda>e. e\<lparr>cl_data := ?data\<rparr>) dev3"
    using d(3) by (simp add: upd_cl_def)
  then have run: "write_chunk crc bs c off dev = (Inr (), dev4)"
    using a(1) b(1) d m(1) by (simp add: write_chunk_def Let_def)
  have "evolves dev dev4"
    using evolves_trans [OF evolves_trans [OF a(3) shell_evolves [OF b(6)]] m(4)] b(8) plan1 by simp
  moreover have "spent dev dev4 5"
    using spent_trans [OF spent_trans [OF spent_evolve [OF a(4,5)] b(7)] m(5)] by simp
  ultimately show ?thesis
    using run m(2,3,6,7) a(7) by (intro exI [of _ dev4] exI [of _ T'] exI [of _ C'] exI [of _ FL']) simp
qed

section \<open>The abstract write\<close>

text \<open>
  What writing \<open>bs\<close> at byte \<open>x\<close> does to the store: every touched cluster is stored in the
  primary layer, with the new bytes inside the range and the shown bytes outside.
\<close>

definition touched :: "nat \<Rightarrow> nat \<Rightarrow> nat \<Rightarrow> nat \<Rightarrow> bool" where
  "touched cs x n c \<longleftrightarrow> (\<exists>y \<in> {x..<x + n}. y div cs = c)"

definition written :: "nat \<Rightarrow> nat \<Rightarrow> bytes \<Rightarrow> bytes \<Rightarrow> nat \<Rightarrow> bytes" where
  "written cs x bs old c =
     map (\<lambda>i. if x \<le> c * cs + i \<and> c * cs + i < x + length bs then bs ! (c * cs + i - x) else old ! i) [0..<cs]"

definition write_layers :: "nat \<Rightarrow> nat \<Rightarrow> bytes \<Rightarrow> layers \<Rightarrow> layers" where
  "write_layers cs x bs L =
     ((\<lambda>c. if touched cs x (length bs) c then Some (written cs x bs (shown cs L c) c) else fst L c), snd L)"

lemma length_written [simp]: "length (written cs x bs old c) = cs"
  by (simp add: written_def)

lemma cluster_div: "i < cs \<Longrightarrow> (c * cs + i) div cs = c" for cs :: nat
  by simp

lemma untouched: "\<not> touched cs x n c \<Longrightarrow> i < cs \<Longrightarrow> \<not> (x \<le> c * cs + i \<and> c * cs + i < x + n)"
  unfolding touched_def using cluster_div [of i cs c] by (metis atLeastLessThan_iff)

lemma shown_stored: "fst L c = Some bs \<Longrightarrow> shown cs L c = bs"
  by (simp add: shown_def)

lemma shown_cong: "fst L' c = fst L c \<Longrightarrow> snd L' c = snd L c \<Longrightarrow> shown cs L' c = shown cs L c"
  unfolding shown_def by (simp only:)

lemma shown_write:
  assumes "i < cs"
  shows "shown cs (write_layers cs x bs L) c ! i =
    (if x \<le> c * cs + i \<and> c * cs + i < x + length bs then bs ! (c * cs + i - x) else shown cs L c ! i)"
proof (cases "touched cs x (length bs) c")
  case True
  then have "shown cs (write_layers cs x bs L) c = written cs x bs (shown cs L c) c"
    by (intro shown_stored) (simp add: write_layers_def)
  then show ?thesis
    using assms by (simp add: written_def)
next
  case False
  then have "shown cs (write_layers cs x bs L) c = shown cs L c"
    by (intro shown_cong) (simp_all add: write_layers_def)
  then show ?thesis
    using untouched [OF False assms] by auto
qed

lemma disk_byte_write:
  assumes "0 < cs"
  shows "disk_byte cs (write_layers cs x bs L) y = (if x \<le> y \<and> y < x + length bs then bs ! (y - x) else disk_byte cs L y)"
  using assms shown_write [of "y mod cs" cs x bs L "y div cs"] by (simp add: disk_byte_def)

lemma touched_append: "touched cs x (a + b) c \<longleftrightarrow> touched cs x a c \<or> touched cs (x + a) b c"
proof -
  have "{x..<x + (a + b)} = {x..<x + a} \<union> {x + a..<x + a + b}"
    by auto
  then show ?thesis
    unfolding touched_def by blast
qed

lemma write_layers_append:
  "write_layers cs x (as @ bs) L = write_layers cs (x + length as) bs (write_layers cs x as L)"
proof -
  let ?L1 = "write_layers cs x as L"
  have w: "written cs (x + length as) bs (shown cs ?L1 c) c = written cs x (as @ bs) (shown cs L c) c" for c
    by (auto simp: written_def shown_write nth_append not_less intro!: map_cong)
  have w1: "written cs x as (shown cs L c) c = written cs x (as @ bs) (shown cs L c) c"
    if "\<not> touched cs (x + length as) (length bs) c" for c
    unfolding written_def
  proof (rule map_cong [OF refl])
    fix i assume "i \<in> set [0..<cs]"
    then show "(if x \<le> c * cs + i \<and> c * cs + i < x + length as then as ! (c * cs + i - x) else shown cs L c ! i) =
      (if x \<le> c * cs + i \<and> c * cs + i < x + length (as @ bs) then (as @ bs) ! (c * cs + i - x) else shown cs L c ! i)"
      using untouched [OF that, of i] by (auto simp: nth_append)
  qed
  have "fst (write_layers cs x (as @ bs) L) c = fst (write_layers cs (x + length as) bs ?L1) c" for c
    using w [of c] w1 [of c] touched_append [of cs x "length as" "length bs" c]
    by (simp add: write_layers_def [of _ _ "as @ bs"] write_layers_def [of _ "x + length as"])
      (simp add: write_layers_def)
  then show ?thesis
    by (intro prod_eqI ext) (simp_all add: write_layers_def)
qed

lemma write_layers_Nil [simp]: "write_layers cs x [] L = L"
  by (simp add: write_layers_def touched_def)

lemma touched_chunk:
  assumes "0 < n" "x mod cs + n \<le> cs"
  shows "touched cs x n c \<longleftrightarrow> c = x div cs"
proof
  assume "touched cs x n c"
  then obtain y where y: "x \<le> y" "y < x + n" "y div cs = c"
    by (auto simp: touched_def)
  moreover have "x = x div cs * cs + x mod cs"
    by simp
  ultimately have "y = x div cs * cs + (x mod cs + (y - x))" "x mod cs + (y - x) < cs"
    using assms(2) by linarith+
  then show "c = x div cs"
    using y(3) cluster_div by metis
next
  assume "c = x div cs"
  then show "touched cs x n c"
    using assms(1) by (auto simp: touched_def intro!: bexI [of _ x])
qed

lemma written_chunk:
  assumes bs: "x mod cs + length bs \<le> cs" and len: "length old = cs"
  shows "written cs x bs old (x div cs) = blit old (x mod cs) bs"
proof (rule nth_equalityI)
  show "length (written cs x bs old (x div cs)) = length (blit old (x mod cs) bs)"
    using bs len by (simp add: length_blit)
next
  fix i assume "i < length (written cs x bs old (x div cs))"
  then have i: "i < cs"
    by simp
  have "x = x div cs * cs + x mod cs"
    by simp
  then have "x \<le> x div cs * cs + i \<longleftrightarrow> x mod cs \<le> i" "x div cs * cs + i < x + length bs \<longleftrightarrow> i < x mod cs + length bs"
    "x div cs * cs + i - x = i - x mod cs"
    by linarith+
  then show "written cs x bs old (x div cs) ! i = blit old (x mod cs) bs ! i"
    using i bs len by (simp add: written_def nth_blit)
qed

lemma write_layers_chunk:
  assumes "bs \<noteq> []" "x mod cs + length bs \<le> cs" "length (shown cs L (x div cs)) = cs"
  shows "write_layers cs x bs L = ((fst L)(x div cs \<mapsto> blit (shown cs L (x div cs)) (x mod cs) bs), snd L)"
  using assms touched_chunk [of "length bs" x cs] written_chunk [of x cs bs] by (auto simp: write_layers_def)

section \<open>Requests\<close>

lemma abs_imgI: "qinv crc dev T C FL B \<Longrightarrow> L = (stored_layer (nent (qcow2 dev)) T C, B) \<Longrightarrow> abs_img crc dev L"
  by (auto simp: abs_img_def)

text \<open>Guest ranges covered by the L1 table, by their end.\<close>

definition fits :: "lbd_qcow2 \<Rightarrow> nat \<Rightarrow> bool" where
  "fits q x \<longleftrightarrow> x \<le> 2 ^ 62 \<and> x \<le> unat (l1_size q) * nent q * csz q"

lemma fits_inside: "fits q x \<Longrightarrow> inside q x"
proof -
  assume a: "fits q x"
  have "unat (l1_size q) * nent q * csz q \<le> 2 ^ 32 * nent q * csz q"
    using unat_u32_lt [of "l1_size q"] by (intro mult_le_mono1) simp
  then show ?thesis
    using a unfolding fits_def inside_def by linarith
qed

lemma fits_l1:
  assumes "fits q y" "x < y" "0 < csz q"
  shows "x div csz q div nent q < unat (l1_size q)"
proof -
  have "x < unat (l1_size q) * (nent q * csz q)"
    using assms(1,2) by (simp add: fits_def mult.assoc)
  then show ?thesis
    by (simp add: div_mult2_eq [symmetric] mult.commute less_mult_imp_div_less)
qed

lemma write_loop_spec:
  assumes "qinv crc dev T C FL B" "io_plan dev = []" "length data < 2 ^ 32" "pos \<le> length data"
    "fits (qcow2 dev) (unat g + (length data - pos))"
    "ticks dev (5 * span (csz (qcow2 dev)) (unat g) (length data - pos) + m)"
    "unat (alloc_offset (qcow2 dev)) + 2 * csz (qcow2 dev) * span (csz (qcow2 dev)) (unat g) (length data - pos) \<le> 2 ^ 62"
  shows "\<exists>dev' T' C' FL'. write_loop crc data pos g dev = Some (Inr (), dev') \<and> qinv crc dev' T' C' FL' B \<and>
    (stored_layer (nent (qcow2 dev)) T' C', B) =
      write_layers (csz (qcow2 dev)) (unat g) (drop pos data) (stored_layer (nent (qcow2 dev)) T C, B) \<and>
    evolves dev dev' \<and> ticks dev' m \<and> (synced dev \<or> pos < length data \<longrightarrow> synced dev') \<and> unat (alloc_offset (qcow2 dev')) \<le>
      unat (alloc_offset (qcow2 dev)) + 2 * csz (qcow2 dev) * span (csz (qcow2 dev)) (unat g) (length data - pos)"
  using assms
proof (induction "length data - pos" arbitrary: pos g dev T C FL rule: less_induct)
  case less
  let ?q = "qcow2 dev" and ?cs = "csz (qcow2 dev)" and ?n = "nent (qcow2 dev)" and ?L = "(stored_layer (nent (qcow2 dev)) T C, B)"
  let ?r = "length data - pos"
  note q = less.prems(1)
  have g: "geom ?q"
    using qinvD(2) [OF q] .
  show ?case
  proof (cases "pos < length data")
    case False
    then have "pos = length data"
      using less.prems(4) by simp
    then show ?thesis
      using less.prems by (subst write_loop.simps) (auto simp: span_def)
  next
    case True
    then have r0: "0 < ?r"
      by simp
    have cs0: "0 < ?cs"
      using csz_ge [OF g] by simp
    have ur: "unat (of_nat ?r :: u32) = ?r"
      using less.prems(3) by (simp add: unat_of_nat_u32)
    define b where "b = chunk_bytes ?q g (of_nat ?r)"
    have ub: "unat b = min ?r (?cs - unat g mod ?cs)"
      using chunk_spec(3) [OF g, of g "of_nat ?r"] ur by (simp add: b_def)
    note st = span_step [OF r0 cs0 ub]
    let ?s = "span ?cs (unat g + unat b) (?r - unat b)"
    have g62: "unat g + ?r \<le> 2 ^ 62"
      using less.prems(5) by (simp add: fits_def)
    have ug: "unat (g + ucast b) = unat g + unat b"
      using g62 st(5) by (simp add: unat_plus_u64)
    let ?c = "chunk_cluster ?q g" and ?off = "chunk_off ?q g" and ?bs = "read_at data pos (unat b)"
    note ch = chunk_spec(1,2) [OF g, of g]
    have lbs: "length ?bs = unat b" "?bs \<noteq> []"
      using st(4,5) by (auto simp: length_read_at read_at_def)
    have cb: "cbound ?cs ?n ?c"
      using inside_cbound [OF g fits_inside [OF less.prems(5)]] r0 by simp
    have c1: "unat ?c div ?n < unat (l1_size ?q)"
      using fits_l1 [OF less.prems(5) _ cs0] r0 ch by simp
    have t: "ticks dev (5 + (5 * ?s + m))"
      using less.prems(6) unfolding st(1) by (simp add: add.assoc)
    have room: "unat (alloc_offset ?q) + 2 * ?cs + 2 * ?cs * ?s \<le> 2 ^ 62"
      using less.prems(7) unfolding st(1) by (simp add: algebra_simps)
    then have room1: "unat (alloc_offset ?q) + 2 * ?cs \<le> 2 ^ 62"
      by simp
    have off: "unat ?off + length ?bs \<le> ?cs"
      using st(3) ch lbs by simp
    obtain dev1 T1 C1 FL1 where w: "write_chunk crc ?bs ?c ?off dev = (Inr (), dev1)" "qinv crc dev1 T1 C1 FL1 B"
      "stored_layer ?n T1 C1 = (stored_layer ?n T C)(unat ?c \<mapsto> blit (vw ?q T C B (unat ?c)) (unat ?off) ?bs)"
      "evolves dev dev1" "spent dev dev1 5" "synced dev1"
      "unat (alloc_offset (qcow2 dev1)) \<le> unat (alloc_offset ?q) + 2 * ?cs"
      using write_chunk_spec [OF q less.prems(2) cb c1 t off room1] by blast
    note ev = evolves_fields [OF w(4)]
    have L1: "(stored_layer ?n T1 C1, B) = write_layers ?cs (unat g) ?bs ?L"
      using write_layers_chunk [OF lbs(2), of "unat g" ?cs ?L] st(3) lbs(1) view_length [OF q] w(3) ch
      by (simp add: shown_view)
    have "\<exists>dev' T' C' FL'. write_loop crc data (pos + unat b) (g + ucast b) dev1 = Some (Inr (), dev') \<and> qinv crc dev' T' C' FL' B \<and>
      (stored_layer (nent (qcow2 dev1)) T' C', B) = write_layers (csz (qcow2 dev1)) (unat (g + ucast b)) (drop (pos + unat b) data)
        (stored_layer (nent (qcow2 dev1)) T1 C1, B) \<and> evolves dev1 dev' \<and> ticks dev' m \<and>
      (synced dev1 \<or> pos + unat b < length data \<longrightarrow> synced dev') \<and>
      unat (alloc_offset (qcow2 dev')) \<le> unat (alloc_offset (qcow2 dev1)) +
        2 * csz (qcow2 dev1) * span (csz (qcow2 dev1)) (unat (g + ucast b)) (length data - (pos + unat b))"
    proof (rule less.hyps [OF _ w(2)])
      show "length data - (pos + unat b) < length data - pos"
        using st(4,5) r0 by simp
      show "ticks dev1 (5 * span (csz (qcow2 dev1)) (unat (g + ucast b)) (length data - (pos + unat b)) + m)"
        using spent_ticks [OF t w(5)] by (simp add: ev ug)
      show "fits (qcow2 dev1) (unat (g + ucast b) + (length data - (pos + unat b)))"
      proof -
        have "unat g + unat b + (length data - (pos + unat b)) = unat g + ?r"
          using st(5) by simp
        then show ?thesis
          using less.prems(5) by (simp add: fits_def ev ug)
      qed
      show "unat (alloc_offset (qcow2 dev1)) + 2 * csz (qcow2 dev1) *
          span (csz (qcow2 dev1)) (unat (g + ucast b)) (length data - (pos + unat b)) \<le> 2 ^ 62"
        using room w(7) by (simp add: ev ug)
    qed (use less.prems(2,3) st(5) True ev in simp_all)
    then obtain dev2 T2 C2 FL2 where x: "write_loop crc data (pos + unat b) (g + ucast b) dev1 = Some (Inr (), dev2)"
      "qinv crc dev2 T2 C2 FL2 B"
      "(stored_layer ?n T2 C2, B) = write_layers ?cs (unat g + unat b) (drop (pos + unat b) data) (stored_layer ?n T1 C1, B)"
      "evolves dev1 dev2" "ticks dev2 m" "synced dev2"
      "unat (alloc_offset (qcow2 dev2)) \<le> unat (alloc_offset (qcow2 dev1)) + 2 * ?cs * ?s"
      using w(6) by (auto simp: ev ug)
    have run: "write_loop crc data pos g dev = Some (Inr (), dev2)"
      using True w(1) x(1) by (subst write_loop.simps) (simp add: Let_def b_def)
    have "drop pos data = ?bs @ drop (pos + unat b) data"
      using append_take_drop_id [of "unat b" "drop pos data"] by (simp add: read_at_def add.commute)
    then have "(stored_layer ?n T2 C2, B) = write_layers ?cs (unat g) (drop pos data) ?L"
      using x(3) L1 lbs(1) write_layers_append [of ?cs "unat g" ?bs "drop (pos + unat b) data" ?L] by simp
    moreover have "unat (alloc_offset (qcow2 dev2)) \<le> unat (alloc_offset ?q) + 2 * ?cs * span ?cs (unat g) ?r"
      using x(7) w(7) unfolding st(1) by (simp add: algebra_simps)
    ultimately show ?thesis
      using run x(2,5,6) evolves_trans [OF w(4) x(4)] by blast
  qed
qed

lemma write_spec:
  assumes "abs_img crc dev L" and "io_plan dev = []"
    and "data = concat (rq_segs rq)" and "length data < 2 ^ 32"
    and "x = 512 * unat (rq_pos rq)" and "fits (qcow2 dev) (x + length data)"
    and "n = span (csz (qcow2 dev)) x (length data)" and "ticks dev (5 * n + m)"
    and "unat (alloc_offset (qcow2 dev)) + 2 * csz (qcow2 dev) * n \<le> 2 ^ 62"
  shows "\<exists>dev'. lbd_qcow2_write crc rq dev = Some (Inr (), dev') \<and>
    abs_img crc dev' (write_layers (csz (qcow2 dev)) x data L) \<and> evolves dev dev' \<and>
    (synced dev \<or> data \<noteq> [] \<longrightarrow> synced dev') \<and> ticks dev' m \<and>
    unat (alloc_offset (qcow2 dev')) \<le> unat (alloc_offset (qcow2 dev)) + 2 * csz (qcow2 dev) * n"
proof -
  obtain T C FL B where q: "qinv crc dev T C FL B" and L: "L = (stored_layer (nent (qcow2 dev)) T C, B)"
    using assms(1) by (auto simp: abs_img_def)
  have ux: "unat (push_bit SECTOR_SHIFT (rq_pos rq)) = x"
    using assms(5,6) by (simp add: SECTOR_SHIFT_def push_bit_eq_mult fits_def unat_mult_lem [THEN iffD1] mult.commute)
  obtain dev' T' C' FL' where w: "write_loop crc data 0 (push_bit SECTOR_SHIFT (rq_pos rq)) dev = Some (Inr (), dev')"
    "qinv crc dev' T' C' FL' B" "(stored_layer (nent (qcow2 dev)) T' C', B) = write_layers (csz (qcow2 dev)) x data L"
    "evolves dev dev'" "synced dev \<or> data \<noteq> [] \<longrightarrow> synced dev'" "ticks dev' m"
    "unat (alloc_offset (qcow2 dev')) \<le> unat (alloc_offset (qcow2 dev)) + 2 * csz (qcow2 dev) * n"
    using write_loop_spec [OF q assms(2,4), of 0 "push_bit SECTOR_SHIFT (rq_pos rq)" m] assms(6-9) unfolding ux L
    by auto
  have "abs_img crc dev' (write_layers (csz (qcow2 dev)) x data L)"
    using w(2) by (rule abs_imgI) (simp add: evolves_fields [OF w(4)] w(3))
  then show ?thesis
    using w(1,4-7) assms(2,3) by (simp add: lbd_qcow2_write_def Let_def)
qed

text \<open>C3: Without I/O failures a write inside the range of the L1 table returns success. The device
  then refines the store in which every touched cluster is held by the primary layer with
  exactly the written byte range replaced, and the image file alone describes that store: tables,
  free list and allocation cursor are all on disk.\<close>

theorem write_refines:
  assumes "abs_img crc dev L" and "io_plan dev = []"
    and "data = concat (rq_segs rq)" and "length data < 2 ^ 32"
    and "x = 512 * unat (rq_pos rq)" and "fits (qcow2 dev) (x + length data)"
    and "n = span (csz (qcow2 dev)) x (length data)" and "ticks dev (5 * n)"
    and "unat (alloc_offset (qcow2 dev)) + 2 * csz (qcow2 dev) * n \<le> 2 ^ 62"
  shows "\<exists>dev'. lbd_qcow2_write crc rq dev = Some (Inr (), dev') \<and>
    abs_img crc dev' (write_layers (csz (qcow2 dev)) x data L) \<and> evolves dev dev' \<and>
    (synced dev \<or> data \<noteq> [] \<longrightarrow> synced dev')"
  using write_spec [OF assms(1-7), where m = 0] assms(8,9) by auto

end
