(* ===== verification/Qcow2_Discard.thy ===== *)
theory Qcow2_Discard
  imports Qcow2_Write
begin

text \<open>
  Correctness of \<open>lbd_qcow2_discard\<close>: with no I/O failure a discard within the L1 table returns
  success; whole clusters leave the primary image, partly covered clusters that the primary
  image holds are zeroed in the range, and everything else is kept.
\<close>

section \<open>Dropping a cluster\<close>

lemma cl_absent_cong:
  assumes "clcoh cs V tick es" "cl_absent c es"
  shows "clcoh cs (V(unat c := x)) tick es"
proof -
  have "coherent cl_valid cl_cluster_index cl_lru cl_data (\<lambda>k bs. bs = (V(unat c := x)) (unat k)) tick es"
  proof (rule clc.coherent_mono)
    show "coherent cl_valid cl_cluster_index cl_lru cl_data (\<lambda>k bs. bs = V (unat k)) tick es"
      using assms(1) by (simp add: clcoh_def)
    show "cl_data e = (V(unat c := x)) (unat (cl_cluster_index e))"
      if "e \<in> set es" "cl_valid e" "cl_data e = V (unat (cl_cluster_index e))" for e
      using that assms(2) by (auto simp: cl_absent_def dest!: word_unat_eq_iff [THEN iffD2])
  qed simp
  then show ?thesis
    using assms(1) by (simp add: clcoh_def)
qed

lemma cl_invalidate_spec:
  assumes "clcoh cs V tick (cl_cache (qcow2 dev))"
  shows "\<exists>es. lbd_qcow2_cl_invalidate c dev = dev\<lparr>qcow2 := (qcow2 dev)\<lparr>cl_cache := es\<rparr>\<rparr> \<and> clcoh cs (V(unat c := x)) tick es"
proof (cases "first_slot (\<lambda>e. cl_valid e \<and> cl_cluster_index e = c) (cl_cache (qcow2 dev)) 0")
  case None
  then have "cl_absent c (cl_cache (qcow2 dev))"
    by (auto simp: first_slot_None cl_absent_def)
  then show ?thesis
    using None cl_absent_cong [OF assms] by (intro exI [of _ "cl_cache (qcow2 dev)"]) (simp add: lbd_qcow2_cl_invalidate_def)
next
  case (Some i)
  let ?es = "cl_cache (qcow2 dev)"
  let ?es' = "?es[i := (?es ! i)\<lparr>cl_valid := False\<rparr>]"
  note i = clc.hit [OF Some]
  have len: "length ?es = 16"
    using assms by (simp add: clcoh_def)
  have c': "clcoh cs V tick ?es'"
    using i len clcoh_entry(1) [OF assms, of i] by (intro clcoh_update [OF assms]) simp_all
  have "cl_absent c ?es'"
    unfolding cl_absent_def
  proof (intro ballI impI)
    fix e assume e: "e \<in> set ?es'" "cl_valid e"
    then obtain j where j: "j < length ?es" "?es' ! j = e"
      by (metis in_set_conv_nth length_list_update)
    have ne: "j \<noteq> i"
      using j e(2) by auto
    then have ej: "?es ! j = e"
      using j(2) by simp
    show "cl_cluster_index e \<noteq> c"
    proof
      assume "cl_cluster_index e = c"
      then have "j = i"
        using assms j(1) i e(2) ej unfolding clcoh_def coherent_def by blast
      then show False
        using ne by simp
    qed
  qed
  then show ?thesis
    using Some cl_absent_cong [OF c'] by (intro exI [of _ ?es']) (simp add: lbd_qcow2_cl_invalidate_def upd_cl_def)
qed

lemma view_drop:
  assumes "length (T (c div n)) = n" "0 < n"
  shows "view cs n (T(c div n := (T (c div n))[c mod n := 0])) C B =
      (view cs n T C B)(c := case B c of Some bs \<Rightarrow> bs | None \<Rightarrow> replicate cs 0)"
    "stored_layer n (T(c div n := (T (c div n))[c mod n := 0])) C = (stored_layer n T C)(c := None)"
  by (rule ext, simp add: view_def stored_layer_def ent_upd [of T c n, OF assms])+

text \<open>Freeing the extent of a cluster and clearing its L2 entry.\<close>

lemma drop_disk:
  assumes di: "dinv crc q f T C FL" and i: "i = c div nent q" "i < unat (l1_size q)" "l1_table q ! i \<noteq> 0"
    and u1: "unch (lay q f T FL (Data c) \<union> {48..<56}) f f1" and hd1: "read_at f1 48 8 = be64 p"
    and sp1: "space ((lay q f T FL)(Data c := {}, Free (unat p) := lay q f T FL (Data c))) (unat (alloc_offset q)) f1 FL' p"
    and tab: "length tab \<ge> nent q" "take (nent q) tab = (T i)[c mod nent q := 0]"
    and f3: "f3 = write_at f1 (unat (l1_table q ! i)) (l2_encode crc (csz q) (nent q) tab)"
  shows "dinv crc (q\<lparr>free_list_head := p\<rparr>) f3 (T(i := (T i)[c mod nent q := 0])) C FL'"
    "read_at f3 36 8 = read_at f 36 8"
proof -
  let ?G = "lay q f T FL" and ?W = "- others (lay q f T FL) i c"
  let ?G' = "?G(Data c := {}, Free (unat p) := ?G (Data c))"
  let ?R = "{unat (l1_table q ! i)..<unat (l1_table q ! i) + csz q}"
  have g: "geom q" and sp0: "space ?G (unat (alloc_offset q)) f FL (free_list_head q)"
    using di by (simp_all add: dinv_def)
  have hdr: "?G Hdr = {0..<4096}"
    by simp
  note od = others_disjoint [OF spaceD(1) [OF sp0] hdr, where i = i and c = c]
  have "{48..<56} \<subseteq> {36..<4096 :: nat}"
    by auto
  then have "?G (Data c) \<union> {48..<56} \<subseteq> ?W"
    using od(3,4) by (intro Un_least) (blast intro: subset_trans)+
  then have u: "unch ?W f f1"
    by (rule unch_mono [OF u1])
  have gr: "grants ?G c (ext_len (csz q) f1 0) ?G' (entry_phys 0)"
    by (auto simp: grants_def ext_len_def entry_phys_def)
  have "dinv crc (q\<lparr>free_list_head := p, alloc_offset := alloc_offset q\<rparr>) f3 (T(i := (T i)[c mod nent q := 0])) (C(c := C c)) FL'"
    by (rule table_disk [OF di i u sp1 hd1 gr _ tab f3]) simp
  then show "dinv crc (q\<lparr>free_list_head := p\<rparr>) f3 (T(i := (T i)[c mod nent q := 0])) C FL'"
    by simp
  have len: "length (l2_encode crc (csz q) (nent q) tab) = csz q"
    using nent_csz [OF g] by (intro length_l2_encode) simp_all
  have d: "?G a \<inter> {0..<4096} = {}" if "a \<noteq> Hdr" for a
    using sep_disj [OF spaceD(1) [OF sp0] that] by simp
  have G: "{0..<4096} \<inter> ?G (Data c) = {}" "{0..<4096} \<inter> ?R = {}"
    using d [of "Data c"] d [of "L2 i"] i by (simp_all add: Int_commute)
  have x: "{36..<36 + 8} \<inter> ?G (Data c) = {}" "{36..<36 + 8} \<inter> ?R = {}"
    by (rule disj_sub [OF G(1)]; simp; fail) (rule disj_sub [OF G(2)]; simp)
  have "{36..<36 + 8} \<inter> {48..<56 :: nat} = {}"
    by auto
  then have x1: "{36..<36 + 8} \<inter> (?G (Data c) \<union> {48..<56}) = {}"
    using x(1) by blast
  have len4: "56 \<le> length f" "56 \<le> length f1"
    using spaceD(9) [OF sp0] spaceD(9) [OF sp1] by simp_all
  have "read_at f3 36 8 = read_at f1 36 8"
    using len4 x(2) unfolding f3 by (intro unch_read [of ?R] unch_write) (simp_all add: len)
  also have "... = read_at f 36 8"
    using len4 x1 by (intro unch_read [OF u1]) simp_all
  finally show "read_at f3 36 8 = read_at f 36 8" .
qed

lemma discard_entry_spec:
  assumes q: "qinv crc dev T C FL B" and plan: "io_plan dev = []"
    and l1: "unat c div nent (qcow2 dev) < unat (l1_size (qcow2 dev))" "l1_table (qcow2 dev) ! (unat c div nent (qcow2 dev)) \<noteq> 0"
    and k: "k < 16" "l2_valid (l2_at dev k)" "unat (l2_l1_index (l2_at dev k)) = unat c div nent (qcow2 dev)"
    and j: "unat j = unat c mod nent (qcow2 dev)" and e: "e = ent (nent (qcow2 dev)) T (unat c)" "e \<noteq> 0"
    and old: "unat old = ext_len (csz (qcow2 dev)) (backing_file dev) e"
  shows "0 < old" "\<exists>dev' T' FL'. lbd_qcow2_l2_flush crc k (upd_l2 k (\<lambda>e. e\<lparr>l2_table := (l2_table e)[unat j := 0], l2_dirty := True\<rparr>)
      (snd (lbd_qcow2_free_extent (e AND LBD_QCOW2_L2_OFFSET_MASK) old dev))) = (Inr (), dev') \<and>
    qinv crc (lbd_qcow2_cl_invalidate c dev') T' C FL' B \<and>
    stored_layer (nent (qcow2 dev)) T' C = (stored_layer (nent (qcow2 dev)) T C)(unat c := None) \<and>
    evolves dev (lbd_qcow2_cl_invalidate c dev') \<and> base (lbd_qcow2_cl_invalidate c dev') = base dev \<and>
    lru_tick (qcow2 (lbd_qcow2_cl_invalidate c dev')) = lru_tick (qcow2 dev) \<and>
    alloc_offset (qcow2 (lbd_qcow2_cl_invalidate c dev')) = alloc_offset (qcow2 dev) \<and>
    (synced dev \<longrightarrow> synced (lbd_qcow2_cl_invalidate c dev'))"
proof -
  let ?q = "qcow2 dev" and ?f = "backing_file dev" and ?c = "unat c" and ?i = "unat c div nent (qcow2 dev)"
  let ?cs = "csz ?q" and ?n = "nent ?q" and ?G = "lay (qcow2 dev) (backing_file dev) T FL" and ?p = "e AND LBD_QCOW2_L2_OFFSET_MASK"
  note di = qinvD(1) [OF q] and g = qinvD(2) [OF q]
  have sp: "space ?G (unat (alloc_offset ?q)) ?f FL (free_list_head ?q)"
    and l2d: "l2disk crc ?cs ?n (l1_table ?q) (unat (l1_size ?q)) ?f T"
    using di by (simp_all add: dinv_def)
  have st: "stored ?cs ?f e (C ?c)"
    using qinvD(8) [OF q, of ?c] e by simp
  have "16 \<le> unat old"
    using ext_len_bounds [OF e(2) st csz_ge [OF g] csz_le [OF g]] old by simp
  then show o0: "0 < old"
    by (simp add: word_less_nat_alt)
  have ex: "?G (Data ?c) = {unat ?p..<unat ?p + unat old}" "?p \<noteq> 0" "16 \<le> unat old" "unat old < 2 ^ 32"
    using old_extent [OF di, of old ?c] old e o0 by (auto simp: entry_phys_def word_less_nat_alt)
  obtain dev1 where f: "lbd_qcow2_free_extent ?p old dev = (Inr (), dev1)" "qcow2 dev1 = ?q\<lparr>free_list_head := ?p\<rparr>"
    "rest dev1 = rest dev" "unch (?G (Data ?c) \<union> {48..<56}) ?f (backing_file dev1)"
    "read_at (backing_file dev1) 48 8 = be64 ?p"
    "space (?G(Data ?c := {}, Free (unat ?p) := ?G (Data ?c))) (unat (alloc_offset ?q)) (backing_file dev1)
      ((unat ?p, unat old) # FL) ?p"
    using free_extent_spec [OF plan sp ex(1) _ _ ex(3,4,2)] by auto
  let ?tab = "(l2_table (l2_at dev k))[unat j := 0]"
  note l2e = l2coh_entry [OF qinvD(4) [OF q] k(1,2)]
  have n0: "0 < ?n" and n8: "?cs div 8 = ?n + 1" and n4: "8 * ?n + 4 \<le> ?cs"
    using nent_pos [OF g] csz_div8 [OF g] nent_csz [OF g] by simp_all
  have jn: "unat j < ?n"
    using j n0 by simp
  have tab: "length ?tab \<ge> ?n" "take ?n ?tab = (T ?i)[?c mod ?n := 0]"
    using l2e(2,3) n8 jn k(3) j by (simp_all add: take_update_swap)
  have p: "unat (l1_table ?q ! ?i) + ?cs < 2 ^ 63" and lenT: "length (T ?i) = ?n"
    using spec [OF l2d [unfolded l2disk_def], of ?i] l1 by simp_all
  have lens: "length (l2_cache ?q) = 16" "length (l1_table ?q) = unat (l1_size ?q)"
    using qinvD(4) [OF q] l1_len [OF g] by (simp_all add: l2coh_def)
  define f3 where "f3 = write_at (backing_file dev1) (unat (l1_table ?q ! ?i)) (l2_encode crc ?cs ?n ?tab)"
  define es2 where "es2 = (l2_cache ?q)[k := (l2_at dev k)\<lparr>l2_table := ?tab, l2_dirty := False\<rparr>]"
  define dev3 where "dev3 = dev1\<lparr>backing_file := f3, qcow2 := (qcow2 dev1)\<lparr>l2_cache := es2\<rparr>\<rparr>"
  have pl1: "io_plan dev1 = []"
    using rest_fields(1) [OF f(3)] plan by simp
  have fl: "lbd_qcow2_l2_flush crc k (upd_l2 k (\<lambda>e. e\<lparr>l2_table := (l2_table e)[unat j := 0], l2_dirty := True\<rparr>) dev1) =
      (Inr (), dev3)"
    using flush_spec [OF pl1, of k "l1_table ?q ! ?i" f3 crc "unat j" 0] k l1 lens p n4
    by (simp add: f(2) f3_def es2_def dev3_def)
  note dd = drop_disk [OF di refl l1 f(4,5,6) tab f3_def]
  let ?T' = "T(?i := (T ?i)[?c mod ?n := 0])"
  let ?x = "case B ?c of Some bs \<Rightarrow> bs | None \<Rightarrow> replicate ?cs 0"
  note vd = view_drop [of T ?c ?n, OF lenT n0]
  obtain es where es: "lbd_qcow2_cl_invalidate c dev3 = dev3\<lparr>qcow2 := (qcow2 dev3)\<lparr>cl_cache := es\<rparr>\<rparr>"
    "clcoh ?cs ((vw ?q T C B)(?c := ?x)) (lru_tick ?q) es"
    using cl_invalidate_spec [of ?cs "vw ?q T C B" "lru_tick ?q" dev3 c ?x] qinvD(5) [OF q] by (auto simp: dev3_def f(2))
  define dev4 where "dev4 = lbd_qcow2_cl_invalidate c dev3"
  have d4: "qcow2 dev4 = ?q\<lparr>free_list_head := ?p, l2_cache := es2, cl_cache := es\<rparr>" "backing_file dev4 = f3"
    "rest dev4 = rest dev" "base dev4 = base dev" "crashed dev4 = crashed dev"
    using f(3) rest_fields(2,5) [OF f(3)] unfolding dev4_def es(1) by (simp_all add: dev3_def f(2))
  have sh: "qshell (qcow2 dev4) = qshell (?q\<lparr>free_list_head := ?p\<rparr>)"
    by (simp add: d4 qshell_def)
  have "l2coh ?cs ?n ?T' (lru_tick ?q) es2"
    using l2coh_set [OF qinvD(4) [OF q] k(1,2) refl jn, of 0] k(3) j by (simp add: es2_def)
  moreover have "clcoh ?cs (vw ?q ?T' C B) (lru_tick ?q) es"
    using es(2) by (simp add: vd(1))
  moreover have "base_ok crc dev4 B"
    using qinvD(6) [OF q] by (rule base_ok_same) (simp_all add: d4)
  ultimately have "qinv crc dev4 ?T' C ((unat ?p, unat old) # FL) B"
    using dd(1) qinvD(7) [OF q] unfolding qinv_def dinv_shell [OF sh] by (simp add: d4)
  moreover have "evolves dev dev4"
    using rest_frame [OF d4(3)] by (simp add: evolves_def d4 geo_def)
  moreover have "synced dev \<Longrightarrow> synced dev4"
    using dd(2) by (simp add: synced_def d4)
  ultimately show "\<exists>dev' T' FL'. lbd_qcow2_l2_flush crc k (upd_l2 k (\<lambda>e. e\<lparr>l2_table := (l2_table e)[unat j := 0], l2_dirty := True\<rparr>)
      (snd (lbd_qcow2_free_extent ?p old dev))) = (Inr (), dev') \<and>
    qinv crc (lbd_qcow2_cl_invalidate c dev') T' C FL' B \<and>
    stored_layer ?n T' C = (stored_layer ?n T C)(?c := None) \<and>
    evolves dev (lbd_qcow2_cl_invalidate c dev') \<and> base (lbd_qcow2_cl_invalidate c dev') = base dev \<and>
    lru_tick (qcow2 (lbd_qcow2_cl_invalidate c dev')) = lru_tick ?q \<and>
    alloc_offset (qcow2 (lbd_qcow2_cl_invalidate c dev')) = alloc_offset ?q \<and>
    (synced dev \<longrightarrow> synced (lbd_qcow2_cl_invalidate c dev'))"
    using fl f(1) vd(2) d4 by (intro exI [of _ dev3] exI [of _ ?T'] exI [of _ "(unat ?p, unat old) # FL"]) (simp add: dev4_def [symmetric])
qed

section \<open>One chunk\<close>

text \<open>Forgetting a cached cluster whose contents do not change.\<close>

lemma inval_keep:
  assumes q: "qinv crc dev T C FL B"
  shows "qinv crc (lbd_qcow2_cl_invalidate c dev) T C FL B" "shell (lbd_qcow2_cl_invalidate c dev) = shell dev"
    "spent dev (lbd_qcow2_cl_invalidate c dev) 0" "io_plan (lbd_qcow2_cl_invalidate c dev) = io_plan dev"
proof -
  let ?V = "vw (qcow2 dev) T C B"
  obtain es where es: "lbd_qcow2_cl_invalidate c dev = dev\<lparr>qcow2 := (qcow2 dev)\<lparr>cl_cache := es\<rparr>\<rparr>"
    "clcoh (csz (qcow2 dev)) (?V(unat c := ?V (unat c))) (lru_tick (qcow2 dev)) es"
    using cl_invalidate_spec [OF qinvD(5) [OF q]] by blast
  show "qinv crc (lbd_qcow2_cl_invalidate c dev) T C FL B"
    using qinvD(4,6) [OF q] es(2) unfolding es(1) by (intro qinvI_shell [OF q]) (auto intro: base_ok_same)
  show "shell (lbd_qcow2_cl_invalidate c dev) = shell dev"
    "spent dev (lbd_qcow2_cl_invalidate c dev) 0" "io_plan (lbd_qcow2_cl_invalidate c dev) = io_plan dev"
    unfolding es(1) by (simp_all add: spent_def)
qed

lemma no_entry:
  assumes "l2disk crc cs n l1 m f T" "c div n < m \<Longrightarrow> l1 ! (c div n) = 0" "0 < n"
  shows "ent n T c = 0"
proof -
  have "if c div n < m \<and> l1 ! (c div n) \<noteq> 0 then l2_ok crc cs n f (unat (l1 ! (c div n))) (T (c div n)) \<and> unat (l1 ! (c div n)) + cs < 2 ^ 63
      else T (c div n) = replicate n 0"
    using assms(1) unfolding l2disk_def by blast
  then show ?thesis
    using assms(2,3) by (simp add: ent_def split: if_splits)
qed

lemma discard_full_spec:
  assumes q: "qinv crc dev T C FL B" and plan: "io_plan dev = []" and c: "cbound (csz (qcow2 dev)) (nent (qcow2 dev)) c"
    and t: "ticks dev (1 + m)"
  shows "\<exists>dev' T' FL'. discard_full crc c dev = (Inr (), dev') \<and> qinv crc dev' T' C FL' B \<and>
    stored_layer (nent (qcow2 dev)) T' C = (stored_layer (nent (qcow2 dev)) T C)(unat c := None) \<and>
    evolves dev dev' \<and> spent dev dev' 1 \<and> alloc_offset (qcow2 dev') = alloc_offset (qcow2 dev) \<and> (synced dev \<longrightarrow> synced dev')"
proof -
  let ?q = "qcow2 dev" and ?l1 = "chunk_l1 (qcow2 dev) c" and ?n = "nent (qcow2 dev)" and ?e = "ent (nent (qcow2 dev)) T (unat c)"
  have cn: "unat c < 2 ^ 32 * ?n"
    using c by (simp add: cbound_def)
  note idx = chunk_idx [OF cn] and n0 = nent_pos [OF qinvD(2) [OF q]]
  have hole: "stored_layer ?n T C = (stored_layer ?n T C)(unat c := None)" if "?e = 0"
    using that by (auto simp: stored_layer_def)
  have keep: "\<exists>dev' T' FL'. (Inr (), lbd_qcow2_cl_invalidate c dev1) = (Inr () :: unit res, dev') \<and> qinv crc dev' T' C FL' B \<and>
      stored_layer ?n T' C = (stored_layer ?n T C)(unat c := None) \<and>
      evolves dev dev' \<and> spent dev dev' 1 \<and> alloc_offset (qcow2 dev') = alloc_offset ?q \<and> (synced dev \<longrightarrow> synced dev')"
    if q1: "qinv crc dev1 T C FL B" "shell dev1 = shell dev" "spent dev dev1 1" "io_plan dev1 = []" and e: "?e = 0" for dev1
  proof -
    note k = inval_keep [OF q1(1), of c]
    have s: "shell (lbd_qcow2_cl_invalidate c dev1) = shell dev" "io_plan (lbd_qcow2_cl_invalidate c dev1) = io_plan dev"
      using k(2,4) q1(2,4) plan by simp_all
    show ?thesis
      using k(1) hole [OF e] shell_evolves [OF s] spent_trans [OF q1(3) k(3)] qshell_fields [OF shell_fields(2) [OF s(1)]]
        shell_fields [OF s(1)]
      by (intro exI [of _ "lbd_qcow2_cl_invalidate c dev1"] exI [of _ T] exI [of _ FL]) (simp add: synced_def)
  qed
  show ?thesis
  proof (cases "?l1 < l1_size ?q \<and> l1_table ?q ! unat ?l1 \<noteq> 0")
    case False
    then have e0: "?e = 0"
      using no_entry [OF qinvD(3) [OF q], of "unat c"] n0 idx(1) by (auto simp: word_less_nat_alt)
    have "discard_full crc c dev = (Inr (), lbd_qcow2_cl_invalidate c dev)"
      using False by (auto simp: discard_full_def Let_def)
    moreover have "spent dev dev 1"
      by (simp add: spent_def)
    ultimately show ?thesis
      using keep [OF q refl _ plan e0] by simp
  next
    case True
    obtain k dev1 where d: "lbd_qcow2_l2_get crc ?l1 dev = (Ptr k, dev1)" "k < 16" "l2_valid (l2_at dev1 k)"
      "unat (l2_l1_index (l2_at dev1 k)) = unat c div ?n" "l2_table (l2_at dev1 k) ! unat (chunk_l2 ?q c) = ?e"
      "qinv crc dev1 T C FL B" "shell dev1 = shell dev" "spent dev dev1 1" "io_plan dev1 = []"
      using l2_ready [OF q plan cn t] by blast
    note s = qshell_fields [OF shell_fields(2) [OF d(7)]]
    show ?thesis
    proof (cases "?e = 0")
      case e0: True
      then have "discard_full crc c dev = (Inr (), lbd_qcow2_cl_invalidate c dev1)"
        using True d(1,5) by (simp add: discard_full_def Let_def)
      then show ?thesis
        using keep [OF d(6-9) e0] by simp
    next
      case e0: False
      have cs1: "csz (qcow2 dev1) \<le> 16777216"
        using csz_le [OF qinvD(2) [OF d(6)]] .
      have st: "stored (csz (qcow2 dev1)) (backing_file dev1) ?e (C (unat c))"
        using qinvD(8) [OF d(6), of "unat c"] e0 by (simp add: s)
      obtain old where o: "lbd_qcow2_read_old_alloc_size ?e dev1 = (old, dev1)"
        "unat old = ext_len (csz (qcow2 dev1)) (backing_file dev1) ?e"
        using read_old_spec [OF d(9) cs1 st] by auto
      have pre: "unat c div nent (qcow2 dev1) < unat (l1_size (qcow2 dev1))"
        "l1_table (qcow2 dev1) ! (unat c div nent (qcow2 dev1)) \<noteq> 0"
        "unat (l2_l1_index (l2_at dev1 k)) = unat c div nent (qcow2 dev1)"
        "unat (chunk_l2 ?q c) = unat c mod nent (qcow2 dev1)" "?e = ent (nent (qcow2 dev1)) T (unat c)"
        using True idx d(4) by (simp_all add: s word_less_nat_alt)
      note de = discard_entry_spec [OF d(6,9) pre(1,2) d(2,3) pre(3,4,5) e0 o(2)]
      obtain dev2 T' FL' where x: "lbd_qcow2_l2_flush crc k (upd_l2 k (\<lambda>e. e\<lparr>l2_table := (l2_table e)[unat (chunk_l2 ?q c) := 0], l2_dirty := True\<rparr>)
          (snd (lbd_qcow2_free_extent (?e AND LBD_QCOW2_L2_OFFSET_MASK) old dev1))) = (Inr (), dev2)"
        "qinv crc (lbd_qcow2_cl_invalidate c dev2) T' C FL' B" "stored_layer ?n T' C = (stored_layer ?n T C)(unat c := None)"
        "evolves dev1 (lbd_qcow2_cl_invalidate c dev2)" "base (lbd_qcow2_cl_invalidate c dev2) = base dev1"
        "lru_tick (qcow2 (lbd_qcow2_cl_invalidate c dev2)) = lru_tick (qcow2 dev1)"
        "alloc_offset (qcow2 (lbd_qcow2_cl_invalidate c dev2)) = alloc_offset (qcow2 dev1)"
        "synced dev1 \<longrightarrow> synced (lbd_qcow2_cl_invalidate c dev2)"
        using de(2) unfolding s by blast
      have "discard_full crc c dev = (Inr (), lbd_qcow2_cl_invalidate c dev2)"
        using True d(1,5) e0 o(1) de(1) x(1) by (simp add: discard_full_def Let_def)
      moreover have "evolves dev (lbd_qcow2_cl_invalidate c dev2)"
        using evolves_trans [OF shell_evolves [OF d(7)] x(4)] d(9) plan by simp
      moreover have "spent dev (lbd_qcow2_cl_invalidate c dev2) 1"
        using spent_trans [OF d(8) spent_evolve [OF x(5,6)]] by simp
      moreover have "synced dev \<Longrightarrow> synced (lbd_qcow2_cl_invalidate c dev2)"
        using x(8) by (simp add: synced_def [of dev] synced_def [of dev1] s shell_fields [OF d(7)])
      ultimately show ?thesis
        using x(2,3,7) s by (intro exI [of _ "lbd_qcow2_cl_invalidate c dev2"] exI [of _ T'] exI [of _ FL']) simp
    qed
  qed
qed

text \<open>
  A partly discarded cluster: its table is allocated in any case; the cluster is rewritten with
  zeros in the range if the primary image holds it.
\<close>

definition zero_part :: "nat \<Rightarrow> nat \<Rightarrow> nat \<Rightarrow> (nat \<rightharpoonup> bytes) \<Rightarrow> (nat \<rightharpoonup> bytes)" where
  "zero_part c off n P = (case P c of None \<Rightarrow> P | Some old \<Rightarrow> P(c \<mapsto> blit old off (replicate n 0)))"

lemma discard_partial_spec:
  assumes q: "qinv crc dev T C FL B" and plan: "io_plan dev = []"
    and c: "cbound (csz (qcow2 dev)) (nent (qcow2 dev)) c" "unat c div nent (qcow2 dev) < unat (l1_size (qcow2 dev))"
    and t: "ticks dev (4 + m)" and n: "unat off + unat b \<le> csz (qcow2 dev)"
    and room: "unat (alloc_offset (qcow2 dev)) + 2 * csz (qcow2 dev) \<le> 2 ^ 62"
  shows "\<exists>dev' T' C' FL'. discard_partial crc c off b dev = (Inr (), dev') \<and> qinv crc dev' T' C' FL' B \<and>
    stored_layer (nent (qcow2 dev)) T' C' = zero_part (unat c) (unat off) (unat b) (stored_layer (nent (qcow2 dev)) T C) \<and>
    evolves dev dev' \<and> spent dev dev' 4 \<and>
    unat (alloc_offset (qcow2 dev')) \<le> unat (alloc_offset (qcow2 dev)) + 2 * csz (qcow2 dev)"
proof -
  let ?q = "qcow2 dev" and ?l1 = "chunk_l1 (qcow2 dev) c" and ?cs = "csz (qcow2 dev)" and ?n = "nent (qcow2 dev)"
  let ?e = "ent (nent (qcow2 dev)) T (unat c)"
  have cn: "unat c < 2 ^ 32 * ?n"
    using c(1) by (simp add: cbound_def)
  note idx = chunk_idx [OF cn]
  have l1: "unat ?l1 < unat (l1_size ?q)" and room1: "unat (alloc_offset ?q) + ?cs \<le> 2 ^ 62"
    using c(2) idx(1) room by simp_all
  obtain dev1 where a: "lbd_qcow2_l2_alloc crc ?l1 dev = (Inr (), dev1)" "qinv crc dev1 T C FL B" "evolves dev dev1"
    "base dev1 = base dev" "lru_tick (qcow2 dev1) = lru_tick ?q" "l1_table (qcow2 dev1) ! unat ?l1 \<noteq> 0"
    "unat (alloc_offset (qcow2 dev1)) \<le> unat (alloc_offset ?q) + ?cs"
    using l2_alloc_spec [OF q plan l1 room1] by blast
  note e1 = evolves_fields [OF a(3)]
  have t1: "ticks dev1 (3 + (1 + m))"
    using t a(4,5) by (simp add: ticks_def)
  have plan1: "io_plan dev1 = []" and c1: "cbound (csz (qcow2 dev1)) (nent (qcow2 dev1)) c"
    using plan c(1) by (simp_all add: e1)
  obtain p dev2 where b: "lbd_qcow2_cl_load crc c dev1 = (p, dev2)" "qinv crc dev2 T C FL B" "shell dev2 = shell dev1"
    "spent dev1 dev2 3" "io_plan dev1 = [] \<longrightarrow> io_plan dev2 = []"
    "(\<exists>i < 16. p = Ptr i \<and> cl_valid (cl_at dev2 i) \<and> cl_cluster_index (cl_at dev2 i) = c) \<or>
     (p = ErrPtr ENODATA \<and> miss_handler dev1 \<noteq> None \<and> ent (nent (qcow2 dev1)) T (unat c) = 0 \<and> B (unat c) = None \<and>
        cl_absent c (cl_cache (qcow2 dev2))) \<or> (p = Null \<and> io_plan dev1 \<noteq> [])"
    using cl_load_spec [OF a(2) c1 t1] by blast
  note s2 = qshell_fields [OF shell_fields(2) [OF b(3)]]
  have plan2: "io_plan dev2 = []"
    using b(5) plan1 by simp
  have f: "csz (qcow2 dev2) = ?cs" "nent (qcow2 dev2) = ?n" "l1_size (qcow2 dev2) = l1_size ?q"
    "alloc_offset (qcow2 dev2) = alloc_offset (qcow2 dev1)" "chunk_l1 (qcow2 dev2) c = ?l1" "chunk_l2 (qcow2 dev2) c = chunk_l2 ?q c"
    by (simp_all add: s2 e1 chunk_l1_def chunk_l2_def)
  have ev2: "evolves dev dev2" and sp2: "spent dev dev2 3"
    using evolves_trans [OF a(3) shell_evolves [OF b(3)]] plan1 plan2 spent_trans [OF spent_evolve [OF a(4,5)] b(4)] by simp_all
  have hole: "stored_layer ?n T C = zero_part (unat c) (unat off) (unat b) (stored_layer ?n T C)" if "?e = 0"
    using that by (simp add: zero_part_def stored_layer_def)
  consider (miss) "p = ErrPtr ENODATA" "?e = 0" | (slot) i where "i < 16" "p = Ptr i" "cl_valid (cl_at dev2 i)" "cl_cluster_index (cl_at dev2 i) = c"
    using b(6) plan1 e1 by auto
  then show ?thesis
  proof cases
    case miss
    then have "discard_partial crc c off b dev = (Inr (), dev2)"
      using a(1) b(1) by (simp add: discard_partial_def Let_def)
    then show ?thesis
      using b(2) hole [OF miss(2)] ev2 spent_mono [OF sp2, of 4] a(7) f(4)
      by (intro exI [of _ dev2] exI [of _ T] exI [of _ C] exI [of _ FL]) simp
  next
    case slot
    have pre: "unat c < 2 ^ 32 * nent (qcow2 dev2)" "unat c div nent (qcow2 dev2) < unat (l1_size (qcow2 dev2))"
      "l1_table (qcow2 dev2) ! (unat c div nent (qcow2 dev2)) \<noteq> 0" "unat (alloc_offset (qcow2 dev2)) + csz (qcow2 dev2) \<le> 2 ^ 62"
      using cn c(2) a(6,7) idx room by (simp_all add: s2 e1)
    obtain k dev3 old where d: "lbd_qcow2_l2_get crc ?l1 dev2 = (Ptr k, dev3)"
      "l2_table (l2_at dev3 k) ! unat (chunk_l2 ?q c) = ?e" "cl_data (cl_at dev3 i) = vw ?q T C B (unat c)"
      "qinv crc dev3 T C FL B" "shell dev3 = shell dev2" "spent dev2 dev3 1" "io_plan dev3 = []"
      and ro: "\<And>data. lbd_qcow2_read_old_alloc_size ?e (upd_cl i (\<lambda>e. e\<lparr>cl_data := data\<rparr>) dev3) = (old, upd_cl i (\<lambda>e. e\<lparr>cl_data := data\<rparr>) dev3)"
      and cm: "\<And>check data. length data = ?cs \<Longrightarrow> \<exists>dev' T' C' FL'. commit_cluster crc check i k (chunk_l2 ?q c) ?e old
          (upd_cl i (\<lambda>e. e\<lparr>cl_data := data\<rparr>) dev3) = (Inr (), dev') \<and> qinv crc dev' T' C' FL' B \<and>
        stored_layer ?n T' C' = (stored_layer ?n T C)(unat c \<mapsto> data) \<and>
        evolves dev2 dev' \<and> spent dev2 dev' 1 \<and> synced dev' \<and> unat (alloc_offset (qcow2 dev')) \<le> unat (alloc_offset (qcow2 dev1)) + ?cs"
      using chunk_commit [OF b(2) plan2 pre(1,2,3) slot(1,3,4) spent_ticks [OF t1 b(4)] pre(4)] unfolding f by blast
    show ?thesis
    proof (cases "?e = 0")
      case True
      then have "discard_partial crc c off b dev = (Inr (), dev3)"
        using a(1) b(1) slot(2) d(1,2) by (simp add: discard_partial_def Let_def)
      moreover have "evolves dev dev3" "spent dev dev3 4"
        using evolves_trans [OF ev2 shell_evolves [OF d(5)]] d(7) plan2 spent_trans [OF sp2 d(6)] by simp_all
      ultimately show ?thesis
        using d(4) hole [OF True] a(7) qshell_fields [OF shell_fields(2) [OF d(5)]] f(4)
        by (intro exI [of _ dev3] exI [of _ T] exI [of _ C] exI [of _ FL]) simp
    next
      case False
      let ?data = "blit (vw ?q T C B (unat c)) (unat off) (replicate (unat b) 0)"
      have len: "length ?data = ?cs"
        using n view_length [OF q] by (simp add: length_blit)
      obtain dev4 T' C' FL' where m: "commit_cluster crc False i k (chunk_l2 ?q c) ?e old
          (upd_cl i (\<lambda>e. e\<lparr>cl_data := ?data\<rparr>) dev3) = (Inr (), dev4)" "qinv crc dev4 T' C' FL' B"
        "stored_layer ?n T' C' = (stored_layer ?n T C)(unat c \<mapsto> ?data)" "evolves dev2 dev4" "spent dev2 dev4 1"
        "unat (alloc_offset (qcow2 dev4)) \<le> unat (alloc_offset (qcow2 dev1)) + ?cs"
        using cm [OF len, of False] by blast
      have same: "upd_cl i (\<lambda>e. e\<lparr>cl_data := blit (cl_data e) (unat off) (replicate (unat b) 0)\<rparr>) dev3 =
          upd_cl i (\<lambda>e. e\<lparr>cl_data := ?data\<rparr>) dev3"
        using d(3) by (simp add: upd_cl_def)
      have "discard_partial crc c off b dev = (Inr (), dev4)"
        using a(1) b(1) slot(2) d(1,2) False ro [of ?data] m(1) by (simp add: discard_partial_def Let_def same)
      moreover have "zero_part (unat c) (unat off) (unat b) (stored_layer ?n T C) = (stored_layer ?n T C)(unat c \<mapsto> ?data)"
        using False by (simp add: zero_part_def stored_layer_def view_def)
      moreover have "evolves dev dev4" "spent dev dev4 4"
        using evolves_trans [OF ev2 m(4)] spent_trans [OF sp2 m(5)] by simp_all
      ultimately show ?thesis
        using m(2,3,6) a(7) by (intro exI [of _ dev4] exI [of _ T'] exI [of _ C'] exI [of _ FL']) simp
    qed
  qed
qed

section \<open>The abstract discard\<close>

text \<open>
  What discarding \<open>n\<close> bytes at \<open>x\<close> does to the store: a cluster that lies in the range leaves the
  primary layer, so that the base shows through; one that is only partly in it is zeroed there
  if the primary layer holds it.
\<close>

definition whole :: "nat \<Rightarrow> nat \<Rightarrow> nat \<Rightarrow> nat \<Rightarrow> bool" where
  "whole cs x n c \<longleftrightarrow> x \<le> c * cs \<and> c * cs + cs \<le> x + n"

definition discard_layers :: "nat \<Rightarrow> nat \<Rightarrow> nat \<Rightarrow> layers \<Rightarrow> layers" where
  "discard_layers cs x n L =
     ((\<lambda>c. if whole cs x n c then None
           else if touched cs x n c then map_option (\<lambda>old. written cs x (replicate n 0) old c) (fst L c)
           else fst L c), snd L)"

lemma discard_layers_0 [simp]: "0 < cs \<Longrightarrow> discard_layers cs x 0 L = L"
proof -
  assume "0 < cs"
  then have "\<not> whole cs x 0 c" "\<not> touched cs x 0 c" for c
    by (auto simp: whole_def touched_def)
  then show ?thesis
    by (simp add: discard_layers_def)
qed

lemma written_zeros: "written cs x (replicate n 0) old c = map (\<lambda>i. if x \<le> c * cs + i \<and> c * cs + i < x + n then 0 else old ! i) [0..<cs]"
  unfolding written_def by (rule map_cong [OF refl], rule if_cong) (auto intro: nth_replicate)

lemma written_zeros_cong:
  assumes "\<And>i. i < cs \<Longrightarrow> x \<le> c * cs + i \<and> c * cs + i < x + n \<longleftrightarrow> y \<le> c * cs + i \<and> c * cs + i < y + m"
  shows "written cs x (replicate n 0) old c = written cs y (replicate m 0) old c"
  unfolding written_zeros using assms by (intro map_cong refl if_cong) simp_all

lemma touched_block:
  assumes "0 < cs" "(x + n) mod cs = 0"
  shows "touched cs x n c \<Longrightarrow> c < (x + n) div cs" "touched cs (x + n) m c \<Longrightarrow> (x + n) div cs \<le> c"
proof -
  have k: "x + n = (x + n) div cs * cs"
    using assms(2) by (simp add: mod_eq_0_iff_dvd)
  show "touched cs x n c \<Longrightarrow> c < (x + n) div cs"
    unfolding touched_def by (metis atLeastLessThan_iff k less_mult_imp_div_less)
  show "touched cs (x + n) m c \<Longrightarrow> (x + n) div cs \<le> c"
    unfolding touched_def by (metis atLeastLessThan_iff div_le_mono)
qed

lemma discard_layers_append:
  assumes cs: "0 < cs" and al: "(x + a) mod cs = 0 \<or> b = 0"
  shows "discard_layers cs x (a + b) L = discard_layers cs (x + a) b (discard_layers cs x a L)"
proof (cases "b = 0")
  case True
  then show ?thesis
    using cs by simp
next
  case False
  let ?k = "(x + a) div cs"
  have m: "(x + a) mod cs = 0"
    using al False by simp
  then have k: "x + a = ?k * cs"
    by (simp add: mod_eq_0_iff_dvd)
  have "fst (discard_layers cs x (a + b) L) c = fst (discard_layers cs (x + a) b (discard_layers cs x a L)) c" for c
  proof (cases "c < ?k")
    case True
    then have c: "c * cs + cs \<le> x + a"
      using k mult_le_mono1 [of "Suc c" ?k cs] by simp
    have "\<not> touched cs (x + a) b c" "\<not> whole cs (x + a) b c"
      using touched_block(2) [OF cs m, of b c] True c cs by (auto simp: whole_def)
    moreover have "whole cs x (a + b) c \<longleftrightarrow> whole cs x a c"
      using c by (auto simp: whole_def)
    moreover have "written cs x (replicate (a + b) 0) old c = written cs x (replicate a 0) old c" for old
      using c by (intro written_zeros_cong) auto
    ultimately show ?thesis
      by (simp add: discard_layers_def touched_append)
  next
    case False
    then have c: "x + a \<le> c * cs"
      using k mult_le_mono1 [of ?k c cs] by simp
    have "\<not> touched cs x a c" "\<not> whole cs x a c"
      using touched_block(1) [OF cs m, of c] False c cs by (auto simp: whole_def)
    moreover have "whole cs x (a + b) c \<longleftrightarrow> whole cs (x + a) b c"
      using c by (auto simp: whole_def)
    moreover have "written cs x (replicate (a + b) 0) old c = written cs (x + a) (replicate b 0) old c" for old
      using c by (intro written_zeros_cong) auto
    ultimately show ?thesis
      by (simp add: discard_layers_def touched_append)
  qed
  then show ?thesis
    by (intro prod_eqI ext) (simp_all add: discard_layers_def)
qed

lemma discard_layers_chunk:
  assumes n: "0 < n" "x mod cs + n \<le> cs" and len: "\<And>old. fst L (x div cs) = Some old \<Longrightarrow> length old = cs"
  shows "discard_layers cs x n L =
    (if x mod cs = 0 \<and> n = cs then (fst L)(x div cs := None) else zero_part (x div cs) (x mod cs) n (fst L), snd L)"
proof -
  have cs: "0 < cs"
    using n by simp
  have x: "x = x div cs * cs + x mod cs"
    by simp
  have w: "whole cs x n c \<longleftrightarrow> c = x div cs \<and> x mod cs = 0 \<and> n = cs" for c
  proof
    assume a: "whole cs x n c"
    then have "x div cs * cs + x mod cs \<le> c * cs" "c * cs + cs \<le> x div cs * cs + (x mod cs + n)"
      unfolding whole_def using x by linarith+
    then have 1: "x div cs * cs \<le> c * cs" and 2: "c * cs \<le> x div cs * cs"
      using n(2) by linarith+
    then have "c = x div cs"
      using cs by (intro antisym) (simp_all only: mult_le_cancel2)
    moreover have "x mod cs = 0"
      using a x unfolding whole_def calculation by linarith
    moreover have "n = cs"
      using a x n(2) unfolding whole_def \<open>c = x div cs\<close> by linarith
    ultimately show "c = x div cs \<and> x mod cs = 0 \<and> n = cs"
      by simp
  next
    assume "c = x div cs \<and> x mod cs = 0 \<and> n = cs"
    then show "whole cs x n c"
      using x by (simp add: whole_def)
  qed
  have wr: "written cs x (replicate n 0) old (x div cs) = blit old (x mod cs) (replicate n 0)" if "fst L (x div cs) = Some old" for old
    using written_chunk [of x cs "replicate n 0" old] n(2) len [OF that] by simp
  have "fst (discard_layers cs x n L) c =
      (if x mod cs = 0 \<and> n = cs then (fst L)(x div cs := None) else zero_part (x div cs) (x mod cs) n (fst L)) c" for c
  proof (cases "c = x div cs")
    case True
    then show ?thesis
      using wr by (cases "fst L (x div cs)") (simp_all add: discard_layers_def w touched_chunk [OF n] zero_part_def)
  next
    case False
    then show ?thesis
      by (cases "fst L (x div cs)") (simp_all add: discard_layers_def w touched_chunk [OF n] zero_part_def)
  qed
  then show ?thesis
    by (intro prod_eqI ext) (simp_all add: discard_layers_def)
qed

section \<open>Requests\<close>

lemma discard_chunk_spec:
  assumes q: "qinv crc dev T C FL B" and plan: "io_plan dev = []"
    and r: "0 < unat r" and fit: "fits (qcow2 dev) (unat g + unat r)"
    and b: "b = chunk_bytes (qcow2 dev) g r" and t: "ticks dev (4 + m)"
    and room: "unat (alloc_offset (qcow2 dev)) + 2 * csz (qcow2 dev) \<le> 2 ^ 62"
  shows "\<exists>dev' T' C' FL'. (if chunk_off (qcow2 dev) g = 0 \<and> b = cluster_size (qcow2 dev)
      then discard_full crc (chunk_cluster (qcow2 dev) g) dev
      else discard_partial crc (chunk_cluster (qcow2 dev) g) (chunk_off (qcow2 dev) g) b dev) = (Inr (), dev') \<and>
    qinv crc dev' T' C' FL' B \<and> (stored_layer (nent (qcow2 dev)) T' C', B) =
      discard_layers (csz (qcow2 dev)) (unat g) (unat b) (stored_layer (nent (qcow2 dev)) T C, B) \<and>
    evolves dev dev' \<and> spent dev dev' 4 \<and>
    unat (alloc_offset (qcow2 dev')) \<le> unat (alloc_offset (qcow2 dev)) + 2 * csz (qcow2 dev)"
proof -
  let ?q = "qcow2 dev" and ?cs = "csz (qcow2 dev)" and ?n = "nent (qcow2 dev)" and ?L = "(stored_layer (nent (qcow2 dev)) T C, B)"
  let ?c = "chunk_cluster (qcow2 dev) g" and ?off = "chunk_off (qcow2 dev) g"
  have g: "geom ?q"
    using qinvD(2) [OF q] .
  have cs0: "0 < ?cs"
    using csz_ge [OF g] by simp
  have ub: "unat b = min (unat r) (?cs - unat g mod ?cs)"
    using chunk_spec(3) [OF g] by (simp add: b)
  note st = span_step [OF r cs0 ub] and ch = chunk_spec(1,2) [OF g, of g]
  have cb: "cbound ?cs ?n ?c"
    using inside_cbound [OF g fits_inside [OF fit]] r by simp
  have c1: "unat ?c div ?n < unat (l1_size ?q)"
    using fits_l1 [OF fit _ cs0] r ch by simp
  have "length old = ?cs" if "stored_layer ?n T C (unat ?c) = Some old" for old
    using that view_length [OF q, of "unat ?c"] by (simp add: stored_layer_def view_def split: if_splits)
  then have dl: "discard_layers ?cs (unat g) (unat b) ?L =
      (if unat ?off = 0 \<and> unat b = ?cs then (stored_layer ?n T C)(unat ?c := None)
       else zero_part (unat ?c) (unat ?off) (unat b) (stored_layer ?n T C), B)"
    using discard_layers_chunk [of "unat b" "unat g" ?cs ?L] st(3,4) ch by simp
  have iff: "?off = 0 \<and> b = cluster_size ?q \<longleftrightarrow> unat ?off = 0 \<and> unat b = ?cs"
    by (simp add: word_unat_eq_iff)
  show ?thesis
  proof (cases "?off = 0 \<and> b = cluster_size ?q")
    case True
    have t': "ticks dev (1 + (3 + m))"
      using t by (simp add: ticks_def)
    obtain dev' T' FL' where "discard_full crc ?c dev = (Inr (), dev')" "qinv crc dev' T' C FL' B"
      "stored_layer ?n T' C = (stored_layer ?n T C)(unat ?c := None)" "evolves dev dev'" "spent dev dev' 1"
      "alloc_offset (qcow2 dev') = alloc_offset ?q"
      using discard_full_spec [OF q plan cb t'] by blast
    then show ?thesis
      using True iff dl spent_mono [of dev dev' 1 4] by (intro exI [of _ dev'] exI [of _ T'] exI [of _ C] exI [of _ FL']) simp
  next
    case False
    have off: "unat ?off + unat b \<le> ?cs"
      using st(3) ch by simp
    obtain dev' T' C' FL' where "discard_partial crc ?c ?off b dev = (Inr (), dev')" "qinv crc dev' T' C' FL' B"
      "stored_layer ?n T' C' = zero_part (unat ?c) (unat ?off) (unat b) (stored_layer ?n T C)" "evolves dev dev'"
      "spent dev dev' 4" "unat (alloc_offset (qcow2 dev')) \<le> unat (alloc_offset ?q) + 2 * ?cs"
      using discard_partial_spec [OF q plan cb c1 t off room] by blast
    then show ?thesis
      unfolding dl if_not_P [OF False] if_not_P [OF False [unfolded iff]]
      by (intro exI [of _ dev'] exI [of _ T'] exI [of _ C'] exI [of _ FL']) simp
  qed
qed

lemma discard_loop_spec:
  assumes "qinv crc dev T C FL B" "io_plan dev = []" "fits (qcow2 dev) (unat g + unat r)"
    "ticks dev (4 * span (csz (qcow2 dev)) (unat g) (unat r) + m)"
    "unat (alloc_offset (qcow2 dev)) + 2 * csz (qcow2 dev) * span (csz (qcow2 dev)) (unat g) (unat r) \<le> 2 ^ 62"
  shows "\<exists>dev' T' C' FL'. discard_loop crc g r dev = Some (Inr (), dev') \<and> qinv crc dev' T' C' FL' B \<and>
    (stored_layer (nent (qcow2 dev)) T' C', B) =
      discard_layers (csz (qcow2 dev)) (unat g) (unat r) (stored_layer (nent (qcow2 dev)) T C, B) \<and>
    evolves dev dev' \<and> ticks dev' m \<and> unat (alloc_offset (qcow2 dev')) \<le>
      unat (alloc_offset (qcow2 dev)) + 2 * csz (qcow2 dev) * span (csz (qcow2 dev)) (unat g) (unat r)"
  using assms
proof (induction "unat r" arbitrary: r g dev T C FL rule: less_induct)
  case less
  let ?q = "qcow2 dev" and ?cs = "csz (qcow2 dev)" and ?n = "nent (qcow2 dev)" and ?L = "(stored_layer (nent (qcow2 dev)) T C, B)"
  note q = less.prems(1)
  have g: "geom ?q"
    using qinvD(2) [OF q] .
  have cs0: "0 < ?cs"
    using csz_ge [OF g] by simp
  show ?case
  proof (cases "r = 0")
    case True
    then show ?thesis
      using less.prems cs0 by (subst discard_loop.simps) (auto simp: span_def)
  next
    case False
    then have r0: "0 < unat r"
      by (simp add: unat_gt_0)
    define b where "b = chunk_bytes ?q g r"
    have ub: "unat b = min (unat r) (?cs - unat g mod ?cs)"
      using chunk_spec(3) [OF g] by (simp add: b_def)
    note st = span_step [OF r0 cs0 ub]
    let ?s = "span ?cs (unat g + unat b) (unat r - unat b)"
    have ur: "unat (r - b) = unat r - unat b"
      using st(5) by (simp add: unat_sub word_le_nat_alt)
    have ug: "unat (g + ucast b) = unat g + unat b"
      using less.prems(3) st(5) by (simp add: unat_plus_u64 fits_def)
    have t: "ticks dev (4 + (4 * ?s + m))"
      using less.prems(4) unfolding st(1) by (simp add: add.assoc)
    have room: "unat (alloc_offset ?q) + 2 * ?cs + 2 * ?cs * ?s \<le> 2 ^ 62"
      using less.prems(5) unfolding st(1) by (simp add: algebra_simps)
    then have room1: "unat (alloc_offset ?q) + 2 * ?cs \<le> 2 ^ 62"
      by simp
    obtain dev1 T1 C1 FL1 where w: "(if chunk_off ?q g = 0 \<and> b = cluster_size ?q then discard_full crc (chunk_cluster ?q g) dev
        else discard_partial crc (chunk_cluster ?q g) (chunk_off ?q g) b dev) = (Inr (), dev1)" "qinv crc dev1 T1 C1 FL1 B"
      "(stored_layer ?n T1 C1, B) = discard_layers ?cs (unat g) (unat b) ?L" "evolves dev dev1" "spent dev dev1 4"
      "unat (alloc_offset (qcow2 dev1)) \<le> unat (alloc_offset ?q) + 2 * ?cs"
      using discard_chunk_spec [OF q less.prems(2) r0 less.prems(3) b_def t room1] by blast
    note ev = evolves_fields [OF w(4)]
    have "unat (r - b) < unat r" "io_plan dev1 = []" "fits (qcow2 dev1) (unat (g + ucast b) + unat (r - b))"
      "ticks dev1 (4 * span (csz (qcow2 dev1)) (unat (g + ucast b)) (unat (r - b)) + m)"
      "unat (alloc_offset (qcow2 dev1)) + 2 * csz (qcow2 dev1) * span (csz (qcow2 dev1)) (unat (g + ucast b)) (unat (r - b)) \<le> 2 ^ 62"
      using st(4,5) r0 ur ug less.prems(2,3) spent_ticks [OF t w(5)] room w(6) by (simp_all add: ev fits_def)
    from less.hyps [OF this(1) w(2) this(2-5)]
    obtain dev2 T2 C2 FL2 where x: "discard_loop crc (g + ucast b) (r - b) dev1 = Some (Inr (), dev2)"
      "qinv crc dev2 T2 C2 FL2 B"
      "(stored_layer ?n T2 C2, B) = discard_layers ?cs (unat g + unat b) (unat r - unat b) (stored_layer ?n T1 C1, B)"
      "evolves dev1 dev2" "ticks dev2 m"
      "unat (alloc_offset (qcow2 dev2)) \<le> unat (alloc_offset (qcow2 dev1)) + 2 * ?cs * ?s"
      by (auto simp: ev ug ur)
    have run: "discard_loop crc g r dev = Some (Inr (), dev2)"
      using False x(1) by (subst discard_loop.simps) (simp only: Let_def b_def [symmetric] word_gt_0 w(1), simp)
    have "(unat g + unat b) mod ?cs = 0 \<or> unat r - unat b = 0"
      using st(2) by auto
    then have "(stored_layer ?n T2 C2, B) = discard_layers ?cs (unat g) (unat r) ?L"
      using x(3) w(3) discard_layers_append [OF cs0, of "unat g" "unat b" "unat r - unat b" ?L] st(5) by simp
    moreover have "unat (alloc_offset (qcow2 dev2)) \<le> unat (alloc_offset ?q) + 2 * ?cs * span ?cs (unat g) (unat r)"
      using x(6) w(6) unfolding st(1) by (simp add: algebra_simps)
    ultimately show ?thesis
      using run x(2,5) evolves_trans [OF w(4) x(4)] by blast
  qed
qed

lemma discard_spec:
  assumes "abs_img crc dev L" and "io_plan dev = []"
    and "x = 512 * unat (rq_pos rq)" and "len = unat (rq_bytes rq)" and "fits (qcow2 dev) (x + len)"
    and "n = span (csz (qcow2 dev)) x len" and "ticks dev (4 * n + m)"
    and "unat (alloc_offset (qcow2 dev)) + 2 * csz (qcow2 dev) * n \<le> 2 ^ 62"
  shows "\<exists>dev'. lbd_qcow2_discard crc rq dev = Some (Inr (), dev') \<and>
    abs_img crc dev' (discard_layers (csz (qcow2 dev)) x len L) \<and> evolves dev dev' \<and> ticks dev' m \<and>
    unat (alloc_offset (qcow2 dev')) \<le> unat (alloc_offset (qcow2 dev)) + 2 * csz (qcow2 dev) * n"
proof -
  obtain T C FL B where q: "qinv crc dev T C FL B" and L: "L = (stored_layer (nent (qcow2 dev)) T C, B)"
    using assms(1) by (auto simp: abs_img_def)
  have ux: "unat (push_bit SECTOR_SHIFT (rq_pos rq)) = x"
    using assms(3,5) by (simp add: SECTOR_SHIFT_def push_bit_eq_mult fits_def unat_mult_lem [THEN iffD1] mult.commute)
  obtain dev' T' C' FL' where w: "discard_loop crc (push_bit SECTOR_SHIFT (rq_pos rq)) (rq_bytes rq) dev = Some (Inr (), dev')"
    "qinv crc dev' T' C' FL' B" "(stored_layer (nent (qcow2 dev)) T' C', B) = discard_layers (csz (qcow2 dev)) x len L"
    "evolves dev dev'" "ticks dev' m"
    "unat (alloc_offset (qcow2 dev')) \<le> unat (alloc_offset (qcow2 dev)) + 2 * csz (qcow2 dev) * n"
    using discard_loop_spec [OF q assms(2), of "push_bit SECTOR_SHIFT (rq_pos rq)" "rq_bytes rq" m] assms(4-8) unfolding ux L
    by auto
  have "abs_img crc dev' (discard_layers (csz (qcow2 dev)) x len L)"
    using w(2) by (rule abs_imgI) (simp add: evolves_fields [OF w(4)] w(3))
  then show ?thesis
    using w(1,4-6) by (simp add: lbd_qcow2_discard_def Let_def)
qed

text \<open>C4: Without I/O failures a discard inside the range of the L1 table returns success, and the
  device then refines the discarded store: clusters wholly inside the range leave the primary
  layer (the base, or zeros, show through), clusters partly inside are zeroed in the range if the
  primary layer holds them, everything else is unchanged.\<close>

theorem discard_refines:
  assumes "abs_img crc dev L" and "io_plan dev = []"
    and "x = 512 * unat (rq_pos rq)" and "len = unat (rq_bytes rq)" and "fits (qcow2 dev) (x + len)"
    and "n = span (csz (qcow2 dev)) x len" and "ticks dev (4 * n)"
    and "unat (alloc_offset (qcow2 dev)) + 2 * csz (qcow2 dev) * n \<le> 2 ^ 62"
  shows "\<exists>dev'. lbd_qcow2_discard crc rq dev = Some (Inr (), dev') \<and>
    abs_img crc dev' (discard_layers (csz (qcow2 dev)) x len L) \<and> evolves dev dev'"
  using discard_spec [OF assms(1-6), where m = 0] assms(7,8) by auto

end
