(* ===== verification/Qcow2_Attach.thy ===== *)
theory Qcow2_Attach
  imports Qcow2_Discard
begin

text \<open>
  Attaching images: \<open>lbd_qcow2_init\<close> on a complete image gives a device that refines the store
  the image holds, \<open>lbd_qcow2_destroy\<close> completes the image, and \<open>lbd_qcow2_swap_base\<close>
  exchanges the base layer of the store.
\<close>

section \<open>Reading the header\<close>

lemma read_read: "off + n \<le> m \<Longrightarrow> read_at (read_at f pos m) off n = read_at f (pos + off) n"
  by (simp add: read_at_def drop_take min_def add.commute)

lemma header_fields:
  assumes h: "hdr_ok q f"
  shows "lbd_qcow2_hdr_magic (read_at f 0 4096) = LBD_QCOW2_MAGIC"
    "lbd_qcow2_hdr_version (read_at f 0 4096) = LBD_QCOW2_VERSION"
    "lbd_qcow2_hdr_cluster_bits (read_at f 0 4096) = cluster_bits q"
    "lbd_qcow2_hdr_virtual_size (read_at f 0 4096) = virtual_size q"
    "lbd_qcow2_hdr_l1_table_offset (read_at f 0 4096) = l1_offset q"
    "lbd_qcow2_hdr_l1_size (read_at f 0 4096) = l1_size q"
    "lbd_qcow2_hdr_alloc_offset (read_at f 0 4096) = of_be64 (read_at f 36 8)"
    "lbd_qcow2_hdr_free_list (read_at f 0 4096) = of_be64 (read_at f 48 8)"
proof -
  let ?X = "be64 LBD_QCOW2_MAGIC @ be32 LBD_QCOW2_VERSION @ be32 (cluster_bits q) @
       be64 (virtual_size q) @ be64 (l1_offset q) @ be32 (l1_size q)"
  have len: "length (read_at f 0 4096) = 4096" and X: "read_at f 0 36 = ?X"
    using h by (simp_all add: hdr_ok_def length_read_at)
  have r: "read_at (read_at f 0 4096) off n = read_at ?X off n" if "off + n \<le> 36" for off n
    using read_read [of off n 4096 f 0] read_read [OF that, of f 0] that by (simp add: X)
  show "lbd_qcow2_hdr_magic (read_at f 0 4096) = LBD_QCOW2_MAGIC"
    "lbd_qcow2_hdr_version (read_at f 0 4096) = LBD_QCOW2_VERSION"
    "lbd_qcow2_hdr_cluster_bits (read_at f 0 4096) = cluster_bits q"
    "lbd_qcow2_hdr_virtual_size (read_at f 0 4096) = virtual_size q"
    "lbd_qcow2_hdr_l1_table_offset (read_at f 0 4096) = l1_offset q"
    "lbd_qcow2_hdr_l1_size (read_at f 0 4096) = l1_size q"
    by (simp_all add: hdr_getter_defs offset_defs get64_of_be64 get32_of_be32 len r) (simp_all add: read_at_def byte_simps)
  show "lbd_qcow2_hdr_alloc_offset (read_at f 0 4096) = of_be64 (read_at f 36 8)"
    "lbd_qcow2_hdr_free_list (read_at f 0 4096) = of_be64 (read_at f 48 8)"
    by (simp_all add: hdr_getter_defs offset_defs get64_of_be64 len read_read)
qed

lemma kvmalloc_n_Nil: "io_plan dev = [] \<Longrightarrow> kvmalloc_n n dev = (True, dev)"
  by (induction n) simp_all

lemma read_l1_spec:
  assumes plan: "io_plan dev = []" and d: "l1_disk q f" "length (l1_table q) = unat (l1_size q)"
  shows "read_l1 f (l1_size q) (l1_offset q) dev = (Inr (l1_table q), dev)"
proof -
  let ?n = "unat (l1_size q)" and ?o = "unat (l1_offset q)"
  have b: "?o < 2 ^ 62" "?o + 8 * ?n \<le> length f" and e: "\<And>i. i < ?n \<Longrightarrow> read_at f (?o + 8 * i) 8 = be64 (l1_table q ! i)"
    using d(1) by (auto simp: l1_disk_def)
  have "?o + ?n * 8 < 2 ^ 63"
    using b(1) unat_u32_lt [of "l1_size q"] by simp
  then have rd: "read_full f (?n * 8) (l1_offset q) dev = (Inr (read_at f ?o (?n * 8)), dev)"
    using b(2) by (intro read_full_Nil [OF plan]) simp_all
  have "l2_decode ?n (read_at f ?o (?n * 8)) = l1_table q"
  proof (rule nth_equalityI)
    fix i assume i: "i < length (l2_decode ?n (read_at f ?o (?n * 8)))"
    then have "i < ?n"
      by (simp add: l2_decode_def)
    then have "read_at (read_at f ?o (?n * 8)) (8 * i) 8 = be64 (l1_table q ! i)"
      using e [of i] by (simp add: read_read)
    then show "l2_decode ?n (read_at f ?o (?n * 8)) ! i = l1_table q ! i"
      using \<open>i < ?n\<close> by (simp add: l2_decode_def byte_simps)
  qed (simp add: d(2) l2_decode_def)
  then show ?thesis
    using plan rd by (simp add: read_l1_def kvmalloc_n_Nil)
qed

section \<open>The primary image\<close>

text \<open>The state right after attaching: the caches are empty.\<close>

definition fresh :: "lbd_qcow2 \<Rightarrow> lbd_qcow2" where
  "fresh q = q\<lparr>l2_cache := replicate 16 (empty_l2_entry (csz q)), cl_cache := replicate 16 (empty_cl_entry (csz q)), lru_tick := 0\<rparr>"

lemma fresh_fields [simp]:
  "qshell (fresh q) = qshell q" "lru_tick (fresh q) = 0"
  "l2_cache (fresh q) = replicate 16 (empty_l2_entry (csz q))" "cl_cache (fresh q) = replicate 16 (empty_cl_entry (csz q))"
  by (simp_all add: fresh_def)

lemma l2coh_empty: "l2coh cs n T t (replicate 16 (empty_l2_entry cs))"
  by (auto simp: l2coh_def empty_l2_entry_def coherent_def)

lemma clcoh_empty: "clcoh cs V t (replicate 16 (empty_cl_entry cs))"
  by (auto simp: clcoh_def empty_cl_entry_def coherent_def)

lemma init_fields_fresh:
  assumes g: "geom q" and h: "hdr_ok q f" and s: "read_at f 36 8 = be64 (alloc_offset q)" "read_at f 48 8 = be64 (free_list_head q)"
  shows "(init_fields (read_at f 0 4096) q0)\<lparr>l1_table := l1_table q, l2_cache := replicate 16 (empty_l2_entry (csz q)),
    cl_cache := replicate 16 (empty_cl_entry (csz q))\<rparr> = fresh q"
  using g unfolding init_fields_def header_fields [OF h] s fresh_def
  by (cases q; cases q0) (simp add: Let_def byte_simps geom_def LBD_QCOW2_L2_TRAILER_SIZE_def)

lemma init_spec:
  assumes plan: "io_plan dev = []" and di: "dinv crc q (backing_file dev) T C FL"
    and s: "read_at (backing_file dev) 36 8 = be64 (alloc_offset q)"
  shows "lbd_qcow2_init dev = (Inr (), dev\<lparr>qcow2 := fresh q\<rparr>)"
    "base dev = None \<Longrightarrow> \<not> crashed dev \<Longrightarrow> qinv crc (dev\<lparr>qcow2 := fresh q\<rparr>) T C FL (\<lambda>_. None)"
proof -
  let ?f = "backing_file dev"
  have g: "geom q" and h: "hdr_ok q ?f" and l1: "l1_disk q ?f" and fl: "read_at ?f 48 8 = be64 (free_list_head q)"
    using di by (simp_all add: dinv_def)
  note hf = header_fields [OF h] and ff = init_fields_fresh [OF g h s fl]
  let ?q1 = "init_fields (read_at ?f 0 4096) (qcow2 dev)"
  have q1: "l1_size ?q1 = l1_size q" "l1_offset ?q1 = l1_offset q" "cluster_size ?q1 = cluster_size q"
    using g by (simp_all add: init_fields_def Let_def hf geom_def)
  have rd: "read_full ?f 4096 0 dev = (Inr (read_at ?f 0 4096), dev)"
    using h by (subst read_full_Nil [OF plan]) (simp_all add: hdr_ok_def)
  have bits: "\<not> (cluster_bits q < 12 \<or> cluster_bits q > 24)"
    using g by (simp add: geom_def word_less_nat_alt)
  have r1: "read_l1 ?f (l1_size q) (l1_offset q) (dev\<lparr>qcow2 := ?q1\<rparr>) = (Inr (l1_table q), dev\<lparr>qcow2 := ?q1\<rparr>)"
    using read_l1_spec [OF _ l1 l1_len [OF g], of "dev\<lparr>qcow2 := ?q1\<rparr>"] plan by simp
  show "lbd_qcow2_init dev = (Inr (), dev\<lparr>qcow2 := fresh q\<rparr>)"
    using plan rd bits r1 ff
    by (simp add: lbd_qcow2_init_def LBD_QCOW2_HEADER_SIZE_def hf q1 Let_def init_caches_def kvmalloc_n_Nil
        LBD_QCOW2_L2_CACHE_SIZE_def LBD_QCOW2_CL_CACHE_SIZE_def)
  assume "base dev = None" "\<not> crashed dev"
  then show "qinv crc (dev\<lparr>qcow2 := fresh q\<rparr>) T C FL (\<lambda>_. None)"
    using di l2coh_empty clcoh_empty
    by (simp add: qinv_def dinv_shell [OF fresh_fields(1)] base_ok_def qshell_fields [OF fresh_fields(1)])
qed

text \<open>No slot is dirty between requests, so a flush of all slots writes nothing.\<close>

lemma flush_slots_clean:
  assumes "\<And>i. i \<in> set is \<Longrightarrow> l2_valid (l2_at dev i) \<Longrightarrow> \<not> l2_dirty (l2_at dev i)"
  shows "flush_slots crc is dev = dev"
  using assms by (induction "is") auto

lemma flush_all_clean:
  assumes "qinv crc dev T C FL B"
  shows "flush_slots crc [0..<LBD_QCOW2_L2_CACHE_SIZE] dev = dev"
  using l2coh_entry(1) [OF qinvD(4) [OF assms]] by (intro flush_slots_clean) (simp add: LBD_QCOW2_L2_CACHE_SIZE_def)

lemma destroy_spec:
  assumes q: "qinv crc dev T C FL B" and plan: "io_plan dev = []"
  shows "dinv crc (qcow2 dev) (backing_file (lbd_qcow2_destroy crc dev)) T C FL"
    "read_at (backing_file (lbd_qcow2_destroy crc dev)) 36 8 = be64 (alloc_offset (qcow2 dev))"
proof -
  let ?q = "qcow2 dev" and ?f = "backing_file dev"
  define f1 where "f1 = write_at ?f 36 (be64 (alloc_offset ?q))"
  define f2 where "f2 = write_at f1 48 (be64 (free_list_head ?q))"
  have b: "backing_file (lbd_qcow2_destroy crc dev) = f2"
    using plan by (simp add: lbd_qcow2_destroy_def Let_def flush_all_clean [OF q] write_alloc_eq write_head_eq f1_def f2_def)
  note di = qinvD(1) [OF q]
  have u: "unch {36..<56} ?f f2"
    unfolding f1_def f2_def by (intro unch_trans [OF unch_write unch_write]) simp_all
  have "read_at f2 48 8 = be64 (free_list_head ?q)"
    using read_write_same [of f1 48 "be64 (free_list_head ?q)"] by (simp add: f2_def)
  then show "dinv crc ?q (backing_file (lbd_qcow2_destroy crc dev)) T C FL"
    unfolding b by (intro dinv_hdr [OF di u]) auto
  have "read_at f2 36 8 = read_at f1 36 8"
    unfolding f2_def by (rule read_write_before) (simp_all add: f1_def length_write_at)
  then show "read_at (backing_file (lbd_qcow2_destroy crc dev)) 36 8 = be64 (alloc_offset ?q)"
    using read_write_same [of ?f 36 "be64 (alloc_offset ?q)"] by (simp add: b f1_def)
qed

text \<open>C7: The primary layer survives a restart. After \<open>lbd_qcow2_destroy\<close> of a device, and even
  without it whenever the allocation cursor is on disk (as after every write), attaching the
  image file to a fresh device succeeds and gives a device that shows exactly the stored clusters,
  with no base layer.\<close>

theorem reopen_keeps_store:
  assumes "abs_img crc dev L" and "io_plan dev = []"
    and "backing_file dev0 = backing_file (lbd_qcow2_destroy crc dev) \<or> synced dev \<and> backing_file dev0 = backing_file dev"
    and "io_plan dev0 = []" and "base dev0 = None" and "\<not> crashed dev0"
  shows "\<exists>dev'. lbd_qcow2_init dev0 = (Inr (), dev') \<and> abs_img crc dev' (fst L, Map.empty) \<and> synced dev' \<and>
    geo (qcow2 dev') = geo (qcow2 dev) \<and> backing_file dev' = backing_file dev0"
proof -
  obtain T C FL B where q: "qinv crc dev T C FL B" and L: "L = (stored_layer (nent (qcow2 dev)) T C, B)"
    using assms(1) by (auto simp: abs_img_def)
  have d: "dinv crc (qcow2 dev) (backing_file dev0) T C FL" "read_at (backing_file dev0) 36 8 = be64 (alloc_offset (qcow2 dev))"
    using assms(3) destroy_spec [OF q assms(2)] qinvD(1) [OF q] by (auto simp: synced_def)
  note i = init_spec [OF assms(4) d]
  note ff = qshell_fields [OF fresh_fields(1)]
  have "abs_img crc (dev0\<lparr>qcow2 := fresh (qcow2 dev)\<rparr>) (fst L, \<lambda>_. None)"
    using i(2) [OF assms(5,6)] by (rule abs_imgI) (simp add: L ff)
  then show ?thesis
    using i(1) d(2) by (simp add: synced_def geo_def ff)
qed

section \<open>The base layer\<close>

text \<open>The clusters of a raw file: those that lie in it completely.\<close>

definition raw_layer :: "nat \<Rightarrow> bytes \<Rightarrow> (nat \<rightharpoonup> bytes)" where
  "raw_layer cs f c = (if (c + 1) * cs \<le> length f then Some (read_at f (c * cs) cs) else None)"

text \<open>
  The files that can serve as a base of the image \<open>q\<close>, with the layer they hold: a complete
  image of the same cluster size and disk size, or a raw file as large as the disk.
\<close>

definition base_holds :: "crc_fun \<Rightarrow> lbd_qcow2 \<Rightarrow> bytes \<Rightarrow> (nat \<rightharpoonup> bytes) \<Rightarrow> bool" where
  "base_holds crc q f B \<longleftrightarrow>
     (\<exists>qb T C FL. dinv crc qb f T C FL \<and> cluster_bits qb = cluster_bits q \<and> virtual_size qb = virtual_size q \<and>
        B = stored_layer (nent q) T C) \<or>
     (8 \<le> length f \<and> length f = unat (virtual_size q) \<and> length f < 2 ^ 63 \<and> of_be64 (read_at f 0 8) \<noteq> LBD_QCOW2_MAGIC \<and>
        B = raw_layer (csz q) f)"

lemma base_init_qcow2_spec:
  assumes plan: "io_plan dev = []" and g: "geom (qcow2 dev)" and di: "dinv crc qb f T C FL"
    and same: "cluster_bits qb = cluster_bits (qcow2 dev)" "virtual_size qb = virtual_size (qcow2 dev)"
  shows "\<exists>b. base_init_qcow2 f dev = (Inr b, dev) \<and> binv crc (csz (qcow2 dev)) b (stored_layer (nent (qcow2 dev)) T C)"
proof -
  let ?q = "qcow2 dev"
  have gb: "geom qb" and h: "hdr_ok qb f" and l1: "l1_disk qb f"
    and l2d: "l2disk crc (csz qb) (nent qb) (l1_table qb) (unat (l1_size qb)) f T"
    and st: "\<And>c. ent (nent qb) T c \<noteq> 0 \<Longrightarrow> stored (csz qb) f (ent (nent qb) T c) (C c)"
    using di by (simp_all add: dinv_def)
  note hf = header_fields [OF h]
  have eq: "cluster_size qb = cluster_size ?q" "l2_entries qb = l2_entries ?q"
    "2 ^ unat (cluster_bits ?q) = cluster_size ?q" "(cluster_size ?q - 8) div 8 = l2_entries ?q"
    using g gb same by (simp_all add: geom_def)
  have rd: "read_full f 4096 0 dev = (Inr (read_at f 0 4096), dev)"
    using h by (subst read_full_Nil [OF plan]) (simp_all add: hdr_ok_def)
  note r1 = read_l1_spec [OF plan l1 l1_len [OF gb]]
  have "holds (csz ?q) (nent ?q) f T (stored_layer (nent ?q) T C)"
    using st by (auto simp: holds_def stored_layer_def eq)
  then show ?thesis
    using plan rd r1 l2d csz_div8 [OF g] l2coh_empty
    by (simp add: base_init_qcow2_def Let_def LBD_QCOW2_HEADER_SIZE_def hf same kvmalloc_n_Nil binv_def eq
        LBD_QCOW2_L2_TRAILER_SIZE_def LBD_QCOW2_L2_CACHE_SIZE_def) blast
qed

lemma base_init_raw_spec:
  assumes "length f = unat (virtual_size (qcow2 dev))" "length f < 2 ^ 63"
  shows "\<exists>b. base_init_raw f dev = (Inr b, dev) \<and> binv crc (csz (qcow2 dev)) b (raw_layer (csz (qcow2 dev)) f)"
  using assms by (simp add: base_init_raw_def binv_def raw_layer_def)

lemma base_init_spec:
  assumes plan: "io_plan dev = []" and g: "geom (qcow2 dev)" and o: "filp_open path = Inr nf"
    and fl: "f_regular nf" "f_inode nf \<noteq> backing_inode dev" "base_holds crc (qcow2 dev) (f_contents nf) B"
  shows "\<exists>b. lbd_qcow2_base_init filp_open path dev = (Inr (), dev\<lparr>base := Some b\<rparr>) \<and> binv crc (csz (qcow2 dev)) b B"
proof -
  let ?f = "f_contents nf"
  consider (img) qb T C FL where "dinv crc qb ?f T C FL" "cluster_bits qb = cluster_bits (qcow2 dev)"
      "virtual_size qb = virtual_size (qcow2 dev)" "B = stored_layer (nent (qcow2 dev)) T C"
    | (raw) "8 \<le> length ?f" "length ?f = unat (virtual_size (qcow2 dev))" "length ?f < 2 ^ 63"
      "of_be64 (read_at ?f 0 8) \<noteq> LBD_QCOW2_MAGIC" "B = raw_layer (csz (qcow2 dev)) ?f"
    using fl(3) by (auto simp: base_holds_def)
  then show ?thesis
  proof cases
    case img
    have h: "hdr_ok qb ?f"
      using img(1) by (simp add: dinv_def)
    then have len: "4096 \<le> length ?f" and "read_at (read_at ?f 0 36) 0 8 = be64 LBD_QCOW2_MAGIC"
      by (simp_all add: hdr_ok_def) (simp add: read_at_def)
    then have "of_be64 (read_at ?f 0 8) = LBD_QCOW2_MAGIC"
      by (simp add: read_read byte_simps)
    moreover have "read_full ?f 8 0 dev = (Inr (read_at ?f 0 8), dev)"
      using len by (subst read_full_Nil [OF plan]) simp_all
    ultimately show ?thesis
      using plan o fl(1,2) len base_init_qcow2_spec [OF plan g img(1-3)] img(4) by (auto simp: lbd_qcow2_base_init_def)
  next
    case raw
    have "read_full ?f 8 0 dev = (Inr (read_at ?f 0 8), dev)"
      using raw(1) by (subst read_full_Nil [OF plan]) simp_all
    moreover obtain b where "base_init_raw ?f dev = (Inr b, dev)" "binv crc (csz (qcow2 dev)) b B"
      using base_init_raw_spec [OF raw(2,3), of crc] raw(5) by blast
    ultimately show ?thesis
      using plan o fl(1,2) raw(1,4) by (auto simp: lbd_qcow2_base_init_def)
  qed
qed

section \<open>Swapping the base\<close>

text \<open>Reading the L1 table again changes nothing when the image is complete.\<close>

lemma reload_l1_spec:
  assumes plan: "io_plan dev = []" and di: "dinv crc (qcow2 dev) (backing_file dev) T C FL" and s: "synced dev"
  shows "lbd_qcow2_reload_l1 dev = (Inr (), dev)"
proof -
  let ?q = "qcow2 dev" and ?f = "backing_file dev"
  have g: "geom ?q" and h: "hdr_ok ?q ?f" and l1: "l1_disk ?q ?f" and fl: "read_at ?f 48 8 = be64 (free_list_head ?q)"
    using di by (simp_all add: dinv_def)
  have rd: "read_full ?f 4096 0 dev = (Inr (read_at ?f 0 4096), dev)"
    using h by (subst read_full_Nil [OF plan]) (simp_all add: hdr_ok_def)
  have "?q\<lparr>alloc_offset := alloc_offset ?q, free_list_head := free_list_head ?q\<rparr> = ?q"
    "?q\<lparr>l1_table := l1_table ?q, l1_size := l1_size ?q, l1_offset := l1_offset ?q\<rparr> = ?q"
    by (cases ?q; simp)+
  then show ?thesis
    using plan rd fl s read_l1_spec [OF plan l1 l1_len [OF g]]
    by (simp add: lbd_qcow2_reload_l1_def LBD_QCOW2_HEADER_SIZE_def header_fields [OF h] Let_def synced_def byte_simps)
qed

lemma clcoh_all_invalid:
  assumes "clcoh cs V tick es"
  shows "clcoh cs V' tick (map (\<lambda>e. e\<lparr>cl_valid := False\<rparr>) es)"
  using assms by (auto simp: clcoh_def coherent_def)

lemma l2coh_all_invalid:
  assumes "l2coh cs n T tick es"
  shows "l2coh cs n T tick (map (\<lambda>e. e\<lparr>l2_valid := False\<rparr>) es)"
  using l2coh_invalidate [OF assms, of "\<lambda>_. True"] by simp

lemma invalidate_all_spec:
  assumes q: "qinv crc (dev\<lparr>base := b0\<rparr>) T C FL B0" and b: "base dev = Some b" "binv crc (csz (qcow2 dev)) b B"
  shows "qinv crc (lbd_qcow2_invalidate_all_caches dev) T C FL B"
    "qshell (qcow2 (lbd_qcow2_invalidate_all_caches dev)) = qshell (qcow2 dev)"
    "backing_file (lbd_qcow2_invalidate_all_caches dev) = backing_file dev"
proof -
  let ?q = "qcow2 dev" and ?dev = "lbd_qcow2_invalidate_all_caches dev"
  let ?q' = "?q\<lparr>cl_cache := map (\<lambda>e. e\<lparr>cl_valid := False\<rparr>) (cl_cache ?q),
    l2_cache := map (\<lambda>e. e\<lparr>l2_valid := False\<rparr>) (l2_cache ?q)\<rparr>"
  have d: "qcow2 ?dev = ?q'" "backing_file ?dev = backing_file dev" "crashed ?dev = crashed dev"
    by (simp_all add: lbd_qcow2_invalidate_all_caches_def Let_def b(1))
  have s: "qshell ?q' = qshell ?q"
    by simp
  note qd = qinvD [OF q]
  have "base_ok crc ?dev B"
  proof (cases "b_is_qcow2 b")
    case True
    then have "base ?dev = Some (b\<lparr>b_l2_cache := map (\<lambda>e. e\<lparr>l2_valid := False\<rparr>) (b_l2_cache b)\<rparr>)"
      by (simp add: lbd_qcow2_invalidate_all_caches_def Let_def b(1))
    moreover have "binv crc (csz ?q) (b\<lparr>b_l2_cache := map (\<lambda>e. e\<lparr>l2_valid := False\<rparr>) (b_l2_cache b)\<rparr>) B"
      using b(2) True l2coh_all_invalid by (auto simp: binv_def)
    ultimately show ?thesis
      by (simp add: base_ok_def d)
  next
    case False
    then show ?thesis
      using b by (simp add: base_ok_def d lbd_qcow2_invalidate_all_caches_def Let_def)
  qed
  then show "qinv crc ?dev T C FL B"
    using qd(1,7) l2coh_all_invalid [OF qd(4)] clcoh_all_invalid [OF qd(5), of "vw ?q T C B"]
    by (simp add: qinv_def d dinv_shell [OF s])
  show "qshell (qcow2 ?dev) = qshell ?q" "backing_file ?dev = backing_file dev"
    by (simp_all add: d)
qed

text \<open>C8: Swapping the base of a device whose image is complete succeeds for a new base file that holds
  the layer \<open>B'\<close>: the device then refines the store with the same primary layer over \<open>B'\<close>, with no
  cluster of the old base left in a cache. If the new file cannot be opened the device is left
  without a base and keeps its caches.\<close>

theorem swap_base_refines:
  assumes "abs_img crc dev (P, B)" and "io_plan dev = []" and "synced dev"
  shows "(filp_open path = Inl e \<longrightarrow> lbd_qcow2_swap_base crc filp_open path dev = (Inl e, dev\<lparr>base := None\<rparr>)) \<and>
    (filp_open path = Inr nf \<and> f_regular nf \<and> f_inode nf \<noteq> backing_inode dev \<and>
       base_holds crc (qcow2 dev) (f_contents nf) B' \<longrightarrow>
     (\<exists>dev'. lbd_qcow2_swap_base crc filp_open path dev = (Inr (), dev') \<and> abs_img crc dev' (P, B') \<and>
        synced dev' \<and> base_path dev' = take 255 path \<and> backing_file dev' = backing_file dev))"
proof -
  obtain T C FL where q: "qinv crc dev T C FL B" and P: "P = stored_layer (nent (qcow2 dev)) T C"
    using assms(1) by (auto simp: abs_img_def)
  have fl: "lbd_qcow2_flush_all_l2 crc dev = dev"
    unfolding lbd_qcow2_flush_all_l2_def by (rule flush_all_clean [OF q])
  let ?dev1 = "dev\<lparr>base := None\<rparr>"
  have d1: "(if base dev \<noteq> None then lbd_qcow2_base_destroy dev else dev) = ?dev1"
    by (cases dev) (simp add: lbd_qcow2_base_destroy_def)
  have "filp_open path = Inl e \<longrightarrow> lbd_qcow2_swap_base crc filp_open path dev = (Inl e, ?dev1)"
    unfolding lbd_qcow2_swap_base_def Let_def fl d1 by (simp add: lbd_qcow2_base_init_def)
  moreover have "\<exists>dev'. lbd_qcow2_swap_base crc filp_open path dev = (Inr (), dev') \<and> abs_img crc dev' (P, B') \<and>
      synced dev' \<and> base_path dev' = take 255 path \<and> backing_file dev' = backing_file dev"
    if a: "filp_open path = Inr nf" "f_regular nf" "f_inode nf \<noteq> backing_inode dev"
      "base_holds crc (qcow2 dev) (f_contents nf) B'"
  proof -
    obtain b where b: "lbd_qcow2_base_init filp_open path ?dev1 = (Inr (), dev\<lparr>base := Some b\<rparr>)" "binv crc (csz (qcow2 dev)) b B'"
      using base_init_spec [where dev = ?dev1 and filp_open = filp_open and path = path and nf = nf and crc = crc and B = B'] assms(2) qinvD(2) [OF q] a by auto
    let ?dev2 = "dev\<lparr>base := Some b\<rparr>"
    have "lbd_qcow2_reload_l1 ?dev2 = (Inr (), ?dev2)"
      using assms(2,3) qinvD(1) [OF q] by (intro reload_l1_spec) (simp_all add: synced_def)
    then have run: "lbd_qcow2_swap_base crc filp_open path dev = (Inr (), (lbd_qcow2_invalidate_all_caches ?dev2)\<lparr>base_path := take 255 path\<rparr>)"
      unfolding lbd_qcow2_swap_base_def Let_def fl d1 b(1) by simp
    let ?dev3 = "(lbd_qcow2_invalidate_all_caches ?dev2)\<lparr>base_path := take 255 path\<rparr>"
    have "qinv crc (?dev2\<lparr>base := base dev\<rparr>) T C FL B"
      using q by (cases dev) simp
    note iv = invalidate_all_spec [OF this, of b B']
    have i: "qinv crc (lbd_qcow2_invalidate_all_caches ?dev2) T C FL B'"
      "qshell (qcow2 (lbd_qcow2_invalidate_all_caches ?dev2)) = qshell (qcow2 dev)"
      "backing_file (lbd_qcow2_invalidate_all_caches ?dev2) = backing_file dev"
      using iv b(2) by simp_all
    note qf = qshell_fields [OF i(2)]
    have "qinv crc ?dev3 T C FL B'"
      using i(1) by (auto simp: qinv_def intro: base_ok_same)
    then have "abs_img crc ?dev3 (P, B')"
      by (rule abs_imgI) (simp add: P qf)
    then show ?thesis
      using run assms(3) i(3) qf by (intro exI [of _ ?dev3]) (simp add: synced_def)
  qed
  ultimately show ?thesis
    by blast
qed

end
