(* ===== verification/Lbdctl_Create.thy ===== *)
theory Lbdctl_Create
  imports Lbdctl_Base Qcow2_Attach
begin

text \<open>
  Creating an empty image (\<^verbatim>\<open>src/src/lbdctl.c\<close>, \<open>cmd_create\<close>) and attaching it: the new image
  initialises, shows zeros everywhere, and its L1 table covers the whole disk.
\<close>

section \<open>The command\<close>

text \<open>The options: the output path, the virtual size and the cluster bits; \<open>None\<close> on a usage error.\<close>

fun create_args :: "string list \<Rightarrow> string option \<times> u64 \<times> u32 \<Rightarrow> (string option \<times> u64 \<times> u32) option" where
  "create_args [] a = Some a"
| "create_args (x # xs) (path, vsize, bits) =
     (if x = ''--size'' then (case xs of [] \<Rightarrow> None | v # xs \<Rightarrow> create_args xs (path, parse_size v, bits))
      else if x = ''--cluster-bits'' then (case xs of [] \<Rightarrow> None | v # xs \<Rightarrow> create_args xs (path, vsize, atoi v))
      else if path = None then create_args xs (Some x, vsize, bits)
      else None)"

text \<open>The number of L1 entries, and the first free offset behind the L1 table.\<close>

definition image_l1_size :: "u64 \<Rightarrow> u32 \<Rightarrow> u32 \<Rightarrow> u32" where
  "image_l1_size vsize l2_ents csize =
     (let l1_sz = ucast ((vsize + ucast l2_ents * ucast csize - 1) div
                           (ucast l2_ents * ucast csize))
      in if l1_sz = 0 then 1 else l1_sz)"

definition image_alloc_offset :: "u32 \<Rightarrow> u32 \<Rightarrow> u64" where
  "image_alloc_offset l1_sz csize =
     (let alloc_off = of_nat LBD_QCOW2_HEADER_SIZE + ucast l1_sz * 8
      in (alloc_off + ucast csize - 1) AND NOT (ucast csize - 1))"

definition image_header :: "u32 \<Rightarrow> u64 \<Rightarrow> u32 \<Rightarrow> u64 \<Rightarrow> bytes" where
  "image_header cbits vsize l1_sz alloc_off =
     (let hdr = replicate LBD_QCOW2_HEADER_SIZE 0;
          hdr = lbd_qcow2_hdr_set_magic hdr LBD_QCOW2_MAGIC;
          hdr = lbd_qcow2_hdr_set_version hdr LBD_QCOW2_VERSION;
          hdr = lbd_qcow2_hdr_set_cluster_bits hdr cbits;
          hdr = lbd_qcow2_hdr_set_virtual_size hdr vsize;
          hdr = lbd_qcow2_hdr_set_l1_table_offset hdr (of_nat LBD_QCOW2_HEADER_SIZE);
          hdr = lbd_qcow2_hdr_set_l1_size hdr l1_sz;
          hdr = lbd_qcow2_hdr_set_alloc_offset hdr alloc_off;
          hdr = lbd_qcow2_hdr_set_comp_type hdr LBD_QCOW2_COMP_LZ4
      in lbd_qcow2_hdr_set_free_list hdr 0)"

definition cmd_create :: "string list \<Rightarrow> cli \<Rightarrow> nat \<times> cli" where
  "cmd_create argv w =
     (case create_args argv (None, 0, 16) of
        None \<Rightarrow> (1, w)
      | Some (None, _, _) \<Rightarrow> (1, w)
      | Some (Some path, vsize, cbits) \<Rightarrow>
          if vsize = 0 then (1, w)
          else if cbits < 12 \<or> cbits > 24 then (1, w)
          else
            let csize = push_bit (unat cbits) 1;
                l2_ents = (csize - of_nat LBD_QCOW2_L2_TRAILER_SIZE) div 8;
                l1_sz = image_l1_size vsize l2_ents csize;
                alloc_off = image_alloc_offset l1_sz csize;
                hdr = image_header cbits vsize l1_sz alloc_off
            in (case open_trunc path w of
                  (False, w) \<Rightarrow> (1, w)
                | (True, w) \<Rightarrow>
                    (case pwrite path hdr 0 w of
                       (False, w) \<Rightarrow> (1, w)
                     | (True, w) \<Rightarrow>
                         (case sys_ok w of
                            (False, w) \<Rightarrow> (1, w)
                          | (True, w) \<Rightarrow>
                              (case pwrite path (replicate (unat l1_sz * 8) 0) (of_nat LBD_QCOW2_HEADER_SIZE) w of
                                 (False, w) \<Rightarrow> (1, w)
                               | (True, w) \<Rightarrow>
                                   (case ftruncate path alloc_off w of
                                      (False, w) \<Rightarrow> (1, w)
                                    | (True, w) \<Rightarrow> (0, w)))))))"

section \<open>The layout of a new image\<close>

lemma image_header_bytes:
  "image_header bits vs l1n alloc =
     be64 LBD_QCOW2_MAGIC @ be32 LBD_QCOW2_VERSION @ be32 bits @ be64 vs @ be64 4096 @ be32 l1n @
     be64 alloc @ be32 LBD_QCOW2_COMP_LZ4 @ be64 0 @ replicate 4040 0"
  unfolding image_header_def Let_def hdr_setter_defs offset_defs LBD_QCOW2_HEADER_SIZE_def
  by (simp add: put64_blit put32_blit length_blit) (simp add: blit_def)

lemma be64_zero: "be64 0 = replicate 8 0"
  by (simp add: be64_def eval_nat_numeral)

lemma length_image_header [simp]: "length (image_header bits vs l1n alloc) = 4096"
  by (simp add: image_header_bytes)

lemma unat_two_power: "b < 64 \<Longrightarrow> unat (2 ^ b :: u64) = 2 ^ b"
proof -
  assume "b < 64"
  then have "(2 :: nat) ^ b < 2 ^ 64"
    by (intro power_strict_increasing) simp_all
  then show ?thesis
    using unat_of_nat_u64 [of "2 ^ b"] by simp
qed

text \<open>Rounding up to a multiple of the cluster size.\<close>

lemma unat_align:
  assumes "unat x + 2 ^ b < 2 ^ 64" "b < 64"
  shows "unat ((x + 2 ^ b - 1) AND NOT (2 ^ b - 1) :: u64) = (unat x + 2 ^ b - 1) div 2 ^ b * 2 ^ b"
proof -
  have pb: "unat (2 ^ b :: u64) = 2 ^ b"
    using assms(2) by (simp add: unat_two_power)
  have "unat (x + 2 ^ b) = unat x + 2 ^ b"
    using assms pb by (simp add: unat_plus_u64)
  moreover have "1 \<le> x + 2 ^ b"
    using calculation by (simp add: word_le_nat_alt Suc_le_eq)
  ultimately have u: "unat (x + 2 ^ b - 1) = unat x + 2 ^ b - 1"
    by (simp add: unat_sub)
  let ?y = "x + 2 ^ b - 1"
  have "?y AND NOT (2 ^ b - 1) = push_bit b (drop_bit b ?y)"
    unfolding mask_eq_exp_minus_1 [symmetric] by (intro bit_word_eqI) (auto simp: bit_simps)
  moreover have "unat (drop_bit b ?y) = (unat x + 2 ^ b - 1) div 2 ^ b"
    unfolding unat_drop_bit_eq u by (rule drop_bit_eq_div)
  moreover have "(unat x + 2 ^ b - 1) div 2 ^ b * 2 ^ b < 2 ^ 64"
    using assms(1) by (intro order.strict_trans1 [OF div_times_less_eq_dividend]) simp
  ultimately show ?thesis
    by (simp add: push_bit_eq_mult unat_mult_lem [THEN iffD1] pb mult.commute)
qed

lemma ceil_div: "0 < d \<Longrightarrow> n \<le> (n + d - 1) div d * d" "0 < d \<Longrightarrow> (n + d - 1) div d * d < n + d" for n d :: nat
proof -
  assume d: "0 < d"
  have "(n + d - 1) div d * d + (n + d - 1) mod d = n + d - 1" "(n + d - 1) mod d < d"
    using d by simp_all
  then show "n \<le> (n + d - 1) div d * d" "(n + d - 1) div d * d < n + d"
    using d by linarith+
qed

text \<open>The geometry of a new image, as numbers.\<close>

lemma image_geometry:
  fixes bits :: u32 and vs :: u64
  assumes b: "12 \<le> unat bits" "unat bits \<le> 24" and vs: "0 < unat vs" "unat vs \<le> 2 ^ 52"
    and cs: "cs = push_bit (unat bits) 1" and n: "n = (cs - 8) div 8"
  shows "unat cs = 2 ^ unat bits" "8 * unat n + 8 = unat cs"
    "0 < unat (image_l1_size vs n cs)" "unat vs \<le> unat (image_l1_size vs n cs) * unat n * unat cs"
    "4096 + 8 * unat (image_l1_size vs n cs) \<le> unat (image_alloc_offset (image_l1_size vs n cs) cs)"
    "unat (image_alloc_offset (image_l1_size vs n cs) cs) < 2 ^ 36"
proof -
  define q :: lbd_qcow2 where "q = \<lparr>cluster_bits = bits, cluster_size = cs, l2_entries = n, virtual_size = 0,
    l1_table = [], l1_size = 0, l1_offset = 0, alloc_offset = 0, free_list_head = 0, l2_cache = [], cl_cache = [], lru_tick = 0\<rparr>"
  have g: "geom q"
    using b cs n by (simp add: geom_def q_def)
  show ucs: "unat cs = 2 ^ unat bits" and un: "8 * unat n + 8 = unat cs"
    using csz_pow [OF g] nent_csz [OF g] by (simp_all add: q_def)
  have cs': "4096 \<le> unat cs" "unat cs \<le> 16777216"
    using csz_ge [OF g] csz_le [OF g] by (simp_all add: q_def)
  let ?d = "unat n * unat cs"
  have n511: "511 \<le> unat n" "unat n \<le> 2097151"
    using un cs' by simp_all
  have d: "2093056 \<le> ?d" "?d \<le> 2097151 * 16777216"
    using mult_le_mono [OF n511(1) cs'(1)] mult_le_mono [OF n511(2) cs'(2)] by simp_all
  have ud: "unat (ucast n * ucast cs :: u64) = ?d"
    using d(2) by (simp add: unat_mult_lem [THEN iffD1])
  have us: "unat (vs + ucast n * ucast cs - 1) = unat vs + ?d - 1"
  proof -
    have "unat (vs + ucast n * ucast cs) = unat vs + ?d"
      using vs(2) d(2) ud unat_plus_u64 [of vs "ucast n * ucast cs"] by simp
    moreover have "1 \<le> vs + ucast n * ucast cs"
      using calculation vs(1) by (simp add: word_le_nat_alt)
    ultimately show ?thesis
      by (simp add: unat_sub)
  qed
  let ?l = "(unat vs + ?d - 1) div ?d"
  have l: "unat vs \<le> ?l * ?d" "?l * ?d < unat vs + ?d"
    using d(1) by (intro ceil_div; simp only:; linarith)+
  have "?l * 2093056 \<le> ?l * ?d"
    using d(1) by (rule mult_le_mono2)
  moreover have "unat vs \<le> 4503599627370496"
    using vs(2) by simp
  ultimately have "?l < 4294967296"
    using l(2) d(2) by linarith
  then have lb: "?l < 2 ^ 32"
    by simp
  have l0: "0 < ?l"
    using l(1) vs(1) by (cases ?l) auto
  have "unat ((vs + ucast n * ucast cs - 1) div (ucast n * ucast cs)) = ?l"
    by (simp add: unat_div us ud)
  then have "unat (ucast ((vs + ucast n * ucast cs - 1) div (ucast n * ucast cs)) :: u32) = ?l"
    using lb by (simp add: unsigned_ucast_eq take_bit_nat_eq_self)
  then have ul: "unat (image_l1_size vs n cs) = ?l"
    using l0 by (auto simp: image_l1_size_def Let_def)
  show "0 < unat (image_l1_size vs n cs)" "unat vs \<le> unat (image_l1_size vs n cs) * unat n * unat cs"
    using l0 l(1) by (simp_all add: ul mult.assoc)
  let ?x = "of_nat LBD_QCOW2_HEADER_SIZE + ucast (image_l1_size vs n cs) * 8 :: u64"
  have ux: "unat ?x = 4096 + 8 * ?l"
  proof -
    have "unat (ucast (image_l1_size vs n cs) * 8 :: u64) = 8 * ?l"
      using lb by (simp add: unat_mult_lem [THEN iffD1] ul mult.commute)
    then show ?thesis
      using lb unat_plus_u64 [of 4096 "ucast (image_l1_size vs n cs) * 8"] by (simp add: LBD_QCOW2_HEADER_SIZE_def)
  qed
  have "(2 :: nat) ^ unat bits \<le> 16777216"
    using cs'(2) ucs by simp
  then have rb: "unat ?x + 2 ^ unat bits < 2 ^ 64" "unat bits < 64"
    using lb b(2) ux by simp_all
  have c2: "ucast cs = (2 ^ unat bits :: u64)"
    using ucs b(2) by (simp add: word_unat_eq_iff unat_two_power)
  have ua: "unat (image_alloc_offset (image_l1_size vs n cs) cs) = (4096 + 8 * ?l + 2 ^ unat bits - 1) div 2 ^ unat bits * 2 ^ unat bits"
    unfolding image_alloc_offset_def Let_def c2 using unat_align [OF rb] by (simp only: ux)
  show "4096 + 8 * unat (image_l1_size vs n cs) \<le> unat (image_alloc_offset (image_l1_size vs n cs) cs)"
    unfolding ua ul by (rule ceil_div(1)) simp
  have "unat (image_alloc_offset (image_l1_size vs n cs) cs) < 4096 + 8 * ?l + 2 ^ unat bits"
    unfolding ua by (rule ceil_div(2)) simp
  then show "unat (image_alloc_offset (image_l1_size vs n cs) cs) < 2 ^ 36"
    using lb cs'(2) ucs by simp
qed

section \<open>The new image\<close>

text \<open>The file \<open>cmd_create\<close> leaves, and the in-memory form of its header and L1 table.\<close>

definition empty_image :: "u32 \<Rightarrow> u64 \<Rightarrow> bytes" where
  "empty_image bits vs =
     (let cs = push_bit (unat bits) 1; n = (cs - 8) div 8; l1n = image_l1_size vs n cs; alloc = image_alloc_offset l1n cs
      in image_header bits vs l1n alloc @ replicate (unat alloc - 4096) 0)"

definition empty_qcow2 :: "u32 \<Rightarrow> u64 \<Rightarrow> lbd_qcow2" where
  "empty_qcow2 bits vs =
     (let cs = push_bit (unat bits) 1; n = (cs - 8) div 8; l1n = image_l1_size vs n cs
      in \<lparr>cluster_bits = bits, cluster_size = cs, l2_entries = n, virtual_size = vs, l1_table = replicate (unat l1n) 0,
          l1_size = l1n, l1_offset = 4096, alloc_offset = image_alloc_offset l1n cs, free_list_head = 0,
          l2_cache = [], cl_cache = [], lru_tick = 0\<rparr>)"

lemma create_run:
  assumes args: "create_args argv (None, 0, 16) = Some (Some path, vs, bits)" and pl: "plan w = []"
    and b: "12 \<le> unat bits" "unat bits \<le> 24" and vs: "0 < unat vs" "unat vs \<le> 2 ^ 52"
  shows "cmd_create argv w = (0, w\<lparr>files := (files w)(path \<mapsto> empty_image bits vs)\<rparr>)"
proof -
  define cs :: u32 where "cs = push_bit (unat bits) 1"
  define n where "n = (cs - 8) div 8"
  define l1n where "l1n = image_l1_size vs n cs"
  define alloc where "alloc = image_alloc_offset l1n cs"
  let ?h = "image_header bits vs l1n alloc" and ?z = "replicate (unat l1n * 8) 0 :: bytes"
  note g = image_geometry [OF b vs cs_def n_def]
  have al: "4096 + 8 * unat l1n \<le> unat alloc" "unat alloc < 2 ^ 36"
    using g(5,6) by (simp_all add: l1n_def alloc_def)
  have p1: "pos_ok 0 (length ?h)" "pos_ok 4096 (length ?z)" "unat alloc < 2 ^ 63"
    using al unat_u32_lt [of l1n] by (simp_all add: pos_ok_def)
  have z: "?z \<noteq> []" "length ?z = 8 * unat l1n"
    using g(3) by (simp_all add: l1n_def)
  have w1: "write_at [] 0 ?h = ?h"
    using length_image_header [of bits vs l1n alloc] by (cases ?h) (simp_all add: write_at_def)
  have w2: "write_at ?h 4096 ?z = ?h @ ?z"
    using z(1) by (simp add: write_at_def)
  have f: "empty_image bits vs = ?h @ replicate (unat alloc - 4096) 0"
    unfolding empty_image_def Let_def cs_def n_def l1n_def alloc_def by (rule refl)
  have tr: "take (unat alloc) (?h @ ?z) @ replicate (unat alloc - length (?h @ ?z)) 0 = empty_image bits vs"
    using al unfolding f by (simp flip: replicate_add)
  have c2: "2 ^ unat bits = cs"
    by (simp add: cs_def)
  have c: "\<not> (bits < 12 \<or> bits > 24)" "vs \<noteq> 0"
    using b vs(1) by (auto simp: word_less_nat_alt)
  show ?thesis
    using args pl c p1 w1 w2 tr
    by (simp add: cmd_create_def Let_def LBD_QCOW2_L2_TRAILER_SIZE_def LBD_QCOW2_HEADER_SIZE_def open_trunc_def pwrite_def ftruncate_def
        contents_def c2 n_def [symmetric] l1n_def [symmetric] alloc_def [symmetric])
qed

lemma empty_dinv:
  assumes b: "12 \<le> unat bits" "unat bits \<le> 24" and vs: "0 < unat vs" "unat vs \<le> 2 ^ 52"
  shows "dinv crc (empty_qcow2 bits vs) (empty_image bits vs) (\<lambda>_. replicate (nent (empty_qcow2 bits vs)) 0) C []"
    "read_at (empty_image bits vs) 36 8 = be64 (alloc_offset (empty_qcow2 bits vs))"
    "fits (empty_qcow2 bits vs) (unat vs)"
proof -
  define cs :: u32 where "cs = push_bit (unat bits) 1"
  define n where "n = (cs - 8) div 8"
  define l1n where "l1n = image_l1_size vs n cs"
  define alloc where "alloc = image_alloc_offset l1n cs"
  let ?q = "empty_qcow2 bits vs" and ?f = "empty_image bits vs" and ?T = "\<lambda>_ :: nat. replicate (unat n) (0 :: u64)"
  note g = image_geometry [OF b vs cs_def n_def]
  have al: "4096 + 8 * unat l1n \<le> unat alloc" "unat alloc < 2 ^ 36"
    using g(5,6) by (simp_all add: l1n_def alloc_def)
  have q: "?q = \<lparr>cluster_bits = bits, cluster_size = cs, l2_entries = n, virtual_size = vs, l1_table = replicate (unat l1n) 0,
      l1_size = l1n, l1_offset = 4096, alloc_offset = alloc, free_list_head = 0, l2_cache = [], cl_cache = [], lru_tick = 0\<rparr>"
    by (simp add: empty_qcow2_def Let_def cs_def n_def l1n_def alloc_def)
  have f: "?f = image_header bits vs l1n alloc @ replicate (unat alloc - 4096) 0"
    unfolding empty_image_def Let_def cs_def n_def l1n_def alloc_def by (rule refl)
  have len: "length ?f = unat alloc"
    using al by (simp add: f)
  have n0: "0 < unat n"
    using g(1,2) b(1) power_increasing [of 12 "unat bits" "2 :: nat"] by simp
  have geo: "geom ?q"
    using b by (simp add: q geom_def cs_def n_def)
  have e0: "ent (unat n) ?T c = 0" for c
    using n0 by (simp add: ent_def)
  have hdr: "hdr_ok ?q ?f"
    using al by (simp add: hdr_ok_def len) (simp add: f image_header_bytes q read_at_def)
  have l1: "l1_disk ?q ?f"
  proof -
    have "read_at ?f (4096 + 8 * i) 8 = be64 0" if "i < unat l1n" for i
      using that al by (simp add: f read_at_append2 be64_zero) (simp add: read_at_def min_def)
    then show ?thesis
      using al len by (simp add: l1_disk_def q)
  qed
  have lay: "lay ?q ?f ?T [] a = (case a of Hdr \<Rightarrow> {0..<4096} | L1 \<Rightarrow> {4096..<4096 + 8 * unat l1n} | _ \<Rightarrow> {})" for a
    using e0 by (cases a) (auto simp: q ext_len_def)
  have "space (lay ?q ?f ?T []) (unat alloc) ?f [] 0"
  proof (rule spaceI)
    show "sep (lay ?q ?f ?T [])"
      unfolding sep_def lay by (auto split: owner.splits)
    show "lay ?q ?f ?T [] a \<subseteq> {..<unat alloc}" for a
      using al unfolding lay by (cases a) auto
  qed (use al len in \<open>auto simp: lay\<close>)
  moreover have "read_at ?f 48 8 = be64 0"
    by (simp add: f image_header_bytes read_at_def)
  moreover have "l2disk crc (csz ?q) (nent ?q) (l1_table ?q) (unat (l1_size ?q)) ?f ?T"
    by (auto simp: l2disk_def q)
  ultimately show "dinv crc ?q ?f (\<lambda>_. replicate (nent ?q) 0) C []"
    using geo hdr l1 e0 by (simp add: dinv_def q)
  show "read_at ?f 36 8 = be64 (alloc_offset ?q)"
    by (simp add: f image_header_bytes read_at_def q)
  show "fits ?q (unat vs)"
    using g(4) vs(2) by (simp add: fits_def q l1n_def)
qed

lemma empty_init:
  assumes b: "12 \<le> unat bits" "unat bits \<le> 24" and vs: "0 < unat vs" "unat vs \<le> 2 ^ 52"
    and dev: "backing_file dev = empty_image bits vs" "io_plan dev = []" "base dev = None" "\<not> crashed dev"
  shows "lbd_qcow2_init dev = (Inr (), dev\<lparr>qcow2 := fresh (empty_qcow2 bits vs)\<rparr>)"
    "abs_img crc (dev\<lparr>qcow2 := fresh (empty_qcow2 bits vs)\<rparr>) (Map.empty, Map.empty)"
    "synced (dev\<lparr>qcow2 := fresh (empty_qcow2 bits vs)\<rparr>)" "fits (fresh (empty_qcow2 bits vs)) (unat vs)"
proof -
  let ?q = "empty_qcow2 bits vs"
  note e = empty_dinv(1) [OF b vs, where crc = crc and C = "\<lambda>_. []"] empty_dinv(2,3) [OF b vs]
  have d: "dinv crc ?q (backing_file dev) (\<lambda>_. replicate (nent ?q) 0) (\<lambda>_. []) []" "read_at (backing_file dev) 36 8 = be64 (alloc_offset ?q)"
    using e(1,2) by (simp_all add: dev(1))
  note i = init_spec [OF dev(2) d] and ff = qshell_fields [OF fresh_fields(1)]
  show "lbd_qcow2_init dev = (Inr (), dev\<lparr>qcow2 := fresh ?q\<rparr>)"
    by (rule i(1))
  have "geom ?q"
    using e(1) by (simp add: dinv_def)
  then have st: "stored_layer (nent ?q) (\<lambda>_. replicate (nent ?q) 0) (\<lambda>_. []) c = None" for c
    using nent_pos [of ?q] by (simp add: stored_layer_def ent_def)
  show "abs_img crc (dev\<lparr>qcow2 := fresh ?q\<rparr>) (Map.empty, Map.empty)"
    using i(2) [OF dev(3,4)] by (rule abs_imgI) (simp add: ff st fun_eq_iff)
  show "synced (dev\<lparr>qcow2 := fresh ?q\<rparr>)" "fits (fresh ?q) (unat vs)"
    using d(2) e(3) by (simp_all add: synced_def fits_def ff)
qed


end
