(* ===== verification/Lbd_Watch.thy ===== *)
theory Lbd_Watch
  imports Lbd_Device
begin

text \<open>
  The watchers of log rotations (\<^verbatim>\<open>src/src/lbd_main.c\<close>, \<open>struct lbd_watcher\<close> and the watcher
  helpers): a ring of 64 events that drops the oldest when it is full. The locale
  \<open>bounded_queue\<close> states what such a queue promises; it is interpreted on the ring.
\<close>

section \<open>The ring\<close>

definition LBD_WATCHER_QUEUE_SIZE :: nat where "LBD_WATCHER_QUEUE_SIZE = 64"

record lbd_watcher_event =
  ev_dev_index :: int
  ev_log_seq :: u64
  ev_device_size :: u64
  ev_segment_label :: bytes
  ev_log_dir :: bytes

text \<open>\<open>w_id\<close> identifies the watcher, as its address does.\<close>

record lbd_watcher =
  w_id :: nat
  w_queue :: "lbd_watcher_event list"
  w_head :: nat
  w_tail :: nat
  w_count :: nat
  w_filter_dev :: int

definition empty_event :: lbd_watcher_event where
  "empty_event = \<lparr>ev_dev_index = 0, ev_log_seq = 0, ev_device_size = 0, ev_segment_label = [], ev_log_dir = []\<rparr>"

definition lbd_watcher_alloc :: "nat \<Rightarrow> int \<Rightarrow> lbd_watcher" where
  "lbd_watcher_alloc wid filter_dev =
     \<lparr>w_id = wid, w_queue = replicate LBD_WATCHER_QUEUE_SIZE empty_event, w_head = 0, w_tail = 0, w_count = 0,
      w_filter_dev = filter_dev\<rparr>"

definition lbd_watcher_enqueue :: "lbd_watcher_event \<Rightarrow> lbd_watcher \<Rightarrow> lbd_watcher" where
  "lbd_watcher_enqueue ev w =
     (let w = (if w_count w = LBD_WATCHER_QUEUE_SIZE
               then w\<lparr>w_head := (w_head w + 1) mod LBD_WATCHER_QUEUE_SIZE, w_count := w_count w - 1\<rparr>
               else w)
      in w\<lparr>w_queue := (w_queue w)[w_tail w := ev],
           w_tail := (w_tail w + 1) mod LBD_WATCHER_QUEUE_SIZE,
           w_count := w_count w + 1\<rparr>)"

definition lbd_watcher_peek :: "lbd_watcher \<Rightarrow> lbd_watcher_event option" where
  "lbd_watcher_peek w = (if w_count w > 0 then Some (w_queue w ! w_head w) else None)"

definition lbd_watcher_pop :: "lbd_watcher \<Rightarrow> lbd_watcher" where
  "lbd_watcher_pop w =
     (if w_count w > 0
      then w\<lparr>w_head := (w_head w + 1) mod LBD_WATCHER_QUEUE_SIZE, w_count := w_count w - 1\<rparr>
      else w)"

definition lbd_notify_watchers :: "lbd_device \<Rightarrow> lbd_watcher list \<Rightarrow> lbd_watcher list" where
  "lbd_notify_watchers dev ws =
     (let ev = \<lparr>ev_dev_index = index dev, ev_log_seq = log_seq dev, ev_device_size = dev_size dev,
                ev_segment_label = log_segment_label dev, ev_log_dir = log_dir dev\<rparr>
      in map (\<lambda>w. if w_filter_dev w \<ge> 0 \<and> w_filter_dev w \<noteq> index dev then w else lbd_watcher_enqueue ev w) ws)"

section \<open>Bounded queues\<close>

text \<open>
  A queue of at most \<open>cap\<close> items that forgets its oldest item when one arrives that it has no
  room for.
\<close>

definition keep_last :: "nat \<Rightarrow> 'e list \<Rightarrow> 'e list" where
  "keep_last cap xs = drop (length xs - cap) xs"

lemma keep_last_short: "length xs \<le> cap \<Longrightarrow> keep_last cap xs = xs"
  by (simp add: keep_last_def)

lemma length_keep_last: "length (keep_last cap xs) = min cap (length xs)"
  by (auto simp: keep_last_def)

lemma keep_last_append: "keep_last cap (keep_last cap xs @ ys) = keep_last cap (xs @ ys)"
proof (cases "length xs \<le> cap")
  case False
  then have "length (keep_last cap xs @ ys) - cap = length ys" "length (xs @ ys) - cap = length xs - cap + length ys"
    by (simp_all add: length_keep_last)
  then show ?thesis
    unfolding keep_last_def [of cap "keep_last cap xs @ ys"] keep_last_def [of cap "xs @ ys"]
    using False by (simp add: keep_last_def drop_append add.commute)
qed (simp add: keep_last_short)

text \<open>Up to \<open>n\<close> rounds of reading and removing the front.\<close>

fun drain :: "('q \<Rightarrow> 'e option) \<Rightarrow> ('q \<Rightarrow> 'q) \<Rightarrow> nat \<Rightarrow> 'q \<Rightarrow> 'e list" where
  "drain front rem 0 q = []"
| "drain front rem (Suc n) q = (case front q of None \<Rightarrow> [] | Some e \<Rightarrow> e # drain front rem n (rem q))"

locale bounded_queue =
  fixes cap :: nat and wf :: "'q \<Rightarrow> bool" and items :: "'q \<Rightarrow> 'e list"
    and enq :: "'e \<Rightarrow> 'q \<Rightarrow> 'q" and peek :: "'q \<Rightarrow> 'e option" and pop :: "'q \<Rightarrow> 'q"
  assumes cap_pos: "0 < cap"
    and bound: "wf q \<Longrightarrow> length (items q) \<le> cap"
    and wf_enq: "wf q \<Longrightarrow> wf (enq e q)"
    and wf_pop: "wf q \<Longrightarrow> wf (pop q)"
    and items_enq: "wf q \<Longrightarrow> items (enq e q) = keep_last cap (items q @ [e])"
    and peek_items: "wf q \<Longrightarrow> peek q = (case items q of [] \<Rightarrow> None | x # _ \<Rightarrow> Some x)"
    and items_pop: "wf q \<Longrightarrow> items (pop q) = tl (items q)"
begin

text \<open>After any arrivals the queue holds the last \<open>cap\<close> items.\<close>

lemma items_fold:
  assumes "wf q"
  shows "wf (fold enq es q)" "items (fold enq es q) = keep_last cap (items q @ es)"
proof -
  have "wf (fold enq es q) \<and> items (fold enq es q) = keep_last cap (items q @ es)"
    using assms
  proof (induction es arbitrary: q)
    case Nil
    then show ?case
      using bound by (simp add: keep_last_short)
  next
    case (Cons e es)
    then show ?case
      using wf_enq [of q e] keep_last_append [of cap "items q @ [e]" es] by (simp add: items_enq)
  qed
  then show "wf (fold enq es q)" "items (fold enq es q) = keep_last cap (items q @ es)"
    by simp_all
qed

text \<open>Reading until the queue is empty gives the items in order.\<close>

lemma drain_items: "wf q \<Longrightarrow> length (items q) \<le> n \<Longrightarrow> drain peek pop n q = items q"
proof (induction n arbitrary: q)
  case (Suc n)
  show ?case
  proof (cases "items q")
    case (Cons x xs)
    then show ?thesis
      using Suc.IH [OF wf_pop [OF Suc.prems(1)]] Suc.prems by (simp add: peek_items items_pop)
  qed (use Suc.prems in \<open>simp add: peek_items\<close>)
qed simp

end

section \<open>The ring is a bounded queue\<close>

definition w_wf :: "lbd_watcher \<Rightarrow> bool" where
  "w_wf w \<longleftrightarrow> length (w_queue w) = LBD_WATCHER_QUEUE_SIZE \<and> w_head w < LBD_WATCHER_QUEUE_SIZE \<and>
     w_count w \<le> LBD_WATCHER_QUEUE_SIZE \<and> w_tail w = (w_head w + w_count w) mod LBD_WATCHER_QUEUE_SIZE"

definition w_items :: "lbd_watcher \<Rightarrow> lbd_watcher_event list" where
  "w_items w = map (\<lambda>i. w_queue w ! ((w_head w + i) mod LBD_WATCHER_QUEUE_SIZE)) [0..<w_count w]"

lemma ring_slot:
  assumes "h < n" "i < c" "c < n"
  shows "(h + i) mod n \<noteq> (h + c) mod (n :: nat)"
proof
  assume "(h + i) mod n = (h + c) mod n"
  then have "n dvd (h + c) - (h + i)"
    using assms(2) by (intro mod_eq_dvd_iff_nat [THEN iffD1]) simp_all
  then have "n dvd c - i"
    using assms(2) by simp
  then show False
    using assms(2,3) by (auto dest!: dvd_imp_le)
qed

lemma w_pop_items: "w_wf w \<Longrightarrow> w_wf (lbd_watcher_pop w) \<and> w_items (lbd_watcher_pop w) = tl (w_items w)"
proof (cases "w_count w")
  case (Suc k)
  assume wf: "w_wf w"
  have "w_items w = w_queue w ! (w_head w mod LBD_WATCHER_QUEUE_SIZE) #
      map (\<lambda>i. w_queue w ! ((w_head w + i) mod LBD_WATCHER_QUEUE_SIZE)) (map Suc [0..<k])"
    unfolding w_items_def Suc by (subst upt_conv_Cons) (simp_all add: map_Suc_upt)
  moreover have "((w_head w + 1) mod LBD_WATCHER_QUEUE_SIZE + i) mod LBD_WATCHER_QUEUE_SIZE = (w_head w + Suc i) mod LBD_WATCHER_QUEUE_SIZE" for i
    by (simp add: mod_simps)
  ultimately have "w_items (lbd_watcher_pop w) = tl (w_items w)"
    by (simp add: lbd_watcher_pop_def Suc) (simp add: w_items_def comp_def)
  moreover have "w_wf (lbd_watcher_pop w)"
    using wf by (simp add: w_wf_def lbd_watcher_pop_def Suc mod_simps LBD_WATCHER_QUEUE_SIZE_def)
  ultimately show ?thesis
    by simp
qed (simp add: lbd_watcher_pop_def w_items_def)

lemma w_put_items:
  assumes wf: "w_wf w" and c: "w_count w < LBD_WATCHER_QUEUE_SIZE"
    and w': "w' = w\<lparr>w_queue := (w_queue w)[w_tail w := ev], w_tail := (w_tail w + 1) mod LBD_WATCHER_QUEUE_SIZE, w_count := w_count w + 1\<rparr>"
  shows "w_wf w'" "w_items w' = w_items w @ [ev]"
proof -
  let ?n = LBD_WATCHER_QUEUE_SIZE
  have h: "w_head w < ?n" "length (w_queue w) = ?n" "w_tail w = (w_head w + w_count w) mod ?n" "0 < ?n"
    using wf by (simp_all add: w_wf_def LBD_WATCHER_QUEUE_SIZE_def)
  have t: "w_tail w < ?n"
    using h(3,4) by simp
  show "w_wf w'"
    using wf c h by (simp add: w_wf_def w' mod_simps)
  have "w_queue w' ! ((w_head w + i) mod ?n) = w_queue w ! ((w_head w + i) mod ?n)" if "i < w_count w" for i
    using ring_slot [OF h(1) that c] h(3) by (simp add: w')
  moreover have "w_queue w' ! ((w_head w + w_count w) mod ?n) = ev"
    using t h by (simp add: w')
  ultimately show "w_items w' = w_items w @ [ev]"
    by (simp add: w_items_def w')
qed

lemma w_enq_items:
  assumes wf: "w_wf w"
  shows "w_wf (lbd_watcher_enqueue ev w)" "w_items (lbd_watcher_enqueue ev w) = keep_last 64 (w_items w @ [ev])"
proof -
  let ?n = LBD_WATCHER_QUEUE_SIZE
  have n: "?n = 64"
    by (simp add: LBD_WATCHER_QUEUE_SIZE_def)
  have len: "length (w_items w) = w_count w"
    by (simp add: w_items_def)
  let ?w1 = "if w_count w = ?n then lbd_watcher_pop w else w"
  have eq: "lbd_watcher_enqueue ev w = ?w1\<lparr>w_queue := (w_queue ?w1)[w_tail ?w1 := ev],
      w_tail := (w_tail ?w1 + 1) mod ?n, w_count := w_count ?w1 + 1\<rparr>"
    by (simp add: lbd_watcher_enqueue_def lbd_watcher_pop_def Let_def n)
  have w1: "w_wf ?w1" "w_count ?w1 < ?n" "w_items ?w1 @ [ev] = keep_last 64 (w_items w @ [ev])"
  proof -
    show "w_wf ?w1"
      using wf w_pop_items [OF wf] by simp
    show "w_count ?w1 < ?n"
      using wf by (auto simp: w_wf_def lbd_watcher_pop_def n)
    show "w_items ?w1 @ [ev] = keep_last 64 (w_items w @ [ev])"
    proof (cases "w_count w = ?n")
      case True
      then show ?thesis
        using w_pop_items [OF wf] len n by (simp add: keep_last_def drop_Suc)
    next
      case False
      then show ?thesis
        using wf len n by (simp add: keep_last_short w_wf_def)
    qed
  qed
  show "w_wf (lbd_watcher_enqueue ev w)" "w_items (lbd_watcher_enqueue ev w) = keep_last 64 (w_items w @ [ev])"
    using w_put_items [OF w1(1,2) eq] w1(3) by simp_all
qed

interpretation wq: bounded_queue 64 w_wf w_items lbd_watcher_enqueue lbd_watcher_peek lbd_watcher_pop
proof
  show "length (w_items q) \<le> 64" if "w_wf q" for q
    using that by (simp add: w_items_def w_wf_def LBD_WATCHER_QUEUE_SIZE_def)
  show "lbd_watcher_peek q = (case w_items q of [] \<Rightarrow> None | x # _ \<Rightarrow> Some x)" if "w_wf q" for q
  proof (cases "w_count q")
    case (Suc k)
    then show ?thesis
      using that by (simp add: lbd_watcher_peek_def w_items_def w_wf_def upt_conv_Cons del: upt_Suc)
  qed (simp add: lbd_watcher_peek_def w_items_def)
qed (use w_enq_items w_pop_items in simp_all)

section \<open>Properties\<close>

text \<open>The event a rotation of a device posts.\<close>

definition rotation_event :: "lbd_device \<Rightarrow> lbd_watcher_event" where
  "rotation_event dev = \<lparr>ev_dev_index = index dev, ev_log_seq = log_seq dev, ev_device_size = dev_size dev,
     ev_segment_label = log_segment_label dev, ev_log_dir = log_dir dev\<rparr>"

definition wants :: "lbd_watcher \<Rightarrow> lbd_device \<Rightarrow> bool" where
  "wants w dev \<longleftrightarrow> w_filter_dev w < 0 \<or> w_filter_dev w = index dev"

lemma enqueue_keeps [simp]: "w_filter_dev (lbd_watcher_enqueue ev w) = w_filter_dev w" "w_id (lbd_watcher_enqueue ev w) = w_id w"
  by (simp_all add: lbd_watcher_enqueue_def Let_def)

lemma fold_enqueue_keeps [simp]: "w_filter_dev (fold lbd_watcher_enqueue es w) = w_filter_dev w" "w_id (fold lbd_watcher_enqueue es w) = w_id w"
  by (induction es arbitrary: w) simp_all

lemma notify_fold:
  "fold lbd_notify_watchers devs ws = map (\<lambda>w. fold lbd_watcher_enqueue (map rotation_event (filter (wants w) devs)) w) ws"
proof (induction devs arbitrary: ws)
  case (Cons dev devs)
  have "lbd_notify_watchers dev ws = map (\<lambda>w. if wants w dev then lbd_watcher_enqueue (rotation_event dev) w else w) ws"
    by (auto simp: lbd_notify_watchers_def Let_def rotation_event_def wants_def)
  moreover have "wants (lbd_watcher_enqueue ev w) = wants w" for ev w
    by (simp add: wants_def fun_eq_iff)
  ultimately show ?case
    using Cons.IH by auto
qed simp

text \<open>C17: A new watcher sees the rotations in the order in which they happened: after any sequence of
  rotations of any devices, reading until the queue is empty gives the events of exactly those
  rotations that pass the watcher's device filter, or the last 64 of them if there were more. The
  ring never leaves its bounds.\<close>

theorem watcher_sees_last_rotations:
  "\<exists>w. fold lbd_notify_watchers devs [lbd_watcher_alloc i flt] = [w] \<and>
   drain lbd_watcher_peek lbd_watcher_pop 64 w =
     keep_last 64 (map rotation_event (filter (wants (lbd_watcher_alloc i flt)) devs)) \<and>
   w_head w < 64 \<and> w_tail w < 64 \<and> w_count w \<le> 64 \<and> length (w_queue w) = 64"
proof -
  let ?w0 = "lbd_watcher_alloc i flt" and ?es = "map rotation_event (filter (wants (lbd_watcher_alloc i flt)) devs)"
  define w where "w = fold lbd_watcher_enqueue ?es ?w0"
  have wf0: "w_wf ?w0" "w_items ?w0 = []"
    by (simp_all add: lbd_watcher_alloc_def w_wf_def w_items_def LBD_WATCHER_QUEUE_SIZE_def)
  have f: "w_wf w" "w_items w = keep_last 64 ?es"
    using wq.items_fold [OF wf0(1), of ?es] wf0(2) by (simp_all add: w_def)
  have "drain lbd_watcher_peek lbd_watcher_pop 64 w = keep_last 64 ?es"
    using wq.drain_items [OF f(1) wq.bound [OF f(1)]] f(2) by simp
  moreover have "fold lbd_notify_watchers devs [?w0] = [w]"
    by (simp add: notify_fold w_def)
  ultimately show ?thesis
    using f(1) by (intro exI [of _ w]) (simp add: w_wf_def LBD_WATCHER_QUEUE_SIZE_def)
qed

end
