(* ===== verification/Lbd_Log.thy ===== *)
theory Lbd_Log
  imports Lbd_Watch Cbor Lz4_Encode "HOL-Library.Monad_Syntax"
begin

text \<open>
  The write log of a device (\<^verbatim>\<open>src/src/lbd_main.c\<close>: log write buffer, \<open>lbd_log_write\<close>,
  \<open>lbd_log_discard\<close>, log segmentation). Records are collected in a buffer of 5 MiB and flushed to
  the segment file \<^verbatim>\<open>disk.LABEL.log.tmp\<close>, which is renamed when the segment is rotated.

  The functions that rotate also update the list of watchers. \<open>clock\<close> lists the coming readings
  of the real-time clock in nanoseconds. The kernel's \<^verbatim>\<open>crc32\<close> is the parameter \<open>crc32\<close>. Locks
  and the age timer's queueing are not represented; the timer's handler is.
\<close>

definition LBD_BLOCK_SIZE :: nat where "LBD_BLOCK_SIZE = 4096"
definition LBD_LOG_VERSION :: u64 where "LBD_LOG_VERSION = 2"
definition LBD_LOG_BUF_SIZE :: nat where "LBD_LOG_BUF_SIZE = 5242880"

definition LBD_CBOR_KEY_HDR_VERSION :: u64 where "LBD_CBOR_KEY_HDR_VERSION = 1"
definition LBD_CBOR_KEY_HDR_BLOCK_SIZE :: u64 where "LBD_CBOR_KEY_HDR_BLOCK_SIZE = 2"
definition LBD_CBOR_KEY_HDR_SEGMENT_LABEL :: u64 where "LBD_CBOR_KEY_HDR_SEGMENT_LABEL = 3"
definition LBD_CBOR_KEY_HDR_DEVICE_SIZE :: u64 where "LBD_CBOR_KEY_HDR_DEVICE_SIZE = 4"
definition LBD_CBOR_KEY_HDR_BACKING_PATH :: u64 where "LBD_CBOR_KEY_HDR_BACKING_PATH = 5"
definition LBD_CBOR_KEY_OP :: u64 where "LBD_CBOR_KEY_OP = 1"
definition LBD_CBOR_KEY_TIMESTAMP :: u64 where "LBD_CBOR_KEY_TIMESTAMP = 2"
definition LBD_CBOR_KEY_SEQUENCE :: u64 where "LBD_CBOR_KEY_SEQUENCE = 3"
definition LBD_CBOR_KEY_BLOCK :: u64 where "LBD_CBOR_KEY_BLOCK = 4"
definition LBD_CBOR_KEY_LENGTH :: u64 where "LBD_CBOR_KEY_LENGTH = 5"
definition LBD_CBOR_KEY_CHECKSUM :: u64 where "LBD_CBOR_KEY_CHECKSUM = 6"
definition LBD_CBOR_KEY_DATA :: u64 where "LBD_CBOR_KEY_DATA = 7"

lemmas log_key_defs = LBD_CBOR_KEY_HDR_VERSION_def LBD_CBOR_KEY_HDR_BLOCK_SIZE_def LBD_CBOR_KEY_HDR_SEGMENT_LABEL_def
  LBD_CBOR_KEY_HDR_DEVICE_SIZE_def LBD_CBOR_KEY_HDR_BACKING_PATH_def LBD_CBOR_KEY_OP_def LBD_CBOR_KEY_TIMESTAMP_def
  LBD_CBOR_KEY_SEQUENCE_def LBD_CBOR_KEY_BLOCK_def LBD_CBOR_KEY_LENGTH_def LBD_CBOR_KEY_CHECKSUM_def LBD_CBOR_KEY_DATA_def

definition str :: "string \<Rightarrow> bytes" where "str s = map of_char s"

definition ktime_get_real :: "lbd_device \<Rightarrow> nat \<times> lbd_device" where
  "ktime_get_real dev = (case clock dev of [] \<Rightarrow> (0, dev) | t # ts \<Rightarrow> (t, dev\<lparr>clock := ts\<rparr>))"

section \<open>Names\<close>

definition lbd_log_name_tmp :: "bytes \<Rightarrow> bytes" where
  "lbd_log_name_tmp label = take 47 (str ''disk.'' @ label @ str ''.log.tmp'')"

definition lbd_log_name_final :: "bytes \<Rightarrow> bytes" where
  "lbd_log_name_final label = take 47 (str ''disk.'' @ label @ str ''.log'')"

text \<open>\<open>n\<close> lower-case hexadecimal digits.\<close>

definition hex_digit :: "nat \<Rightarrow> u8" where
  "hex_digit n = (if n < 10 then of_nat (48 + n) else of_nat (87 + n))"

fun hex_pad :: "nat \<Rightarrow> nat \<Rightarrow> bytes" where
  "hex_pad 0 v = []"
| "hex_pad (Suc n) v = hex_pad n (v div 16) @ [hex_digit (v mod 16)]"

text \<open>The TAI64N label of a clock reading.\<close>

definition lbd_tai64n_label :: "nat \<Rightarrow> bytes" where
  "lbd_tai64n_label t =
     (let tai_secs = of_nat (t div 1000000000) + 0x4000000000000000 :: u64
      in hex_pad 16 (unat tai_secs) @ hex_pad 8 (t mod 1000000000))"

section \<open>The buffer and the segment file\<close>

text \<open>The length of the open segment file.\<close>

definition log_size :: "lbd_device \<Rightarrow> nat" where
  "log_size dev =
     (case log_file dev of None \<Rightarrow> 0 | Some name \<Rightarrow> (case log_fs dev name of None \<Rightarrow> 0 | Some f \<Rightarrow> length f))"

definition log_contents :: "lbd_device \<Rightarrow> bytes \<Rightarrow> bytes" where
  "log_contents dev name = (case log_fs dev name of None \<Rightarrow> [] | Some f \<Rightarrow> f)"

definition lbd_open_log_file :: "lbd_device \<Rightarrow> unit res \<times> lbd_device" where
  "lbd_open_log_file dev =
     (let name = lbd_log_name_tmp (log_segment_label dev) in
      case pop_io dev of
        (IoErr e, dev) \<Rightarrow> (Inl e, dev)
      | (_, dev) \<Rightarrow> (Inr (), dev\<lparr>log_fs := (log_fs dev)(name \<mapsto> []), log_file := Some name\<rparr>))"

text \<open>Appending to the segment file; the result is the number of bytes written.\<close>

definition log_kernel_write :: "bytes \<Rightarrow> bytes \<Rightarrow> lbd_device \<Rightarrow> nat res \<times> lbd_device" where
  "log_kernel_write name bs dev =
     (let f = log_contents dev name in
      case pop_io dev of
        (IoOk, dev) \<Rightarrow> (Inr (length bs), dev\<lparr>log_fs := (log_fs dev)(name \<mapsto> f @ bs)\<rparr>)
      | (IoShort k, dev) \<Rightarrow> (Inr (length (take k bs)), dev\<lparr>log_fs := (log_fs dev)(name \<mapsto> f @ take k bs)\<rparr>)
      | (IoErr e, dev) \<Rightarrow> (Inl e, dev))"

definition lbd_log_flush :: "lbd_device \<Rightarrow> unit res \<times> lbd_device" where
  "lbd_log_flush dev =
     (if log_buf dev = [] then (Inr (), dev)
      else
        (case (if log_file dev = None then lbd_open_log_file dev else (Inr (), dev)) of
           (Inl e, dev) \<Rightarrow> (Inl e, dev\<lparr>log_buf := []\<rparr>)
         | (Inr _, dev) \<Rightarrow>
             (case log_kernel_write (the (log_file dev)) (log_buf dev) dev of
                (Inl e, dev') \<Rightarrow> (Inl e, dev'\<lparr>log_buf := []\<rparr>)
              | (Inr n, dev') \<Rightarrow>
                  (if n \<noteq> length (log_buf dev) then Inl EIO else Inr (), dev'\<lparr>log_buf := []\<rparr>))))"

text \<open>Copying more than the buffer holds would write outside it: \<open>crashed\<close>.\<close>

definition lbd_log_buf_append :: "bytes \<Rightarrow> lbd_device \<Rightarrow> unit res \<times> lbd_device" where
  "lbd_log_buf_append data dev =
     (case (if length (log_buf dev) + length data > LBD_LOG_BUF_SIZE then lbd_log_flush dev else (Inr (), dev)) of
        (Inl e, dev) \<Rightarrow> (Inl e, dev)
      | (Inr _, dev) \<Rightarrow>
          if length (log_buf dev) + length data > LBD_LOG_BUF_SIZE then (Inr (), set_crashed dev)
          else (Inr (), dev\<lparr>log_buf := log_buf dev @ data\<rparr>))"

section \<open>Segments\<close>

definition lbd_write_log_header :: "lbd_device \<Rightarrow> unit res \<times> lbd_device" where
  "lbd_write_log_header dev =
     (let e = cbor_enc_init (replicate 512 0) 512;
          e = cbor_enc_map e 5;
          e = cbor_enc_uint e LBD_CBOR_KEY_HDR_VERSION;
          e = cbor_enc_uint e LBD_LOG_VERSION;
          e = cbor_enc_uint e LBD_CBOR_KEY_HDR_BLOCK_SIZE;
          e = cbor_enc_uint e (of_nat LBD_BLOCK_SIZE);
          e = cbor_enc_uint e LBD_CBOR_KEY_HDR_SEGMENT_LABEL;
          e = cbor_enc_text e (log_segment_label dev) (length (log_segment_label dev));
          e = cbor_enc_uint e LBD_CBOR_KEY_HDR_DEVICE_SIZE;
          e = cbor_enc_uint e (dev_size dev);
          e = cbor_enc_uint e LBD_CBOR_KEY_HDR_BACKING_PATH;
          e = cbor_enc_text e (backing_path dev) (length (backing_path dev))
      in case ce_err e of
           Some err \<Rightarrow> (Inl err, dev)
         | None \<Rightarrow> lbd_log_buf_append (take (cbor_enc_len e) (ce_buf e)) dev)"

definition lbd_begin_segment :: "lbd_device \<Rightarrow> lbd_device" where
  "lbd_begin_segment dev =
     (let dev = dev\<lparr>log_file := None, log_buf := [], log_has_entries := False\<rparr>;
          (t, dev) = ktime_get_real dev;
          dev = dev\<lparr>log_segment_label := lbd_tai64n_label t\<rparr>
      in snd (lbd_write_log_header dev))"

definition vfs_fsync :: "lbd_device \<Rightarrow> unit res \<times> lbd_device" where
  "vfs_fsync dev = (case pop_io dev of (IoErr e, dev) \<Rightarrow> (Inl e, dev) | (_, dev) \<Rightarrow> (Inr (), dev))"

text \<open>Renaming inside the log directory; looking up the new name and renaming have one outcome.\<close>

definition lbd_rename_file :: "bytes \<Rightarrow> bytes \<Rightarrow> lbd_device \<Rightarrow> unit res \<times> lbd_device" where
  "lbd_rename_file old_name new_name dev =
     (case pop_io dev of
        (IoErr e, dev) \<Rightarrow> (Inl e, dev)
      | (_, dev) \<Rightarrow> (Inr (), dev\<lparr>log_fs := (log_fs dev)(old_name := None, new_name := log_fs dev old_name)\<rparr>))"

definition lbd_rotate_segment :: "lbd_watcher list \<times> lbd_device \<Rightarrow> lbd_watcher list \<times> lbd_device" where
  "lbd_rotate_segment = (\<lambda>(ws, dev).
     if \<not> log_has_entries dev then (ws, dev)
     else
       let dev = snd (lbd_log_flush dev);
           dev = (case log_file dev of
                    None \<Rightarrow> dev
                  | Some name \<Rightarrow>
                      let dev = snd (vfs_fsync dev);
                          dev = snd (lbd_rename_file name (lbd_log_name_final (log_segment_label dev)) dev)
                      in dev\<lparr>log_file := None\<rparr>);
           dev = dev\<lparr>stat_log_rotations := stat_log_rotations dev + 1\<rparr>;
           ws = lbd_notify_watchers dev ws
       in (ws, lbd_begin_segment dev))"

definition lbd_log_rotate_work_fn :: "lbd_watcher list \<times> lbd_device \<Rightarrow> lbd_watcher list \<times> lbd_device" where
  "lbd_log_rotate_work_fn = (\<lambda>(ws, dev). if log_has_entries dev then lbd_rotate_segment (ws, dev) else (ws, dev))"

definition lbd_maybe_rotate_segment :: "lbd_watcher list \<times> lbd_device \<Rightarrow> lbd_watcher list \<times> lbd_device" where
  "lbd_maybe_rotate_segment = (\<lambda>(ws, dev).
     if of_nat (log_size dev + length (log_buf dev)) \<ge> log_max_size dev then lbd_rotate_segment (ws, dev) else (ws, dev))"

definition lbd_finalize_log :: "lbd_watcher list \<times> lbd_device \<Rightarrow> lbd_watcher list \<times> lbd_device" where
  "lbd_finalize_log = (\<lambda>(ws, dev).
     let dev = (if log_has_entries dev then snd (lbd_log_flush dev) else dev) in
     case log_file dev of
       None \<Rightarrow> (ws, dev)
     | Some name \<Rightarrow>
         let dev = snd (vfs_fsync dev);
             (ws, dev) =
               (if log_has_entries dev
                then (let dev = snd (lbd_rename_file name (lbd_log_name_final (log_segment_label dev)) dev)
                      in (lbd_notify_watchers dev ws, dev))
                else (ws, dev))
         in (ws, dev\<lparr>log_file := None\<rparr>))"

section \<open>Records\<close>

text \<open>\<^verbatim>\<open>(loff_t)pos * 512 / LBD_BLOCK_SIZE\<close>, a signed division.\<close>

definition log_block :: "u64 \<Rightarrow> u64" where
  "log_block pos =
     (let x = pos * 512 in if bit x 63 then - ((- x) div of_nat LBD_BLOCK_SIZE) else x div of_nat LBD_BLOCK_SIZE)"

definition lbd_log_write ::
  "(u32 \<Rightarrow> bytes \<Rightarrow> u32) \<Rightarrow> request \<Rightarrow> lbd_watcher list \<times> lbd_device \<Rightarrow> lbd_watcher list \<times> lbd_device" where
  "lbd_log_write crc32 rq = (\<lambda>(ws, dev).
     let data_len = rq_bytes rq in
     if data_len = 0 then (ws, dev)
     else case kvmalloc dev of
       (False, dev) \<Rightarrow> (ws, dev)
     | (True, dev) \<Rightarrow>
         let data_buf = concat (rq_segs rq);
             crc = crc32 (NOT 0) data_buf XOR NOT 0
         in case kvmalloc dev of
              (False, dev) \<Rightarrow> (ws, dev)
            | (True, dev) \<Rightarrow>
                let comp_buf = LZ4_compress_fast_extState data_buf in
                if comp_buf = [] then (ws, dev)
                else
                  let (ts, dev) = ktime_get_real dev;
                      e = cbor_enc_init (replicate 128 0) 128;
                      e = cbor_enc_map e 7;
                      e = cbor_enc_uint e LBD_CBOR_KEY_OP;
                      e = cbor_enc_text e (str ''W'') 1;
                      e = cbor_enc_uint e LBD_CBOR_KEY_TIMESTAMP;
                      e = cbor_enc_uint e (of_nat ts);
                      e = cbor_enc_uint e LBD_CBOR_KEY_SEQUENCE;
                      e = cbor_enc_uint e (log_seq dev);
                      dev = dev\<lparr>log_seq := log_seq dev + 1\<rparr>;
                      e = cbor_enc_uint e LBD_CBOR_KEY_BLOCK;
                      e = cbor_enc_uint e (log_block (rq_pos rq));
                      e = cbor_enc_uint e LBD_CBOR_KEY_LENGTH;
                      e = cbor_enc_uint e (ucast data_len);
                      e = cbor_enc_uint e LBD_CBOR_KEY_CHECKSUM;
                      e = cbor_enc_uint e (ucast crc);
                      e = cbor_enc_uint e LBD_CBOR_KEY_DATA;
                      e = cbor_enc_bytes_hdr e (of_nat (length comp_buf))
                  in if ce_err e \<noteq> None then (ws, dev\<lparr>log_seq := log_seq dev - 1\<rparr>)
                     else case lbd_log_buf_append (take (cbor_enc_len e) (ce_buf e)) dev of
                       (Inl _, dev) \<Rightarrow> (ws, dev)
                     | (Inr _, dev) \<Rightarrow>
                         (case lbd_log_buf_append comp_buf dev of
                            (Inl _, dev) \<Rightarrow> (ws, dev)
                          | (Inr _, dev) \<Rightarrow> lbd_maybe_rotate_segment (ws, dev\<lparr>log_has_entries := True\<rparr>)))"

definition lbd_log_discard :: "request \<Rightarrow> lbd_watcher list \<times> lbd_device \<Rightarrow> lbd_watcher list \<times> lbd_device" where
  "lbd_log_discard rq = (\<lambda>(ws, dev).
     let (ts, dev) = ktime_get_real dev;
         e = cbor_enc_init (replicate 64 0) 64;
         e = cbor_enc_map e 5;
         e = cbor_enc_uint e LBD_CBOR_KEY_OP;
         e = cbor_enc_text e (str ''T'') 1;
         e = cbor_enc_uint e LBD_CBOR_KEY_TIMESTAMP;
         e = cbor_enc_uint e (of_nat ts);
         e = cbor_enc_uint e LBD_CBOR_KEY_SEQUENCE;
         e = cbor_enc_uint e (log_seq dev);
         dev = dev\<lparr>log_seq := log_seq dev + 1\<rparr>;
         e = cbor_enc_uint e LBD_CBOR_KEY_BLOCK;
         e = cbor_enc_uint e (log_block (rq_pos rq));
         e = cbor_enc_uint e LBD_CBOR_KEY_LENGTH;
         e = cbor_enc_uint e (ucast (rq_bytes rq))
     in if ce_err e \<noteq> None then (ws, dev\<lparr>log_seq := log_seq dev - 1\<rparr>)
        else case lbd_log_buf_append (take (cbor_enc_len e) (ce_buf e)) dev of
          (Inl _, dev) \<Rightarrow> (ws, dev)
        | (Inr _, dev) \<Rightarrow> lbd_maybe_rotate_segment (ws, dev\<lparr>log_has_entries := True\<rparr>))"

end
