(* ===== verification/Lbd_Request.thy ===== *)
theory Lbd_Request
  imports Lbd_Log Qcow2_Io
begin

text \<open>
  The block requests of a device (\<^verbatim>\<open>src/src/lbd_main.c\<close>: \<open>lbd_open\<close>, \<open>lbd_release\<close>,
  \<open>lbd_do_read\<close>, \<open>lbd_do_write\<close>, \<open>lbd_do_discard\<close>, \<open>lbd_handle_request\<close>, \<open>lbd_work_fn\<close>,
  \<open>lbd_complete_rq\<close>, \<open>lbd_queue_rq\<close>), on image files and on raw backing files.

  \<open>None\<close> is a request that is never answered. The result of a read is the contents of its
  segments; the other operations return no data. Whether the backing file system can punch holes
  is the parameter \<open>has_fallocate\<close>. Saving and restoring task flags has no counterpart.
\<close>

datatype req_op = REQ_OP_READ | REQ_OP_WRITE | REQ_OP_DISCARD | REQ_OP_FLUSH | REQ_OP_OTHER
datatype blk_status = BLK_STS_OK | BLK_STS_IOERR

type_synonym lbd_cmd = "req_op \<times> request"
type_synonym sys_state = "lbd_watcher list \<times> lbd_device"

section \<open>Opening and closing\<close>

definition lbd_open :: "lbd_device \<Rightarrow> unit res \<times> lbd_device" where
  "lbd_open dev =
     (if state dev \<noteq> LBD_STATE_BOUND then (Inl ENXIO, dev) else (Inr (), dev\<lparr>open_count := open_count dev + 1\<rparr>))"

definition lbd_release :: "lbd_device \<Rightarrow> lbd_device" where
  "lbd_release dev = dev\<lparr>open_count := open_count dev - 1\<rparr>"

section \<open>Reads\<close>

fun raw_read :: "u64 \<Rightarrow> bytes list \<Rightarrow> lbd_device \<Rightarrow> bytes list res \<times> lbd_device" where
  "raw_read pos [] dev = (Inr [], dev)"
| "raw_read pos (seg # segs) dev =
     (case read_full (backing_file dev) (length seg) pos dev of
        (Inl e, dev) \<Rightarrow> (Inl e, dev)
      | (Inr bs, dev) \<Rightarrow>
          (case raw_read (pos + of_nat (length seg)) segs dev of
             (Inl e, dev) \<Rightarrow> (Inl e, dev)
           | (Inr rest, dev) \<Rightarrow> (Inr (bs # rest), dev)))"

definition lbd_do_read :: "crc_fun \<Rightarrow> request \<Rightarrow> lbd_device \<Rightarrow> (bytes list res \<times> lbd_device) option" where
  "lbd_do_read crc32c rq dev =
     (if is_qcow2 dev then lbd_qcow2_read crc32c rq dev
      else
        Some (case raw_read (push_bit SECTOR_SHIFT (rq_pos rq)) (rq_segs rq) dev of
                (Inl e, dev) \<Rightarrow> (Inl e, dev)
              | (Inr segs, dev) \<Rightarrow>
                  (Inr segs, dev\<lparr>stat_reads := stat_reads dev + 1,
                                 stat_read_bytes := stat_read_bytes dev + ucast (rq_bytes rq)\<rparr>)))"

section \<open>Writes\<close>

fun raw_write :: "u64 \<Rightarrow> bytes list \<Rightarrow> lbd_device \<Rightarrow> unit res \<times> lbd_device" where
  "raw_write pos [] dev = (Inr (), dev)"
| "raw_write pos (seg # segs) dev =
     (case write_full seg pos dev of
        (Inl e, dev) \<Rightarrow> (Inl e, dev)
      | (Inr _, dev) \<Rightarrow> raw_write (pos + of_nat (length seg)) segs dev)"

definition count_write :: "request \<Rightarrow> sys_state \<Rightarrow> sys_state" where
  "count_write rq = (\<lambda>(ws, dev). (ws, dev\<lparr>stat_writes := stat_writes dev + 1,
     stat_write_bytes := stat_write_bytes dev + ucast (rq_bytes rq)\<rparr>))"

definition lbd_do_write ::
  "(u32 \<Rightarrow> bytes \<Rightarrow> u32) \<Rightarrow> crc_fun \<Rightarrow> request \<Rightarrow> sys_state \<Rightarrow> (unit res \<times> sys_state) option" where
  "lbd_do_write crc32 crc32c rq = (\<lambda>(ws, dev).
     case (if is_qcow2 dev then lbd_qcow2_write crc32c rq dev
           else Some (raw_write (push_bit SECTOR_SHIFT (rq_pos rq)) (rq_segs rq) dev)) of
       None \<Rightarrow> None
     | Some (Inl e, dev) \<Rightarrow> Some (Inl e, (ws, dev))
     | Some (Inr _, dev) \<Rightarrow> Some (Inr (), count_write rq (lbd_log_write crc32 rq (ws, dev))))"

section \<open>Discards\<close>

text \<open>Punching a hole zeroes a range of the file and keeps its size.\<close>

definition punch_hole :: "u64 \<Rightarrow> u32 \<Rightarrow> lbd_device \<Rightarrow> unit res \<times> lbd_device" where
  "punch_hole pos len dev =
     (case pop_io dev of
        (IoErr e, dev) \<Rightarrow> (Inl e, dev)
      | (_, dev) \<Rightarrow>
          (Inr (), dev\<lparr>backing_file := take (length (backing_file dev))
             (write_at (backing_file dev) (unat pos) (replicate (min (unat len) (length (backing_file dev) - unat pos)) 0))\<rparr>))"

definition count_trim :: "request \<Rightarrow> sys_state \<Rightarrow> sys_state" where
  "count_trim rq = (\<lambda>(ws, dev). (ws, dev\<lparr>stat_trims := stat_trims dev + 1,
     stat_trim_bytes := stat_trim_bytes dev + ucast (rq_bytes rq)\<rparr>))"

definition lbd_do_discard :: "bool \<Rightarrow> crc_fun \<Rightarrow> request \<Rightarrow> sys_state \<Rightarrow> (unit res \<times> sys_state) option" where
  "lbd_do_discard has_fallocate crc32c rq = (\<lambda>(ws, dev).
     if is_qcow2 dev then
       (case lbd_qcow2_discard crc32c rq dev of
          None \<Rightarrow> None
        | Some (Inl e, dev) \<Rightarrow> Some (Inl e, (ws, dev))
        | Some (Inr _, dev) \<Rightarrow> Some (Inr (), count_trim rq (lbd_log_discard rq (ws, dev))))
     else
       (case (if has_fallocate then punch_hole (push_bit SECTOR_SHIFT (rq_pos rq)) (rq_bytes rq) dev else (Inr (), dev)) of
          (Inl e, dev) \<Rightarrow>
            if e \<noteq> EINVAL \<and> e \<noteq> EOPNOTSUPP then Some (Inl e, (ws, dev))
            else Some (Inr (), count_trim rq (lbd_log_discard rq (ws, dev)))
        | (Inr _, dev) \<Rightarrow> Some (Inr (), count_trim rq (lbd_log_discard rq (ws, dev)))))"

section \<open>Dispatch\<close>

definition lbd_do_flush :: "sys_state \<Rightarrow> unit res \<times> sys_state" where
  "lbd_do_flush = (\<lambda>(ws, dev).
     case vfs_fsync dev of
       (Inl e, dev) \<Rightarrow> (Inl e, (ws, dev))
     | (Inr _, dev) \<Rightarrow> (Inr (), if log_has_entries dev then lbd_rotate_segment (ws, dev) else (ws, dev)))"

definition lbd_handle_request ::
  "(u32 \<Rightarrow> bytes \<Rightarrow> u32) \<Rightarrow> crc_fun \<Rightarrow> bool \<Rightarrow> lbd_cmd \<Rightarrow> sys_state \<Rightarrow> (bytes list res \<times> sys_state) option" where
  "lbd_handle_request crc32 crc32c has_fallocate = (\<lambda>(op, rq) (ws, dev).
     case op of
       REQ_OP_READ \<Rightarrow> map_option (\<lambda>(r, dev). (r, (ws, dev))) (lbd_do_read crc32c rq dev)
     | REQ_OP_WRITE \<Rightarrow> map_option (apfst (map_sum id (\<lambda>_. []))) (lbd_do_write crc32 crc32c rq (ws, dev))
     | REQ_OP_DISCARD \<Rightarrow> map_option (apfst (map_sum id (\<lambda>_. []))) (lbd_do_discard has_fallocate crc32c rq (ws, dev))
     | REQ_OP_FLUSH \<Rightarrow> Some (apfst (map_sum id (\<lambda>_. [])) (lbd_do_flush (ws, dev)))
     | REQ_OP_OTHER \<Rightarrow> Some (Inl EIO, (ws, dev)))"

definition lbd_complete_rq :: "bytes list res \<Rightarrow> blk_status" where
  "lbd_complete_rq ret = (if isl ret then BLK_STS_IOERR else BLK_STS_OK)"

text \<open>The new list of queued commands, and the status for the block layer.\<close>

definition lbd_queue_rq :: "lbd_cmd \<Rightarrow> lbd_cmd list \<Rightarrow> lbd_device \<Rightarrow> blk_status \<times> lbd_cmd list" where
  "lbd_queue_rq cmd cmd_list dev =
     (if state dev \<noteq> LBD_STATE_BOUND then (BLK_STS_IOERR, cmd_list) else (BLK_STS_OK, cmd_list @ [cmd]))"

text \<open>The worker on the commands it has taken from the list, with the result of each.\<close>

fun lbd_work_fn ::
  "(u32 \<Rightarrow> bytes \<Rightarrow> u32) \<Rightarrow> crc_fun \<Rightarrow> bool \<Rightarrow> lbd_cmd list \<Rightarrow> sys_state \<Rightarrow> (bytes list res list \<times> sys_state) option" where
  "lbd_work_fn crc32 crc32c has_fallocate [] s = Some ([], s)"
| "lbd_work_fn crc32 crc32c has_fallocate (cmd # local_list) s =
     (case lbd_handle_request crc32 crc32c has_fallocate cmd s of
        None \<Rightarrow> None
      | Some (ret, s) \<Rightarrow>
          (case lbd_work_fn crc32 crc32c has_fallocate local_list s of
             None \<Rightarrow> None
           | Some (rets, s) \<Rightarrow> Some (ret # rets, s)))"

end
