(* ===== verification/Lbd_Segments.thy ===== *)
theory Lbd_Segments
  imports Lbd_Log Lz4_Roundtrip
begin

text \<open>
  What the log holds: with no I/O failure, the finished segment files, the open segment file and
  the buffer together hold every logged operation exactly once and in order, each segment behind
  its header, with consecutive sequence numbers.
\<close>

section \<open>Records as bytes\<close>

datatype log_entry =
    LogWrite (e_ts: nat) (e_seq: u64) (e_block: u64) (e_data: bytes)
  | LogTrim (e_ts: nat) (e_seq: u64) (e_block: u64) (e_len: u32)

definition header_items :: "bytes \<Rightarrow> u64 \<Rightarrow> bytes \<Rightarrow> cbor_item list" where
  "header_items label sz path =
     [IMap 5, IUint 1, IUint 2, IUint 2, IUint 4096, IUint 3, IText label, IUint 4, IUint sz, IUint 5, IText path]"

definition write_items :: "nat \<Rightarrow> u64 \<Rightarrow> u64 \<Rightarrow> u32 \<Rightarrow> u32 \<Rightarrow> cbor_item list" where
  "write_items ts seq block len crc =
     [IMap 7, IUint 1, IText (str ''W''), IUint 2, IUint (of_nat ts), IUint 3, IUint seq, IUint 4, IUint block,
      IUint 5, IUint (ucast len), IUint 6, IUint (ucast crc), IUint 7]"

definition trim_items :: "nat \<Rightarrow> u64 \<Rightarrow> u64 \<Rightarrow> u32 \<Rightarrow> cbor_item list" where
  "trim_items ts seq block len =
     [IMap 5, IUint 1, IText (str ''T''), IUint 2, IUint (of_nat ts), IUint 3, IUint seq, IUint 4, IUint block,
      IUint 5, IUint (ucast len)]"

abbreviation items_bytes :: "cbor_item list \<Rightarrow> bytes" where
  "items_bytes is \<equiv> concat (map item_bytes is)"

fun entry_bytes :: "(u32 \<Rightarrow> bytes \<Rightarrow> u32) \<Rightarrow> log_entry \<Rightarrow> bytes" where
  "entry_bytes crc32 (LogWrite ts seq block data) =
     (let comp = LZ4_compress_fast_extState data in
      items_bytes (write_items ts seq block (of_nat (length data)) (crc32 (NOT 0) data XOR NOT 0)) @
      cbor_head 2 (of_nat (length comp)) @ comp)"
| "entry_bytes crc32 (LogTrim ts seq block len) = items_bytes (trim_items ts seq block len)"

definition segment_bytes :: "(u32 \<Rightarrow> bytes \<Rightarrow> u32) \<Rightarrow> bytes \<Rightarrow> u64 \<Rightarrow> bytes \<Rightarrow> log_entry list \<Rightarrow> bytes" where
  "segment_bytes crc32 label sz path es = items_bytes (header_items label sz path) @ concat (map (entry_bytes crc32) es)"

lemma length_uint_item: "length (item_bytes (IUint v)) \<le> 9"
  by (simp add: length_cbor_head)

lemma length_write_items: "length (items_bytes (write_items ts seq block len crc)) \<le> 48"
  using length_cbor_head_le [of 0 "of_nat ts"] length_cbor_head_le [of 0 seq] length_cbor_head_le [of 0 block]
    length_cbor_head_u32 [of 0 len] length_cbor_head_u32 [of 0 crc]
  by (simp add: write_items_def str_def length_cbor_head [of _ 0] length_cbor_head [of _ "numeral _"] length_cbor_head [of _ 1])

lemma length_trim_items: "length (items_bytes (trim_items ts seq block len)) \<le> 40"
  using length_cbor_head_le [of 0 "of_nat ts"] length_cbor_head_le [of 0 seq] length_cbor_head_le [of 0 block]
    length_cbor_head_u32 [of 0 len]
  by (simp add: trim_items_def str_def length_cbor_head [of _ 0] length_cbor_head [of _ "numeral _"] length_cbor_head [of _ 1])

lemma length_header_items:
  "length label \<le> 24 \<Longrightarrow> length path \<le> 255 \<Longrightarrow> length (items_bytes (header_items label sz path)) \<le> 320"
  using length_cbor_head_le [of 3 "of_nat (length label)"] length_cbor_head_le [of 3 "of_nat (length path)"] length_cbor_head_le [of 0 sz]
  by (simp add: header_items_def length_cbor_head [of _ 0] length_cbor_head [of _ "numeral _"] length_cbor_head [of _ 1])

text \<open>A message that fits its buffer.\<close>

lemma message_fits:
  assumes "length bs \<le> n" "e = cbor_puts (cbor_enc_init (replicate n 0) n) bs"
  shows "ce_err e = None" "take (cbor_enc_len e) (ce_buf e) = bs"
proof -
  have "ce_err e = None \<and> enc_out e = bs"
    using cbor_message(1) [of n "replicate n 0" bs] assms by simp
  then show "ce_err e = None" "take (cbor_enc_len e) (ce_buf e) = bs"
    unfolding cbor_enc_len_def enc_out_def by blast+
qed

lemma write_header_eq:
  assumes "length (log_segment_label dev) \<le> 24" "length (backing_path dev) \<le> 255"
  shows "lbd_write_log_header dev =
    lbd_log_buf_append (items_bytes (header_items (log_segment_label dev) (dev_size dev) (backing_path dev))) dev"
proof -
  let ?bs = "items_bytes (header_items (log_segment_label dev) (dev_size dev) (backing_path dev))"
  define e where "e = cbor_puts (cbor_enc_init (replicate 512 0) 512) ?bs"
  have le: "length ?bs \<le> 512"
    using length_header_items [OF assms] by (rule order_trans) simp
  have enc: "cbor_enc_text (cbor_enc_uint (cbor_enc_uint (cbor_enc_uint (cbor_enc_text (cbor_enc_uint (cbor_enc_uint (cbor_enc_uint
      (cbor_enc_uint (cbor_enc_uint (cbor_enc_map (cbor_enc_init (replicate 512 0) 512) 5) LBD_CBOR_KEY_HDR_VERSION) LBD_LOG_VERSION)
      LBD_CBOR_KEY_HDR_BLOCK_SIZE) (of_nat LBD_BLOCK_SIZE)) LBD_CBOR_KEY_HDR_SEGMENT_LABEL) (log_segment_label dev)
      (length (log_segment_label dev))) LBD_CBOR_KEY_HDR_DEVICE_SIZE) (dev_size dev)) LBD_CBOR_KEY_HDR_BACKING_PATH)
      (backing_path dev) (length (backing_path dev)) = e"
    by (simp add: e_def cbor_simps log_key_defs LBD_LOG_VERSION_def LBD_BLOCK_SIZE_def header_items_def flip: cbor_puts_append)
  show ?thesis
    using message_fits [OF le e_def] unfolding lbd_write_log_header_def Let_def enc by simp
qed

section \<open>The buffer and the file\<close>

text \<open>The bytes of the current segment, written out or not.\<close>

definition current :: "lbd_device \<Rightarrow> bytes" where
  "current dev = (case log_file dev of None \<Rightarrow> [] | Some name \<Rightarrow> log_contents dev name) @ log_buf dev"

lemma log_contents_upd [simp]:
  "log_contents (dev\<lparr>log_buf := a\<rparr>) name = log_contents dev name" "log_contents (dev\<lparr>log_has_entries := b\<rparr>) name = log_contents dev name"
  "log_contents (dev\<lparr>log_seq := c\<rparr>) name = log_contents dev name" "log_contents (dev\<lparr>clock := d\<rparr>) name = log_contents dev name"
  by (simp_all add: log_contents_def)

text \<open>The buffer is in bounds, and only the current segment's file is open.\<close>

definition log_wf :: "lbd_device \<Rightarrow> bool" where
  "log_wf dev \<longleftrightarrow> length (log_buf dev) \<le> LBD_LOG_BUF_SIZE \<and> length (log_segment_label dev) = 24 \<and>
     length (backing_path dev) \<le> 255 \<and> log_file dev \<in> {None, Some (lbd_log_name_tmp (log_segment_label dev))}"

text \<open>The device without the state of the log.\<close>

definition unlogged :: "lbd_device \<Rightarrow> lbd_device" where
  "unlogged dev = dev\<lparr>log_fs := Map.empty, log_file := None, log_buf := [], log_has_entries := False, log_seq := 0,
     log_segment_label := [], stat_log_rotations := 0, clock := []\<rparr>"

lemma unlogged_upd [simp]:
  "unlogged (dev\<lparr>log_fs := a\<rparr>) = unlogged dev" "unlogged (dev\<lparr>log_file := b\<rparr>) = unlogged dev"
  "unlogged (dev\<lparr>log_buf := c\<rparr>) = unlogged dev" "unlogged (dev\<lparr>log_has_entries := d\<rparr>) = unlogged dev"
  "unlogged (dev\<lparr>log_seq := e\<rparr>) = unlogged dev" "unlogged (dev\<lparr>log_segment_label := f\<rparr>) = unlogged dev"
  "unlogged (dev\<lparr>stat_log_rotations := g\<rparr>) = unlogged dev" "unlogged (dev\<lparr>clock := h\<rparr>) = unlogged dev"
  by (simp_all add: unlogged_def)

lemma unlogged_fields:
  assumes "unlogged dev' = unlogged dev"
  shows "io_plan dev' = io_plan dev" "backing_path dev' = backing_path dev" "dev_size dev' = dev_size dev"
    "crashed dev' = crashed dev" "log_max_size dev' = log_max_size dev" "qcow2 dev' = qcow2 dev" "base dev' = base dev"
    "backing_file dev' = backing_file dev" "is_qcow2 dev' = is_qcow2 dev" "miss_handler dev' = miss_handler dev"
    "miss_replies dev' = miss_replies dev" "index dev' = index dev" "log_dir dev' = log_dir dev"
proof -
  note a = arg_cong [OF assms]
  show "io_plan dev' = io_plan dev" "backing_path dev' = backing_path dev" "dev_size dev' = dev_size dev"
    "crashed dev' = crashed dev" "log_max_size dev' = log_max_size dev" "qcow2 dev' = qcow2 dev" "base dev' = base dev"
    "backing_file dev' = backing_file dev" "is_qcow2 dev' = is_qcow2 dev" "miss_handler dev' = miss_handler dev"
    "miss_replies dev' = miss_replies dev" "index dev' = index dev" "log_dir dev' = log_dir dev"
    using a [of io_plan] a [of backing_path] a [of dev_size] a [of crashed] a [of log_max_size] a [of qcow2] a [of base]
      a [of backing_file] a [of is_qcow2] a [of miss_handler] a [of miss_replies] a [of index] a [of log_dir]
    by (simp_all add: unlogged_def)
qed

text \<open>What a step of the log may change besides: the file of the current segment.\<close>

definition log_step :: "lbd_device \<Rightarrow> lbd_device \<Rightarrow> bool" where
  "log_step dev dev' \<longleftrightarrow> unlogged dev' = unlogged dev \<and> log_segment_label dev' = log_segment_label dev \<and>
     log_seq dev' = log_seq dev \<and> log_has_entries dev' = log_has_entries dev \<and> clock dev' = clock dev \<and>
     (\<forall>name. name \<noteq> lbd_log_name_tmp (log_segment_label dev) \<longrightarrow> log_fs dev' name = log_fs dev name)"

lemma log_step_refl: "log_step dev dev"
  by (simp add: log_step_def)

lemma log_step_trans: "log_step dev dev' \<Longrightarrow> log_step dev' dev'' \<Longrightarrow> log_step dev dev''"
  by (simp add: log_step_def)

lemma flush_spec_log:
  assumes plan: "io_plan dev = []" and wf: "log_wf dev"
  shows "\<exists>dev'. lbd_log_flush dev = (Inr (), dev') \<and> current dev' = current dev \<and> log_buf dev' = [] \<and> log_wf dev' \<and>
    log_step dev dev' \<and> (log_buf dev \<noteq> [] \<longrightarrow> log_file dev' = Some (lbd_log_name_tmp (log_segment_label dev)))"
proof (cases "log_buf dev = []")
  case True
  then show ?thesis
    using wf by (simp add: lbd_log_flush_def log_step_refl)
next
  case False
  let ?n = "lbd_log_name_tmp (log_segment_label dev)"
  show ?thesis
  proof (cases "log_file dev")
    case None
    then show ?thesis
      using False plan wf
      by (simp add: lbd_log_flush_def lbd_open_log_file_def log_kernel_write_def log_contents_def current_def log_wf_def log_step_def Let_def)
  next
    case (Some name)
    then have "name = ?n"
      using wf by (simp add: log_wf_def)
    then show ?thesis
      using False plan wf Some
      by (simp add: lbd_log_flush_def log_kernel_write_def log_contents_def current_def log_wf_def log_step_def Let_def)
  qed
qed

lemma append_spec:
  assumes plan: "io_plan dev = []" and wf: "log_wf dev" and d: "length data \<le> LBD_LOG_BUF_SIZE"
  shows "\<exists>dev'. lbd_log_buf_append data dev = (Inr (), dev') \<and> current dev' = current dev @ data \<and> log_wf dev' \<and> log_step dev dev'"
proof (cases "length (log_buf dev) + length data > LBD_LOG_BUF_SIZE")
  case True
  obtain dev1 where f: "lbd_log_flush dev = (Inr (), dev1)" "current dev1 = current dev" "log_buf dev1 = []" "log_wf dev1" "log_step dev dev1"
    using flush_spec_log [OF plan wf] by blast
  then show ?thesis
    using True d by (auto simp: lbd_log_buf_append_def current_def log_wf_def log_step_def)
next
  case False
  then show ?thesis
    using wf by (simp add: lbd_log_buf_append_def current_def log_wf_def log_step_def split: option.split)
qed

section \<open>Labels and names\<close>

lemma length_hex_pad [simp]: "length (hex_pad n v) = n"
  by (induction n arbitrary: v) simp_all

lemma hex_digit_inj: "a < 16 \<Longrightarrow> b < 16 \<Longrightarrow> hex_digit a = hex_digit b \<Longrightarrow> a = b"
proof -
  assume ab: "a < 16" "b < 16" and eq: "hex_digit a = hex_digit b"
  have u: "unat (hex_digit n) = (if n < 10 then 48 + n else 87 + n)" if "n < 16" for n
    using that by (simp add: hex_digit_def unat_of_nat del: of_nat_add)
  show "a = b"
    using arg_cong [OF eq, of unat] u [OF ab(1)] u [OF ab(2)] ab by (simp split: if_splits)
qed

lemma hex_pad_inj: "hex_pad n a = hex_pad n b \<Longrightarrow> a < 16 ^ n \<Longrightarrow> b < 16 ^ n \<Longrightarrow> a = b"
proof (induction n arbitrary: a b)
  case (Suc n)
  have "hex_pad n (a div 16) = hex_pad n (b div 16)" "hex_digit (a mod 16) = hex_digit (b mod 16)"
    using Suc.prems(1) by simp_all
  then have "a div 16 = b div 16" "a mod 16 = b mod 16"
    using Suc.IH [of "a div 16" "b div 16"] Suc.prems(2,3) hex_digit_inj [of "a mod 16" "b mod 16"] by (simp_all add: less_mult_imp_div_less)
  then show ?case
    by (metis div_mult_mod_eq)
qed simp

lemma length_label [simp]: "length (lbd_tai64n_label t) = 24"
  by (simp add: lbd_tai64n_label_def Let_def)

text \<open>Readings below the year \<open>10\<^sup>1\<^sup>1\<close> have different labels.\<close>

definition CLOCK_MAX :: nat where "CLOCK_MAX = 2 ^ 61 * 1000000000"

lemma label_inj:
  assumes "t < CLOCK_MAX" "u < CLOCK_MAX" "lbd_tai64n_label t = lbd_tai64n_label u"
  shows "t = u"
proof -
  let ?s = "\<lambda>t. unat (of_nat (t div 1000000000) + 0x4000000000000000 :: u64)"
  have s: "?s x = x div 1000000000 + 0x4000000000000000" "x div 1000000000 < 2 ^ 61" if "x < CLOCK_MAX" for x
  proof -
    show b: "x div 1000000000 < 2 ^ 61"
      using that unfolding CLOCK_MAX_def by (rule less_mult_imp_div_less)
    then show "?s x = x div 1000000000 + 0x4000000000000000"
      using unat_plus_u64 [of "of_nat (x div 1000000000)" "0x4000000000000000"] by (simp add: unat_of_nat_u64)
  qed
  have "hex_pad 16 (?s t) = hex_pad 16 (?s u)" "hex_pad 8 (t mod 1000000000) = hex_pad 8 (u mod 1000000000)"
    using assms(3) by (simp_all add: lbd_tai64n_label_def Let_def)
  moreover have "?s t < 16 ^ 16" "?s u < 16 ^ 16"
    using unat_u64_lt by simp_all
  moreover have "t mod 1000000000 < 16 ^ 8" "u mod 1000000000 < 16 ^ 8"
    using mod_less_divisor [of 1000000000 t] mod_less_divisor [of 1000000000 u] by simp_all
  ultimately have "?s t = ?s u" "t mod 1000000000 = u mod 1000000000"
    using hex_pad_inj by blast+
  then have "t div 1000000000 = u div 1000000000" "t mod 1000000000 = u mod 1000000000"
    using s(1) [OF assms(1)] s(1) [OF assms(2)] by simp_all
  then show ?thesis
    by (metis div_mult_mod_eq)
qed

lemma name_simps:
  assumes "length l = 24" "length m = 24"
  shows "lbd_log_name_final l = lbd_log_name_final m \<longleftrightarrow> l = m" "lbd_log_name_final l \<noteq> lbd_log_name_tmp m"
proof -
  have t: "lbd_log_name_final l = str ''disk.'' @ l @ str ''.log''" "lbd_log_name_final m = str ''disk.'' @ m @ str ''.log''"
    "lbd_log_name_tmp m = str ''disk.'' @ m @ str ''.log.tmp''"
    using assms by (simp_all add: lbd_log_name_final_def lbd_log_name_tmp_def str_def)
  show "lbd_log_name_final l = lbd_log_name_final m \<longleftrightarrow> l = m"
    using assms by (simp add: t)
  have "length (str ''disk.'' @ l @ str ''.log'') \<noteq> length (str ''disk.'' @ m @ str ''.log.tmp'')"
    using assms by (simp add: str_def)
  then show "lbd_log_name_final l \<noteq> lbd_log_name_tmp m"
    unfolding t by metis
qed

section \<open>The whole log\<close>

text \<open>
  The finished segments \<open>hist\<close> are in their files and the current one holds \<open>ents\<close>; the coming
  clock readings give fresh labels.
\<close>

definition log_ok :: "(u32 \<Rightarrow> bytes \<Rightarrow> u32) \<Rightarrow> (bytes \<times> log_entry list) list \<Rightarrow> log_entry list \<Rightarrow> lbd_device \<Rightarrow> bool" where
  "log_ok crc32 hist ents dev \<longleftrightarrow> log_wf dev \<and>
     current dev = segment_bytes crc32 (log_segment_label dev) (dev_size dev) (backing_path dev) ents \<and>
     log_has_entries dev = (ents \<noteq> []) \<and>
     (\<forall>(l, es) \<in> set hist. length l = 24 \<and> l \<noteq> log_segment_label dev \<and>
        log_fs dev (lbd_log_name_final l) = Some (segment_bytes crc32 l (dev_size dev) (backing_path dev) es)) \<and>
     distinct (map lbd_tai64n_label (clock dev)) \<and>
     (\<forall>t \<in> set (clock dev). lbd_tai64n_label t \<noteq> log_segment_label dev \<and> (\<forall>(l, es) \<in> set hist. lbd_tai64n_label t \<noteq> l))"

lemma begin_segment_spec:
  assumes plan: "io_plan dev = []" and path: "length (backing_path dev) \<le> 255" and c: "clock dev = t # ts"
  shows "\<exists>dev'. lbd_begin_segment dev = dev' \<and> log_wf dev' \<and> unlogged dev' = unlogged dev \<and> clock dev' = ts \<and>
    log_segment_label dev' = lbd_tai64n_label t \<and> log_seq dev' = log_seq dev \<and> \<not> log_has_entries dev' \<and>
    current dev' = segment_bytes crc32 (lbd_tai64n_label t) (dev_size dev) (backing_path dev) [] \<and>
    (\<forall>l. length l = 24 \<longrightarrow> log_fs dev' (lbd_log_name_final l) = log_fs dev (lbd_log_name_final l))"
proof -
  define dev1 where "dev1 = dev\<lparr>log_file := None, log_buf := [], log_has_entries := False, clock := ts, log_segment_label := lbd_tai64n_label t\<rparr>"
  let ?bs = "items_bytes (header_items (lbd_tai64n_label t) (dev_size dev) (backing_path dev))"
  have b: "lbd_begin_segment dev = snd (lbd_log_buf_append ?bs dev1)"
    using c path write_header_eq [of dev1] by (simp add: lbd_begin_segment_def Let_def ktime_get_real_def dev1_def)
  have wf: "log_wf dev1" "io_plan dev1 = []"
    using path plan by (simp_all add: log_wf_def dev1_def)
  have len: "length ?bs \<le> LBD_LOG_BUF_SIZE"
    using length_header_items [of "lbd_tai64n_label t" "backing_path dev" "dev_size dev"] path by (simp add: LBD_LOG_BUF_SIZE_def)
  obtain dev' where d: "lbd_log_buf_append ?bs dev1 = (Inr (), dev')" "current dev' = current dev1 @ ?bs" "log_wf dev'" "log_step dev1 dev'"
    using append_spec [OF wf(2,1) len] by blast
  have "current dev1 = []"
    by (simp add: current_def dev1_def)
  moreover have "log_fs dev' (lbd_log_name_final l) = log_fs dev (lbd_log_name_final l)" if "length l = 24" for l
    using d(4) name_simps(2) [OF that length_label] by (simp add: log_step_def dev1_def)
  ultimately show ?thesis
    using b d by (simp add: log_step_def segment_bytes_def) (simp add: dev1_def)
qed

lemma notify_cong:
  "rotation_event dev' = rotation_event dev \<Longrightarrow> lbd_notify_watchers dev' ws = lbd_notify_watchers dev ws"
  unfolding lbd_notify_watchers_def rotation_event_def Let_def by simp

lemma log_step_event: "log_step dev dev' \<Longrightarrow> rotation_event dev' = rotation_event dev"
  using unlogged_fields [of dev' dev] by (simp add: log_step_def rotation_event_def)

lemma segment_bytes_ne: "segment_bytes crc32 l sz path es \<noteq> []"
  by (simp add: segment_bytes_def header_items_def)

lemma rotate_spec:
  assumes ok: "log_ok crc32 hist ents dev" and plan: "io_plan dev = []" and e: "ents \<noteq> []" and c: "clock dev = t # ts"
  shows "\<exists>dev'. lbd_rotate_segment (ws, dev) = (lbd_notify_watchers dev ws, dev') \<and>
    log_ok crc32 (hist @ [(log_segment_label dev, ents)]) [] dev' \<and> unlogged dev' = unlogged dev \<and>
    log_seq dev' = log_seq dev \<and> clock dev' = ts"
proof -
  let ?l = "log_segment_label dev" and ?tmp = "lbd_log_name_tmp (log_segment_label dev)" and ?fin = "lbd_log_name_final (log_segment_label dev)"
  have wf: "log_wf dev" and cur: "current dev = segment_bytes crc32 ?l (dev_size dev) (backing_path dev) ents"
    and he: "log_has_entries dev" and l24: "length ?l = 24" and path: "length (backing_path dev) \<le> 255"
    using ok e by (simp_all add: log_ok_def log_wf_def)
  obtain dev1 where f: "lbd_log_flush dev = (Inr (), dev1)" "current dev1 = current dev" "log_buf dev1 = []" "log_wf dev1"
    "log_step dev dev1" "log_buf dev \<noteq> [] \<longrightarrow> log_file dev1 = Some ?tmp"
    using flush_spec_log [OF plan wf] by blast
  have s: "log_segment_label dev1 = ?l" "unlogged dev1 = unlogged dev" "log_seq dev1 = log_seq dev" "clock dev1 = t # ts"
    "\<And>name. name \<noteq> ?tmp \<Longrightarrow> log_fs dev1 name = log_fs dev name"
    using f(5) c by (auto simp: log_step_def)
  note u1 = unlogged_fields [OF s(2)]
  have fl: "log_file dev1 = Some ?tmp"
    using f(2,3,4) cur segment_bytes_ne [of crc32 ?l "dev_size dev" "backing_path dev" ents] s(1) by (auto simp: current_def log_wf_def)
  have cont: "log_fs dev1 ?tmp = Some (segment_bytes crc32 ?l (dev_size dev) (backing_path dev) ents)"
    using f(2,3) cur fl segment_bytes_ne [of crc32 ?l "dev_size dev" "backing_path dev" ents]
    by (simp add: current_def log_contents_def split: option.splits)
  define dev2 where "dev2 = dev1\<lparr>log_fs := (log_fs dev1)(?tmp := None, ?fin := log_fs dev1 ?tmp), log_file := None,
    stat_log_rotations := stat_log_rotations dev1 + 1\<rparr>"
  have pl1: "io_plan dev1 = []"
    using u1 plan by simp
  have run: "lbd_rotate_segment (ws, dev) = (lbd_notify_watchers dev2 ws, lbd_begin_segment dev2)"
    using he f(1) fl pl1 s(1) by (simp add: lbd_rotate_segment_def Let_def vfs_fsync_def lbd_rename_file_def dev2_def)
  have d2: "io_plan dev2 = []" "length (backing_path dev2) \<le> 255" "clock dev2 = t # ts" "unlogged dev2 = unlogged dev"
    "log_seq dev2 = log_seq dev" "dev_size dev2 = dev_size dev" "backing_path dev2 = backing_path dev"
    using pl1 path s u1 by (simp_all add: dev2_def)
  obtain dev3 where b: "lbd_begin_segment dev2 = dev3" "log_wf dev3" "unlogged dev3 = unlogged dev2" "clock dev3 = ts"
    "log_segment_label dev3 = lbd_tai64n_label t" "log_seq dev3 = log_seq dev2" "\<not> log_has_entries dev3"
    "current dev3 = segment_bytes crc32 (lbd_tai64n_label t) (dev_size dev2) (backing_path dev2) []"
    "\<And>l. length l = 24 \<Longrightarrow> log_fs dev3 (lbd_log_name_final l) = log_fs dev2 (lbd_log_name_final l)"
    using begin_segment_spec [OF d2(1-3), of crc32] by blast
  note u3 = unlogged_fields [OF b(3)]
  have fs: "log_fs dev3 (lbd_log_name_final l) = (if l = ?l then Some (segment_bytes crc32 ?l (dev_size dev) (backing_path dev) ents)
      else log_fs dev (lbd_log_name_final l))" if "length l = 24" for l
    using b(9) [OF that] name_simps [OF that l24] name_simps(2) [OF l24 l24] s(5) [of "lbd_log_name_final l"] cont
    by (auto simp: dev2_def)
  have sz: "dev_size dev3 = dev_size dev" "backing_path dev3 = backing_path dev"
    using u3(2,3) d2(6,7) by simp_all
  have h: "length l = 24 \<and> l \<noteq> ?l \<and> log_fs dev (lbd_log_name_final l) = Some (segment_bytes crc32 l (dev_size dev) (backing_path dev) es)"
    if "(l, es) \<in> set hist" for l es
    using ok that unfolding log_ok_def by blast
  have lab: "distinct (map lbd_tai64n_label (t # ts))" "u \<in> set (t # ts) \<Longrightarrow> lbd_tai64n_label u \<noteq> ?l"
    "u \<in> set (t # ts) \<Longrightarrow> (l, es) \<in> set hist \<Longrightarrow> lbd_tai64n_label u \<noteq> l" for u l es
    using ok c unfolding log_ok_def by auto
  have new: "lbd_tai64n_label u \<noteq> lbd_tai64n_label t" if "u \<in> set ts" for u
    using lab(1) that by (metis distinct.simps(2) image_eqI list.set_map list.simps(9))
  have A: "case x of (l, es) \<Rightarrow> length l = 24 \<and> l \<noteq> log_segment_label dev3 \<and>
        log_fs dev3 (lbd_log_name_final l) = Some (segment_bytes crc32 l (dev_size dev3) (backing_path dev3) es)"
    if "x \<in> set (hist @ [(?l, ents)])" for x
  proof (cases x)
    case (Pair l es)
    then show ?thesis
      using that h [of l es] fs [of l] lab(2) [of t] lab(3) [of t l es] l24 b(5) sz by auto
  qed
  have B: "lbd_tai64n_label u \<noteq> log_segment_label dev3 \<and> (\<forall>(l, es) \<in> set (hist @ [(?l, ents)]). lbd_tai64n_label u \<noteq> l)"
    if u: "u \<in> set (clock dev3)" for u
    using u b(4,5) new lab(2) [of u] lab(3) [of u] by auto
  have "log_ok crc32 (hist @ [(?l, ents)]) [] dev3"
    unfolding log_ok_def using A B b(2,4,5,7,8) lab(1) sz d2(6,7) by (intro conjI ballI) (simp_all, blast)
  moreover have "lbd_notify_watchers dev2 ws = lbd_notify_watchers dev ws"
    using log_step_event [OF f(5)] by (intro notify_cong) (simp add: rotation_event_def dev2_def)
  ultimately show ?thesis
    using run b d2 by simp
qed

text \<open>All logged entries, in order.\<close>

definition all_entries :: "(bytes \<times> log_entry list) list \<Rightarrow> log_entry list \<Rightarrow> log_entry list" where
  "all_entries hist ents = concat (map snd hist) @ ents"

lemma maybe_rotate_spec:
  assumes ok: "log_ok crc32 hist ents dev" and plan: "io_plan dev = []" and e: "ents \<noteq> []" and c: "clock dev = t # ts"
  shows "\<exists>ws' dev' hist' ents'. lbd_maybe_rotate_segment (ws, dev) = (ws', dev') \<and> log_ok crc32 hist' ents' dev' \<and>
    all_entries hist' ents' = all_entries hist ents \<and> unlogged dev' = unlogged dev \<and> log_seq dev' = log_seq dev \<and>
    clock dev' \<in> {t # ts, ts}"
proof (cases "of_nat (log_size dev + length (log_buf dev)) \<ge> log_max_size dev")
  case True
  obtain dev' where "lbd_rotate_segment (ws, dev) = (lbd_notify_watchers dev ws, dev')"
    "log_ok crc32 (hist @ [(log_segment_label dev, ents)]) [] dev'" "unlogged dev' = unlogged dev" "log_seq dev' = log_seq dev" "clock dev' = ts"
    using rotate_spec [OF assms] by blast
  then show ?thesis
    using True by (intro exI [of _ "lbd_notify_watchers dev ws"] exI [of _ dev'] exI [of _ "hist @ [(log_segment_label dev, ents)]"] exI [of _ "[]"])
      (simp add: lbd_maybe_rotate_segment_def all_entries_def)
next
  case False
  then show ?thesis
    using ok c by (intro exI [of _ ws] exI [of _ dev] exI [of _ hist] exI [of _ ents]) (simp add: lbd_maybe_rotate_segment_def)
qed

section \<open>Logging an operation\<close>

lemma log_ok_tick:
  "log_ok crc32 hist ents dev \<Longrightarrow> clock dev = t # ts \<Longrightarrow> log_ok crc32 hist ents (dev\<lparr>clock := ts, log_seq := n\<rparr>)"
proof -
  have "log_wf (dev\<lparr>clock := ts, log_seq := n\<rparr>) = log_wf dev" "current (dev\<lparr>clock := ts, log_seq := n\<rparr>) = current dev"
    by (simp_all add: log_wf_def current_def log_contents_def split: option.split)
  then show "log_ok crc32 hist ents dev \<Longrightarrow> clock dev = t # ts \<Longrightarrow> log_ok crc32 hist ents (dev\<lparr>clock := ts, log_seq := n\<rparr>)"
    by (simp add: log_ok_def)
qed

lemma log_ok_append:
  assumes ok: "log_ok crc32 hist ents dev" and st: "log_step dev dev'" "log_wf dev'"
    and cur: "current dev' = current dev @ entry_bytes crc32 e"
  shows "log_ok crc32 hist (ents @ [e]) (dev'\<lparr>log_has_entries := True\<rparr>)"
proof -
  have s: "log_segment_label dev' = log_segment_label dev" "unlogged dev' = unlogged dev" "clock dev' = clock dev"
    "\<And>name. name \<noteq> lbd_log_name_tmp (log_segment_label dev) \<Longrightarrow> log_fs dev' name = log_fs dev name"
    using st(1) by (auto simp: log_step_def)
  note u = unlogged_fields(2,3) [OF s(2)]
  have l24: "length (log_segment_label dev) = 24"
    using ok by (simp add: log_ok_def log_wf_def)
  have "length l = 24 \<Longrightarrow> log_fs dev' (lbd_log_name_final l) = log_fs dev (lbd_log_name_final l)" for l
    using s(4) name_simps(2) [OF _ l24] by blast
  moreover have "log_wf (dev'\<lparr>log_has_entries := True\<rparr>)" "current (dev'\<lparr>log_has_entries := True\<rparr>) = current dev'"
    using st(2) by (simp_all add: log_wf_def current_def split: option.split)
  ultimately show ?thesis
    using ok cur unfolding log_ok_def by (auto simp: s u segment_bytes_def)
qed

lemma log_discard_spec:
  assumes ok: "log_ok crc32 hist ents dev" and plan: "io_plan dev = []" and c: "clock dev = t # t' # ts"
  shows "\<exists>ws' dev' hist' ents'. lbd_log_discard rq (ws, dev) = (ws', dev') \<and> log_ok crc32 hist' ents' dev' \<and>
    all_entries hist' ents' = all_entries hist ents @ [LogTrim t (log_seq dev) (log_block (rq_pos rq)) (rq_bytes rq)] \<and>
    unlogged dev' = unlogged dev \<and> log_seq dev' = log_seq dev + 1 \<and> clock dev' \<in> {t' # ts, ts}"
proof -
  let ?e = "LogTrim t (log_seq dev) (log_block (rq_pos rq)) (rq_bytes rq)"
  let ?bs = "entry_bytes crc32 ?e"
  define dev1 where "dev1 = dev\<lparr>clock := t' # ts, log_seq := log_seq dev + 1\<rparr>"
  define e where "e = cbor_puts (cbor_enc_init (replicate 64 0) 64) ?bs"
  have le: "length ?bs \<le> 64"
    using length_trim_items by (simp only: entry_bytes.simps) (rule order_trans, assumption, simp)
  have enc: "cbor_enc_uint (cbor_enc_uint (cbor_enc_uint (cbor_enc_uint (cbor_enc_uint (cbor_enc_uint (cbor_enc_uint (cbor_enc_uint
      (cbor_enc_text (cbor_enc_uint (cbor_enc_map (cbor_enc_init (replicate 64 0) 64) 5) LBD_CBOR_KEY_OP) (str ''T'') (Suc 0))
      LBD_CBOR_KEY_TIMESTAMP) (of_nat t)) LBD_CBOR_KEY_SEQUENCE) (log_seq dev)) LBD_CBOR_KEY_BLOCK) (log_block (rq_pos rq)))
      LBD_CBOR_KEY_LENGTH) (ucast (rq_bytes rq)) = e"
    by (simp add: e_def cbor_simps log_key_defs trim_items_def str_def flip: cbor_puts_append)
  have ok1: "log_ok crc32 hist ents dev1" and d1: "io_plan dev1 = []" "unlogged dev1 = unlogged dev" "clock dev1 = t' # ts"
    using log_ok_tick [OF ok c] plan by (simp_all add: dev1_def)
  have wf1: "log_wf dev1" and bl: "length ?bs \<le> LBD_LOG_BUF_SIZE"
    using ok1 le by (simp_all add: log_ok_def LBD_LOG_BUF_SIZE_def del: entry_bytes.simps)
  obtain dev2 where a: "lbd_log_buf_append ?bs dev1 = (Inr (), dev2)" "current dev2 = current dev1 @ ?bs" "log_wf dev2" "log_step dev1 dev2"
    using append_spec [OF d1(1) wf1 bl] by blast
  have run: "lbd_log_discard rq (ws, dev) = lbd_maybe_rotate_segment (ws, dev2\<lparr>log_has_entries := True\<rparr>)"
    using message_fits [OF le e_def] a(1) c
    by (simp add: lbd_log_discard_def ktime_get_real_def Let_def enc dev1_def del: entry_bytes.simps)
  have ok2: "log_ok crc32 hist (ents @ [?e]) (dev2\<lparr>log_has_entries := True\<rparr>)"
    by (rule log_ok_append [OF ok1 a(4,3,2)])
  have s2: "unlogged dev2 = unlogged dev1" "clock dev2 = t' # ts" "log_seq dev2 = log_seq dev + 1"
    using a(4) d1(3) by (auto simp: log_step_def dev1_def)
  show ?thesis
    using maybe_rotate_spec [OF ok2, of t' ts ws] run s2 d1(1,2) unlogged_fields(1) [OF s2(1)] by (simp add: all_entries_def)
qed

lemma log_write_spec:
  assumes ok: "log_ok crc32 hist ents dev" and plan: "io_plan dev = []" and c: "clock dev = t # t' # ts"
    and data: "data = concat (rq_segs rq)" "length data = unat (rq_bytes rq)" "0 < length data" "length data \<le> 131072"
  shows "\<exists>ws' dev' hist' ents'. lbd_log_write crc32 rq (ws, dev) = (ws', dev') \<and> log_ok crc32 hist' ents' dev' \<and>
    all_entries hist' ents' = all_entries hist ents @ [LogWrite t (log_seq dev) (log_block (rq_pos rq)) data] \<and>
    unlogged dev' = unlogged dev \<and> log_seq dev' = log_seq dev + 1 \<and> clock dev' \<in> {t' # ts, ts}"
proof -
  let ?e = "LogWrite t (log_seq dev) (log_block (rq_pos rq)) data" and ?comp = "LZ4_compress_fast_extState data"
  let ?crc = "NOT (crc32 (- 1) data)"
  let ?h = "items_bytes (write_items t (log_seq dev) (log_block (rq_pos rq)) (rq_bytes rq) ?crc) @ cbor_head 2 (of_nat (length ?comp))"
  have len: "of_nat (length data) = rq_bytes rq"
    using data(2) by simp
  have eb: "entry_bytes crc32 ?e = ?h @ ?comp"
    by (simp add: Let_def len)
  define dev1 where "dev1 = dev\<lparr>clock := t' # ts, log_seq := log_seq dev + 1\<rparr>"
  define e where "e = cbor_puts (cbor_enc_init (replicate 128 0) 128) ?h"
  have le: "length ?h \<le> 128"
    using length_write_items [of t "log_seq dev" "log_block (rq_pos rq)" "rq_bytes rq" ?crc] length_cbor_head_le [of 2 "of_nat (length ?comp)"] by simp
  have cb: "0 < length ?comp" "length ?comp \<le> LBD_LOG_BUF_SIZE"
    using compress_bound [of data] data(4) div_le_dividend [of "length data" 255]
    by (simp_all add: LZ4_MAX_INPUT_SIZE_def LZ4_compressBound_def LBD_LOG_BUF_SIZE_def del: div_le_dividend)
  have enc: "cbor_enc_bytes_hdr (cbor_enc_uint (cbor_enc_uint (cbor_enc_uint (cbor_enc_uint (cbor_enc_uint (cbor_enc_uint (cbor_enc_uint
      (cbor_enc_uint (cbor_enc_uint (cbor_enc_uint (cbor_enc_uint
      (cbor_enc_text (cbor_enc_uint (cbor_enc_map (cbor_enc_init (replicate 128 0) 128) 7) LBD_CBOR_KEY_OP) (str ''W'') (Suc 0))
      LBD_CBOR_KEY_TIMESTAMP) (of_nat t)) LBD_CBOR_KEY_SEQUENCE) (log_seq dev)) LBD_CBOR_KEY_BLOCK) (log_block (rq_pos rq)))
      LBD_CBOR_KEY_LENGTH) (ucast (rq_bytes rq))) LBD_CBOR_KEY_CHECKSUM) (ucast ?crc)) LBD_CBOR_KEY_DATA) (of_nat (length ?comp)) = e"
    by (simp add: e_def cbor_simps log_key_defs write_items_def str_def flip: cbor_puts_append)
  have ok1: "log_ok crc32 hist ents dev1" and d1: "io_plan dev1 = []" "unlogged dev1 = unlogged dev" "clock dev1 = t' # ts"
    using log_ok_tick [OF ok c] plan by (simp_all add: dev1_def)
  have wf1: "log_wf dev1" and bl: "length ?h \<le> LBD_LOG_BUF_SIZE"
    using ok1 le by (simp_all add: log_ok_def LBD_LOG_BUF_SIZE_def)
  obtain dev2 where a: "lbd_log_buf_append ?h dev1 = (Inr (), dev2)" "current dev2 = current dev1 @ ?h" "log_wf dev2" "log_step dev1 dev2"
    using append_spec [OF d1(1) wf1 bl] by blast
  have pl2: "io_plan dev2 = []"
    using a(4) d1(1) unlogged_fields(1) [of dev2 dev1] by (simp add: log_step_def)
  obtain dev3 where b: "lbd_log_buf_append ?comp dev2 = (Inr (), dev3)" "current dev3 = current dev2 @ ?comp" "log_wf dev3" "log_step dev2 dev3"
    using append_spec [OF pl2 a(3) cb(2)] by blast
  have nz: "rq_bytes rq \<noteq> 0" "?comp \<noteq> []"
    using data(2,3) cb(1) by auto
  have run: "lbd_log_write crc32 rq (ws, dev) = lbd_maybe_rotate_segment (ws, dev3\<lparr>log_has_entries := True\<rparr>)"
    using message_fits [OF le e_def] a(1) b(1) c nz plan
    by (simp add: data(1) [symmetric] lbd_log_write_def ktime_get_real_def Let_def enc dev1_def)
  have st: "log_step dev1 dev3"
    using log_step_trans [OF a(4) b(4)] .
  have ok3: "log_ok crc32 hist (ents @ [?e]) (dev3\<lparr>log_has_entries := True\<rparr>)"
    using b(2) a(2) eb by (intro log_ok_append [OF ok1 st b(3)]) simp
  have s3: "unlogged dev3 = unlogged dev1" "clock dev3 = t' # ts" "log_seq dev3 = log_seq dev + 1"
    using st d1(3) by (auto simp: log_step_def dev1_def)
  show ?thesis
    using maybe_rotate_spec [OF ok3, of t' ts ws] run s3 d1(1,2) unlogged_fields(1) [OF s3(1)] by (simp add: all_entries_def)
qed

end
