(* ===== verification/Lbd_Serve.thy ===== *)
theory Lbd_Serve
  imports Lbd_Request Lbd_Segments Qcow2_Discard
begin

text \<open>
  A device that serves requests from an image and logs them. The specification is a store of two
  layers and the list of logged operations; a run of the worker refines it request by request.
\<close>

section \<open>Specification\<close>

definition store_step :: "nat \<Rightarrow> lbd_cmd \<Rightarrow> layers \<Rightarrow> bytes list \<times> layers" where
  "store_step cs = (\<lambda>(op, rq) L.
     case op of
       REQ_OP_READ \<Rightarrow> (scatter (disk_byte cs L) (512 * unat (rq_pos rq)) (rq_segs rq), L)
     | REQ_OP_WRITE \<Rightarrow> ([], write_layers cs (512 * unat (rq_pos rq)) (concat (rq_segs rq)) L)
     | REQ_OP_DISCARD \<Rightarrow> ([], discard_layers cs (512 * unat (rq_pos rq)) (unat (rq_bytes rq)) L)
     | _ \<Rightarrow> ([], L))"

fun store_run :: "nat \<Rightarrow> lbd_cmd list \<Rightarrow> layers \<Rightarrow> bytes list list \<times> layers" where
  "store_run cs [] L = ([], L)"
| "store_run cs (c # cmds) L =
     (let (r, L) = store_step cs c L; (rs, L) = store_run cs cmds L in (r # rs, L))"

text \<open>The log entries of a command, without the time of logging.\<close>

definition cmd_entries :: "u64 \<Rightarrow> lbd_cmd \<Rightarrow> log_entry list" where
  "cmd_entries sq = (\<lambda>(op, rq).
     case op of
       REQ_OP_WRITE \<Rightarrow> [LogWrite 0 sq (log_block (rq_pos rq)) (concat (rq_segs rq))]
     | REQ_OP_DISCARD \<Rightarrow> [LogTrim 0 sq (log_block (rq_pos rq)) (rq_bytes rq)]
     | _ \<Rightarrow> [])"

fun run_entries :: "u64 \<Rightarrow> lbd_cmd list \<Rightarrow> log_entry list" where
  "run_entries sq [] = []"
| "run_entries sq (c # cmds) = cmd_entries sq c @ run_entries (sq + of_nat (length (cmd_entries sq c))) cmds"

fun untimed :: "log_entry \<Rightarrow> log_entry" where
  "untimed (LogWrite t s b d) = LogWrite 0 s b d"
| "untimed (LogTrim t s b n) = LogTrim 0 s b n"

text \<open>The requests the block layer sends for a disk of \<open>q\<close>'s size, and the clusters they touch.\<close>

definition cmd_ok :: "lbd_qcow2 \<Rightarrow> lbd_cmd \<Rightarrow> bool" where
  "cmd_ok q = (\<lambda>(op, rq).
     case op of
       REQ_OP_READ \<Rightarrow> fits q (512 * unat (rq_pos rq) + length (concat (rq_segs rq))) \<and> (\<forall>seg \<in> set (rq_segs rq). length seg < 2 ^ 32)
     | REQ_OP_WRITE \<Rightarrow> fits q (512 * unat (rq_pos rq) + length (concat (rq_segs rq))) \<and>
         length (concat (rq_segs rq)) = unat (rq_bytes rq) \<and> 0 < rq_bytes rq \<and> rq_bytes rq \<le> 131072
     | REQ_OP_DISCARD \<Rightarrow> fits q (512 * unat (rq_pos rq) + unat (rq_bytes rq))
     | REQ_OP_FLUSH \<Rightarrow> True
     | REQ_OP_OTHER \<Rightarrow> False)"

definition cost :: "nat \<Rightarrow> lbd_cmd \<Rightarrow> nat" where
  "cost cs = (\<lambda>(op, rq).
     case op of
       REQ_OP_READ \<Rightarrow> spans cs (512 * unat (rq_pos rq)) (rq_segs rq)
     | REQ_OP_WRITE \<Rightarrow> span cs (512 * unat (rq_pos rq)) (length (concat (rq_segs rq)))
     | REQ_OP_DISCARD \<Rightarrow> span cs (512 * unat (rq_pos rq)) (unat (rq_bytes rq))
     | _ \<Rightarrow> 0)"

section \<open>Refinement relation\<close>

text \<open>
  The image refines the store \<open>L\<close>, and counters, space and miss replies suffice for work on \<open>n\<close>
  more clusters; log files and log buffer hold exactly \<open>ents\<close>, and the clock can be read for \<open>k\<close>
  more commands.
\<close>

definition img_ready :: "crc_fun \<Rightarrow> nat \<Rightarrow> lbd_device \<Rightarrow> layers \<Rightarrow> bool" where
  "img_ready crc n dev L \<longleftrightarrow>
     io_plan dev = [] \<and> abs_img crc dev L \<and> ticks dev (12 * n) \<and>
     unat (alloc_offset (qcow2 dev)) + 2 * csz (qcow2 dev) * n \<le> 2 ^ 62 \<and> quiet dev \<and> answers dev (4 * n)"

definition log_ready :: "(u32 \<Rightarrow> bytes \<Rightarrow> u32) \<Rightarrow> nat \<Rightarrow> lbd_device \<Rightarrow> log_entry list \<Rightarrow> bool" where
  "log_ready crc32 k dev ents \<longleftrightarrow>
     (\<exists>hist es. log_ok crc32 hist es dev \<and> all_entries hist es = ents) \<and> 2 * k \<le> length (clock dev)"

definition serves ::
  "(u32 \<Rightarrow> bytes \<Rightarrow> u32) \<Rightarrow> crc_fun \<Rightarrow> nat \<Rightarrow> nat \<Rightarrow> lbd_device \<Rightarrow> layers \<Rightarrow> log_entry list \<Rightarrow> bool" where
  "serves crc32 crc n k dev L ents \<longleftrightarrow> is_qcow2 dev \<and> img_ready crc n dev L \<and> log_ready crc32 k dev ents"

text \<open>The two parts depend on different fields.\<close>

definition log_view where
  "log_view dev = (log_file dev, log_buf dev, log_segment_label dev, backing_path dev, dev_size dev, log_has_entries dev,
     log_fs dev, clock dev, log_seq dev, log_max_size dev, is_qcow2 dev)"

definition img_view where
  "img_view dev = (qcow2 dev, base dev, backing_file dev, crashed dev, io_plan dev, miss_handler dev, miss_replies dev)"

lemma log_ready_view: "log_view dev' = log_view dev \<Longrightarrow> log_ready crc32 k dev' ents = log_ready crc32 k dev ents"
proof -
  assume v: "log_view dev' = log_view dev"
  then have "log_contents dev' = log_contents dev" "log_file dev' = log_file dev" "log_buf dev' = log_buf dev"
    by (simp_all add: fun_eq_iff log_view_def log_contents_def)
  then have "current dev' = current dev"
    by (simp add: current_def split: option.split)
  then show ?thesis
    using v by (simp add: log_view_def log_ready_def log_ok_def log_wf_def)
qed

lemma img_ready_view:
  assumes v: "img_view dev' = img_view dev"
  shows "img_ready crc n dev' L = img_ready crc n dev L"
proof -
  have "qinv crc dev' T C FL B = qinv crc dev T C FL B" for T C FL B
    using v by (simp add: img_view_def qinv_def base_ok_def split: option.split)
  then have "abs_img crc dev' L = abs_img crc dev L"
    using v by (simp add: abs_img_def img_view_def)
  then show ?thesis
    using v by (simp add: img_ready_def img_view_def ticks_def quiet_def answers_def)
qed

lemma frame_log_view: "frame dev' = frame dev \<Longrightarrow> log_view dev' = log_view dev"
proof -
  assume "frame dev' = frame dev"
  then have "log_view (frame dev') = log_view (frame dev)"
    by simp
  then show ?thesis
    by (simp add: frame_def rest_def log_view_def)
qed

lemma rframe_log_view: "rframe dev' = rframe dev \<Longrightarrow> log_view dev' = log_view dev"
proof -
  assume "rframe dev' = rframe dev"
  then have "log_view (rframe dev') = log_view (rframe dev)"
    by simp
  then show ?thesis
    by (simp add: rframe_def rshell_def shell_def log_view_def)
qed

lemma unlogged_img_view: "unlogged dev' = unlogged dev \<Longrightarrow> img_view dev' = img_view dev"
  using unlogged_fields [of dev' dev] by (simp add: img_view_def)

lemma stat_views:
  "img_view (dev\<lparr>stat_writes := a, stat_write_bytes := b\<rparr>) = img_view dev" "img_view (dev\<lparr>stat_trims := a, stat_trim_bytes := b\<rparr>) = img_view dev"
  "log_view (dev\<lparr>stat_writes := a, stat_write_bytes := b\<rparr>) = log_view dev" "log_view (dev\<lparr>stat_trims := a, stat_trim_bytes := b\<rparr>) = log_view dev"
  by (simp_all add: img_view_def log_view_def)

lemma clock_two: "2 * Suc k \<le> length xs \<Longrightarrow> \<exists>t t' ts. xs = t # t' # ts \<and> 2 * k \<le> length ts"
  by (cases xs; cases "tl xs") auto

section \<open>One request\<close>

text \<open>Logging: the image is untouched, and one entry is added.\<close>

lemma serve_log_write:
  assumes s: "log_ready crc32 (Suc k) dev ents" and plan: "io_plan dev = []"
    and data: "data = concat (rq_segs rq)" "length data = unat (rq_bytes rq)" "0 < length data" "length data \<le> 131072"
  shows "\<exists>ws' dev' t. lbd_log_write crc32 rq (ws, dev) = (ws', dev') \<and> unlogged dev' = unlogged dev \<and>
    log_ready crc32 k dev' (ents @ [LogWrite t (log_seq dev) (log_block (rq_pos rq)) data]) \<and> log_seq dev' = log_seq dev + 1"
proof -
  obtain hist es where l: "log_ok crc32 hist es dev" "all_entries hist es = ents"
    using s by (auto simp: log_ready_def)
  obtain t t' ts where c: "clock dev = t # t' # ts" "2 * k \<le> length ts"
    using s clock_two unfolding log_ready_def by blast
  obtain ws' dev' hist' es' where w: "lbd_log_write crc32 rq (ws, dev) = (ws', dev')" "log_ok crc32 hist' es' dev'"
    "all_entries hist' es' = ents @ [LogWrite t (log_seq dev) (log_block (rq_pos rq)) data]"
    "unlogged dev' = unlogged dev" "log_seq dev' = log_seq dev + 1" "clock dev' \<in> {t' # ts, ts}"
    using log_write_spec [OF l(1) plan c(1) data] unfolding l(2) by blast
  have "2 * k \<le> length (clock dev')"
    using w(6) c(2) by auto
  then show ?thesis
    using w(1-5) unfolding log_ready_def by blast
qed

lemma serve_log_discard:
  assumes s: "log_ready crc32 (Suc k) dev ents" and plan: "io_plan dev = []"
  shows "\<exists>ws' dev' t. lbd_log_discard rq (ws, dev) = (ws', dev') \<and> unlogged dev' = unlogged dev \<and>
    log_ready crc32 k dev' (ents @ [LogTrim t (log_seq dev) (log_block (rq_pos rq)) (rq_bytes rq)]) \<and> log_seq dev' = log_seq dev + 1"
proof -
  obtain hist es where l: "log_ok crc32 hist es dev" "all_entries hist es = ents"
    using s by (auto simp: log_ready_def)
  obtain t t' ts where c: "clock dev = t # t' # ts" "2 * k \<le> length ts"
    using s clock_two unfolding log_ready_def by blast
  obtain ws' dev' hist' es' where w: "lbd_log_discard rq (ws, dev) = (ws', dev')" "log_ok crc32 hist' es' dev'"
    "all_entries hist' es' = ents @ [LogTrim t (log_seq dev) (log_block (rq_pos rq)) (rq_bytes rq)]"
    "unlogged dev' = unlogged dev" "log_seq dev' = log_seq dev + 1" "clock dev' \<in> {t' # ts, ts}"
    using log_discard_spec [OF l(1) plan c(1)] unfolding l(2) by blast
  have "2 * k \<le> length (clock dev')"
    using w(6) c(2) by auto
  then show ?thesis
    using w(1-5) unfolding log_ready_def by blast
qed

lemma serve_read:
  assumes s: "serves crc32 crc (cost (csz (qcow2 dev)) (REQ_OP_READ, rq) + n) (Suc k) dev L ents"
    and ok: "cmd_ok (qcow2 dev) (REQ_OP_READ, rq)"
  shows "\<exists>dev'. lbd_handle_request crc32 crc fa (REQ_OP_READ, rq) (ws, dev) =
      Some (Inr (fst (store_step (csz (qcow2 dev)) (REQ_OP_READ, rq) L)), (ws, dev')) \<and>
    serves crc32 crc n k dev' L ents \<and> log_seq dev' = log_seq dev \<and> geo (qcow2 dev') = geo (qcow2 dev)"
proof -
  let ?cs = "csz (qcow2 dev)" and ?x = "512 * unat (rq_pos rq)"
  have i: "inside (qcow2 dev) (?x + length (concat (rq_segs rq)))" "\<And>seg. seg \<in> set (rq_segs rq) \<Longrightarrow> length seg < 2 ^ 32"
    using ok by (simp_all add: cmd_ok_def fits_inside)
  have d: "abs_img crc dev L" "ticks dev (12 * spans ?cs ?x (rq_segs rq) + 12 * n)" "quiet dev"
    "answers dev (4 * spans ?cs ?x (rq_segs rq) + 4 * n)" "io_plan dev = []" "is_qcow2 dev" "log_ready crc32 (Suc k) dev ents"
    "unat (alloc_offset (qcow2 dev)) + 2 * ?cs * (spans ?cs ?x (rq_segs rq) + n) \<le> 2 ^ 62"
    using s by (simp_all add: serves_def img_ready_def cost_def distrib_left)
  obtain r dev' where r: "lbd_qcow2_read crc rq dev = Some (r, dev')" "abs_img crc dev' L" "rframe dev' = rframe dev"
    "io_plan dev' = []" "r = Inr (scatter (disk_byte ?cs L) ?x (rq_segs rq))" "ticks dev' (12 * n)" "quiet dev'" "answers dev' (4 * n)"
    using read_spec [OF d(1) i d(2,3,4)] d(5) by auto
  have v: "log_view dev' = log_view dev" and q: "qshell (qcow2 dev') = qshell (qcow2 dev)"
    using rframe_log_view [OF r(3)] arg_cong [OF r(3), of qcow2] by (simp_all add: rframe_def rshell_def shell_def)
  note qf = qshell_fields [OF q]
  have "img_ready crc n dev' L"
    using r(2,4,6-8) d(8) by (simp add: img_ready_def qf distrib_left)
  moreover have "log_ready crc32 k dev' ents"
    using d(7) unfolding log_ready_view [OF v] by (auto simp: log_ready_def)
  ultimately have "serves crc32 crc n k dev' L ents"
    using d(6) v by (simp add: serves_def log_view_def)
  then show ?thesis
    using r(1,5) d(6) v qf by (simp add: lbd_handle_request_def lbd_do_read_def store_step_def log_view_def geo_def)
qed

text \<open>A write or discard of the image, followed by the log.\<close>

lemma serve_evolves:
  assumes d: "is_qcow2 dev" "evolves dev dev1" "img_ready crc n dev1 L" "log_ready crc32 (Suc k) dev ents"
  shows "io_plan dev1 = []" "log_ready crc32 (Suc k) dev1 ents" "is_qcow2 dev1" "log_seq dev1 = log_seq dev"
    "unlogged dev2 = unlogged dev1 \<Longrightarrow> log_ready crc32 k dev2 ents' \<Longrightarrow> log_view dev3 = log_view dev2 \<Longrightarrow>
       img_view dev3 = img_view dev2 \<Longrightarrow> serves crc32 crc n k dev3 L ents' \<and> geo (qcow2 dev3) = geo (qcow2 dev)"
proof -
  have v: "log_view dev1 = log_view dev"
    using d(2) by (intro frame_log_view) (simp add: evolves_def)
  show p: "io_plan dev1 = []" "log_ready crc32 (Suc k) dev1 ents" "is_qcow2 dev1" "log_seq dev1 = log_seq dev"
    using d(1,3,4) v unfolding log_ready_view [OF v] by (simp_all add: img_ready_def log_view_def)
  assume a: "unlogged dev2 = unlogged dev1" "log_ready crc32 k dev2 ents'" "log_view dev3 = log_view dev2" "img_view dev3 = img_view dev2"
  note iv = unlogged_img_view [OF a(1)]
  have "img_view dev3 = img_view dev1"
    using a(4) iv by simp
  then have "img_ready crc n dev3 L" "qcow2 dev3 = qcow2 dev1"
    using d(3) img_ready_view [of dev3 dev1] by (simp_all add: img_view_def)
  moreover have "log_ready crc32 k dev3 ents'" "is_qcow2 dev3"
    using a(2,3) p(3) unlogged_fields(9) [OF a(1)] log_ready_view [OF a(3)] by (simp_all add: log_view_def)
  ultimately show "serves crc32 crc n k dev3 L ents' \<and> geo (qcow2 dev3) = geo (qcow2 dev)"
    using d(2) by (simp add: serves_def evolves_def)
qed

lemma serve_write:
  assumes s: "serves crc32 crc (cost (csz (qcow2 dev)) (REQ_OP_WRITE, rq) + n) (Suc k) dev L ents"
    and ok: "cmd_ok (qcow2 dev) (REQ_OP_WRITE, rq)"
  shows "\<exists>ws' dev' t. lbd_handle_request crc32 crc fa (REQ_OP_WRITE, rq) (ws, dev) = Some (Inr [], (ws', dev')) \<and>
    serves crc32 crc n k dev' (snd (store_step (csz (qcow2 dev)) (REQ_OP_WRITE, rq) L))
      (ents @ [LogWrite t (log_seq dev) (log_block (rq_pos rq)) (concat (rq_segs rq))]) \<and>
    log_seq dev' = log_seq dev + 1 \<and> geo (qcow2 dev') = geo (qcow2 dev)"
proof -
  let ?cs = "csz (qcow2 dev)" and ?x = "512 * unat (rq_pos rq)" and ?data = "concat (rq_segs rq)"
  let ?m = "span ?cs ?x (length ?data)" and ?L = "write_layers ?cs ?x ?data L"
  have f: "fits (qcow2 dev) (?x + length ?data)" and len: "length ?data = unat (rq_bytes rq)" "0 < length ?data" "length ?data \<le> 131072"
    using ok by (auto simp: cmd_ok_def word_less_nat_alt word_le_nat_alt)
  have d: "abs_img crc dev L" "io_plan dev = []" "ticks dev (5 * ?m + 12 * n)" "quiet dev" "answers dev (4 * n)"
    "unat (alloc_offset (qcow2 dev)) + 2 * ?cs * ?m + 2 * ?cs * n \<le> 2 ^ 62" "is_qcow2 dev" "log_ready crc32 (Suc k) dev ents"
    using s by (auto simp: serves_def img_ready_def cost_def distrib_left ticks_def answers_def)
  obtain dev1 where w: "lbd_qcow2_write crc rq dev = Some (Inr (), dev1)" "abs_img crc dev1 ?L" "evolves dev dev1"
    "ticks dev1 (12 * n)" "unat (alloc_offset (qcow2 dev1)) \<le> unat (alloc_offset (qcow2 dev)) + 2 * ?cs * ?m"
    using write_spec [OF d(1,2) refl _ refl f refl d(3)] d(6) len(3) by auto
  note ef = evolves_fields [OF w(3)]
  have r: "img_ready crc n dev1 ?L"
    using w(2,4,5) d(2,4-6) ef by (simp add: img_ready_def quiet_def answers_def)
  note e = serve_evolves [OF d(7) w(3) r d(8)]
  obtain ws' dev2 t where l: "lbd_log_write crc32 rq (ws, dev1) = (ws', dev2)" "unlogged dev2 = unlogged dev1"
    "log_ready crc32 k dev2 (ents @ [LogWrite t (log_seq dev1) (log_block (rq_pos rq)) ?data])" "log_seq dev2 = log_seq dev1 + 1"
    using serve_log_write [OF e(2,1) refl len] by blast
  define dev3 where "dev3 = dev2\<lparr>stat_writes := stat_writes dev2 + 1, stat_write_bytes := stat_write_bytes dev2 + ucast (rq_bytes rq)\<rparr>"
  have run: "lbd_handle_request crc32 crc fa (REQ_OP_WRITE, rq) (ws, dev) = Some (Inr [], (ws', dev3))"
    using w(1) l(1) d(7) by (simp add: lbd_handle_request_def lbd_do_write_def count_write_def dev3_def)
  show ?thesis
    using e(5) [OF l(2,3), of dev3] run l(4) e(4) unfolding store_step_def by (auto simp: dev3_def stat_views)
qed

lemma serve_discard:
  assumes s: "serves crc32 crc (cost (csz (qcow2 dev)) (REQ_OP_DISCARD, rq) + n) (Suc k) dev L ents"
    and ok: "cmd_ok (qcow2 dev) (REQ_OP_DISCARD, rq)"
  shows "\<exists>ws' dev' t. lbd_handle_request crc32 crc fa (REQ_OP_DISCARD, rq) (ws, dev) = Some (Inr [], (ws', dev')) \<and>
    serves crc32 crc n k dev' (snd (store_step (csz (qcow2 dev)) (REQ_OP_DISCARD, rq) L))
      (ents @ [LogTrim t (log_seq dev) (log_block (rq_pos rq)) (rq_bytes rq)]) \<and>
    log_seq dev' = log_seq dev + 1 \<and> geo (qcow2 dev') = geo (qcow2 dev)"
proof -
  let ?cs = "csz (qcow2 dev)" and ?x = "512 * unat (rq_pos rq)" and ?len = "unat (rq_bytes rq)"
  let ?m = "span ?cs ?x ?len" and ?L = "discard_layers ?cs ?x ?len L"
  have f: "fits (qcow2 dev) (?x + ?len)"
    using ok by (simp add: cmd_ok_def)
  have d: "abs_img crc dev L" "io_plan dev = []" "ticks dev (4 * ?m + 12 * n)" "quiet dev" "answers dev (4 * n)"
    "unat (alloc_offset (qcow2 dev)) + 2 * ?cs * ?m + 2 * ?cs * n \<le> 2 ^ 62" "is_qcow2 dev" "log_ready crc32 (Suc k) dev ents"
    using s by (auto simp: serves_def img_ready_def cost_def distrib_left ticks_def answers_def)
  obtain dev1 where w: "lbd_qcow2_discard crc rq dev = Some (Inr (), dev1)" "abs_img crc dev1 ?L" "evolves dev dev1"
    "ticks dev1 (12 * n)" "unat (alloc_offset (qcow2 dev1)) \<le> unat (alloc_offset (qcow2 dev)) + 2 * ?cs * ?m"
    using discard_spec [OF d(1,2) refl refl f refl d(3)] d(6) by auto
  note ef = evolves_fields [OF w(3)]
  have r: "img_ready crc n dev1 ?L"
    using w(2,4,5) d(2,4-6) ef by (simp add: img_ready_def quiet_def answers_def)
  note e = serve_evolves [OF d(7) w(3) r d(8)]
  obtain ws' dev2 t where l: "lbd_log_discard rq (ws, dev1) = (ws', dev2)" "unlogged dev2 = unlogged dev1"
    "log_ready crc32 k dev2 (ents @ [LogTrim t (log_seq dev1) (log_block (rq_pos rq)) (rq_bytes rq)])" "log_seq dev2 = log_seq dev1 + 1"
    using serve_log_discard [OF e(2,1)] by blast
  define dev3 where "dev3 = dev2\<lparr>stat_trims := stat_trims dev2 + 1, stat_trim_bytes := stat_trim_bytes dev2 + ucast (rq_bytes rq)\<rparr>"
  have run: "lbd_handle_request crc32 crc fa (REQ_OP_DISCARD, rq) (ws, dev) = Some (Inr [], (ws', dev3))"
    using w(1) l(1) d(7) by (simp add: lbd_handle_request_def lbd_do_discard_def count_trim_def dev3_def)
  show ?thesis
    using e(5) [OF l(2,3), of dev3] run l(4) e(4) unfolding store_step_def by (auto simp: dev3_def stat_views)
qed

lemma serve_flush:
  assumes s: "serves crc32 crc n (Suc k) dev L ents"
  shows "\<exists>ws' dev'. lbd_handle_request crc32 crc fa (REQ_OP_FLUSH, rq) (ws, dev) = Some (Inr [], (ws', dev')) \<and>
    serves crc32 crc n k dev' L ents \<and> \<not> log_has_entries dev' \<and> log_seq dev' = log_seq dev \<and> geo (qcow2 dev') = geo (qcow2 dev)"
proof -
  have d: "io_plan dev = []" "is_qcow2 dev" "img_ready crc n dev L" "log_ready crc32 (Suc k) dev ents"
    using s by (simp_all add: serves_def img_ready_def)
  obtain hist es where l: "log_ok crc32 hist es dev" "all_entries hist es = ents"
    using d(4) by (auto simp: log_ready_def)
  obtain t t' ts where c: "clock dev = t # t' # ts" "2 * k \<le> length ts"
    using d(4) clock_two unfolding log_ready_def by blast
  have h: "log_has_entries dev = (es \<noteq> [])"
    using l(1) by (simp add: log_ok_def)
  show ?thesis
  proof (cases "es = []")
    case True
    then have "lbd_handle_request crc32 crc fa (REQ_OP_FLUSH, rq) (ws, dev) = Some (Inr [], (ws, dev))"
      using h d(1) by (simp add: lbd_handle_request_def lbd_do_flush_def vfs_fsync_def)
    then show ?thesis
      using d True h by (auto simp: serves_def log_ready_def)
  next
    case False
    obtain dev' where r: "lbd_rotate_segment (ws, dev) = (lbd_notify_watchers dev ws, dev')"
      "log_ok crc32 (hist @ [(log_segment_label dev, es)]) [] dev'" "unlogged dev' = unlogged dev" "log_seq dev' = log_seq dev" "clock dev' = t' # ts"
      using rotate_spec [OF l(1) d(1) False c(1)] by blast
    have "all_entries (hist @ [(log_segment_label dev, es)]) [] = ents"
      using l(2) by (simp add: all_entries_def)
    moreover have "2 * k \<le> length (clock dev')"
      using r(5) c(2) by simp
    ultimately have "log_ready crc32 k dev' ents"
      using r(2) unfolding log_ready_def by blast
    moreover have "\<not> log_has_entries dev'"
      using r(2) by (simp add: log_ok_def)
    ultimately have "serves crc32 crc n k dev' L ents \<and> \<not> log_has_entries dev'" "qcow2 dev' = qcow2 dev"
      using d(2,3) img_ready_view [OF unlogged_img_view [OF r(3)]] unlogged_fields [OF r(3)] by (simp_all add: serves_def)
    moreover have "lbd_handle_request crc32 crc fa (REQ_OP_FLUSH, rq) (ws, dev) = Some (Inr [], (lbd_notify_watchers dev ws, dev'))"
      using h d(1) False r(1) by (simp add: lbd_handle_request_def lbd_do_flush_def vfs_fsync_def)
    ultimately show ?thesis
      using r(4) by auto
  qed
qed

lemma serve_step:
  assumes "serves crc32 crc (cost (csz (qcow2 dev)) cmd + n) (Suc k) dev L ents" "cmd_ok (qcow2 dev) cmd"
  shows "\<exists>ws' dev' es. lbd_handle_request crc32 crc fa cmd (ws, dev) = Some (Inr (fst (store_step (csz (qcow2 dev)) cmd L)), (ws', dev')) \<and>
    serves crc32 crc n k dev' (snd (store_step (csz (qcow2 dev)) cmd L)) (ents @ es) \<and>
    map untimed es = cmd_entries (log_seq dev) cmd \<and> log_seq dev' = log_seq dev + of_nat (length es) \<and>
    geo (qcow2 dev') = geo (qcow2 dev)"
proof -
  obtain op rq where c: "cmd = (op, rq)"
    by (cases cmd)
  show ?thesis
  proof (cases op)
    case REQ_OP_READ
    obtain dev' where "lbd_handle_request crc32 crc fa cmd (ws, dev) = Some (Inr (fst (store_step (csz (qcow2 dev)) cmd L)), (ws, dev'))"
      "serves crc32 crc n k dev' L ents" "log_seq dev' = log_seq dev" "geo (qcow2 dev') = geo (qcow2 dev)"
      using serve_read [of crc32 crc dev rq n k L ents fa ws] assms unfolding c REQ_OP_READ by blast
    moreover have "snd (store_step (csz (qcow2 dev)) cmd L) = L" "cmd_entries (log_seq dev) cmd = []"
      by (simp_all add: c REQ_OP_READ store_step_def cmd_entries_def)
    ultimately show ?thesis
      by (intro exI [of _ ws] exI [of _ dev'] exI [of _ "[]"]) simp
  next
    case REQ_OP_WRITE
    obtain ws' dev' t where "lbd_handle_request crc32 crc fa cmd (ws, dev) = Some (Inr [], (ws', dev'))"
      "serves crc32 crc n k dev' (snd (store_step (csz (qcow2 dev)) cmd L))
         (ents @ [LogWrite t (log_seq dev) (log_block (rq_pos rq)) (concat (rq_segs rq))])"
      "log_seq dev' = log_seq dev + 1" "geo (qcow2 dev') = geo (qcow2 dev)"
      using serve_write [of crc32 crc dev rq n k L ents fa ws] assms unfolding c REQ_OP_WRITE by blast
    then show ?thesis
      by (intro exI [of _ ws'] exI [of _ dev'] exI [of _ "[LogWrite t (log_seq dev) (log_block (rq_pos rq)) (concat (rq_segs rq))]"])
        (simp add: c REQ_OP_WRITE store_step_def cmd_entries_def)
  next
    case REQ_OP_DISCARD
    obtain ws' dev' t where "lbd_handle_request crc32 crc fa cmd (ws, dev) = Some (Inr [], (ws', dev'))"
      "serves crc32 crc n k dev' (snd (store_step (csz (qcow2 dev)) cmd L))
         (ents @ [LogTrim t (log_seq dev) (log_block (rq_pos rq)) (rq_bytes rq)])"
      "log_seq dev' = log_seq dev + 1" "geo (qcow2 dev') = geo (qcow2 dev)"
      using serve_discard [of crc32 crc dev rq n k L ents fa ws] assms unfolding c REQ_OP_DISCARD by blast
    then show ?thesis
      by (intro exI [of _ ws'] exI [of _ dev'] exI [of _ "[LogTrim t (log_seq dev) (log_block (rq_pos rq)) (rq_bytes rq)]"])
        (simp add: c REQ_OP_DISCARD store_step_def cmd_entries_def)
  next
    case REQ_OP_FLUSH
    have "cost (csz (qcow2 dev)) cmd = 0"
      by (simp add: c REQ_OP_FLUSH cost_def)
    then obtain ws' dev' where "lbd_handle_request crc32 crc fa cmd (ws, dev) = Some (Inr [], (ws', dev'))"
      "serves crc32 crc n k dev' L ents" "log_seq dev' = log_seq dev" "geo (qcow2 dev') = geo (qcow2 dev)"
      using serve_flush [of crc32 crc n k dev L ents fa rq ws] assms(1) unfolding c REQ_OP_FLUSH by auto
    then show ?thesis
      by (intro exI [of _ ws'] exI [of _ dev'] exI [of _ "[]"]) (simp add: c REQ_OP_FLUSH store_step_def cmd_entries_def)
  next
    case REQ_OP_OTHER
    then show ?thesis
      using assms(2) by (simp add: c cmd_ok_def)
  qed
qed

text \<open>The state a new device starts serving in: its first segment is begun.\<close>

lemma begin_serves:
  assumes d: "is_qcow2 dev" "img_ready crc n dev L" "length (backing_path dev) \<le> 255" "clock dev = t # ts"
    and c: "distinct (t # ts)" "\<forall>u \<in> set (t # ts). u < CLOCK_MAX" "2 * k \<le> length ts"
  shows "serves crc32 crc n k (lbd_begin_segment dev) L []" "qcow2 (lbd_begin_segment dev) = qcow2 dev"
proof -
  let ?dev = "lbd_begin_segment dev"
  have b: "log_wf ?dev" "unlogged ?dev = unlogged dev" "clock ?dev = ts" "log_segment_label ?dev = lbd_tai64n_label t"
    "\<not> log_has_entries ?dev" "current ?dev = segment_bytes crc32 (lbd_tai64n_label t) (dev_size dev) (backing_path dev) []"
    using begin_segment_spec [OF _ d(3,4), of crc32] d(2) by (simp_all add: img_ready_def)
  note u = unlogged_fields [OF b(2)]
  have "inj_on lbd_tai64n_label (set (t # ts))"
    using c(2) label_inj unfolding inj_on_def by blast
  then have "distinct (map lbd_tai64n_label (t # ts))"
    using c(1) by (simp add: distinct_map del: list.simps)
  then have "log_ok crc32 [] [] ?dev"
    unfolding log_ok_def using b(1,3-6) by (auto simp: u image_iff dest: sym)
  then have "log_ready crc32 k ?dev []"
    unfolding log_ready_def using b(3) c(3) by (intro conjI exI [of _ "[]"]) (simp_all add: all_entries_def)
  then show "serves crc32 crc n k ?dev L []" "qcow2 ?dev = qcow2 dev"
    using d(1,2) img_ready_view [OF unlogged_img_view [OF b(2)]] u by (simp_all add: serves_def)
qed

section \<open>Runs of the worker\<close>

lemma geo_csz: "geo q' = geo q \<Longrightarrow> csz q' = csz q" "geo q' = geo q \<Longrightarrow> cmd_ok q' = cmd_ok q"
proof -
  assume g: "geo q' = geo q"
  then have "fits q' = fits q"
    by (simp add: fun_eq_iff geo_def fits_def)
  then show "cmd_ok q' = cmd_ok q"
    unfolding cmd_ok_def by (rule arg_cong)
qed (simp add: geo_def)

lemma work_spec:
  assumes "serves crc32 crc (sum_list (map (cost (csz (qcow2 dev))) cmds) + n) (length cmds + k) dev L ents"
    "list_all (cmd_ok (qcow2 dev)) cmds"
  shows "\<exists>ws' dev' es. lbd_work_fn crc32 crc fa cmds (ws, dev) = Some (map Inr (fst (store_run (csz (qcow2 dev)) cmds L)), (ws', dev')) \<and>
    serves crc32 crc n k dev' (snd (store_run (csz (qcow2 dev)) cmds L)) (ents @ es) \<and>
    map untimed es = run_entries (log_seq dev) cmds \<and> geo (qcow2 dev') = geo (qcow2 dev)"
  using assms
proof (induction cmds arbitrary: dev L ents ws)
  case Nil
  then show ?case
    by (intro exI [of _ ws] exI [of _ dev] exI [of _ "[]"]) simp
next
  case (Cons c cmds)
  let ?cs = "csz (qcow2 dev)"
  have s: "serves crc32 crc (cost ?cs c + (sum_list (map (cost ?cs) cmds) + n)) (Suc (length cmds + k)) dev L ents" "cmd_ok (qcow2 dev) c"
    using Cons.prems by (simp_all add: add.assoc)
  obtain ws1 dev1 es1 where h: "lbd_handle_request crc32 crc fa c (ws, dev) = Some (Inr (fst (store_step ?cs c L)), (ws1, dev1))"
    "serves crc32 crc (sum_list (map (cost ?cs) cmds) + n) (length cmds + k) dev1 (snd (store_step ?cs c L)) (ents @ es1)"
    "map untimed es1 = cmd_entries (log_seq dev) c" "log_seq dev1 = log_seq dev + of_nat (length es1)" "geo (qcow2 dev1) = geo (qcow2 dev)"
    using serve_step [OF s] by blast
  note g = geo_csz [OF h(5)]
  obtain ws2 dev2 es2 where t: "lbd_work_fn crc32 crc fa cmds (ws1, dev1) =
      Some (map Inr (fst (store_run ?cs cmds (snd (store_step ?cs c L)))), (ws2, dev2))"
    "serves crc32 crc n k dev2 (snd (store_run ?cs cmds (snd (store_step ?cs c L)))) ((ents @ es1) @ es2)"
    "map untimed es2 = run_entries (log_seq dev1) cmds" "geo (qcow2 dev2) = geo (qcow2 dev1)"
    using Cons.IH [of dev1 "snd (store_step ?cs c L)" "ents @ es1" ws1] h(2) Cons.prems(2) unfolding g by auto
  have "length es1 = length (cmd_entries (log_seq dev) c)"
    using h(3) by (metis length_map)
  then have "map untimed (es1 @ es2) = run_entries (log_seq dev) (c # cmds)"
    using h(3,4) t(3) by simp
  moreover have "lbd_work_fn crc32 crc fa (c # cmds) (ws, dev) = Some (map Inr (fst (store_run ?cs (c # cmds) L)), (ws2, dev2))"
    "snd (store_run ?cs (c # cmds) L) = snd (store_run ?cs cmds (snd (store_step ?cs c L)))"
    using h(1) t(1) by (simp_all add: case_prod_beta)
  ultimately show ?case
    using t(2,4) h(5) by (intro exI [of _ ws2] exI [of _ dev2] exI [of _ "es1 @ es2"]) simp
qed

text \<open>C1: The worker answers every command it has taken, in order and without error, for any mix of
  reads, writes, discards and flushes inside the disk. Each answer is the one of the abstract
  store, the image refines the resulting store, and the log has gained exactly one entry per write
  and discard, in order, with consecutive sequence numbers, spread over segment files and buffer
  without loss at the rotations in between.\<close>

theorem work_refines:
  assumes "serves crc32 crc (sum_list (map (cost (csz (qcow2 dev))) cmds)) (length cmds) dev L ents"
    and "list_all (cmd_ok (qcow2 dev)) cmds"
  shows "\<exists>ws' dev' es. lbd_work_fn crc32 crc fa cmds (ws, dev) = Some (map Inr (fst (store_run (csz (qcow2 dev)) cmds L)), (ws', dev')) \<and>
    serves crc32 crc 0 0 dev' (snd (store_run (csz (qcow2 dev)) cmds L)) (ents @ es) \<and>
    map untimed es = run_entries (log_seq dev) cmds"
  using work_spec [where n = 0 and k = 0, unfolded add_0_right, OF assms] by blast

lemma length_scatter: "map length (scatter D x segs) = map length segs"
  by (induction segs arbitrary: x) simp_all

text \<open>C6: A read after a write returns the written bytes inside the written range and what the disk
  showed before outside of it, whatever the two ranges and the segments of the requests are.\<close>

theorem read_after_write:
  assumes "serves crc32 crc (cost (csz (qcow2 dev)) (REQ_OP_WRITE, w) + cost (csz (qcow2 dev)) (REQ_OP_READ, r)) 2 dev L ents"
    and "cmd_ok (qcow2 dev) (REQ_OP_WRITE, w)" and "cmd_ok (qcow2 dev) (REQ_OP_READ, r)"
    and "x = 512 * unat (rq_pos w)" and "data = concat (rq_segs w)" and "y = 512 * unat (rq_pos r)"
  shows "\<exists>out s'. lbd_work_fn crc32 crc fa [(REQ_OP_WRITE, w), (REQ_OP_READ, r)] (ws, dev) = Some ([Inr [], Inr out], s') \<and>
    concat out = map (\<lambda>z. if x \<le> z \<and> z < x + length data then data ! (z - x) else disk_byte (csz (qcow2 dev)) L z)
      [y..<y + length (concat (rq_segs r))] \<and> map length out = map length (rq_segs r)"
proof -
  let ?cs = "csz (qcow2 dev)"
  have "abs_img crc dev L"
    using assms(1) by (simp add: serves_def img_ready_def)
  then have cs: "0 < ?cs"
    using csz_ge [OF qinvD(2)] by (fastforce simp: abs_img_def)
  have "\<exists>ws' dev' es. lbd_work_fn crc32 crc fa [(REQ_OP_WRITE, w), (REQ_OP_READ, r)] (ws, dev) =
      Some (map Inr (fst (store_run ?cs [(REQ_OP_WRITE, w), (REQ_OP_READ, r)] L)), (ws', dev'))"
    using work_spec [of crc32 crc dev "[(REQ_OP_WRITE, w), (REQ_OP_READ, r)]" 0 0 L ents fa ws] assms(1-3)
    by (auto simp: numeral_2_eq_2)
  moreover have "fst (store_run ?cs [(REQ_OP_WRITE, w), (REQ_OP_READ, r)] L) =
      [[], scatter (disk_byte ?cs (write_layers ?cs x data L)) y (rq_segs r)]"
    by (simp add: store_step_def assms(4-6))
  moreover have "disk_byte ?cs (write_layers ?cs x data L) =
      (\<lambda>z. if x \<le> z \<and> z < x + length data then data ! (z - x) else disk_byte ?cs L z)"
    by (rule ext) (rule disk_byte_write [OF cs])
  ultimately show ?thesis
    using concat_scatter [of "disk_byte ?cs (write_layers ?cs x data L)" y "rq_segs r"]
      length_scatter [of "disk_byte ?cs (write_layers ?cs x data L)" y "rq_segs r"] by auto
qed

section \<open>Replaying the log\<close>

fun replay :: "nat \<Rightarrow> log_entry \<Rightarrow> layers \<Rightarrow> layers" where
  "replay cs (LogWrite t s b d) L = write_layers cs (LBD_BLOCK_SIZE * unat b) d L"
| "replay cs (LogTrim t s b n) L = discard_layers cs (LBD_BLOCK_SIZE * unat b) (unat n) L"

lemma replay_untimed: "replay cs (untimed e) = replay cs e"
  by (cases e) (simp_all add: fun_eq_iff)

lemma fold_replay_untimed: "fold (replay cs) (map untimed es) L = fold (replay cs) es L"
  by (induction es arbitrary: L) (simp_all add: replay_untimed)

text \<open>A command on whole blocks: the block number of the log entry locates it.\<close>

definition aligned :: "lbd_cmd \<Rightarrow> bool" where
  "aligned = (\<lambda>(op, rq). unat (rq_pos rq) mod 8 = 0)"

lemma log_block_aligned:
  assumes "unat p mod 8 = 0" "512 * unat p \<le> 2 ^ 62"
  shows "LBD_BLOCK_SIZE * unat (log_block p) = 512 * unat p"
proof -
  have u: "unat (p * 512) = 512 * unat p"
    using assms(2) by (simp add: unat_mult_lem [THEN iffD1] mult.commute)
  have "\<not> bit (p * 512) 63"
  proof -
    have "\<not> bit (unat (p * 512)) 63"
      unfolding u using assms(2) by (simp add: bit_iff_odd)
    then show ?thesis
      by (simp add: bit_unsigned_iff)
  qed
  then show ?thesis
    using assms(1) u mult_div_mod_eq [of 8 "unat p"] by (simp add: log_block_def LBD_BLOCK_SIZE_def unat_div)
qed

lemma cmd_replay:
  assumes "cmd_ok q c" "aligned c"
  shows "fold (replay cs) (cmd_entries sq c) L = snd (store_step cs c L)"
proof -
  obtain op rq where c: "c = (op, rq)"
    by (cases c)
  have "op = REQ_OP_WRITE \<or> op = REQ_OP_DISCARD \<Longrightarrow> LBD_BLOCK_SIZE * unat (log_block (rq_pos rq)) = 512 * unat (rq_pos rq)"
    using assms by (intro log_block_aligned) (auto simp: c aligned_def cmd_ok_def fits_def)
  then show ?thesis
    by (cases op) (simp_all add: c cmd_entries_def store_step_def)
qed

lemma run_replay:
  "list_all (cmd_ok q) cmds \<Longrightarrow> list_all aligned cmds \<Longrightarrow> fold (replay cs) (run_entries sq cmds) L = snd (store_run cs cmds L)"
  by (induction cmds arbitrary: sq L) (simp_all add: cmd_replay [of q] case_prod_beta)

text \<open>C5: The log is a redo log. After any run of the worker on whole-block requests, replaying the new
  log entries on the store from before the run gives the store the image holds after it.\<close>

theorem log_replays_store:
  assumes "serves crc32 crc (sum_list (map (cost (csz (qcow2 dev))) cmds)) (length cmds) dev L ents"
    and "list_all (cmd_ok (qcow2 dev)) cmds" and "list_all aligned cmds"
  shows "\<exists>rs ws' dev' es. lbd_work_fn crc32 crc fa cmds (ws, dev) = Some (rs, (ws', dev')) \<and>
    (\<exists>hist cur. log_ok crc32 hist cur dev' \<and> all_entries hist cur = ents @ es) \<and>
    abs_img crc dev' (fold (replay (csz (qcow2 dev))) es L)"
proof -
  obtain ws' dev' es where w: "lbd_work_fn crc32 crc fa cmds (ws, dev) = Some (map Inr (fst (store_run (csz (qcow2 dev)) cmds L)), (ws', dev'))"
    "serves crc32 crc 0 0 dev' (snd (store_run (csz (qcow2 dev)) cmds L)) (ents @ es)" "map untimed es = run_entries (log_seq dev) cmds"
    using work_spec [where n = 0 and k = 0, unfolded add_0_right, OF assms(1,2)] by blast
  have "fold (replay (csz (qcow2 dev))) es L = snd (store_run (csz (qcow2 dev)) cmds L)"
    using run_replay [OF assms(2,3)] w(3) fold_replay_untimed by metis
  then show ?thesis
    using w(1,2) unfolding serves_def img_ready_def log_ready_def by metis
qed

end
