(* ===== verification/Lbd_Witness.thy ===== *)
theory Lbd_Witness
  imports Lbdctl_Create Lbd_Serve
begin

text \<open>
  The theorems on the image store at concrete inputs: a device attached to a freshly created
  image of two clusters of 4 KiB, requests on it, and a raw base file.
\<close>

definition demo_crc :: crc_fun where "demo_crc seed bs = seed"

definition demo_device :: lbd_device where
  "demo_device = \<lparr>index = 0, state = LBD_STATE_BOUND, open_count = 0, backing_file = empty_image 12 8192, backing_inode = 7,
     log_file = None, backing_path = str ''disk'', log_dir = str ''logs'', dev_size = 8192, log_has_entries = False,
     log_seq = 0, log_segment_label = [], log_max_size = 1000, log_max_age_secs = 0, log_buf = [], is_qcow2 = True,
     qcow2 = fresh (empty_qcow2 12 8192), base = None, base_path = [], miss_handler = None,
     stat_reads = 0, stat_writes = 0, stat_trims = 0, stat_read_bytes = 0, stat_write_bytes = 0, stat_trim_bytes = 0,
     stat_alloc_reused = 0, stat_alloc_new = 0, stat_alloc_freed = 0, stat_compressed = 0, stat_uncompressed = 0,
     stat_log_rotations = 0, log_fs = Map.empty, clock = [1, 2, 3, 4, 5, 6, 7, 8, 9], io_plan = [], miss_replies = [], crashed = False\<rparr>"

definition demo_request :: request where
  "demo_request = \<lparr>rq_pos = 8, rq_bytes = 4096, rq_segs = [replicate 4096 5]\<rparr>"

definition demo_base :: opened_file where
  "demo_base = \<lparr>f_contents = replicate 8192 5, f_inode = 8, f_regular = True\<rparr>"

lemma demo_fields:
  "io_plan demo_device = []" "base demo_device = None" "\<not> crashed demo_device" "miss_handler demo_device = None"
  "miss_replies demo_device = []" "backing_inode demo_device = 7"
  by (simp_all add: demo_device_def)

lemma demo_geometry:
  "csz (qcow2 demo_device) = 4096" "virtual_size (qcow2 demo_device) = 8192" "unat (lru_tick (qcow2 demo_device)) = 0"
  "unat (alloc_offset (qcow2 demo_device)) = 8192"
  by (simp_all add: demo_device_def fresh_def empty_qcow2_def Let_def image_alloc_offset_def image_l1_size_def LBD_QCOW2_HEADER_SIZE_def)

lemma demo_image:
  "abs_img demo_crc demo_device (Map.empty, Map.empty)" "synced demo_device" "fits (qcow2 demo_device) 8192"
proof -
  have "demo_device\<lparr>qcow2 := fresh (empty_qcow2 12 8192)\<rparr> = demo_device"
    by (simp add: demo_device_def)
  then show "abs_img demo_crc demo_device (Map.empty, Map.empty)" "synced demo_device" "fits (qcow2 demo_device) 8192"
    using empty_init(2) [where bits = 12 and vs = 8192 and dev = demo_device and crc = demo_crc]
      empty_init(3) [where bits = 12 and vs = 8192 and dev = demo_device]
      empty_init(4) [where bits = 12 and vs = 8192 and dev = demo_device] by (simp_all add: demo_device_def)
qed

lemma demo_ticks: "n < 2 ^ 63 \<Longrightarrow> ticks demo_device n"
  by (simp add: ticks_def demo_fields demo_geometry)

definition demo_data :: bytes where "demo_data = replicate 4096 5"

lemma demo_data [simp]: "length demo_data = 4096" "demo_data \<noteq> []"
  by (simp_all add: demo_data_def)

lemma demo_rq:
  "rq_segs demo_request = [demo_data]" "unat (rq_bytes demo_request) = 4096" "unat (rq_pos demo_request) = 8"
  "concat (rq_segs demo_request) = demo_data"
  by (simp_all add: demo_request_def demo_data_def)

lemma demo_span: "span 4096 4096 4096 = 1" "spans 4096 4096 [demo_data] = 1"
  by (simp_all add: span_def)

lemmas demo_simps = demo_fields demo_geometry demo_rq demo_span


theorem write_refines_witness:
  "\<exists>dev'. lbd_qcow2_write demo_crc demo_request demo_device = Some (Inr (), dev') \<and>
     abs_img demo_crc dev' (write_layers 4096 4096 demo_data (Map.empty, Map.empty)) \<and> synced dev'"
proof -
  have "demo_data = concat (rq_segs demo_request)" "length demo_data < 2 ^ 32" "4096 = 512 * unat (rq_pos demo_request)"
    "fits (qcow2 demo_device) (4096 + length demo_data)" "1 = span (csz (qcow2 demo_device)) 4096 (length demo_data)"
    "ticks demo_device (5 * 1)" "unat (alloc_offset (qcow2 demo_device)) + 2 * csz (qcow2 demo_device) * 1 \<le> 2 ^ 62"
    using demo_image(3) by (simp_all add: demo_simps demo_ticks)
  from write_refines [OF demo_image(1) demo_fields(1) this] show ?thesis
    unfolding demo_geometry(1) using demo_data(2) by blast
qed

theorem discard_refines_witness:
  "\<exists>dev'. lbd_qcow2_discard demo_crc demo_request demo_device = Some (Inr (), dev') \<and>
     abs_img demo_crc dev' (discard_layers 4096 4096 4096 (Map.empty, Map.empty))"
proof -
  have "4096 = 512 * unat (rq_pos demo_request)" "4096 = unat (rq_bytes demo_request)"
    "fits (qcow2 demo_device) (4096 + 4096)" "1 = span (csz (qcow2 demo_device)) 4096 4096"
    "ticks demo_device (4 * 1)" "unat (alloc_offset (qcow2 demo_device)) + 2 * csz (qcow2 demo_device) * 1 \<le> 2 ^ 62"
    using demo_image(3) by (simp_all add: demo_simps demo_ticks)
  from discard_refines [OF demo_image(1) demo_fields(1) this] show ?thesis
    unfolding demo_geometry(1) by blast
qed

theorem reopen_keeps_store_witness:
  "\<exists>dev'. lbd_qcow2_init demo_device = (Inr (), dev') \<and> abs_img demo_crc dev' (Map.empty, Map.empty) \<and>
     geo (qcow2 dev') = geo (qcow2 demo_device)"
proof -
  have "backing_file demo_device = backing_file (lbd_qcow2_destroy demo_crc demo_device) \<or>
      synced demo_device \<and> backing_file demo_device = backing_file demo_device"
    using demo_image(2) by blast
  from reopen_keeps_store [OF demo_image(1) demo_fields(1) this demo_fields(1-3)] show ?thesis
    unfolding fst_conv by blast
qed

lemma demo_base_holds: "base_holds demo_crc (qcow2 demo_device) (f_contents demo_base) (raw_layer 4096 (replicate 8192 5))"
proof -
  have "of_be64 (read_at (replicate 8192 5) 0 8) \<noteq> LBD_QCOW2_MAGIC"
    by code_simp
  then show ?thesis
    by (simp add: base_holds_def demo_geometry demo_base_def)
qed

theorem swap_base_refines_witness:
  "\<exists>dev'. lbd_qcow2_swap_base demo_crc (\<lambda>_. Inr demo_base) (str ''base'') demo_device = (Inr (), dev') \<and>
     abs_img demo_crc dev' (Map.empty, raw_layer 4096 (replicate 8192 5)) \<and> synced dev'"
proof -
  have "f_regular demo_base" "f_inode demo_base \<noteq> backing_inode demo_device"
    by (simp_all add: demo_base_def demo_fields)
  then show ?thesis
    using swap_base_refines [OF demo_image(1) demo_fields(1) demo_image(2), of "\<lambda>_. Inr demo_base" "str ''base''" EIO demo_base]
      demo_base_holds by blast
qed

text \<open>The same device with its first log segment, and three commands.\<close>

definition demo_server :: lbd_device where "demo_server = lbd_begin_segment demo_device"

definition demo_cmds :: "lbd_cmd list" where
  "demo_cmds = [(REQ_OP_WRITE, demo_request), (REQ_OP_FLUSH, demo_request), (REQ_OP_DISCARD, demo_request), (REQ_OP_READ, demo_request)]"

lemma demo_server: "serves demo_crc demo_crc 3 4 demo_server (Map.empty, Map.empty) []" "qcow2 demo_server = qcow2 demo_device"
proof -
  have r: "img_ready demo_crc 3 demo_device (Map.empty, Map.empty)"
    using demo_image(1) by (simp add: img_ready_def demo_simps demo_ticks quiet_def answers_def)
  have d: "is_qcow2 demo_device" "length (backing_path demo_device) \<le> 255" "clock demo_device = 1 # [2, 3, 4, 5, 6, 7, 8, 9]"
    by (simp_all add: demo_device_def str_def)
  have "serves demo_crc demo_crc 3 4 (lbd_begin_segment demo_device) (Map.empty, Map.empty) [] \<and>
      qcow2 (lbd_begin_segment demo_device) = qcow2 demo_device"
    using begin_serves(1) [OF d(1) r d(2,3), of 4 demo_crc] begin_serves(2) [OF d(1) r d(2,3), of 4] by (simp add: CLOCK_MAX_def)
  then show "serves demo_crc demo_crc 3 4 demo_server (Map.empty, Map.empty) []" "qcow2 demo_server = qcow2 demo_device"
    by (simp_all add: demo_server_def)
qed

lemma demo_cmds:
  "sum_list (map (cost 4096) demo_cmds) = 3" "length demo_cmds = 4" "list_all (cmd_ok (qcow2 demo_server)) demo_cmds"
  "list_all aligned demo_cmds"
proof -
  have "cost 4096 (REQ_OP_WRITE, demo_request) = 1" "cost 4096 (REQ_OP_FLUSH, demo_request) = 0"
    "cost 4096 (REQ_OP_DISCARD, demo_request) = 1" "cost 4096 (REQ_OP_READ, demo_request) = 1"
    unfolding cost_def by (simp_all only: prod.case req_op.case demo_rq demo_data) (simp_all add: span_def)
  then show "sum_list (map (cost 4096) demo_cmds) = 3" "length demo_cmds = 4"
    by (simp_all add: demo_cmds_def)
  have "0 < rq_bytes demo_request" "rq_bytes demo_request \<le> 131072"
    by (simp_all add: demo_request_def)
  then show "list_all (cmd_ok (qcow2 demo_server)) demo_cmds" "list_all aligned demo_cmds"
    using demo_image(3) by (simp_all add: demo_cmds_def cmd_ok_def aligned_def demo_server demo_rq)
qed

lemma demo_serves:
  "serves demo_crc demo_crc (sum_list (map (cost (csz (qcow2 demo_server))) demo_cmds)) (length demo_cmds) demo_server (Map.empty, Map.empty) []"
  using demo_server(1) unfolding demo_server(2) demo_geometry(1) demo_cmds(1,2) .

theorem work_refines_witness:
  "\<exists>ws' dev' es. lbd_work_fn demo_crc demo_crc True demo_cmds ([], demo_server) =
       Some (map Inr (fst (store_run 4096 demo_cmds (Map.empty, Map.empty))), (ws', dev')) \<and>
     map untimed es = run_entries (log_seq demo_server) demo_cmds"
  using work_refines [OF demo_serves demo_cmds(3), of True "[]"] unfolding demo_server(2) demo_geometry(1) by blast

theorem log_replays_store_witness:
  "\<exists>rs ws' dev' es. lbd_work_fn demo_crc demo_crc True demo_cmds ([], demo_server) = Some (rs, (ws', dev')) \<and>
     abs_img demo_crc dev' (fold (replay 4096) es (Map.empty, Map.empty))"
  using log_replays_store [OF demo_serves demo_cmds(3,4), of True "[]"] unfolding demo_server(2) demo_geometry(1) by blast

theorem read_after_write_witness:
  "\<exists>out s'. lbd_work_fn demo_crc demo_crc True [(REQ_OP_WRITE, demo_request), (REQ_OP_READ, demo_request)] ([], demo_server) =
       Some ([Inr [], Inr out], s') \<and> concat out = demo_data"
proof -
  have c: "cmd_ok (qcow2 demo_server) (REQ_OP_WRITE, demo_request)" "cmd_ok (qcow2 demo_server) (REQ_OP_READ, demo_request)"
    using demo_cmds(3) by (simp_all add: demo_cmds_def)
  have k: "cost (csz (qcow2 demo_server)) (REQ_OP_WRITE, demo_request) + cost (csz (qcow2 demo_server)) (REQ_OP_READ, demo_request) = 2"
    unfolding cost_def demo_server(2) by (simp_all only: prod.case req_op.case demo_rq demo_data demo_geometry) (simp_all add: span_def)
  have s: "serves demo_crc demo_crc (cost (csz (qcow2 demo_server)) (REQ_OP_WRITE, demo_request) +
      cost (csz (qcow2 demo_server)) (REQ_OP_READ, demo_request)) 2 demo_server (Map.empty, Map.empty) []"
    unfolding k using demo_server(1) by (auto simp: serves_def img_ready_def log_ready_def ticks_def answers_def)
  have x: "4096 = 512 * unat (rq_pos demo_request)" "demo_data = concat (rq_segs demo_request)"
    by (simp_all add: demo_rq)
  have m: "map (\<lambda>z. if 4096 \<le> z \<and> z < 4096 + length demo_data then demo_data ! (z - 4096) else f z) [4096..<4096 + length demo_data] = demo_data" for f
    by (rule nth_equalityI) (simp_all del: upt.simps upt_conv_Cons upt_rec_numeral demo_data)
  show ?thesis
    using read_after_write [OF s c x x(1), of True "[]"] unfolding x(2) [symmetric] m by blast
qed


end
