(* ===== verification/Lbdctl_Image.thy ===== *)
theory Lbdctl_Image
  imports Lbdctl_Create
begin

text \<open>
  The image commands of the control tool that read and write whole images
  (\<^verbatim>\<open>src/src/lbdctl.c\<close>: \<open>cmd_convert\<close>, \<open>cmd_extract\<close>, \<open>cmd_compact\<close>), with the
  passages they share as definitions of their own.

  A step of a command gives a value or ends the command: with an exit status, or with \<open>None\<close>
  where the code would access memory outside a buffer or execute an undefined operation. Memory
  from \<open>malloc\<close> is shown as zeros. Freeing and closing have no counterpart.
\<close>

type_synonym 'a step = "nat option + 'a"

text \<open>\<open>n\<close> allocations, all of them attempted before the results are checked.\<close>

fun allocs :: "nat \<Rightarrow> cli \<Rightarrow> bool \<times> cli" where
  "allocs 0 w = (True, w)"
| "allocs (Suc n) w = (case sys_ok w of (ok, w) \<Rightarrow> (case allocs n w of (ok', w) \<Rightarrow> (ok \<and> ok', w)))"

text \<open>\<open>n\<close> allocations, each checked before the next one.\<close>

fun allocs_checked :: "nat \<Rightarrow> cli \<Rightarrow> bool \<times> cli" where
  "allocs_checked 0 w = (True, w)"
| "allocs_checked (Suc n) w = (case sys_ok w of (False, w) \<Rightarrow> (False, w) | (True, w) \<Rightarrow> allocs_checked n w)"

definition pread_exact :: "string \<Rightarrow> nat \<Rightarrow> u64 \<Rightarrow> cli \<Rightarrow> bytes step \<times> cli" where
  "pread_exact path n pos w =
     (case pread path n pos w of
        (Inl _, w) \<Rightarrow> (Inl (Some 1), w)
      | (Inr bs, w) \<Rightarrow> (if length bs \<noteq> n then Inl (Some 1) else Inr bs, w))"

section \<open>Big-endian tables\<close>

text \<open>The byte-swapped values are written to and read from memory only; they are shown as their bytes.\<close>

definition htobe64_val :: "u64 \<Rightarrow> bytes" where
  "htobe64_val x = qcow2_put64 (replicate 8 0) 0 x"

definition be64toh_val :: "bytes \<Rightarrow> u64" where
  "be64toh_val buf = qcow2_get64 buf 0"

definition htobe32_val :: "u32 \<Rightarrow> bytes" where
  "htobe32_val x = qcow2_put32 (replicate 4 0) 0 x"

definition be32toh_val :: "bytes \<Rightarrow> u32" where
  "be32toh_val buf = qcow2_get32 buf 0"

definition table_decode :: "nat \<Rightarrow> bytes \<Rightarrow> u64 list" where
  "table_decode n raw = map (\<lambda>j. be64toh_val (read_at raw (8 * j) 8)) [0..<n]"

definition table_encode :: "u64 list \<Rightarrow> bytes" where
  "table_encode tab = concat (map htobe64_val tab)"

section \<open>Reading an image\<close>

definition load_header :: "string \<Rightarrow> cli \<Rightarrow> bytes step \<times> cli" where
  "load_header path w =
     (case pread_exact path LBD_QCOW2_HEADER_SIZE 0 w of
        (Inl e, w) \<Rightarrow> (Inl e, w)
      | (Inr hdr, w) \<Rightarrow> (if lbd_qcow2_hdr_magic hdr \<noteq> LBD_QCOW2_MAGIC then Inl (Some 1) else Inr hdr, w))"

definition load_l1 :: "string \<Rightarrow> u32 \<Rightarrow> u64 \<Rightarrow> cli \<Rightarrow> u64 list step \<times> cli" where
  "load_l1 path l1n l1_off w =
     (case sys_ok w of
        (False, w) \<Rightarrow> (Inl (Some 1), w)
      | (True, w) \<Rightarrow>
          (case pread_exact path (unat l1n * 8) l1_off w of
             (Inl e, w) \<Rightarrow> (Inl e, w)
           | (Inr disk_l1, w) \<Rightarrow> (Inr (table_decode (unat l1n) disk_l1), w)))"

text \<open>One L2 table; the tables that are not allocated are zero.\<close>

definition load_table :: "string \<Rightarrow> u32 \<Rightarrow> u32 \<Rightarrow> u64 \<Rightarrow> cli \<Rightarrow> u64 list step \<times> cli" where
  "load_table path cs l2n entry w =
     (case sys_ok w of
        (False, w) \<Rightarrow> (Inl (Some 1), w)
      | (True, w) \<Rightarrow>
          if entry = 0 then (Inr (replicate (unat l2n) 0), w)
          else
            (case sys_ok w of
               (False, w) \<Rightarrow> (Inl (Some 1), w)
             | (True, w) \<Rightarrow>
                 (case pread_exact path (unat cs) entry w of
                    (Inl e, w) \<Rightarrow> (Inl e, w)
                  | (Inr disk_l2, w) \<Rightarrow>
                      if unat cs < 4 \<or> unat cs < 8 * unat l2n then (Inl None, w)
                      else if qcow2_get32 disk_l2 (unat cs - 4) \<noteq> crc32c_calc (take (unat cs - 4) disk_l2)
                      then (Inl (Some 1), w)
                      else (Inr (table_decode (unat l2n) disk_l2), w))))"

fun load_tables :: "string \<Rightarrow> u32 \<Rightarrow> u32 \<Rightarrow> u64 list \<Rightarrow> cli \<Rightarrow> u64 list list step \<times> cli" where
  "load_tables path cs l2n [] w = (Inr [], w)"
| "load_tables path cs l2n (entry # l1) w =
     (case load_table path cs l2n entry w of
        (Inl e, w) \<Rightarrow> (Inl e, w)
      | (Inr tab, w) \<Rightarrow>
          (case load_tables path cs l2n l1 w of
             (Inl e, w) \<Rightarrow> (Inl e, w)
           | (Inr tabs, w) \<Rightarrow> (Inr (tab # tabs), w)))"

text \<open>
  The cluster an entry points at, read into the buffer \<open>buf\<close>. The size of the compressed data
  comes from the file and is not compared with the size of the buffer it is read into.
\<close>

definition load_cluster :: "string \<Rightarrow> u32 \<Rightarrow> u64 \<Rightarrow> bytes \<Rightarrow> cli \<Rightarrow> bytes step \<times> cli" where
  "load_cluster path cs entry buf w =
     (let phys_offset = entry AND LBD_QCOW2_L2_OFFSET_MASK in
      if entry AND LBD_QCOW2_L2_COMPRESSED \<noteq> 0 then
        (case pread_exact path 4 phys_offset w of
           (Inl e, w) \<Rightarrow> (Inl e, w)
         | (Inr comp_size_be, w) \<Rightarrow>
             let comp_size = unat (be32toh_val comp_size_be) in
             (case pread path comp_size (phys_offset + 4) w of
                (Inl _, w) \<Rightarrow> (Inl (Some 1), w)
              | (Inr comp_buf, w) \<Rightarrow>
                  if length comp_buf > LZ4_compressBound (unat cs) then (Inl None, w)
                  else if length comp_buf \<noteq> comp_size then (Inl (Some 1), w)
                  else
                    (case LZ4_decompress_safe comp_buf buf of
                       None \<Rightarrow> (Inl None, w)
                     | Some (dec_len, buf) \<Rightarrow> (if dec_len \<noteq> int (unat cs) then Inl (Some 1) else Inr buf, w))))
      else pread_exact path (unat cs) phys_offset w)"

section \<open>Extracting\<close>

text \<open>
  One cluster: unallocated ones are left as they are in the output, which \<open>ftruncate\<close> filled with
  zeros. A cluster size of 8 leaves no room for table entries; dividing by their number traps.
\<close>

definition extract_cluster ::
  "string \<Rightarrow> string \<Rightarrow> u32 \<Rightarrow> u32 \<Rightarrow> u64 \<Rightarrow> u64 list \<Rightarrow> u64 list list \<Rightarrow> u64 \<Rightarrow> bytes \<Rightarrow> cli \<Rightarrow> bytes step \<times> cli" where
  "extract_cluster in_path out_path cs l2n vsize l1 l2s ci buf w =
     (if l2n = 0 then (Inl None, w)
      else
        let l1_idx = ucast (ci div ucast l2n) :: u32;
            l2_idx = ucast (ci mod ucast l2n) :: u32
        in if unat l1_idx \<ge> length l1 \<or> l1 ! unat l1_idx = 0 then (Inr buf, w)
           else
             let l2_entry = l2s ! unat l1_idx ! unat l2_idx in
             if l2_entry = 0 then (Inr buf, w)
             else
               let write_len = (if (ci + 1) * ucast cs > vsize then vsize - ci * ucast cs else ucast cs) in
               (case load_cluster in_path cs l2_entry buf w of
                  (Inl e, w) \<Rightarrow> (Inl e, w)
                | (Inr buf, w) \<Rightarrow>
                    (case pwrite out_path (take (unat write_len) buf) (ci * ucast cs) w of
                       (False, w) \<Rightarrow> (Inl (Some 1), w)
                     | (True, w) \<Rightarrow> (Inr buf, w))))"

fun extract_loop ::
  "string \<Rightarrow> string \<Rightarrow> u32 \<Rightarrow> u32 \<Rightarrow> u64 \<Rightarrow> u64 list \<Rightarrow> u64 list list \<Rightarrow> nat list \<Rightarrow> bytes \<Rightarrow> cli \<Rightarrow> nat option \<times> cli" where
  "extract_loop in_path out_path cs l2n vsize l1 l2s [] buf w = (Some 0, w)"
| "extract_loop in_path out_path cs l2n vsize l1 l2s (ci # cis) buf w =
     (case extract_cluster in_path out_path cs l2n vsize l1 l2s (of_nat ci) buf w of
        (Inl e, w) \<Rightarrow> (e, w)
      | (Inr buf, w) \<Rightarrow> extract_loop in_path out_path cs l2n vsize l1 l2s cis buf w)"

definition total_clusters :: "u64 \<Rightarrow> u32 \<Rightarrow> u64" where
  "total_clusters vsize cs = (vsize + ucast cs - 1) div ucast cs"

definition cmd_extract :: "string \<Rightarrow> string \<Rightarrow> cli \<Rightarrow> nat option \<times> cli" where
  "cmd_extract in_path out_path w =
     (case open_rdonly in_path w of
        (False, w) \<Rightarrow> (Some 1, w)
      | (True, w) \<Rightarrow>
          (case load_header in_path w of
             (Inl e, w) \<Rightarrow> (e, w)
           | (Inr hdr, w) \<Rightarrow>
               let bits = lbd_qcow2_hdr_cluster_bits hdr;
                   cs = push_bit (unat bits) 1 :: u32;
                   l2n = (cs - of_nat LBD_QCOW2_L2_TRAILER_SIZE) div 8;
                   vsize = lbd_qcow2_hdr_virtual_size hdr;
                   l1n = lbd_qcow2_hdr_l1_size hdr
               in if bits \<ge> 32 then (None, w)
                  else
                    (case allocs 3 w of
                       (False, w) \<Rightarrow> (Some 1, w)
                     | (True, w) \<Rightarrow>
                         (case load_l1 in_path l1n (lbd_qcow2_hdr_l1_table_offset hdr) w of
                            (Inl e, w) \<Rightarrow> (e, w)
                          | (Inr l1, w) \<Rightarrow>
                              (case open_trunc out_path w of
                                 (False, w) \<Rightarrow> (Some 1, w)
                               | (True, w) \<Rightarrow>
                                   (case ftruncate out_path vsize w of
                                      (False, w) \<Rightarrow> (Some 1, w)
                                    | (True, w) \<Rightarrow>
                                        (case sys_ok w of
                                           (False, w) \<Rightarrow> (Some 1, w)
                                         | (True, w) \<Rightarrow>
                                             (case load_tables in_path cs l2n l1 w of
                                                (Inl e, w) \<Rightarrow> (e, w)
                                              | (Inr l2s, w) \<Rightarrow>
                                                  extract_loop in_path out_path cs l2n vsize l1 l2s
                                                    [0..<unat (total_clusters vsize cs)] (replicate (unat cs) 0) w))))))))"

end
