(* ===== verification/Lbdctl_Pack.thy ===== *)
theory Lbdctl_Pack
  imports Lbdctl_Image
begin

text \<open>
  Writing images front to back (\<^verbatim>\<open>src/src/lbdctl.c\<close>): the passages that \<open>cmd_convert\<close> and
  \<open>cmd_compact\<close> share, and the two commands.
\<close>

section \<open>Shared passages\<close>

text \<open>The tables under construction and the allocation cursor.\<close>

record packer =
  p_l1 :: "u64 list"
  p_l2 :: "u64 list list"
  p_alloc :: u64

text \<open>The space a compressed cluster of \<open>n\<close> bytes takes.\<close>

definition packed_size :: "nat \<Rightarrow> u32" where
  "packed_size n = ucast ((4 + of_nat n + 4095) AND 0xFFFFF000 :: u64)"

text \<open>
  A cluster with data: its L2 table gets a place when it has none, then the compressed or plain
  cluster is written at the cursor.
\<close>

definition pack_cluster :: "string \<Rightarrow> u32 \<Rightarrow> nat \<Rightarrow> nat \<Rightarrow> bytes \<Rightarrow> packer \<Rightarrow> cli \<Rightarrow> packer step \<times> cli" where
  "pack_cluster path cs l1_idx l2_idx data P w =
     (let P = (if p_l1 P ! l1_idx = 0
               then P\<lparr>p_l1 := (p_l1 P)[l1_idx := p_alloc P], p_alloc := p_alloc P + ucast cs\<rparr> else P);
          comp_buf = LZ4_compress_default data;
          comp_len = length comp_buf;
          phys = p_alloc P
      in if comp_len > 0 \<and> of_nat comp_len < ucast cs - (4 :: u64) then
           (case pwrite path (htobe32_val (of_nat comp_len)) phys w of
              (False, w) \<Rightarrow> (Inl (Some 1), w)
            | (True, w) \<Rightarrow>
                (case pwrite path comp_buf (phys + 4) w of
                   (False, w) \<Rightarrow> (Inl (Some 1), w)
                 | (True, w) \<Rightarrow>
                     (Inr (P\<lparr>p_l2 := (p_l2 P)[l1_idx := (p_l2 P ! l1_idx)[l2_idx := LBD_QCOW2_L2_COMPRESSED OR phys]],
                            p_alloc := phys + ucast (packed_size comp_len)\<rparr>), w)))
         else
           (case pwrite path data phys w of
              (False, w) \<Rightarrow> (Inl (Some 1), w)
            | (True, w) \<Rightarrow>
                (Inr (P\<lparr>p_l2 := (p_l2 P)[l1_idx := (p_l2 P ! l1_idx)[l2_idx := phys]], p_alloc := phys + ucast cs\<rparr>), w)))"

definition table_block :: "nat \<Rightarrow> nat \<Rightarrow> u64 list \<Rightarrow> bytes" where
  "table_block cs l2n tab =
     (let raw = table_encode (take l2n tab) @ replicate (cs - 8 * length (take l2n tab)) 0
      in qcow2_put32 raw (cs - 4) (crc32c_calc (take (cs - 4) raw)))"

fun pack_tables :: "string \<Rightarrow> u32 \<Rightarrow> u32 \<Rightarrow> (u64 \<times> u64 list) list \<Rightarrow> cli \<Rightarrow> unit step \<times> cli" where
  "pack_tables path cs l2n [] w = (Inr (), w)"
| "pack_tables path cs l2n ((entry, tab) # tabs) w =
     (if entry = 0 then pack_tables path cs l2n tabs w
      else
        (case sys_ok w of
           (False, w) \<Rightarrow> (Inl (Some 1), w)
         | (True, w) \<Rightarrow>
             (case pwrite path (table_block (unat cs) (unat l2n) tab) entry w of
                (False, w) \<Rightarrow> (Inl (Some 1), w)
              | (True, w) \<Rightarrow> pack_tables path cs l2n tabs w)))"

text \<open>The header and the L1 table of a packed image.\<close>

definition packed_header :: "u32 \<Rightarrow> u64 \<Rightarrow> u64 \<Rightarrow> u32 \<Rightarrow> u64 \<Rightarrow> bytes" where
  "packed_header bits vsize l1_off l1n alloc =
     (let hdr = replicate LBD_QCOW2_HEADER_SIZE 0;
          hdr = lbd_qcow2_hdr_set_magic hdr LBD_QCOW2_MAGIC;
          hdr = lbd_qcow2_hdr_set_version hdr LBD_QCOW2_VERSION;
          hdr = lbd_qcow2_hdr_set_cluster_bits hdr bits;
          hdr = lbd_qcow2_hdr_set_virtual_size hdr vsize;
          hdr = lbd_qcow2_hdr_set_l1_table_offset hdr l1_off;
          hdr = lbd_qcow2_hdr_set_l1_size hdr l1n;
          hdr = lbd_qcow2_hdr_set_alloc_offset hdr alloc;
          hdr = lbd_qcow2_hdr_set_comp_type hdr LBD_QCOW2_COMP_LZ4
      in lbd_qcow2_hdr_set_free_list hdr 0)"

text \<open>
  The end of both commands: L2 tables, header, L1 table, and the file cut to its length, whose
  failure is reported but does not fail the command.
\<close>

definition pack_finish :: "string \<Rightarrow> u32 \<Rightarrow> u32 \<Rightarrow> u32 \<Rightarrow> u64 \<Rightarrow> u64 \<Rightarrow> u32 \<Rightarrow> packer \<Rightarrow> cli \<Rightarrow> unit step \<times> cli" where
  "pack_finish path bits cs l2n vsize l1_off l1n P w =
     (case pack_tables path cs l2n (zip (p_l1 P) (p_l2 P)) w of
        (Inl e, w) \<Rightarrow> (Inl e, w)
      | (Inr _, w) \<Rightarrow>
          (case pwrite path (packed_header bits vsize l1_off l1n (p_alloc P)) 0 w of
             (False, w) \<Rightarrow> (Inl (Some 1), w)
           | (True, w) \<Rightarrow>
               (case sys_ok w of
                  (False, w) \<Rightarrow> (Inl (Some 1), w)
                | (True, w) \<Rightarrow>
                    (case pwrite path (table_encode (p_l1 P)) l1_off w of
                       (False, w) \<Rightarrow> (Inl (Some 1), w)
                     | (True, w) \<Rightarrow> (Inr (), snd (ftruncate path (p_alloc P) w))))))"

definition packed_alloc :: "u64 \<Rightarrow> u32 \<Rightarrow> u32 \<Rightarrow> u64" where
  "packed_alloc l1_off l1n cs =
     (l1_off + ucast l1n * 8 + ucast cs - 1) AND NOT (ucast cs - 1)"

section \<open>Converting\<close>

text \<open>
  One cluster of the flat file. A read that returns fewer bytes than asked for is accepted; the
  missing bytes are zeros.
\<close>

definition convert_cluster ::
  "string \<Rightarrow> string \<Rightarrow> u32 \<Rightarrow> u32 \<Rightarrow> u64 \<Rightarrow> u64 \<Rightarrow> packer \<Rightarrow> cli \<Rightarrow> packer step \<times> cli" where
  "convert_cluster flat_path path cs l2n vsize ci P w =
     (let l1_idx = unat (ucast (ci div ucast l2n) :: u32);
          l2_idx = unat (ucast (ci mod ucast l2n) :: u32);
          to_read = (if (ci + 1) * ucast cs > vsize then vsize - ci * ucast cs else ucast cs)
      in case pread flat_path (unat to_read) (ci * ucast cs) w of
           (Inl _, w) \<Rightarrow> (Inl (Some 1), w)
         | (Inr bs, w) \<Rightarrow>
             let cluster_buf = blit (replicate (unat cs) 0) 0 bs in
             if is_all_zero cluster_buf then (Inr P, w)
             else if l1_idx \<ge> length (p_l1 P) then (Inl None, w)
             else pack_cluster path cs l1_idx l2_idx cluster_buf P w)"

fun convert_loop ::
  "string \<Rightarrow> string \<Rightarrow> u32 \<Rightarrow> u32 \<Rightarrow> u64 \<Rightarrow> nat list \<Rightarrow> packer \<Rightarrow> cli \<Rightarrow> packer step \<times> cli" where
  "convert_loop flat_path path cs l2n vsize [] P w = (Inr P, w)"
| "convert_loop flat_path path cs l2n vsize (ci # cis) P w =
     (case convert_cluster flat_path path cs l2n vsize (of_nat ci) P w of
        (Inl e, w) \<Rightarrow> (Inl e, w)
      | (Inr P, w) \<Rightarrow> convert_loop flat_path path cs l2n vsize cis P w)"

definition cmd_convert :: "string \<Rightarrow> string \<Rightarrow> cli \<Rightarrow> nat option \<times> cli" where
  "cmd_convert flat_path path w =
     (case open_rdonly flat_path w of
        (False, w) \<Rightarrow> (Some 1, w)
      | (True, w) \<Rightarrow>
          (case sys_ok w of
             (False, w) \<Rightarrow> (Some 1, w)
           | (True, w) \<Rightarrow>
               let bits = 16 :: u32;
                   cs = push_bit (unat bits) 1 :: u32;
                   l2n = (cs - of_nat LBD_QCOW2_L2_TRAILER_SIZE) div 8;
                   vsize = of_nat (length (contents w flat_path)) :: u64;
                   l1n = image_l1_size vsize l2n cs;
                   l1_off = of_nat LBD_QCOW2_HEADER_SIZE;
                   alloc = packed_alloc l1_off l1n cs
               in if vsize = 0 then (Some 1, w)
                  else
                    (case allocs 4 w of
                       (False, w) \<Rightarrow> (Some 1, w)
                     | (True, w) \<Rightarrow>
                         (case allocs_checked (unat l1n) w of
                            (False, w) \<Rightarrow> (Some 1, w)
                          | (True, w) \<Rightarrow>
                              (case open_trunc path w of
                                 (False, w) \<Rightarrow> (Some 1, w)
                               | (True, w) \<Rightarrow>
                                   (case ftruncate path alloc w of
                                      (False, w) \<Rightarrow> (Some 1, w)
                                    | (True, w) \<Rightarrow>
                                        (case sys_ok w of
                                           (False, w) \<Rightarrow> (Some 1, w)
                                         | (True, w) \<Rightarrow>
                                             (case convert_loop flat_path path cs l2n vsize [0..<unat (total_clusters vsize cs)]
                                                     \<lparr>p_l1 = replicate (unat l1n) 0,
                                                      p_l2 = replicate (unat l1n) (replicate (unat l2n) 0), p_alloc = alloc\<rparr> w of
                                                (Inl e, w) \<Rightarrow> (e, w)
                                              | (Inr P, w) \<Rightarrow>
                                                  (case pack_finish path bits cs l2n vsize l1_off l1n P w of
                                                     (Inl e, w) \<Rightarrow> (e, w)
                                                   | (Inr _, w) \<Rightarrow> (Some 0, w))))))))))"

section \<open>Compacting\<close>

definition compact_cluster ::
  "string \<Rightarrow> string \<Rightarrow> u32 \<Rightarrow> u32 \<Rightarrow> u64 list \<Rightarrow> u64 list list \<Rightarrow> u64 \<Rightarrow> bytes \<times> packer \<Rightarrow> cli \<Rightarrow> (bytes \<times> packer) step \<times> cli" where
  "compact_cluster in_path tmp cs l2n l1 l2s ci = (\<lambda>(buf, P) w.
     if l2n = 0 then (Inl None, w)
     else
       let l1_idx = unat (ucast (ci div ucast l2n) :: u32);
           l2_idx = unat (ucast (ci mod ucast l2n) :: u32)
       in if l1_idx \<ge> length l1 \<or> l1 ! l1_idx = 0 then (Inr (buf, P), w)
          else
            let l2_entry = l2s ! l1_idx ! l2_idx in
            if l2_entry = 0 then (Inr (buf, P), w)
            else
              (case load_cluster in_path cs l2_entry buf w of
                 (Inl e, w) \<Rightarrow> (Inl e, w)
               | (Inr buf, w) \<Rightarrow>
                   if is_all_zero buf then (Inr (buf, P), w)
                   else
                     (case pack_cluster tmp cs l1_idx l2_idx buf P w of
                        (Inl e, w) \<Rightarrow> (Inl e, w)
                      | (Inr P, w) \<Rightarrow> (Inr (buf, P), w))))"

fun compact_loop ::
  "string \<Rightarrow> string \<Rightarrow> u32 \<Rightarrow> u32 \<Rightarrow> u64 list \<Rightarrow> u64 list list \<Rightarrow> nat list \<Rightarrow> bytes \<times> packer \<Rightarrow> cli \<Rightarrow> packer step \<times> cli" where
  "compact_loop in_path tmp cs l2n l1 l2s [] (buf, P) w = (Inr P, w)"
| "compact_loop in_path tmp cs l2n l1 l2s (ci # cis) (buf, P) w =
     (case compact_cluster in_path tmp cs l2n l1 l2s (of_nat ci) (buf, P) w of
        (Inl e, w) \<Rightarrow> (Inl e, w)
      | (Inr (buf, P), w) \<Rightarrow> compact_loop in_path tmp cs l2n l1 l2s cis (buf, P) w)"

definition unlink :: "string \<Rightarrow> cli \<Rightarrow> cli" where
  "unlink path w = (case sys_ok w of (ok, w) \<Rightarrow> if ok then w\<lparr>files := (files w)(path := None)\<rparr> else w)"

definition rename_path :: "string \<Rightarrow> string \<Rightarrow> cli \<Rightarrow> bool \<times> cli" where
  "rename_path old new w =
     (case sys_ok w of
        (ok, w) \<Rightarrow> (ok, if ok then w\<lparr>files := (files w)(old := None, new := files w old)\<rparr> else w))"

text \<open>The end of a failed compaction: the temporary file is removed.\<close>

definition compact_err :: "string \<Rightarrow> nat option \<Rightarrow> cli \<Rightarrow> nat option \<times> cli" where
  "compact_err tmp e w = (case e of None \<Rightarrow> (None, w) | Some _ \<Rightarrow> (Some 1, unlink tmp w))"

text \<open>The name of the temporary file is cut to the size of a path buffer.\<close>

definition compact_tmp :: "string \<Rightarrow> string" where
  "compact_tmp path = take 4095 (path @ ''.compact.tmp'')"

definition cmd_compact :: "string list \<Rightarrow> cli \<Rightarrow> nat option \<times> cli" where
  "cmd_compact argv w =
     (case argv of
        [path] \<Rightarrow>
          (case open_rdonly path w of
             (False, w) \<Rightarrow> (Some 1, w)
           | (True, w) \<Rightarrow>
               (case load_header path w of
                  (Inl e, w) \<Rightarrow> (e, w)
                | (Inr hdr, w) \<Rightarrow>
                    let bits = lbd_qcow2_hdr_cluster_bits hdr;
                        cs = push_bit (unat bits) 1 :: u32;
                        l2n = (cs - of_nat LBD_QCOW2_L2_TRAILER_SIZE) div 8;
                        vsize = lbd_qcow2_hdr_virtual_size hdr;
                        l1_off = lbd_qcow2_hdr_l1_table_offset hdr;
                        l1n = lbd_qcow2_hdr_l1_size hdr;
                        tmp = compact_tmp path;
                        alloc = packed_alloc l1_off l1n cs
                    in if bits \<ge> 32 then (None, w)
                       else
                         (case allocs 4 w of
                            (False, w) \<Rightarrow> (Some 1, w)
                          | (True, w) \<Rightarrow>
                              (case load_l1 path l1n l1_off w of
                                 (Inl e, w) \<Rightarrow> (e, w)
                               | (Inr l1, w) \<Rightarrow>
                                   (case load_tables path cs l2n l1 w of
                                      (Inl e, w) \<Rightarrow> (e, w)
                                    | (Inr l2s, w) \<Rightarrow>
                                        (case open_trunc tmp w of
                                           (False, w) \<Rightarrow> (Some 1, w)
                                         | (True, w) \<Rightarrow>
                                             (case ftruncate tmp alloc w of
                                                (False, w) \<Rightarrow> (Some 1, w)
                                              | (True, w) \<Rightarrow>
                                                  (case allocs 2 w of
                                                     (False, w) \<Rightarrow> (Some 1, w)
                                                   | (True, w) \<Rightarrow>
                                                       (case allocs_checked (unat l1n) w of
                                                          (False, w) \<Rightarrow> (Some 1, w)
                                                        | (True, w) \<Rightarrow>
                                                            (case compact_loop path tmp cs l2n l1 l2s [0..<unat (total_clusters vsize cs)]
                                                                    (replicate (unat cs) 0,
                                                                     \<lparr>p_l1 = replicate (unat l1n) 0,
                                                                      p_l2 = replicate (unat l1n) (replicate (unat l2n) 0),
                                                                      p_alloc = alloc\<rparr>) w of
                                                               (Inl e, w) \<Rightarrow> compact_err tmp e w
                                                             | (Inr P, w) \<Rightarrow>
                                                                 (case pack_finish tmp bits cs l2n vsize l1_off l1n P w of
                                                                    (Inl e, w) \<Rightarrow> compact_err tmp e w
                                                                  | (Inr _, w) \<Rightarrow>
                                                                      (case rename_path tmp path w of
                                                                         (False, w) \<Rightarrow> (Some 1, w)
                                                                       | (True, w) \<Rightarrow> (Some 0, w)))))))))))))
      | _ \<Rightarrow> (Some 1, w))"

end
