(* ===== verification/Lbdctl_Extract.thy ===== *)
theory Lbdctl_Extract
  imports Lbdctl_Pack
begin

text \<open>
  Extracting an image gives the bytes that the driver shows. The tool computes the checksum of an
  L2 table with its own tables; \<open>crc_agrees\<close> is the documented fact that the kernel's \<^verbatim>\<open>crc32c\<close> is
  the same function, and \<open>kernel_crc32c\<close> an instance.
\<close>

definition crc_agrees :: "crc_fun \<Rightarrow> bool" where
  "crc_agrees crc \<longleftrightarrow> (\<forall>bs. NOT (crc (NOT 0) bs) = crc32c_calc bs)"

definition kernel_crc32c :: crc_fun where
  "kernel_crc32c seed bs = crc_loop crc32c_init seed bs"

lemma crc_agrees_kernel: "crc_agrees kernel_crc32c"
proof -
  have "(0xFFFFFFFF :: u32) = - 1"
    by simp
  then show ?thesis
    by (simp only: crc_agrees_def kernel_crc32c_def crc32c_calc_def) simp
qed

section \<open>Reading\<close>

lemma table_decode_eq: "8 * n \<le> length raw \<Longrightarrow> table_decode n raw = l2_decode n raw"
  by (auto simp: table_decode_def l2_decode_def be64toh_val_def get64_of_be64 length_read_at read_at_def intro!: arg_cong [where f = of_be64])

lemma pread_exact_Nil:
  assumes "plan w = []" "files w path = Some f" "unat pos + n \<le> length f" "unat pos + n < 2 ^ 63"
  shows "pread_exact path n pos w = (Inr (read_at f (unat pos) n), w)"
  using assms by (simp add: pread_exact_def pread_def pos_ok_def contents_def length_read_at)

lemma allocs_Nil: "plan w = [] \<Longrightarrow> allocs n w = (True, w)" "plan w = [] \<Longrightarrow> allocs_checked n w = (True, w)"
  by (induction n) simp_all

lemma load_cluster_spec:
  assumes pl: "plan w = []" and f: "files w path = Some f" and st: "stored (unat cs) f entry content"
    and buf: "length buf = unat cs" and cs: "unat cs \<le> 16777216"
  shows "load_cluster path cs entry buf w = (Inr content, w)"
proof -
  let ?p = "entry AND LBD_QCOW2_L2_OFFSET_MASK"
  have p: "unat ?p < 2 ^ 62" "entry_phys entry = unat ?p"
    using st by (simp_all add: stored_def entry_phys_def)
  show ?thesis
  proof (cases "entry_compressed entry")
    case True
    let ?m = "unat (of_be32 (read_at f (unat ?p) 4))"
    have m: "?m \<le> LZ4_compressBound (unat cs)" "unat ?p + 4 + ?m \<le> length f"
      "LZ4_decompress_safe (read_at f (unat ?p + 4) ?m) buf = Some (int (unat cs), content)"
      using st True buf p by (auto simp: stored_def Let_def)
    have mb: "?m < 2 ^ 32"
      using unat_u32_lt [of "of_be32 (read_at f (unat ?p) 4)"] by simp
    have p4: "unat (?p + 4) = unat ?p + 4"
      using p(1) by (simp add: unat_plus_u64)
    have r4: "pread_exact path 4 ?p w = (Inr (read_at f (unat ?p) 4), w)"
      using m(2) p(1) by (intro pread_exact_Nil pl f) simp_all
    have b4: "be32toh_val (read_at f (unat ?p) 4) = of_be32 (read_at f (unat ?p) 4)"
      using m(2) by (simp add: be32toh_val_def get32_of_be32 length_read_at) (simp add: read_at_def)
    have "pread path ?m (?p + 4) w = (Inr (read_at f (unat ?p + 4) ?m), w)"
      using p4 p(1) mb pl f by (simp add: pread_def pos_ok_def contents_def)
    moreover have "length (read_at f (unat ?p + 4) ?m) = ?m"
      using m(2) by (simp add: length_read_at)
    ultimately show ?thesis
      using True m(1,3) by (simp add: load_cluster_def Let_def entry_compressed_def r4 b4)
  next
    case False
    then have "unat ?p + unat cs \<le> length f" "read_at f (unat ?p) (unat cs) = content"
      using st p by (simp_all add: stored_def)
    then show ?thesis
      using False pread_exact_Nil [OF pl f, of ?p "unat cs"] p(1) cs by (simp add: load_cluster_def Let_def entry_compressed_def)
  qed
qed

lemma load_table_spec:
  assumes pl: "plan w = []" and f: "files w path = Some f" and crc: "crc_agrees crc"
    and cs: "unat cs \<le> 16777216" "4 \<le> unat cs" "8 * unat n \<le> unat cs"
    and t: "entry = 0 \<and> tab = replicate (unat n) 0 \<or> entry \<noteq> 0 \<and> l2_ok crc (unat cs) (unat n) f (unat entry) tab \<and> unat entry + unat cs < 2 ^ 63"
  shows "load_table path cs n entry w = (Inr tab, w)"
proof (cases "entry = 0")
  case True
  then show ?thesis
    using t pl by (simp add: load_table_def)
next
  case False
  let ?raw = "read_at f (unat entry) (unat cs)"
  have ok: "unat entry + unat cs \<le> length f" "l2_crc_ok crc (unat cs) ?raw" "l2_decode (unat n) ?raw = tab" "unat entry + unat cs < 2 ^ 63"
    using t False by (simp_all add: l2_ok_def)
  have len: "length ?raw = unat cs"
    using ok(1) by (simp add: length_read_at)
  have rd: "pread_exact path (unat cs) entry w = (Inr ?raw, w)"
    using pread_exact_Nil [OF pl f ok(1,4)] .
  have "qcow2_get32 ?raw (unat cs - 4) = kernel_get32 ?raw (unat cs - 4)"
    using len cs(2) by (simp add: get32_of_be32 kernel_get32_def)
  then have "qcow2_get32 ?raw (unat cs - 4) = crc32c_calc (take (unat cs - 4) ?raw)"
    using ok(2) crc by (simp add: l2_crc_ok_def Let_def crc_agrees_def)
  then show ?thesis
    using False pl rd cs(2,3) table_decode_eq [of "unat n" ?raw] len ok(3) by (simp add: load_table_def)
qed

lemma load_tables_spec:
  assumes "plan w = []" "files w path = Some f" "crc_agrees crc" "unat cs \<le> 16777216" "4 \<le> unat cs" "8 * unat n \<le> unat cs"
    and "\<And>i. i < length l1 \<Longrightarrow> l1 ! i = 0 \<and> T i = replicate (unat n) 0 \<or>
      l1 ! i \<noteq> 0 \<and> l2_ok crc (unat cs) (unat n) f (unat (l1 ! i)) (T i) \<and> unat (l1 ! i) + unat cs < 2 ^ 63"
  shows "load_tables path cs n l1 w = (Inr (map T [0..<length l1]), w)"
  using assms(7)
proof (induction l1 arbitrary: T)
  case (Cons e l1)
  have "load_table path cs n e w = (Inr (T 0), w)"
    using Cons.prems [of 0] by (intro load_table_spec [OF assms(1-6)]) simp
  moreover have "load_tables path cs n l1 w = (Inr (map (\<lambda>i. T (Suc i)) [0..<length l1]), w)"
    using Cons.prems [of "Suc i" for i] by (intro Cons.IH) simp
  moreover have "map T [0..<length (e # l1)] = T 0 # map (\<lambda>i. T (Suc i)) [0..<length l1]"
    by (simp add: upt_conv_Cons map_Suc_upt [symmetric] del: upt_Suc)
  ultimately show ?case
    by simp
qed simp

section \<open>Extracting\<close>

text \<open>The output after the first \<open>m\<close> bytes.\<close>

definition partial :: "(nat \<Rightarrow> u8) \<Rightarrow> nat \<Rightarrow> nat \<Rightarrow> bytes" where
  "partial D vs m = map D [0..<m] @ replicate (vs - m) 0"

lemma partial_write:
  assumes "m < m'" "m' \<le> vs"
  shows "write_at (partial D vs m) m (map D [m..<m']) = partial D vs m'"
  using assms by (auto simp: partial_def length_write_at nth_write_at nth_append max_def intro!: nth_equalityI)

lemma partial_zero:
  assumes "m \<le> m'" "m' \<le> vs" "\<And>x. m \<le> x \<Longrightarrow> x < m' \<Longrightarrow> D x = 0"
  shows "partial D vs m' = partial D vs m"
  using assms by (auto simp: partial_def nth_append intro!: nth_equalityI)

lemma length_partial [simp]: "m \<le> vs \<Longrightarrow> length (partial D vs m) = vs"
  by (simp add: partial_def)

lemma cluster_bytes:
  assumes "length bs = cs" "k \<le> cs" "\<And>i. i < cs \<Longrightarrow> D (c * cs + i) = bs ! i"
  shows "take k bs = map D [c * cs..<c * cs + k]"
  using assms by (intro nth_equalityI) auto

text \<open>The indices of cluster \<open>c\<close> in the two tables.\<close>

lemma table_indices:
  fixes n :: u32
  assumes "c < 2 ^ 32 * unat n" "c < 2 ^ 63"
  shows "unat (ucast ((of_nat c :: u64) div ucast n) :: u32) = c div unat n" "unat (ucast ((of_nat c :: u64) mod ucast n) :: u32) = c mod unat n"
proof -
  have u: "unat (of_nat c :: u64) = c" and n0: "0 < unat n"
    using assms by (simp add: unat_of_nat_u64) (use assms(1) in \<open>cases "unat n"; simp\<close>)
  show "unat (ucast ((of_nat c :: u64) div ucast n) :: u32) = c div unat n"
    using unat_l1_idx [of "of_nat c" n] assms(1) u by simp
  have "unat ((of_nat c :: u64) mod ucast n) = c mod unat n"
    using u unat_l2_idx [of "of_nat c" n] by simp
  moreover have "c mod unat n < 4294967296"
    using mod_less_divisor [OF n0, of c] unat_u32_lt [of n] by linarith
  ultimately show "unat (ucast ((of_nat c :: u64) mod ucast n) :: u32) = c mod unat n"
    by (simp add: unsigned_ucast_eq take_bit_nat_eq_self)
qed

lemma extract_cluster_spec:
  assumes w: "plan w = []" "files w ip = Some f" "files w op = Some (partial D (unat vs) (c * unat cs))" "ip \<noteq> op"
    and di: "dinv crc q f T C FL" and q: "cluster_size q = cs" "l2_entries q = n"
    and c: "c * unat cs < unat vs" "inside q (unat vs)" and buf: "length buf = unat cs"
    and D: "D = disk_byte (unat cs) (stored_layer (unat n) T C, Map.empty)"
  shows "\<exists>buf'. extract_cluster ip op cs n vs (l1_table q) (map T [0..<length (l1_table q)]) (of_nat c) buf w =
      (Inr buf', w\<lparr>files := (files w)(op \<mapsto> partial D (unat vs) (min (unat vs) ((c + 1) * unat cs)))\<rparr>) \<and> length buf' = unat cs"
proof -
  let ?cs = "unat cs" and ?n = "unat n" and ?vs = "unat vs" and ?m = "min (unat vs) ((c + 1) * unat cs)"
  have g: "geom q" and st: "\<And>c. ent ?n T c \<noteq> 0 \<Longrightarrow> stored ?cs f (ent ?n T c) (C c)"
    and l2: "l2disk crc ?cs ?n (l1_table q) (unat (l1_size q)) f T"
    using di q by (auto simp: dinv_def)
  have cs: "4096 \<le> ?cs" "?cs \<le> 16777216" "0 < ?n" "length (l1_table q) = unat (l1_size q)"
    using csz_ge [OF g] csz_le [OF g] nent_pos [OF g] l1_len [OF g] q by simp_all
  have vs: "?vs \<le> 2 ^ 62" "?vs \<le> 2 ^ 32 * ?n * ?cs"
    using c(2) q by (simp_all add: inside_def)
  have cc: "(c + 1) * ?cs < 2 ^ 63"
    using c(1) cs(2) vs(1) by (simp add: algebra_simps)
  have c64: "c + 1 < 2 ^ 63"
    using cc cs(1) by (metis (no_types, lifting) le_less_trans mult_le_mono2 mult.right_neutral one_le_numeral order_trans)
  have u: "unat (of_nat c :: u64) = c"
    using c64 by (simp add: unat_of_nat_u64)
  have cn: "c < 2 ^ 32 * ?n"
    using c(1) vs(2) by (metis less_le_trans mult_less_cancel2)
  define i where "i = unat (ucast ((of_nat c :: u64) div ucast n) :: u32)"
  define j where "j = unat (ucast ((of_nat c :: u64) mod ucast n) :: u32)"
  have i: "i = c div ?n" and j: "j = c mod ?n"
    using table_indices [OF cn] c64 by (simp_all add: i_def j_def)
  have n0: "n \<noteq> 0"
    using cs(3) by auto
  have ent0: "i \<ge> length (l1_table q) \<or> l1_table q ! i = 0 \<Longrightarrow> ent ?n T c = 0"
    using l2 cs(3,4) unfolding l2disk_def ent_def i by (metis mod_less_divisor not_le nth_replicate)
  have hole: ?thesis if z: "ent ?n T c = 0" and
    run: "extract_cluster ip op cs n vs (l1_table q) (map T [0..<length (l1_table q)]) (of_nat c) buf w = (Inr buf, w)"
  proof -
    have "D x = 0" if "c * ?cs \<le> x" "x < ?m" for x
    proof -
      have "x div ?cs = c" "x mod ?cs < ?cs"
        using that cs(1) by (auto intro!: div_nat_eqI simp: algebra_simps)
      then show ?thesis
        using z by (simp add: D disk_byte_def shown_def stored_layer_def)
    qed
    then have "partial D ?vs ?m = partial D ?vs (c * ?cs)"
      using c(1) by (intro partial_zero) auto
    then have "w\<lparr>files := (files w)(op \<mapsto> partial D ?vs ?m)\<rparr> = w"
      using w(3) by (cases w) (simp add: fun_upd_idem)
    then show ?thesis
      using run buf by simp
  qed
  show ?thesis
  proof (cases "i \<ge> length (l1_table q) \<or> l1_table q ! i = 0")
    case True
    then have "extract_cluster ip op cs n vs (l1_table q) (map T [0..<length (l1_table q)]) (of_nat c) buf w = (Inr buf, w)"
      using n0 by (simp add: extract_cluster_def Let_def flip: i_def)
    then show ?thesis
      using hole ent0 [OF True] by blast
  next
    case False
    then have e: "map T [0..<length (l1_table q)] ! i ! j = ent ?n T c"
      by (simp add: ent_def i j)
    show ?thesis
    proof (cases "ent ?n T c = 0")
      case True
      then have "extract_cluster ip op cs n vs (l1_table q) (map T [0..<length (l1_table q)]) (of_nat c) buf w = (Inr buf, w)"
        using n0 False e by (simp add: extract_cluster_def Let_def flip: i_def j_def)
      then show ?thesis
        using hole True by blast
    next
      case nz: False
      note s = st [OF nz]
      have len: "length (C c) = ?cs"
        using s by (simp add: stored_def)
      have p: "unat ((of_nat c :: u64) * ucast cs) = c * ?cs" "unat ((of_nat c + 1 :: u64) * ucast cs) = (c + 1) * ?cs"
        using cc u c64 by (simp_all add: unat_mult_lem [THEN iffD1] unat_plus_u64)
      define wl where "wl = (if (of_nat c + 1) * ucast cs > vs then vs - of_nat c * ucast cs else ucast cs)"
      have wl: "unat wl = ?m - c * ?cs"
      proof (cases "(of_nat c + 1) * ucast cs > vs")
        case True
        then show ?thesis
          using p c(1) by (simp add: wl_def word_less_nat_alt unat_sub word_le_nat_alt)
      next
        case False
        then show ?thesis
          using p c(1) by (simp add: wl_def word_less_nat_alt not_less min_def)
      qed
      have m: "c * ?cs < ?m" "?m \<le> ?vs" "?m - c * ?cs \<le> ?cs"
        using c(1) cs(1) by auto
      have "D (c * ?cs + k) = C c ! k" if "k < ?cs" for k
        using that nz by (simp add: D disk_byte_def shown_def stored_layer_def)
      then have "take (unat wl) (C c) = map D [c * ?cs..<?m]"
        using cluster_bytes [OF len m(3), of D c] m(1) wl by simp
      moreover have "pos_ok ((of_nat c :: u64) * ucast cs) (length (map D [c * ?cs..<?m]))"
        using p cc m by (simp add: pos_ok_def algebra_simps)
      ultimately have pw: "pwrite op (take (unat wl) (C c)) (of_nat c * ucast cs) w =
          (True, w\<lparr>files := (files w)(op \<mapsto> partial D ?vs ?m)\<rparr>)"
        using w(1,3) p(1) partial_write [OF m(1,2), of D] by (simp add: pwrite_def contents_def)
      show ?thesis
        using n0 False e nz pw load_cluster_spec [OF w(1,2) s buf cs(2)] len
        by (simp add: extract_cluster_def Let_def flip: i_def j_def wl_def)
    qed
  qed
qed

lemma extract_loop_spec:
  assumes w: "plan w = []" "files w ip = Some f" "files w op = Some (partial D (unat vs) (min (unat vs) (c * unat cs)))" "ip \<noteq> op"
    and di: "dinv crc q f T C FL" and q: "cluster_size q = cs" "l2_entries q = n" and i: "inside q (unat vs)" and buf: "length buf = unat cs"
    and D: "D = disk_byte (unat cs) (stored_layer (unat n) T C, Map.empty)"
    and e: "c \<le> e" "unat vs \<le> e * unat cs" "\<And>k. k < e \<Longrightarrow> k * unat cs < unat vs"
  shows "extract_loop ip op cs n vs (l1_table q) (map T [0..<length (l1_table q)]) [c..<e] buf w =
    (Some 0, w\<lparr>files := (files w)(op \<mapsto> map D [0..<unat vs])\<rparr>)"
  using w(1-3) buf e(1)
proof (induction "e - c" arbitrary: c buf w)
  case 0
  then have "w\<lparr>files := (files w)(op \<mapsto> map D [0..<unat vs])\<rparr> = w"
    using e(2) by (cases w) (simp add: partial_def min_def fun_upd_idem split: if_splits)
  moreover have "[c..<e] = []"
    using 0 by simp
  ultimately show ?case
    by (simp only: extract_loop.simps)
next
  case (Suc d)
  have ce: "c < e"
    using Suc.hyps(2) by simp
  have c: "c * unat cs < unat vs"
    using e(3) [OF ce] .
  then have op: "files w op = Some (partial D (unat vs) (c * unat cs))"
    using Suc.prems(3) by (simp add: min_def)
  let ?w = "w\<lparr>files := (files w)(op \<mapsto> partial D (unat vs) (min (unat vs) ((c + 1) * unat cs)))\<rparr>"
  obtain buf' where b: "extract_cluster ip op cs n vs (l1_table q) (map T [0..<length (l1_table q)]) (of_nat c) buf w = (Inr buf', ?w)"
    "length buf' = unat cs"
    using extract_cluster_spec [OF Suc.prems(1,2) op w(4) di q c i Suc.prems(4) D] by blast
  have "extract_loop ip op cs n vs (l1_table q) (map T [0..<length (l1_table q)]) [Suc c..<e] buf' ?w =
      (Some 0, ?w\<lparr>files := (files ?w)(op \<mapsto> map D [0..<unat vs])\<rparr>)"
    using Suc.hyps(2) Suc.prems(1,2) w(4) b(2) ce by (intro Suc.hyps(1)) auto
  then show ?case
    using b(1) by (simp add: upt_conv_Cons [OF ce])
qed

lemma total_clusters_spec:
  assumes "0 < unat cs" "unat vs + unat cs < 2 ^ 64"
  shows "unat vs \<le> unat (total_clusters vs cs) * unat cs" "k < unat (total_clusters vs cs) \<Longrightarrow> k * unat cs < unat vs"
proof -
  have "unat (vs + ucast cs) = unat vs + unat cs"
    using assms(2) by (simp add: unat_plus_u64)
  moreover have "(1 :: u64) \<le> vs + ucast cs"
    using calculation assms(1) by (simp add: word_le_nat_alt)
  ultimately have "unat (vs + ucast cs - 1) = unat vs + unat cs - 1"
    by (simp add: unat_sub)
  then have t: "unat (total_clusters vs cs) = (unat vs + unat cs - 1) div unat cs"
    by (simp add: total_clusters_def unat_div)
  show "unat vs \<le> unat (total_clusters vs cs) * unat cs"
    using ceil_div(1) [OF assms(1)] by (simp add: t)
  assume "k < unat (total_clusters vs cs)"
  then have "(k + 1) * unat cs \<le> unat (total_clusters vs cs) * unat cs"
    by (intro mult_le_mono1) simp
  then show "k * unat cs < unat vs"
    using ceil_div(2) [OF assms(1), of "unat vs"] by (simp add: t)
qed

lemma load_header_spec:
  assumes "plan w = []" "files w path = Some f" "hdr_ok q f"
  shows "load_header path w = (Inr (read_at f 0 4096), w)"
  using pread_exact_Nil [OF assms(1,2), of 0 4096] assms(3) header_fields(1) [OF assms(3)]
  by (simp add: load_header_def LBD_QCOW2_HEADER_SIZE_def hdr_ok_def)

lemma load_l1_spec:
  assumes "plan w = []" "files w path = Some f" "l1_disk q f" "length (l1_table q) = unat (l1_size q)"
  shows "load_l1 path (l1_size q) (l1_offset q) w = (Inr (l1_table q), w)"
proof -
  let ?n = "unat (l1_size q)" and ?o = "unat (l1_offset q)"
  have b: "?o < 2 ^ 62" "?o + 8 * ?n \<le> length f" "\<And>i. i < ?n \<Longrightarrow> read_at f (?o + 8 * i) 8 = be64 (l1_table q ! i)"
    using assms(3) by (auto simp: l1_disk_def)
  have "?o + ?n * 8 < 2 ^ 63"
    using b(1) unat_u32_lt [of "l1_size q"] by simp
  then have "pread_exact path (?n * 8) (l1_offset q) w = (Inr (read_at f ?o (?n * 8)), w)"
    using b(2) by (intro pread_exact_Nil [OF assms(1,2)]) simp_all
  moreover have "table_decode ?n (read_at f ?o (?n * 8)) = l1_table q"
    using b(2,3) assms(4) by (auto simp: table_decode_eq length_read_at l2_decode_def read_read byte_simps intro!: nth_equalityI)
  ultimately show ?thesis
    using assms(1) by (simp add: load_l1_def)
qed

lemma extract_run:
  assumes w: "plan w = []" "files w ip = Some f" "ip \<noteq> op" and crc: "crc_agrees crc"
    and di: "dinv crc q f T C FL" and i: "inside q (unat (virtual_size q))"
  shows "cmd_extract ip op w = (Some 0, w\<lparr>files := (files w)(op \<mapsto>
    map (disk_byte (csz q) (stored_layer (nent q) T C, Map.empty)) [0..<unat (virtual_size q)])\<rparr>)"
proof -
  let ?cs = "cluster_size q" and ?n = "l2_entries q" and ?vs = "virtual_size q"
  let ?D = "disk_byte (csz q) (stored_layer (nent q) T C, Map.empty)"
  have g: "geom q" and h: "hdr_ok q f" and l1: "l1_disk q f"
    and l2: "l2disk crc (csz q) (nent q) (l1_table q) (unat (l1_size q)) f T"
    using di by (simp_all add: dinv_def)
  note hf = header_fields [OF h]
  have geo: "2 ^ unat (cluster_bits q) = ?cs" "(?cs - 8) div 8 = ?n" "\<not> 32 \<le> cluster_bits q"
    using g by (simp_all add: geom_def word_le_nat_alt)
  have cs: "4096 \<le> csz q" "csz q \<le> 16777216" "8 * nent q \<le> csz q" "length (l1_table q) = unat (l1_size q)"
    using csz_ge [OF g] csz_le [OF g] nent_csz [OF g] l1_len [OF g] by simp_all
  have vs: "unat ?vs \<le> 2 ^ 62"
    using i by (simp add: inside_def)
  have tabs: "l1_table q ! k = 0 \<and> T k = replicate (nent q) 0 \<or>
      l1_table q ! k \<noteq> 0 \<and> l2_ok crc (csz q) (nent q) f (unat (l1_table q ! k)) (T k) \<and> unat (l1_table q ! k) + csz q < 2 ^ 63"
    if "k < length (l1_table q)" for k
    using l2 that cs(4) unfolding l2disk_def by metis
  define w1 where "w1 = w\<lparr>files := (files w)(op \<mapsto> replicate (unat ?vs) 0)\<rparr>"
  have w1: "plan w1 = []" "files w1 ip = Some f" "files w1 op = Some (partial ?D (unat ?vs) (min (unat ?vs) (0 * csz q)))"
    using w by (simp_all add: w1_def partial_def)
  have tr: "open_trunc op w = (True, w\<lparr>files := (files w)(op \<mapsto> [])\<rparr>)"
    "ftruncate op ?vs (w\<lparr>files := (files w)(op \<mapsto> [])\<rparr>) = (True, w1)"
    using w(1) vs by (simp_all add: open_trunc_def ftruncate_def contents_def w1_def)
  have lt: "load_tables ip ?cs ?n (l1_table q) w1 = (Inr (map T [0..<length (l1_table q)]), w1)"
    using cs tabs by (intro load_tables_spec [OF w1(1,2) crc]) simp_all
  have tc: "unat ?vs \<le> unat (total_clusters ?vs ?cs) * csz q" "\<And>k. k < unat (total_clusters ?vs ?cs) \<Longrightarrow> k * csz q < unat ?vs"
    using total_clusters_spec [of ?cs ?vs] cs(1,2) vs by simp_all
  have lp: "extract_loop ip op ?cs ?n ?vs (l1_table q) (map T [0..<length (l1_table q)]) [0..<unat (total_clusters ?vs ?cs)] (replicate (csz q) 0) w1 =
      (Some 0, w1\<lparr>files := (files w1)(op \<mapsto> map ?D [0..<unat ?vs])\<rparr>)"
    by (rule extract_loop_spec [OF w1 w(3) di refl refl i _ refl _ tc]) simp_all
  have op: "open_rdonly ip w = (True, w)"
    using w(1,2) by (simp add: open_rdonly_def)
  have f1: "w1\<lparr>files := (files w1)(op \<mapsto> map ?D [0..<unat ?vs])\<rparr> = w\<lparr>files := (files w)(op \<mapsto> map ?D [0..<unat ?vs])\<rparr>"
    by (simp add: w1_def)
  show ?thesis
    unfolding cmd_extract_def op prod.case bool.case load_header_spec [OF w(1,2) h] sum.case hf Let_def
    using w(1) w1(1) geo lp f1 lt load_l1_spec [OF w(1,2) l1 cs(4)]
    by (simp add: allocs_Nil LBD_QCOW2_L2_TRAILER_SIZE_def tr)
qed

text \<open>C13: \<open>lbdctl extract\<close> of the image of a device writes the flat file that consists of exactly the
  bytes that the device shows without its base layer, for every disk size, also one that is not
  a multiple of the cluster size. The image file is not changed.\<close>

theorem extract_shows_disk:
  assumes "abs_img crc dev (P, B)" and "crc_agrees crc" and "inside (qcow2 dev) (unat (virtual_size (qcow2 dev)))"
    and "plan w = []" and "files w ip = Some (backing_file dev)" and "ip \<noteq> op"
  shows "cmd_extract ip op w = (Some 0, w\<lparr>files := (files w)(op \<mapsto>
    map (disk_byte (csz (qcow2 dev)) (P, Map.empty)) [0..<unat (virtual_size (qcow2 dev))])\<rparr>)"
proof -
  obtain T C FL where q: "qinv crc dev T C FL B" and P: "P = stored_layer (nent (qcow2 dev)) T C"
    using assms(1) by (auto simp: abs_img_def)
  show ?thesis
    unfolding P by (rule extract_run [OF assms(4-6,2) qinvD(1) [OF q] assms(3)])
qed

end
