(* ===== verification/Lbdctl_Packing.thy ===== *)
theory Lbdctl_Packing
  imports Lbdctl_Extract
begin

text \<open>
  Images packed front to back are complete images. The invariant \<open>pinv\<close> of the writing loop says
  that the tables under construction describe the clusters written so far; finishing the image
  turns it into the invariant \<open>dinv\<close> of an image file.
\<close>

section \<open>Tables under construction\<close>

definition pq :: "lbd_qcow2 \<Rightarrow> packer \<Rightarrow> lbd_qcow2" where
  "pq q P = q\<lparr>l1_table := p_l1 P, alloc_offset := p_alloc P, free_list_head := 0\<rparr>"

definition ptab :: "nat \<Rightarrow> packer \<Rightarrow> nat \<Rightarrow> u64 list" where
  "ptab n P i = (if i < length (p_l2 P) then p_l2 P ! i else replicate n 0)"

definition pinv :: "lbd_qcow2 \<Rightarrow> packer \<Rightarrow> bytes \<Rightarrow> (nat \<Rightarrow> bytes) \<Rightarrow> bool" where
  "pinv q P g C \<longleftrightarrow>
     geom (pq q P) \<and> length (p_l2 P) = unat (l1_size q) \<and> (\<forall>i. length (ptab (nent q) P i) = nent q) \<and>
     (\<forall>i < unat (l1_size q). p_l1 P ! i = 0 \<longrightarrow> p_l2 P ! i = replicate (nent q) 0) \<and>
     sep (lay (pq q P) g (ptab (nent q) P) []) \<and>
     (\<forall>a. lay (pq q P) g (ptab (nent q) P) [] a \<subseteq> {..<unat (p_alloc P)}) \<and>
     (\<forall>c. ent (nent q) (ptab (nent q) P) c \<noteq> 0 \<longrightarrow>
        stored (csz q) g (ent (nent q) (ptab (nent q) P) c) (C c)) \<and>
     length g \<le> unat (p_alloc P) \<and> unat (l1_offset q) + 8 * unat (l1_size q) \<le> unat (p_alloc P) \<and>
     unat (p_alloc P) \<le> 2 ^ 62"

lemma pq_fields [simp]:
  "cluster_bits (pq q P) = cluster_bits q" "cluster_size (pq q P) = cluster_size q" "l2_entries (pq q P) = l2_entries q"
  "virtual_size (pq q P) = virtual_size q" "l1_size (pq q P) = l1_size q" "l1_offset (pq q P) = l1_offset q"
  "l1_table (pq q P) = p_l1 P" "alloc_offset (pq q P) = p_alloc P" "free_list_head (pq q P) = 0"
  by (simp_all add: pq_def)

lemma sep_extend:
  assumes "sep G" "\<And>b. G b \<subseteq> {..<m}" "R \<inter> {..<m} = {}"
  shows "sep (G(a := R))"
  using assms unfolding sep_def by (metis Int_iff empty_iff fun_upd_apply subsetD)

lemma pinv_alloc: "pinv q P g C \<Longrightarrow> 4096 \<le> unat (p_alloc P)"
proof -
  assume "pinv q P g C"
  then have "lay (pq q P) g (ptab (nent q) P) [] Hdr \<subseteq> {..<unat (p_alloc P)}"
    unfolding pinv_def by blast
  then have "4095 \<in> {..<unat (p_alloc P)}"
    by (simp add: subset_eq)
  then show ?thesis
    by simp
qed

text \<open>A place for a new table.\<close>

lemma pinv_table:
  assumes p: "pinv q P g C" and i: "i < unat (l1_size q)" "p_l1 P ! i = 0" and room: "unat (p_alloc P) + csz q \<le> 2 ^ 62"
    and P': "P' = P\<lparr>p_l1 := (p_l1 P)[i := p_alloc P], p_alloc := p_alloc P + ucast (cluster_size q)\<rparr>"
  shows "pinv q P' g C" "unat (p_alloc P') = unat (p_alloc P) + csz q" "p_l1 P' ! i \<noteq> 0" "ptab (nent q) P' = ptab (nent q) P"
proof -
  let ?n = "nent q" and ?T = "ptab (nent q) P" and ?a = "unat (p_alloc P)"
  let ?G = "lay (pq q P) g ?T []" and ?G' = "lay (pq q P') g ?T []" and ?R = "{unat (p_alloc P)..<unat (p_alloc P) + csz q}"
  show T: "ptab ?n P' = ?T"
    by (simp add: ptab_def P' fun_eq_iff)
  show a: "unat (p_alloc P') = ?a + csz q"
    using room by (simp add: P' unat_plus_u64)
  have p': "geom (pq q P)" "length (p_l2 P) = unat (l1_size q)" "\<And>i. length (?T i) = ?n"
    "\<And>i. i < unat (l1_size q) \<Longrightarrow> p_l1 P ! i = 0 \<Longrightarrow> p_l2 P ! i = replicate ?n 0" "sep ?G" "\<And>b. ?G b \<subseteq> {..<?a}"
    "\<And>c. ent ?n ?T c \<noteq> 0 \<Longrightarrow> stored (csz q) g (ent ?n ?T c) (C c)" "length g \<le> ?a" "unat (l1_offset q) + 8 * unat (l1_size q) \<le> ?a"
    using p unfolding pinv_def by blast+
  have len: "length (p_l1 P) = unat (l1_size q)"
    using l1_len [OF p'(1)] by simp
  have a0: "p_alloc P \<noteq> 0"
    using pinv_alloc [OF p] by auto
  show nz: "p_l1 P' ! i \<noteq> 0"
    using a0 i len by (simp add: P')
  have G: "?G' b = (if b = L2 i then ?R else ?G b)" for b
    using i a0 len by (cases b) (auto simp: P' nth_list_update)
  have G': "?G' = ?G(L2 i := ?R)"
    by (rule ext) (simp add: G)
  have s: "sep ?G'"
    unfolding G' by (rule sep_extend [OF p'(5,6)]) auto
  have "?G' b \<subseteq> {..<?a + csz q}" for b
    using p'(6) [of b] by (auto simp: G)
  moreover have "geom (pq q P')"
    using p'(1) len by (simp add: geom_def P')
  ultimately show "pinv q P' g C"
    unfolding pinv_def T a using p'(2,3,4,7,8,9) room s i len by (auto simp: P' nth_list_update)
qed

text \<open>A new cluster at the cursor.\<close>

lemma pinv_data:
  assumes p: "pinv q P g C" and c: "c div nent q < unat (l1_size q)" "p_l1 P ! (c div nent q) \<noteq> 0"
      "ent (nent q) (ptab (nent q) P) c = 0"
    and e: "entry \<noteq> 0" "entry_phys entry = unat (p_alloc P)" "ext_len (csz q) g' entry = len" "stored (csz q) g' entry data"
    and u: "unch {unat (p_alloc P)..<unat (p_alloc P) + len} g g'" "length g' \<le> unat (p_alloc P) + len"
    and room: "unat (p_alloc P) + len \<le> 2 ^ 62" "unat al = len"
    and P': "P' = P\<lparr>p_l2 := (p_l2 P)[c div nent q := (p_l2 P ! (c div nent q))[c mod nent q := entry]], p_alloc := p_alloc P + al\<rparr>"
  shows "pinv q P' g' (C(c := data))" "unat (p_alloc P') = unat (p_alloc P) + len"
    "ptab (nent q) P' = (ptab (nent q) P)(c div nent q := (ptab (nent q) P (c div nent q))[c mod nent q := entry])"
proof -
  let ?n = "nent q" and ?T = "ptab (nent q) P" and ?a = "unat (p_alloc P)" and ?i = "c div nent q"
  let ?T' = "?T(?i := (?T ?i)[c mod ?n := entry])" and ?R = "{unat (p_alloc P)..<unat (p_alloc P) + len}"
  let ?G = "lay (pq q P) g ?T []" and ?G' = "lay (pq q P') g' ?T' []"
  have p': "geom (pq q P)" "length (p_l2 P) = unat (l1_size q)" "\<And>i. length (?T i) = ?n"
    "\<And>i. i < unat (l1_size q) \<Longrightarrow> p_l1 P ! i = 0 \<Longrightarrow> p_l2 P ! i = replicate ?n 0" "sep ?G" "\<And>b. ?G b \<subseteq> {..<?a}"
    "\<And>c. ent ?n ?T c \<noteq> 0 \<Longrightarrow> stored (csz q) g (ent ?n ?T c) (C c)" "length g \<le> ?a" "unat (l1_offset q) + 8 * unat (l1_size q) \<le> ?a"
    using p unfolding pinv_def by blast+
  have n0: "0 < ?n"
    using nent_pos [OF p'(1)] by simp
  show a: "unat (p_alloc P') = ?a + len"
    using room by (simp add: P' unat_plus_u64)
  show T: "ptab ?n P' = ?T'"
    using c(1) p'(2) by (auto simp: ptab_def P' fun_eq_iff)
  have ent: "ent ?n ?T' d = (if d = c then entry else ent ?n ?T d)" for d
    by (rule ent_upd [OF p'(3) n0])
  have old: "stored (csz q) g' (ent ?n ?T d) (C d) \<and> ext_len (csz q) g' (ent ?n ?T d) = ext_len (csz q) g (ent ?n ?T d)"
    if "ent ?n ?T d \<noteq> 0" for d
  proof (rule stored_frame [OF p'(7) [OF that] u(1) that])
    show "{entry_phys (ent ?n ?T d)..<entry_phys (ent ?n ?T d) + ext_len (csz q) g (ent ?n ?T d)} \<inter> ?R = {}"
      using p'(6) [of "Data d"] by fastforce
  qed
  have "ext_len (csz q) g' (ent ?n ?T d) = ext_len (csz q) g (ent ?n ?T d)" for d
    using old [of d] by (cases "ent ?n ?T d = 0") (simp_all add: ext_len_def)
  then have G: "?G' b = (if b = Data c then ?R else ?G b)" for b
    using e(2,3) by (cases b) (simp_all add: ent P')
  then have G': "?G' = ?G(Data c := ?R)"
    by (simp add: fun_eq_iff)
  have s: "sep ?G'"
    unfolding G' by (rule sep_extend [OF p'(5,6)]) auto
  have sub: "?G' b \<subseteq> {..<?a + len}" for b
    using p'(6) [of b] by (auto simp: G)
  have st: "stored (csz q) g' (ent ?n ?T' d) ((C(c := data)) d)" if "ent ?n ?T' d \<noteq> 0" for d
    using that old [of d] e(4) by (auto simp: ent)
  have "length (?T' i) = ?n" for i
    using p'(3) by simp
  moreover have "p_l2 P' ! i = replicate ?n 0" if "i < unat (l1_size q)" "p_l1 P' ! i = 0" for i
    using that c(2) p'(2,4) by (cases "i = ?i") (simp_all add: P')
  moreover have "geom (pq q P')" "length (p_l2 P') = unat (l1_size q)"
    using p'(1,2) by (simp_all add: geom_def P')
  ultimately show "pinv q P' g' (C(c := data))"
    unfolding pinv_def T a using s sub st u(2) trans_le_add1 [OF p'(9)] room(1) by blast
qed

section \<open>Packing a cluster\<close>

lemma unat_packed_size:
  assumes "n \<le> 16777216"
  shows "unat (ucast (packed_size n) :: u64) = align4096 (4 + n)"
proof -
  have "(0xFFFFF000 :: u64) = take_bit 32 (NOT 4095)"
    by (simp add: take_bit_eq_mask mask_eq_exp_minus_1)
  then have "packed_size n = ucast (take_bit 32 (ALIGN_4096 (4 + of_nat n)))"
    by (simp add: packed_size_def ALIGN_4096_def take_bit_and [symmetric] and.assoc take_bit_eq_mask)
  moreover have u: "unat (ALIGN_4096 (4 + of_nat n)) = align4096 (4 + n)"
    using unat_ALIGN_4096 [of "4 + of_nat n"] assms unat_plus_u64 [of 4 "of_nat n"] by (simp add: unat_of_nat_u64)
  moreover have "align4096 (4 + n) < 2 ^ 32"
    using align4096_le [of "4 + n" "16777216 + 4096"] assms by simp
  ultimately show ?thesis
    by (simp add: unsigned_ucast_eq unat_take_bit take_bit_nat_eq_self)
qed

lemma htobe_val: "htobe32_val x = be32 x" "htobe64_val y = be64 y"
  by (simp_all add: htobe32_val_def htobe64_val_def put32_blit put64_blit) (simp_all add: blit_def)

lemma pwrite_Nil:
  assumes "plan w = []" "files w path = Some g" "unat pos + length bs < 2 ^ 63"
  shows "pwrite path bs pos w = (True, w\<lparr>files := (files w)(path \<mapsto> write_at g (unat pos) bs)\<rparr>)"
  using assms by (simp add: pwrite_def pos_ok_def contents_def)

lemma pack_cluster_spec:
  assumes w: "plan w = []" "files w path = Some g" and p: "pinv q P g C"
    and c: "c div nent q < unat (l1_size q)" "ent (nent q) (ptab (nent q) P) c = 0" and data: "length data = csz q"
    and room: "unat (p_alloc P) + 2 * csz q \<le> 2 ^ 62"
  shows "\<exists>P' g'. pack_cluster path (cluster_size q) (c div nent q) (c mod nent q) data P w =
      (Inr P', w\<lparr>files := (files w)(path \<mapsto> g')\<rparr>) \<and> pinv q P' g' (C(c := data)) \<and>
    stored_layer (nent q) (ptab (nent q) P') (C(c := data)) = (stored_layer (nent q) (ptab (nent q) P) C)(c \<mapsto> data) \<and>
    unat (p_alloc P') \<le> unat (p_alloc P) + 2 * csz q"
proof -
  let ?i = "c div nent q" and ?j = "c mod nent q" and ?cs = "cluster_size q" and ?n = "nent q"
  define P1 where "P1 = (if p_l1 P ! ?i = 0
    then P\<lparr>p_l1 := (p_l1 P)[?i := p_alloc P], p_alloc := p_alloc P + ucast ?cs\<rparr> else P)"
  have P1: "pinv q P1 g C" "unat (p_alloc P1) \<le> unat (p_alloc P) + csz q" "p_l1 P1 ! ?i \<noteq> 0" "ptab ?n P1 = ptab ?n P" "p_l2 P1 = p_l2 P"
    using p pinv_table [OF p c(1) _ _ refl] room by (auto simp: P1_def)
  have g: "geom (pq q P)" and tl: "\<And>i. length (ptab ?n P i) = ?n"
    using p unfolding pinv_def by blast+
  have cs: "4096 \<le> csz q" "csz q \<le> 16777216" "csz q mod 4096 = 0" "0 < ?n"
    using csz_ge [OF g] csz_le [OF g] csz_mod [OF g] nent_pos [OF g] by simp_all
  have c1: "ent ?n (ptab ?n P1) c = 0" "length g \<le> unat (p_alloc P1)"
    using c(2) P1(1,4) by (simp_all add: pinv_def)
  define phys where "phys = p_alloc P1"
  have phys: "unat phys + csz q \<le> 2 ^ 62" "unat phys < 2 ^ 62" "phys \<noteq> 0"
    using P1(2) room cs(1) pinv_alloc [OF P1(1)] by (auto simp: phys_def)
  let ?cb = "LZ4_compress_fast_extState data" and ?m = "length (LZ4_compress_fast_extState data)"
  have mx: "length data \<le> LZ4_MAX_INPUT_SIZE" "LZ4_compressBound (length data) < 4294967296" "data \<noteq> []"
    using cs data compressBound_lt [of "csz q"] by (auto simp: LZ4_MAX_INPUT_SIZE_def)
  have m32: "?m < 4294967296"
    using lz4c.fits [OF mx(1)] mx(2) by simp
  have lt: "(of_nat ?m < ucast ?cs - (4 :: u64)) = (?m < csz q - 4)"
    using m32 cs(1) by (simp add: word_less_nat_alt unat_sub word_le_nat_alt unat_of_nat_u64)
  have fin: ?thesis if e: "entry \<noteq> 0" "entry_phys entry = unat phys" "ext_len (csz q) g' entry = len" "stored (csz q) g' entry data"
      and u: "unch {unat phys..<unat phys + len} g g'" "length g' \<le> unat phys + len" and l: "len \<le> csz q" "unat al = len"
      and run: "pack_cluster path ?cs ?i ?j data P w = (Inr (P1\<lparr>p_l2 := (p_l2 P1)[?i := (p_l2 P1 ! ?i)[?j := entry]],
        p_alloc := p_alloc P1 + al\<rparr>), w\<lparr>files := (files w)(path \<mapsto> g')\<rparr>)" for entry g' len al
  proof -
    define P2 where "P2 = P1\<lparr>p_l2 := (p_l2 P1)[?i := (p_l2 P1 ! ?i)[?j := entry]], p_alloc := p_alloc P1 + al\<rparr>"
    have r: "unat (p_alloc P1) + len \<le> 2 ^ 62"
      using phys(1) l(1) by (simp add: phys_def)
    note d = pinv_data [OF P1(1) c(1) P1(3) c1(1) e(1) e(2-4) [unfolded phys_def] u [unfolded phys_def] r l(2) P2_def]
    have "stored_layer ?n (ptab ?n P2) (C(c := data)) = (stored_layer ?n (ptab ?n P) C)(c \<mapsto> data)"
      unfolding d(3) P1(4) by (rule view_upd(2) [OF tl cs(4) e(1)])
    moreover have "unat (p_alloc P2) \<le> unat (p_alloc P) + 2 * csz q"
      using d(2) P1(2) l(1) by simp
    ultimately show ?thesis
      using run d(1) unfolding P2_def [symmetric] by blast
  qed
  show ?thesis
  proof (cases "?m < csz q - 4")
    case True
    define g1 where "g1 = write_at g (unat phys) (be32 (of_nat ?m))"
    define g2 where "g2 = write_at g1 (unat phys + 4) ?cb"
    let ?len = "align4096 (4 + ?m)" and ?e = "LBD_QCOW2_L2_COMPRESSED OR phys"
    have len: "?len \<le> csz q" "4 + ?m \<le> ?len" "unat (ucast (packed_size ?m) :: u64) = ?len"
      using True cs align4096_le [of "4 + ?m" "csz q"] le_align4096 [of "4 + ?m"] unat_packed_size [of ?m] by simp_all
    note fr = lz4c.framed [OF mx(1,2) g2_def [unfolded g1_def]] and ep = entry_comp [OF phys(2)]
    have "unch {unat phys..<unat phys + ?len} g g1" "unch {unat phys..<unat phys + ?len} g1 g2"
      unfolding g1_def g2_def using len(2) by (intro unch_write; auto)+
    then have u: "unch {unat phys..<unat phys + ?len} g g2"
      by (rule unch_trans)
    have m0: "?cb \<noteq> []"
      using compress_bound [OF mx(1)] by auto
    have lg: "length g2 \<le> unat phys + ?len"
      using c1(2) len(2) m0 by (simp add: g2_def g1_def length_write_at phys_def)
    have p4: "unat (phys + 4) = unat phys + 4"
      using phys(2) unat_plus_u64 [of phys 4] by simp
    have w1: "pwrite path (be32 (of_nat ?m)) phys w = (True, w\<lparr>files := (files w)(path \<mapsto> g1)\<rparr>)"
      using pwrite_Nil [OF w, of phys "be32 (of_nat ?m)"] phys(2) by (simp add: g1_def)
    have w2: "pwrite path ?cb (phys + 4) (w\<lparr>files := (files w)(path \<mapsto> g1)\<rparr>) = (True, w\<lparr>files := (files w)(path \<mapsto> g2)\<rparr>)"
      using pwrite_Nil [of "w\<lparr>files := (files w)(path \<mapsto> g1)\<rparr>" path g1 "phys + 4" ?cb] w(1) p4 phys(2) m32 by (simp add: g2_def)
    have run: "pack_cluster path ?cs ?i ?j data P w = (Inr (P1\<lparr>p_l2 := (p_l2 P1)[?i := (p_l2 P1 ! ?i)[?j := ?e]],
        p_alloc := p_alloc P1 + ucast (packed_size ?m)\<rparr>), w\<lparr>files := (files w)(path \<mapsto> g2)\<rparr>)"
      unfolding pack_cluster_def Let_def P1_def [symmetric] phys_def [symmetric] LZ4_compress_default_def LZ4_compress_fast_def lt htobe_val
      using True w1 w2 m0 by (simp add: phys_def)
    have "ext_len (csz q) g2 ?e = ?len" "stored (csz q) g2 ?e data"
      using ep fr data phys(2) lz4c.fits [OF mx(1)] lz4c.exact [OF mx(3,1)] by (simp_all add: ext_len_def stored_def Let_def)
    then show ?thesis
      using fin [of ?e g2 ?len] ep u lg len(1,3) run by blast
  next
    case False
    define g1 where "g1 = write_at g (unat phys) data"
    note ep = entry_plain [OF phys(2)]
    have u: "unch {unat phys..<unat phys + csz q} g g1"
      unfolding g1_def using data by (intro unch_write) simp
    have lg: "length g1 \<le> unat phys + csz q"
      using c1(2) data by (simp add: g1_def length_write_at phys_def)
    have w1: "pwrite path data phys w = (True, w\<lparr>files := (files w)(path \<mapsto> g1)\<rparr>)"
      using pwrite_Nil [OF w, of phys data] phys(1) data by (simp add: g1_def)
    have run: "pack_cluster path ?cs ?i ?j data P w = (Inr (P1\<lparr>p_l2 := (p_l2 P1)[?i := (p_l2 P1 ! ?i)[?j := phys]],
        p_alloc := p_alloc P1 + ucast ?cs\<rparr>), w\<lparr>files := (files w)(path \<mapsto> g1)\<rparr>)"
      unfolding pack_cluster_def Let_def P1_def [symmetric] phys_def [symmetric] LZ4_compress_default_def LZ4_compress_fast_def lt
      using False w1 by (simp add: phys_def)
    have "ext_len (csz q) g1 phys = csz q" "stored (csz q) g1 phys data"
      using ep data phys(2,3) mx(3) read_write_same [of g "unat phys" data] by (simp_all add: ext_len_def stored_def g1_def length_write_at)
    then show ?thesis
      using fin [of phys g1 "csz q" "ucast ?cs"] ep phys(3) u lg run by simp
  qed
qed

section \<open>Finishing an image\<close>

lemma table_encode_eq: "table_encode tab = concat (map be64 tab)"
  by (simp add: table_encode_def htobe_val cong: map_cong)

lemma table_block_eq:
  assumes "crc_agrees crc" "8 * n + 8 = cs" "length tab = n"
  shows "table_block cs n tab = l2_encode crc cs n tab"
proof -
  let ?raw = "concat (map be64 tab) @ replicate (cs - 8 * n) 0"
  have "length ?raw = cs"
    using assms(2,3) by (simp add: length_concat_be64)
  then show ?thesis
    using assms by (simp add: table_block_def l2_encode_def Let_def table_encode_eq length_concat_be64 put32_blit crc_agrees_def)
qed

text \<open>The bytes of the tables in a list of table positions.\<close>

definition tab_area :: "nat \<Rightarrow> (u64 \<times> u64 list) list \<Rightarrow> nat set" where
  "tab_area cs ps = (\<Union>(e, t) \<in> set ps. if e = 0 then {} else {unat e..<unat e + cs})"

definition apart :: "nat \<Rightarrow> u64 \<times> u64 list \<Rightarrow> u64 \<times> u64 list \<Rightarrow> bool" where
  "apart cs x y \<longleftrightarrow> (fst x \<noteq> 0 \<longrightarrow> fst y \<noteq> 0 \<longrightarrow> {unat (fst x)..<unat (fst x) + cs} \<inter> {unat (fst y)..<unat (fst y) + cs} = {})"

lemma pack_tables_spec:
  assumes "plan w = []" "files w path = Some g" and crc: "crc_agrees crc" and cs: "8 * unat n + 8 = unat cs" "unat cs \<le> 16777216"
    and "\<And>e t. (e, t) \<in> set ps \<Longrightarrow> length t = unat n \<and> (e \<noteq> 0 \<longrightarrow> unat e + unat cs \<le> M)" "M \<le> 2 ^ 62" "length g \<le> M"
    and "sorted_wrt (apart (unat cs)) ps"
  shows "\<exists>g'. pack_tables path cs n ps w = (Inr (), w\<lparr>files := (files w)(path \<mapsto> g')\<rparr>) \<and> unch (tab_area (unat cs) ps) g g' \<and>
    length g' \<le> M \<and> (\<forall>(e, t) \<in> set ps. e \<noteq> 0 \<longrightarrow> l2_ok crc (unat cs) (unat n) g' (unat e) t)"
  using assms(1,2,6-)
proof (induction ps arbitrary: w g)
  case Nil
  have "w\<lparr>files := (files w)(path \<mapsto> g)\<rparr> = w"
    using Nil.prems(2) by (cases w) (simp add: fun_upd_idem)
  then show ?case
    using Nil.prems(5) by (intro exI [of _ g]) (simp del: fun_upd_apply)
next
  case (Cons p ps)
  obtain e t where p: "p = (e, t)"
    by (cases p)
  have ps: "\<And>e t. (e, t) \<in> set ps \<Longrightarrow> length t = unat n \<and> (e \<noteq> 0 \<longrightarrow> unat e + unat cs \<le> M)" "sorted_wrt (apart (unat cs)) ps"
    using Cons.prems(3) [OF list.set_intros(2)] Cons.prems(6) by simp_all
  show ?case
  proof (cases "e = 0")
    case True
    then have "pack_tables path cs n (p # ps) w = pack_tables path cs n ps w" "tab_area (unat cs) (p # ps) = tab_area (unat cs) ps"
      by (simp_all add: p tab_area_def)
    then show ?thesis
      using Cons.IH [OF Cons.prems(1,2) ps(1) Cons.prems(4,5) ps(2)] True by (simp add: p)
  next
    case False
    have et: "length t = unat n" "unat e + unat cs \<le> M"
      using Cons.prems(3) [of e t] False p by auto
    define g1 where "g1 = write_at g (unat e) (l2_encode crc (unat cs) (unat n) t)"
    have le: "length (l2_encode crc (unat cs) (unat n) t) = unat cs"
      using cs by (intro length_l2_encode) simp_all
    have "pwrite path (l2_encode crc (unat cs) (unat n) t) e w = (True, w\<lparr>files := (files w)(path \<mapsto> g1)\<rparr>)"
      using pwrite_Nil [OF Cons.prems(1,2), of e] et(2) Cons.prems(4) le by (simp add: g1_def)
    then have run: "pack_tables path cs n (p # ps) w = pack_tables path cs n ps (w\<lparr>files := (files w)(path \<mapsto> g1)\<rparr>)"
      using Cons.prems(1) False table_block_eq [OF crc cs(1) et(1)] by (simp add: p)
    have u1: "unch {unat e..<unat e + unat cs} g g1"
      unfolding g1_def using le by (intro unch_write) simp
    have l1: "length g1 \<le> M"
      using Cons.prems(5) et(2) le by (simp add: g1_def length_write_at)
    have ok1: "l2_ok crc (unat cs) (unat n) g1 (unat e) t"
      using l2_ok_write [of "unat n" "unat cs" t crc g "unat e"] cs(1) et(1) by (simp add: g1_def)
    obtain g' where g': "pack_tables path cs n ps (w\<lparr>files := (files w)(path \<mapsto> g1)\<rparr>) = (Inr (), w\<lparr>files := (files w)(path \<mapsto> g')\<rparr>)"
      "unch (tab_area (unat cs) ps) g1 g'" "length g' \<le> M" "\<forall>(e, t) \<in> set ps. e \<noteq> 0 \<longrightarrow> l2_ok crc (unat cs) (unat n) g' (unat e) t"
    proof -
      let ?w = "w\<lparr>files := (files w)(path \<mapsto> g1)\<rparr>"
      have "\<exists>g'. pack_tables path cs n ps ?w = (Inr (), ?w\<lparr>files := (files ?w)(path \<mapsto> g')\<rparr>) \<and>
          unch (tab_area (unat cs) ps) g1 g' \<and> length g' \<le> M \<and> (\<forall>(e, t) \<in> set ps. e \<noteq> 0 \<longrightarrow> l2_ok crc (unat cs) (unat n) g' (unat e) t)"
        (is "\<exists>g'. ?P g'")
        by (rule Cons.IH [OF _ _ ps(1) Cons.prems(4) l1 ps(2)]) (simp_all add: Cons.prems(1))
      then obtain g' where g': "?P g'"
        by blast
      moreover have "?w\<lparr>files := (files ?w)(path \<mapsto> g')\<rparr> = w\<lparr>files := (files w)(path \<mapsto> g')\<rparr>"
        by (simp del: fun_upd_apply)
      ultimately show ?thesis
        by (intro that [of g']) auto
    qed
    have "{unat e..<unat e + unat cs} \<inter> tab_area (unat cs) ps = {}"
    proof -
      have "{unat e..<unat e + unat cs} \<inter> {unat e'..<unat e' + unat cs} = {}" if "(e', t') \<in> set ps" "e' \<noteq> 0" for e' t'
      proof -
        have "apart (unat cs) p (e', t')"
          using Cons.prems(6) that by simp
        then show ?thesis
          using that False by (simp only: apart_def p fst_conv simp_thms if_False)
      qed
      moreover have "\<exists>e' t'. (e', t') \<in> set ps \<and> e' \<noteq> 0 \<and> x \<in> {unat e'..<unat e' + unat cs}" if "x \<in> tab_area (unat cs) ps" for x
        using that unfolding tab_area_def by (auto split: if_splits)
      ultimately show ?thesis
        by blast
    qed
    then have "l2_ok crc (unat cs) (unat n) g' (unat e) t"
      by (rule l2_ok_frame [OF ok1 g'(2)])
    moreover have "tab_area (unat cs) (p # ps) = {unat e..<unat e + unat cs} \<union> tab_area (unat cs) ps"
      using False by (simp add: tab_area_def p)
    then have "unch (tab_area (unat cs) (p # ps)) g g'"
      by (simp only:) (rule unch_trans [OF unch_mono [OF u1 Un_upper1] unch_mono [OF g'(2) Un_upper2]])
    ultimately show ?thesis
      using run g'(1,3,4) by (intro exI [of _ g']) (simp add: p del: fun_upd_apply)
  qed
qed

lemma packed_header_bytes:
  "packed_header bits vs off l1n alloc =
     be64 LBD_QCOW2_MAGIC @ be32 LBD_QCOW2_VERSION @ be32 bits @ be64 vs @ be64 off @ be32 l1n @
     be64 alloc @ be32 LBD_QCOW2_COMP_LZ4 @ be64 0 @ replicate 4040 0"
  unfolding packed_header_def Let_def hdr_setter_defs offset_defs LBD_QCOW2_HEADER_SIZE_def
  by (simp add: put64_blit put32_blit length_blit) (simp add: blit_def)

lemma length_packed_header [simp]: "length (packed_header bits vs off l1n alloc) = 4096"
  by (simp add: packed_header_bytes)

text \<open>The tables of a packed image are apart from each other.\<close>

lemma packed_tables:
  assumes p: "pinv q P g C"
  shows "sorted_wrt (apart (csz q)) (zip (p_l1 P) (p_l2 P))"
    "(e, t) \<in> set (zip (p_l1 P) (p_l2 P)) \<Longrightarrow> length t = nent q \<and> (e \<noteq> 0 \<longrightarrow> unat e + csz q \<le> unat (p_alloc P))"
    "tab_area (csz q) (zip (p_l1 P) (p_l2 P)) = (\<Union>i. lay (pq q P) g (ptab (nent q) P) [] (L2 i))"
proof -
  let ?G = "lay (pq q P) g (ptab (nent q) P) []"
  have len: "length (p_l1 P) = unat (l1_size q)" "length (p_l2 P) = unat (l1_size q)" and g: "geom (pq q P)"
    using p l1_len [of "pq q P"] by (simp_all add: pinv_def)
  have sep: "sep ?G" and sub: "\<And>a. ?G a \<subseteq> {..<unat (p_alloc P)}" and tl: "\<And>i. length (ptab (nent q) P i) = nent q"
    using p unfolding pinv_def by blast+
  have G: "?G (L2 i) = {unat (p_l1 P ! i)..<unat (p_l1 P ! i) + csz q}" if "i < unat (l1_size q)" "p_l1 P ! i \<noteq> 0" for i
    using that by simp
  show "sorted_wrt (apart (csz q)) (zip (p_l1 P) (p_l2 P))"
    unfolding sorted_wrt_iff_nth_less apart_def
  proof (intro allI impI)
    fix i j assume "i < j" "j < length (zip (p_l1 P) (p_l2 P))" "fst (zip (p_l1 P) (p_l2 P) ! i) \<noteq> 0" "fst (zip (p_l1 P) (p_l2 P) ! j) \<noteq> 0"
    then show "{unat (fst (zip (p_l1 P) (p_l2 P) ! i))..<unat (fst (zip (p_l1 P) (p_l2 P) ! i)) + csz q} \<inter>
        {unat (fst (zip (p_l1 P) (p_l2 P) ! j))..<unat (fst (zip (p_l1 P) (p_l2 P) ! j)) + csz q} = {}"
      using sep_disj [OF sep, of "L2 i" "L2 j"] G [of i] G [of j] len by simp
  qed
  have zp: "(e, t) \<in> set (zip (p_l1 P) (p_l2 P)) \<longleftrightarrow> (\<exists>i < unat (l1_size q). e = p_l1 P ! i \<and> t = p_l2 P ! i)" for e t
    using len by (auto simp: in_set_zip)
  show "(e, t) \<in> set (zip (p_l1 P) (p_l2 P)) \<Longrightarrow> length t = nent q \<and> (e \<noteq> 0 \<longrightarrow> unat e + csz q \<le> unat (p_alloc P))"
  proof -
    assume "(e, t) \<in> set (zip (p_l1 P) (p_l2 P))"
    then obtain i where i: "i < unat (l1_size q)" "e = p_l1 P ! i" "t = p_l2 P ! i"
      using zp by blast
    have "unat e + csz q - 1 \<in> ?G (L2 i)" if "e \<noteq> 0"
      using that i csz_ge [OF g] G [of i] by auto
    then have "e \<noteq> 0 \<longrightarrow> unat e + csz q \<le> unat (p_alloc P)"
      using sub [of "L2 i"] by fastforce
    then show ?thesis
      using tl [of i] i len by (simp add: ptab_def)
  qed
  show "tab_area (csz q) (zip (p_l1 P) (p_l2 P)) = (\<Union>i. ?G (L2 i))"
    unfolding tab_area_def using zp by (fastforce split: if_splits)
qed

lemma unch_take: "length g \<le> n \<Longrightarrow> unch W g (take n g @ replicate (n - length g) 0)"
  by (simp add: unch_def nth_append)

lemma pack_finish_spec:
  assumes w: "plan w = []" "files w path = Some g" and p: "pinv q P g C" and crc: "crc_agrees crc"
    and o: "unat (l1_offset q) < 2 ^ 62"
  shows "\<exists>f. pack_finish path (cluster_bits q) (cluster_size q) (l2_entries q) (virtual_size q) (l1_offset q) (l1_size q) P w =
      (Inr (), w\<lparr>files := (files w)(path \<mapsto> f)\<rparr>) \<and>
    dinv crc (pq q P) f (ptab (nent q) P) C [] \<and> read_at f 36 8 = be64 (p_alloc P) \<and> length f = unat (p_alloc P)"
proof -
  let ?n = "nent q" and ?T = "ptab (nent q) P" and ?a = "unat (p_alloc P)" and ?o = "unat (l1_offset q)" and ?l = "unat (l1_size q)"
  let ?G = "lay (pq q P) g ?T []" and ?ps = "zip (p_l1 P) (p_l2 P)"
  have p': "geom (pq q P)" "length (p_l2 P) = ?l" "\<And>i. length (?T i) = ?n"
    "\<And>i. i < ?l \<Longrightarrow> p_l1 P ! i = 0 \<Longrightarrow> p_l2 P ! i = replicate ?n 0" "sep ?G" "\<And>b. ?G b \<subseteq> {..<?a}"
    "\<And>c. ent ?n ?T c \<noteq> 0 \<Longrightarrow> stored (csz q) g (ent ?n ?T c) (C c)" "length g \<le> ?a" "?o + 8 * ?l \<le> ?a" "?a \<le> 2 ^ 62"
    using p unfolding pinv_def by blast+
  have cs: "8 * ?n + 8 = csz q" "csz q \<le> 16777216" "length (p_l1 P) = ?l"
    using nent_csz [OF p'(1)] csz_le [OF p'(1)] l1_len [OF p'(1)] by simp_all
  note tb = packed_tables [OF p]
  obtain g1 where g1: "pack_tables path (cluster_size q) (l2_entries q) ?ps w = (Inr (), w\<lparr>files := (files w)(path \<mapsto> g1)\<rparr>)"
    "unch (\<Union>i. ?G (L2 i)) g g1" "length g1 \<le> ?a" "\<forall>(e, t) \<in> set ?ps. e \<noteq> 0 \<longrightarrow> l2_ok crc (csz q) ?n g1 (unat e) t"
    using pack_tables_spec [OF w crc cs(1,2) tb(2) p'(10,8) tb(1)] unfolding tb(3) by blast
  let ?hdr = "packed_header (cluster_bits q) (virtual_size q) (l1_offset q) (l1_size q) (p_alloc P)" and ?l1 = "concat (map be64 (p_l1 P))"
  define g2 where "g2 = write_at g1 0 ?hdr"
  define g3 where "g3 = write_at g2 ?o ?l1"
  define f where "f = take ?a g3 @ replicate (?a - length g3) 0"
  have ll: "length ?l1 = 8 * ?l"
    using cs(3) by (simp add: length_concat_be64)
  have lens: "length g2 \<le> ?a" "length g3 \<le> ?a"
    using g1(3) pinv_alloc [OF p] p'(9) ll by (simp_all add: g2_def g3_def length_write_at)
  have lf: "length f = ?a"
    using lens(2) by (simp add: f_def)
  have w2: "pwrite path ?hdr 0 (w\<lparr>files := (files w)(path \<mapsto> g1)\<rparr>) = (True, w\<lparr>files := (files w)(path \<mapsto> g2)\<rparr>)"
    using pwrite_Nil [of "w\<lparr>files := (files w)(path \<mapsto> g1)\<rparr>" path g1 0 ?hdr] w(1) by (simp add: g2_def)
  have w3: "pwrite path ?l1 (l1_offset q) (w\<lparr>files := (files w)(path \<mapsto> g2)\<rparr>) = (True, w\<lparr>files := (files w)(path \<mapsto> g3)\<rparr>)"
    using pwrite_Nil [of "w\<lparr>files := (files w)(path \<mapsto> g2)\<rparr>" path g2 "l1_offset q" ?l1] w(1) ll p'(9,10) by (simp add: g3_def)
  have w4: "ftruncate path (p_alloc P) (w\<lparr>files := (files w)(path \<mapsto> g3)\<rparr>) = (True, w\<lparr>files := (files w)(path \<mapsto> f)\<rparr>)"
    using w(1) p'(10) by (simp add: ftruncate_def contents_def f_def)
  have run: "pack_finish path (cluster_bits q) (cluster_size q) (l2_entries q) (virtual_size q) (l1_offset q) (l1_size q) P w =
      (Inr (), w\<lparr>files := (files w)(path \<mapsto> f)\<rparr>)"
    using g1(1) w2 w3 w4 w(1) by (simp add: pack_finish_def table_encode_eq)
  have u2: "unch (?G Hdr) g1 g2" and u3: "unch (?G L1) g2 g3" and u4: "unch {} g3 f"
    using unch_take [OF lens(2)] ll by (auto simp: g2_def g3_def f_def intro!: unch_write)
  have u23: "unch (?G L1) g2 f"
    using u3 unch_mono [OF u4] by (blast intro: unch_trans)
  have u13: "unch (?G Hdr \<union> ?G L1) g1 f"
    using unch_mono [OF u2, of "?G Hdr \<union> ?G L1"] unch_mono [OF u23, of "?G Hdr \<union> ?G L1"] by (blast intro: unch_trans)
  have u: "unch (?G Hdr \<union> ?G L1 \<union> (\<Union>i. ?G (L2 i))) g f"
    using unch_mono [OF g1(2), of "?G Hdr \<union> ?G L1 \<union> (\<Union>i. ?G (L2 i))"] unch_mono [OF u13, of "?G Hdr \<union> ?G L1 \<union> (\<Union>i. ?G (L2 i))"]
    by (blast intro: unch_trans)
  have dj: "a \<noteq> b \<Longrightarrow> ?G a \<inter> ?G b = {}" for a b
    by (rule sep_disj [OF p'(5)])
  have ne: "?hdr \<noteq> []"
    by (metis length_packed_header list.size(3) zero_neq_numeral)
  have hd: "read_at f x k = read_at ?hdr x k" if "x + k \<le> 4096" for x k
  proof -
    have "{x..<x + k} \<inter> ?G L1 = {}"
      using dj [of Hdr L1] that by fastforce
    moreover have "x + k \<le> length g2"
      using that ne by (simp add: g2_def length_write_at)
    ultimately have "read_at f x k = read_at g2 x k"
      by (intro unch_read [OF u23])
    moreover have "read_at g2 0 4096 = ?hdr"
      using read_write_same [of g1 0 ?hdr] by (simp add: g2_def)
    then have "read_at g2 x k = read_at ?hdr x k"
      using read_read [OF that, of g2 0] by simp
    ultimately show ?thesis
      by simp
  qed
  have hdr: "hdr_ok (pq q P) f"
    using pinv_alloc [OF p] hd [of 0 36] by (simp add: hdr_ok_def lf) (simp add: packed_header_bytes read_at_def)
  have f36: "read_at f 36 8 = be64 (p_alloc P)" "read_at f 48 8 = be64 0"
    using hd [of 36 8] hd [of 48 8] by (simp_all add: packed_header_bytes read_at_def)
  have l1: "l1_disk (pq q P) f"
  proof -
    have "read_at f (?o + 8 * i) 8 = be64 (p_l1 P ! i)" if "i < ?l" for i
    proof -
      have "read_at f (?o + 8 * i) 8 = read_at g3 (?o + 8 * i) 8"
        using that ll by (intro unch_read [OF u4]) (auto simp: g3_def length_write_at)
      also have "\<dots> = read_at (read_at g3 ?o (8 * ?l)) (8 * i) 8"
        using that by (subst read_read) simp_all
      also have "read_at g3 ?o (8 * ?l) = ?l1"
        using read_write_same [of g2 ?o ?l1] ll that by (simp add: g3_def)
      finally show ?thesis
        using read_concat_be64 [of i "p_l1 P" "[]"] that cs(3) by simp
    qed
    then show ?thesis
      using p'(9,10) lf o by (simp add: l1_disk_def)
  qed
  have data: "stored (csz q) f (ent ?n ?T c) (C c) \<and> ext_len (csz q) f (ent ?n ?T c) = ext_len (csz q) g (ent ?n ?T c)" if "ent ?n ?T c \<noteq> 0" for c
  proof (rule stored_frame [OF p'(7) [OF that] u that])
    show "{entry_phys (ent ?n ?T c)..<entry_phys (ent ?n ?T c) + ext_len (csz q) g (ent ?n ?T c)} \<inter>
        (?G Hdr \<union> ?G L1 \<union> (\<Union>i. ?G (L2 i))) = {}"
    proof -
      have "?G (Data c) \<inter> (?G Hdr \<union> ?G L1 \<union> (\<Union>i. ?G (L2 i))) = {}"
        using dj [of "Data c" Hdr] dj [of "Data c" L1] dj [of "Data c" "L2 i" for i] by blast
      moreover have "{entry_phys (ent ?n ?T c)..<entry_phys (ent ?n ?T c) + ext_len (csz q) g (ent ?n ?T c)} = ?G (Data c)"
        by simp
      ultimately show ?thesis
        by (simp only:)
    qed
  qed
  then have "ext_len (csz q) f (ent ?n ?T c) = ext_len (csz q) g (ent ?n ?T c)" for c
    by (cases "ent ?n ?T c = 0") (simp_all add: ext_len_def)
  then have "lay (pq q P) f ?T [] b = ?G b" for b
    by (cases b) simp_all
  then have G: "lay (pq q P) f ?T [] = ?G"
    by (rule ext)
  have "space (lay (pq q P) f ?T []) ?a f [] 0"
    unfolding G by (rule spaceI) (use p'(5,6,10) lf pinv_alloc [OF p] in auto)
  moreover have "l2disk crc (csz q) ?n (p_l1 P) ?l f ?T"
  proof -
    have "l2_ok crc (csz q) ?n f (unat (p_l1 P ! i)) (?T i) \<and> unat (p_l1 P ! i) + csz q < 2 ^ 63" if i: "i < ?l" "p_l1 P ! i \<noteq> 0" for i
    proof -
      have z: "(p_l1 P ! i, ?T i) \<in> set ?ps"
        using i p'(2) cs(3) by (auto simp: in_set_zip ptab_def)
      have "{unat (p_l1 P ! i)..<unat (p_l1 P ! i) + csz q} = ?G (L2 i)"
        using i by simp
      then have "{unat (p_l1 P ! i)..<unat (p_l1 P ! i) + csz q} \<inter> (?G Hdr \<union> ?G L1) = {}"
        using dj [of "L2 i" Hdr] dj [of "L2 i" L1] by (simp add: Int_Un_distrib)
      then show ?thesis
        using l2_ok_frame [OF _ u13] g1(4) z i(2) tb(2) [OF z] p'(10) by fastforce
    qed
    moreover have "?T i = replicate ?n 0" if "\<not> (i < ?l \<and> p_l1 P ! i \<noteq> 0)" for i
      using that p'(2,4) by (auto simp: ptab_def)
    ultimately show ?thesis
      using p'(3) by (simp add: l2disk_def)
  qed
  ultimately have "dinv crc (pq q P) f ?T C []"
    using p'(1) hdr l1 f36(2) data by (simp add: dinv_def)
  then show ?thesis
    using run f36(1) lf by blast
qed

end
