(* ===== verification/Lbdctl_Convert.thy ===== *)
theory Lbdctl_Convert
  imports Lbdctl_Packing
begin

text \<open>
  What \<open>cmd_convert\<close> and \<open>cmd_compact\<close> (\<^verbatim>\<open>src/src/lbdctl.c\<close>) leave on disk: an image that the
  driver attaches and that shows the flat file, or what the image showed before.
\<close>

section \<open>Packing a layer\<close>

text \<open>The first \<open>k\<close> clusters of a layer, without the clusters of zeros.\<close>

definition packed :: "nat \<Rightarrow> (nat \<rightharpoonup> bytes) \<Rightarrow> nat \<Rightarrow> (nat \<rightharpoonup> bytes)" where
  "packed cs L k = (\<lambda>c. if c < k \<and> L c \<noteq> Some (replicate cs 0) then L c else None)"

lemma shown_packed: "c < k \<Longrightarrow> shown cs (packed cs L k, Map.empty) c = shown cs (L, Map.empty) c"
  by (auto simp: shown_def packed_def split: option.splits)

definition packing :: "lbd_qcow2 \<Rightarrow> (nat \<rightharpoonup> bytes) \<Rightarrow> nat \<Rightarrow> nat \<Rightarrow> packer \<Rightarrow> bytes \<Rightarrow> bool" where
  "packing q L a k P g \<longleftrightarrow>
     (\<exists>C. pinv q P g C \<and> stored_layer (nent q) (ptab (nent q) P) C = packed (csz q) L k \<and>
        unat (p_alloc P) \<le> a + 2 * csz q * k)"

lemma packing_start:
  assumes g: "geom q" and a: "4096 \<le> unat al" "unat (l1_offset q) + 8 * unat (l1_size q) \<le> unat al" "unat al \<le> 2 ^ 62" "length g \<le> unat al"
    and d: "unat (l1_size q) = 0 \<or> 4096 \<le> unat (l1_offset q)"
    and P: "P = \<lparr>p_l1 = replicate (unat (l1_size q)) 0, p_l2 = replicate (unat (l1_size q)) (replicate (nent q) 0), p_alloc = al\<rparr>"
  shows "packing q L (unat al) 0 P g"
proof -
  let ?n = "nent q" and ?T = "ptab (nent q) P"
  have T: "?T i = replicate ?n 0" for i
    by (simp add: ptab_def P)
  have e: "ent ?n ?T c = 0" for c
    using nent_pos [OF g] by (simp add: ent_def T)
  have lay: "lay (pq q P) g ?T [] a = (case a of Hdr \<Rightarrow> {0..<4096} | L1 \<Rightarrow> {unat (l1_offset q)..<unat (l1_offset q) + 8 * unat (l1_size q)} | _ \<Rightarrow> {})" for a
    using e by (cases a) (auto simp: P ext_len_def)
  have "sep (lay (pq q P) g ?T [])"
    unfolding sep_def lay using d by (auto split: owner.splits)
  moreover have "lay (pq q P) g ?T [] b \<subseteq> {..<unat al}" for b
    using a(1,2) unfolding lay by (cases b) auto
  moreover have "geom (pq q P)"
    using g by (simp add: geom_def P)
  ultimately have "pinv q P g (\<lambda>_. [])"
    unfolding pinv_def using a e T by (simp add: P)
  moreover have "stored_layer ?n ?T (\<lambda>_. []) = packed (csz q) L 0"
    by (simp add: stored_layer_def packed_def e)
  ultimately show ?thesis
    unfolding packing_def by (intro exI [of _ "\<lambda>_. []"]) (simp add: P)
qed

lemma packing_skip:
  assumes "packing q L a k P g" "L k = None \<or> L k = Some (replicate (csz q) 0)"
  shows "packing q L a (Suc k) P g"
proof -
  have "packed (csz q) L (Suc k) = packed (csz q) L k"
    using assms(2) by (auto simp: packed_def fun_eq_iff less_Suc_eq)
  moreover have "a + 2 * csz q * k \<le> a + 2 * csz q * Suc k"
    by simp
  ultimately show ?thesis
    using assms(1) unfolding packing_def by (auto intro: order_trans)
qed

lemma packing_put:
  assumes w: "plan w = []" "files w path = Some g" and p: "packing q L a k P g"
    and b: "L k = Some data" "data \<noteq> replicate (csz q) 0" "length data = csz q"
    and k: "k div nent q < unat (l1_size q)" "a + 2 * csz q * Suc k \<le> 2 ^ 62"
  shows "\<exists>P' g'. pack_cluster path (cluster_size q) (k div nent q) (k mod nent q) data P w =
      (Inr P', w\<lparr>files := (files w)(path \<mapsto> g')\<rparr>) \<and> packing q L a (Suc k) P' g'"
proof -
  obtain C where C: "pinv q P g C" "stored_layer (nent q) (ptab (nent q) P) C = packed (csz q) L k" "unat (p_alloc P) \<le> a + 2 * csz q * k"
    using p by (auto simp: packing_def)
  have "stored_layer (nent q) (ptab (nent q) P) C k = None"
    by (simp add: C(2) packed_def)
  then have e: "ent (nent q) (ptab (nent q) P) k = 0"
    by (simp add: stored_layer_def split: if_splits)
  have room: "unat (p_alloc P) + 2 * csz q \<le> 2 ^ 62"
    using C(3) k(2) by simp
  have "(packed (csz q) L k)(k \<mapsto> data) = packed (csz q) L (Suc k)"
    using b by (auto simp: packed_def fun_eq_iff)
  then obtain P' g' where "pack_cluster path (cluster_size q) (k div nent q) (k mod nent q) data P w = (Inr P', w\<lparr>files := (files w)(path \<mapsto> g')\<rparr>)"
    "pinv q P' g' (C(k := data))" "stored_layer (nent q) (ptab (nent q) P') (C(k := data)) = packed (csz q) L (Suc k)"
    "unat (p_alloc P') \<le> unat (p_alloc P) + 2 * csz q"
    using pack_cluster_spec [OF w C(1) k(1) e b(3) room] C(2) by auto
  moreover have "unat (p_alloc P) + 2 * csz q \<le> a + 2 * csz q * Suc k"
    using C(3) by simp
  ultimately show ?thesis
    unfolding packing_def by (meson order_trans)
qed

lemma packing_finish:
  assumes w: "plan w = []" "files w path = Some g" and p: "packing q L a k P g" and crc: "crc_agrees crc" and o: "unat (l1_offset q) < 2 ^ 62"
  shows "\<exists>f T C q'. pack_finish path (cluster_bits q) (cluster_size q) (l2_entries q) (virtual_size q) (l1_offset q) (l1_size q) P w =
      (Inr (), w\<lparr>files := (files w)(path \<mapsto> f)\<rparr>) \<and> q' = pq q P \<and>
    dinv crc q' f T C [] \<and> read_at f 36 8 = be64 (alloc_offset q') \<and> stored_layer (nent q) T C = packed (csz q) L k"
proof -
  obtain C where C: "pinv q P g C" "stored_layer (nent q) (ptab (nent q) P) C = packed (csz q) L k"
    using p by (auto simp: packing_def)
  obtain f where "pack_finish path (cluster_bits q) (cluster_size q) (l2_entries q) (virtual_size q) (l1_offset q) (l1_size q) P w =
      (Inr (), w\<lparr>files := (files w)(path \<mapsto> f)\<rparr>)" "dinv crc (pq q P) f (ptab (nent q) P) C []" "read_at f 36 8 = be64 (p_alloc P)"
    using pack_finish_spec [OF w C(1) crc o] by blast
  then show ?thesis
    using C(2) by (intro exI [of _ f] exI [of _ "ptab (nent q) P"] exI [of _ C] exI [of _ "pq q P"]) (simp del: fun_upd_apply)
qed

text \<open>Attaching a complete image.\<close>

lemma attach_fresh:
  assumes "io_plan dev = []" "dinv crc q (backing_file dev) T C FL" "read_at (backing_file dev) 36 8 = be64 (alloc_offset q)"
    "base dev = None" "\<not> crashed dev"
  shows "lbd_qcow2_init dev = (Inr (), dev\<lparr>qcow2 := fresh q\<rparr>)" "abs_img crc (dev\<lparr>qcow2 := fresh q\<rparr>) (stored_layer (nent q) T C, Map.empty)"
    "synced (dev\<lparr>qcow2 := fresh q\<rparr>)" "virtual_size (fresh q) = virtual_size q" "fits (fresh q) x = fits q x" "csz (fresh q) = csz q"
proof -
  note i = init_spec [OF assms(1-3)] and ff = qshell_fields [OF fresh_fields(1)]
  show "lbd_qcow2_init dev = (Inr (), dev\<lparr>qcow2 := fresh q\<rparr>)"
    by (rule i(1))
  show "abs_img crc (dev\<lparr>qcow2 := fresh q\<rparr>) (stored_layer (nent q) T C, Map.empty)"
    using i(2) [OF assms(4,5)] by (rule abs_imgI) (simp add: ff)
  show "synced (dev\<lparr>qcow2 := fresh q\<rparr>)" "virtual_size (fresh q) = virtual_size q" "fits (fresh q) x = fits q x" "csz (fresh q) = csz q"
    using assms(3) by (simp_all add: synced_def fits_def ff)
qed

section \<open>Converting\<close>

definition flat_byte :: "bytes \<Rightarrow> nat \<Rightarrow> u8" where
  "flat_byte flat x = (if x < length flat then flat ! x else 0)"

definition flat_layer :: "bytes \<Rightarrow> nat \<Rightarrow> (nat \<rightharpoonup> bytes)" where
  "flat_layer flat cs = (\<lambda>c. Some (map (flat_byte flat) [c * cs..<(c + 1) * cs]))"

lemma flat_cluster:
  assumes "m = min (length flat) ((c + 1) * cs) - c * cs" "c * cs < length flat"
  shows "blit (replicate cs 0) 0 (read_at flat (c * cs) m) = map (flat_byte flat) [c * cs..<(c + 1) * cs]"
proof -
  have l: "length (read_at flat (c * cs) m) = m" "m \<le> cs" "c * cs + m \<le> length flat"
    using assms by (auto simp: length_read_at)
  have "\<not> c * cs + i < length flat" if "m \<le> i" "i < cs" for i
    using that assms by (auto simp: flat_byte_def min_def split: if_splits)
  then show ?thesis
    using l by (intro nth_equalityI) (auto simp: blit_def nth_append nth_read_at flat_byte_def)
qed

lemma convert_cluster_spec:
  assumes w: "plan w = []" "files w fp = Some flat" "files w path = Some g" "fp \<noteq> path"
    and q: "geom q" "unat (virtual_size q) = length flat" "fits q (length flat)" and c: "c * csz q < length flat"
    and p: "packing q (flat_layer flat (csz q)) a c P g" "a + 2 * csz q * Suc c \<le> 2 ^ 62"
  shows "\<exists>P' g'. convert_cluster fp path (cluster_size q) (l2_entries q) (virtual_size q) (of_nat c) P w =
      (Inr P', w\<lparr>files := (files w)(path \<mapsto> g')\<rparr>) \<and> packing q (flat_layer flat (csz q)) a (Suc c) P' g'"
proof -
  let ?cs = "csz q" and ?n = "nent q" and ?vs = "virtual_size q" and ?cl = "map (flat_byte flat) [c * csz q..<(c + 1) * csz q]"
  have cs: "4096 \<le> ?cs" "?cs \<le> 16777216" "0 < ?n"
    using csz_ge [OF q(1)] csz_le [OF q(1)] nent_pos [OF q(1)] by simp_all
  have fl: "length flat \<le> 2 ^ 62" "length flat \<le> 2 ^ 32 * ?n * ?cs"
    using fits_inside [OF q(3)] by (simp_all add: inside_def)
  have cc: "(c + 1) * ?cs < 2 ^ 63"
    using c cs(2) fl(1) by (simp add: algebra_simps)
  have c64: "c + 1 < 2 ^ 63"
    using cc cs(1) by (metis (no_types, lifting) le_less_trans mult_le_mono2 mult.right_neutral one_le_numeral order_trans)
  have cn: "c < 2 ^ 32 * ?n"
    using c fl(2) by (metis less_le_trans mult_less_cancel2)
  have u: "unat (of_nat c :: u64) = c"
    using c64 by (simp add: unat_of_nat_u64)
  have pp: "unat ((of_nat c :: u64) * ucast (cluster_size q)) = c * ?cs" "unat ((of_nat c + 1 :: u64) * ucast (cluster_size q)) = (c + 1) * ?cs"
    using cc u c64 by (simp_all add: unat_mult_lem [THEN iffD1] unat_plus_u64)
  define tr where "tr = (if (of_nat c + 1) * ucast (cluster_size q) > ?vs then ?vs - of_nat c * ucast (cluster_size q) else ucast (cluster_size q))"
  have tr: "unat tr = min (length flat) ((c + 1) * ?cs) - c * ?cs"
    using pp c q(2) by (auto simp: tr_def word_less_nat_alt not_less unat_sub word_le_nat_alt min_def)
  have ix: "unat (ucast ((of_nat c :: u64) div ucast (l2_entries q)) :: u32) = c div ?n" "unat (ucast ((of_nat c :: u64) mod ucast (l2_entries q)) :: u32) = c mod ?n"
    using table_indices [OF cn] c64 by simp_all
  have l1: "c div ?n < unat (l1_size q)"
    using fits_l1 [OF q(3) c] cs(1) by simp
  have "pos_ok ((of_nat c :: u64) * ucast (cluster_size q)) (unat tr)"
    using pp cc c tr by (simp add: pos_ok_def)
  then have rd: "pread fp (unat tr) (of_nat c * ucast (cluster_size q)) w = (Inr (read_at flat (c * ?cs) (unat tr)), w)"
    using w(1,2) pp(1) by (simp add: pread_def contents_def)
  have bl: "blit (replicate ?cs 0) 0 (read_at flat (c * ?cs) (unat tr)) = ?cl"
    by (rule flat_cluster [OF tr c])
  have lp: "length (p_l1 P) = unat (l1_size q)"
    using p(1) l1_len [of "pq q P"] by (auto simp: packing_def pinv_def)
  have lcl: "length ?cl = ?cs"
    by simp
  have L: "flat_layer flat ?cs c = Some ?cl"
    by (simp add: flat_layer_def)
  have run: "convert_cluster fp path (cluster_size q) (l2_entries q) ?vs (of_nat c) P w =
      (if ?cl = replicate ?cs 0 then (Inr P, w) else pack_cluster path (cluster_size q) (c div ?n) (c mod ?n) ?cl P w)"
    unfolding convert_cluster_def Let_def tr_def [symmetric] ix rd prod.case sum.case bl
    using l1 lp lcl by (simp only: is_all_zero_iff not_le [symmetric] if_False simp_thms)
  show ?thesis
  proof (cases "?cl = replicate ?cs 0")
    case True
    have "w\<lparr>files := (files w)(path \<mapsto> g)\<rparr> = w"
      using w(3) by (cases w) (simp add: fun_upd_idem)
    then show ?thesis
      using run True packing_skip [OF p(1)] L by (intro exI [of _ P] exI [of _ g]) (simp only: if_True simp_thms)
  next
    case False
    show ?thesis
      using packing_put [OF w(1,3) p(1) L False lcl l1 p(2)] run False by (simp only: if_False)
  qed
qed

lemma convert_loop_spec:
  assumes w: "plan w = []" "files w fp = Some flat" "files w path = Some g" "fp \<noteq> path"
    and q: "geom q" "unat (virtual_size q) = length flat" "fits q (length flat)"
    and e: "c \<le> e" "\<And>k. k < e \<Longrightarrow> k * csz q < length flat" "a + 2 * csz q * e \<le> 2 ^ 62"
    and p: "packing q (flat_layer flat (csz q)) a c P g"
  shows "\<exists>P' g'. convert_loop fp path (cluster_size q) (l2_entries q) (virtual_size q) [c..<e] P w =
      (Inr P', w\<lparr>files := (files w)(path \<mapsto> g')\<rparr>) \<and> packing q (flat_layer flat (csz q)) a e P' g'"
  using w(1-3) p e(1)
proof (induction "e - c" arbitrary: c P g w)
  case 0
  have "w\<lparr>files := (files w)(path \<mapsto> g)\<rparr> = w"
    using 0(4) by (cases w) (simp add: fun_upd_idem)
  moreover have "[c..<e] = []" "c = e"
    using 0 by simp_all
  ultimately show ?case
    using 0 by (intro exI [of _ P] exI [of _ g]) (simp only: convert_loop.simps simp_thms)
next
  case (Suc d)
  have ce: "c < e"
    using Suc.hyps(2) by simp
  have "2 * csz q * Suc c \<le> 2 * csz q * e"
    using ce by (intro mult_le_mono2) simp
  then have room: "a + 2 * csz q * Suc c \<le> 2 ^ 62"
    using e(3) by linarith
  obtain P1 g1 where s: "convert_cluster fp path (cluster_size q) (l2_entries q) (virtual_size q) (of_nat c) P w =
      (Inr P1, w\<lparr>files := (files w)(path \<mapsto> g1)\<rparr>)" "packing q (flat_layer flat (csz q)) a (Suc c) P1 g1"
    using convert_cluster_spec [OF Suc.prems(1-3) w(4) q e(2) [OF ce] Suc.prems(4) room] by blast
  let ?w = "w\<lparr>files := (files w)(path \<mapsto> g1)\<rparr>"
  have "\<exists>P' g'. convert_loop fp path (cluster_size q) (l2_entries q) (virtual_size q) [Suc c..<e] P1 ?w =
      (Inr P', ?w\<lparr>files := (files ?w)(path \<mapsto> g')\<rparr>) \<and> packing q (flat_layer flat (csz q)) a e P' g'"
    using Suc.hyps(2) Suc.prems(1,2) w(4) s(2) ce by (intro Suc.hyps(1)) auto
  then obtain P' g' where r: "convert_loop fp path (cluster_size q) (l2_entries q) (virtual_size q) [Suc c..<e] P1 ?w =
      (Inr P', ?w\<lparr>files := (files ?w)(path \<mapsto> g')\<rparr>)" "packing q (flat_layer flat (csz q)) a e P' g'"
    by blast
  moreover have "?w\<lparr>files := (files ?w)(path \<mapsto> g')\<rparr> = w\<lparr>files := (files w)(path \<mapsto> g')\<rparr>"
    by (simp del: fun_upd_apply)
  ultimately show ?case
    using s(1) by (intro exI [of _ P'] exI [of _ g']) (simp only: upt_conv_Cons [OF ce] convert_loop.simps prod.case sum.case simp_thms)
qed

lemma packed_alloc_create: "packed_alloc (of_nat LBD_QCOW2_HEADER_SIZE) l1n cs = image_alloc_offset l1n cs"
  by (simp add: packed_alloc_def image_alloc_offset_def Let_def)

lemma shell_vs: "fits (pq q P) x = fits q x" "csz (pq q P) = csz q" "nent (pq q P) = nent q"
  by (simp_all add: fits_def)

lemma convert_run:
  assumes w: "plan w = []" "files w fp = Some flat" "fp \<noteq> path" and l: "0 < length flat" "length flat \<le> 2 ^ 52" and crc: "crc_agrees crc"
  shows "\<exists>f T C q. cmd_convert fp path w = (Some 0, w\<lparr>files := (files w)(path \<mapsto> f)\<rparr>) \<and>
    dinv crc q f T C [] \<and> read_at f 36 8 = be64 (alloc_offset q) \<and> unat (virtual_size q) = length flat \<and> fits q (length flat) \<and>
    (\<forall>x. disk_byte (csz q) (stored_layer (nent q) T C, Map.empty) x = flat_byte flat x) \<and>
    cluster_bits q = 16"
proof -
  let ?vs = "of_nat (length flat) :: u64"
  define q where "q = empty_qcow2 16 ?vs"
  have uv: "unat ?vs = length flat"
    using l(2) by (simp add: unat_of_nat_u64)
  have b: "12 \<le> unat (16 :: u32)" "unat (16 :: u32) \<le> 24" "0 < unat ?vs" "unat ?vs \<le> 2 ^ 52"
    using l uv by simp_all
  note e = empty_dinv(1) [OF b, where crc = crc and C = "\<lambda>_. []"] empty_dinv(3) [OF b]
  have g: "geom q" and fit: "fits q (length flat)"
    using e uv by (simp_all add: q_def dinv_def)
  have qf: "cluster_bits q = 16" "cluster_size q = 65536" "l2_entries q = 8191" "virtual_size q = ?vs" "l1_offset q = 4096"
    "l1_size q = image_l1_size ?vs 8191 65536"
    by (simp_all add: q_def empty_qcow2_def Let_def)
  let ?al = "image_alloc_offset (l1_size q) (cluster_size q)"
  have al: "4096 + 8 * unat (l1_size q) \<le> unat ?al" "unat ?al < 2 ^ 36"
    using image_geometry(5,6) [OF b, of 65536 8191] by (simp_all add: qf)
  let ?P = "\<lparr>p_l1 = replicate (unat (l1_size q)) 0, p_l2 = replicate (unat (l1_size q)) (replicate (nent q) 0), p_alloc = ?al\<rparr>"
  define w1 where "w1 = w\<lparr>files := (files w)(path \<mapsto> replicate (unat ?al) 0)\<rparr>"
  have w1: "plan w1 = []" "files w1 fp = Some flat" "files w1 path = Some (replicate (unat ?al) 0)"
    using w by (simp_all add: w1_def)
  let ?t = "unat (total_clusters ?vs (cluster_size q))"
  have tc: "length flat \<le> ?t * csz q" "\<And>k. k < ?t \<Longrightarrow> k * csz q < length flat"
    using total_clusters_spec [of "cluster_size q" ?vs] uv l(2) by (simp_all add: qf)
  have t: "?t * 65536 < length flat + 65536"
    using tc(2) [of "?t - 1"] l(1) tc(1) by (cases ?t) (simp_all add: qf)
  have start: "packing q (flat_layer flat (csz q)) (unat ?al) 0 ?P (replicate (unat ?al) 0)"
    using al by (intro packing_start [OF g _ _ _ _ _ refl]) (simp_all add: qf)
  have room: "unat ?al + 2 * csz q * ?t \<le> 2 ^ 62"
    using al(2) t l(2) by (simp add: qf)
  obtain P' g' where lp: "convert_loop fp path (cluster_size q) (l2_entries q) ?vs [0..<?t] ?P w1 = (Inr P', w1\<lparr>files := (files w1)(path \<mapsto> g')\<rparr>)"
    and pk: "packing q (flat_layer flat (csz q)) (unat ?al) ?t P' g'"
    using convert_loop_spec [OF w1 w(3) g _ fit _ tc(2) room start] uv by (auto simp: qf)
  let ?w2 = "w1\<lparr>files := (files w1)(path \<mapsto> g')\<rparr>"
  obtain f T C q' where pf: "pack_finish path (cluster_bits q) (cluster_size q) (l2_entries q) (virtual_size q) (l1_offset q) (l1_size q) P' ?w2 =
      (Inr (), ?w2\<lparr>files := (files ?w2)(path \<mapsto> f)\<rparr>)" "q' = pq q P'" "dinv crc q' f T C []" "read_at f 36 8 = be64 (alloc_offset q')"
    "stored_layer (nent q) T C = packed (csz q) (flat_layer flat (csz q)) ?t"
    using packing_finish [OF _ _ pk crc, of ?w2 path] w1(1) by (auto simp: qf)
  have w2: "?w2\<lparr>files := (files ?w2)(path \<mapsto> f)\<rparr> = w\<lparr>files := (files w)(path \<mapsto> f)\<rparr>"
    by (simp add: w1_def del: fun_upd_apply)
  have op: "open_trunc path w = (True, w\<lparr>files := (files w)(path \<mapsto> [])\<rparr>)"
    "ftruncate path ?al (w\<lparr>files := (files w)(path \<mapsto> [])\<rparr>) = (True, w1)"
    using w(1) al(2) by (simp_all add: open_trunc_def ftruncate_def contents_def w1_def)
  have c: "contents w fp = flat" "?vs \<noteq> 0" "open_rdonly fp w = (True, w)" "2 ^ unat (16 :: u32) = (65536 :: u32)"
    using w(1,2) l(1) uv by (auto simp: contents_def open_rdonly_def)
  have run: "cmd_convert fp path w = (Some 0, w\<lparr>files := (files w)(path \<mapsto> f)\<rparr>)"
    using w(1) w1(1) op lp pf(1) c unfolding w2
    by (simp add: cmd_convert_def Let_def LBD_QCOW2_L2_TRAILER_SIZE_def allocs_Nil packed_alloc_create [unfolded LBD_QCOW2_HEADER_SIZE_def, simplified]
        LBD_QCOW2_HEADER_SIZE_def qf del: fun_upd_apply)
  have D: "disk_byte (csz q') (stored_layer (nent q') T C, Map.empty) x = flat_byte flat x" for x
  proof -
    have x: "x = x div csz q * csz q + x mod csz q" "x mod csz q < csz q"
      by (simp_all add: qf)
    have x3: "x < csz q + x div csz q * csz q"
      using x by linarith
    have "shown (csz q) (packed (csz q) (flat_layer flat (csz q)) ?t, Map.empty) (x div csz q) ! (x mod csz q) = flat_byte flat x"
    proof (cases "x div csz q < ?t")
      case True
      then show ?thesis
        using x(2) x3 by (simp add: shown_packed) (simp add: shown_def flat_layer_def nth_upt)
    next
      case False
      then have "?t * csz q \<le> x div csz q * csz q"
        by (intro mult_le_mono1) simp
      then have "length flat \<le> x"
        using tc(1) x(1) by linarith
      then show ?thesis
        using False x(2) by (simp add: shown_def packed_def flat_byte_def)
    qed
    then show ?thesis
      by (simp add: pf(2,5) disk_byte_def)
  qed
  show ?thesis
    using run pf(3,4) D fit uv by (intro exI [of _ f] exI [of _ T] exI [of _ C] exI [of _ q']) (simp add: pf(2) shell_vs qf del: fun_upd_apply)
qed

text \<open>C10: \<open>lbdctl convert\<close> of a flat file of at most \<open>2\<^sup>5\<^sup>2\<close> bytes, with no failing system call,
  leaves an image that the driver attaches: the device has the size of the flat file, its L1 table
  covers it, and every byte of the disk is the byte of the flat file, zeros in the rest of the last
  cluster. An empty flat file is refused before the output is touched.\<close>

theorem convert_then_attach:
  assumes "plan w = []" and "files w fp = Some flat" and "fp \<noteq> path" and "length flat \<le> 2 ^ 52" and "crc_agrees crc"
  shows "(flat = [] \<longrightarrow> cmd_convert fp path w = (Some 1, w)) \<and>
    (flat \<noteq> [] \<longrightarrow>
     (\<exists>f. cmd_convert fp path w = (Some 0, w\<lparr>files := (files w)(path \<mapsto> f)\<rparr>) \<and>
        (\<forall>dev. backing_file dev = f \<and> io_plan dev = [] \<and> base dev = None \<and> \<not> crashed dev \<longrightarrow>
           (\<exists>dev' P. lbd_qcow2_init dev = (Inr (), dev') \<and> abs_img crc dev' (P, Map.empty) \<and> synced dev' \<and>
              unat (virtual_size (qcow2 dev')) = length flat \<and> fits (qcow2 dev') (length flat) \<and>
              (\<forall>x. disk_byte (csz (qcow2 dev')) (P, Map.empty) x = flat_byte flat x)))))"
proof (intro conjI impI)
  show "cmd_convert fp path w = (Some 1, w)" if "flat = []"
    using that assms(1,2) by (simp add: cmd_convert_def open_rdonly_def contents_def Let_def)
next
  assume "flat \<noteq> []"
  then have l: "0 < length flat"
    by simp
  obtain f T C q where c: "cmd_convert fp path w = (Some 0, w\<lparr>files := (files w)(path \<mapsto> f)\<rparr>)"
    "dinv crc q f T C []" "read_at f 36 8 = be64 (alloc_offset q)" "unat (virtual_size q) = length flat" "fits q (length flat)"
    "\<forall>x. disk_byte (csz q) (stored_layer (nent q) T C, Map.empty) x = flat_byte flat x"
    using convert_run [OF assms(1-3) l assms(4,5)] by blast
  have "\<exists>dev' P. lbd_qcow2_init dev = (Inr (), dev') \<and> abs_img crc dev' (P, Map.empty) \<and> synced dev' \<and>
      unat (virtual_size (qcow2 dev')) = length flat \<and> fits (qcow2 dev') (length flat) \<and>
      (\<forall>x. disk_byte (csz (qcow2 dev')) (P, Map.empty) x = flat_byte flat x)"
    if d: "backing_file dev = f \<and> io_plan dev = [] \<and> base dev = None \<and> \<not> crashed dev" for dev
    using attach_fresh [of dev crc q T C "[]"] d c(2-6) by (intro exI [of _ "dev\<lparr>qcow2 := fresh q\<rparr>"] exI [of _ "stored_layer (nent q) T C"]) simp
  then show "\<exists>f. cmd_convert fp path w = (Some 0, w\<lparr>files := (files w)(path \<mapsto> f)\<rparr>) \<and>
        (\<forall>dev. backing_file dev = f \<and> io_plan dev = [] \<and> base dev = None \<and> \<not> crashed dev \<longrightarrow>
           (\<exists>dev' P. lbd_qcow2_init dev = (Inr (), dev') \<and> abs_img crc dev' (P, Map.empty) \<and> synced dev' \<and>
              unat (virtual_size (qcow2 dev')) = length flat \<and> fits (qcow2 dev') (length flat) \<and>
              (\<forall>x. disk_byte (csz (qcow2 dev')) (P, Map.empty) x = flat_byte flat x)))"
    using c(1) by blast
qed

text \<open>C11: Converting a flat file to an image and extracting that image gives the flat file back, byte
  for byte and with its length.\<close>

theorem convert_extract_roundtrip:
  assumes "plan w = []" and "files w fp = Some flat" and "fp \<noteq> ip" and "ip \<noteq> op" and "flat \<noteq> []" and "length flat \<le> 2 ^ 52"
  shows "\<exists>w1 w2. cmd_convert fp ip w = (Some 0, w1) \<and> cmd_extract ip op w1 = (Some 0, w2) \<and> files w2 op = Some flat"
proof -
  have l: "0 < length flat"
    using assms(5) by simp
  obtain f T C q where c: "cmd_convert fp ip w = (Some 0, w\<lparr>files := (files w)(ip \<mapsto> f)\<rparr>)"
    "dinv kernel_crc32c q f T C []" "unat (virtual_size q) = length flat" "fits q (length flat)"
    "\<forall>x. disk_byte (csz q) (stored_layer (nent q) T C, Map.empty) x = flat_byte flat x"
    using convert_run [OF assms(1-3) l assms(6) crc_agrees_kernel] by blast
  have "map (flat_byte flat) [0..<length flat] = flat"
    by (auto simp: flat_byte_def intro!: nth_equalityI)
  moreover have "map (disk_byte (csz q) (stored_layer (nent q) T C, Map.empty)) [0..<length flat] = map (flat_byte flat) [0..<length flat]"
    using c(5) by simp
  ultimately show ?thesis
    using extract_run [OF _ _ assms(4) crc_agrees_kernel c(2), of "w\<lparr>files := (files w)(ip \<mapsto> f)\<rparr>"] c(1,3) fits_inside [OF c(4)] assms(1)
    by simp
qed

end
