(* ===== verification/Lbdctl_Compact.thy ===== *)
theory Lbdctl_Compact
  imports Lbdctl_Convert
begin

text \<open>
  \<open>cmd_compact\<close> (\<^verbatim>\<open>src/src/lbdctl.c\<close>) rewrites an image without its free extents and its clusters
  of zeros; the disk shows the same bytes afterwards when it has no base layer.
\<close>

lemma compact_cluster_spec:
  assumes w: "plan w = []" "files w ip = Some f" "files w tmp = Some g" "ip \<noteq> tmp"
    and di: "dinv crc q f T C FL" and c: "c * csz q < unat vs" "inside q (unat vs)" and buf: "length buf = csz q"
    and L: "L = stored_layer (nent q) T C" and p: "packing q L a c P g" "a + 2 * csz q * Suc c \<le> 2 ^ 62"
  shows "\<exists>buf' P' g'. compact_cluster ip tmp (cluster_size q) (l2_entries q) (l1_table q) (map T [0..<length (l1_table q)]) (of_nat c) (buf, P) w =
      (Inr (buf', P'), w\<lparr>files := (files w)(tmp \<mapsto> g')\<rparr>) \<and> length buf' = csz q \<and> packing q L a (Suc c) P' g'"
proof -
  let ?cs = "csz q" and ?n = "nent q" and ?vs = "unat vs"
  let ?run = "compact_cluster ip tmp (cluster_size q) (l2_entries q) (l1_table q) (map T [0..<length (l1_table q)]) (of_nat c) (buf, P) w"
  have g: "geom q" and st: "\<And>c. ent ?n T c \<noteq> 0 \<Longrightarrow> stored ?cs f (ent ?n T c) (C c)"
    and l2: "l2disk crc ?cs ?n (l1_table q) (unat (l1_size q)) f T"
    using di by (auto simp: dinv_def)
  have cs: "4096 \<le> ?cs" "?cs \<le> 16777216" "0 < ?n" "length (l1_table q) = unat (l1_size q)"
    using csz_ge [OF g] csz_le [OF g] nent_pos [OF g] l1_len [OF g] by simp_all
  have vs: "?vs \<le> 2 ^ 62" "?vs \<le> 2 ^ 32 * ?n * ?cs"
    using c(2) by (simp_all add: inside_def)
  have "c * 1 \<le> c * ?cs"
    using cs(1) by (intro mult_le_mono2) simp
  then have "c < 2 ^ 62"
    using c(1) vs(1) by linarith
  then have c64: "c < 2 ^ 63"
    by simp
  have cn: "c < 2 ^ 32 * ?n"
    using c(1) vs(2) by (metis less_le_trans mult_less_cancel2)
  note ix = table_indices [OF cn c64]
  have n0: "l2_entries q \<noteq> 0"
    using cs(3) by auto
  have same: "w\<lparr>files := (files w)(tmp \<mapsto> g)\<rparr> = w"
    using w(3) by (cases w) (simp add: fun_upd_idem)
  have skip: ?thesis if "L c = None \<or> L c = Some (replicate ?cs 0)" "?run = (Inr (b, P), w)" "length b = ?cs" for b
    using packing_skip [OF p(1) that(1)] that(2,3) same by (intro exI [of _ b] exI [of _ P] exI [of _ g]) (simp only: simp_thms)
  have ent0: "c div ?n \<ge> length (l1_table q) \<or> l1_table q ! (c div ?n) = 0 \<Longrightarrow> ent ?n T c = 0"
    using l2 cs(3,4) unfolding l2disk_def ent_def by (metis mod_less_divisor not_le nth_replicate)
  show ?thesis
  proof (cases "ent ?n T c = 0")
    case True
    have "?run = (Inr (buf, P), w)"
      using n0 True unfolding compact_cluster_def prod.case Let_def ix by (auto simp: ent_def not_le)
    then show ?thesis
      using skip [OF _ _ buf] True by (simp add: L stored_layer_def)
  next
    case nz: False
    note s = st [OF nz]
    have len: "length (C c) = ?cs"
      using s by (simp add: stored_def)
    have l1: "\<not> (c div ?n \<ge> length (l1_table q) \<or> l1_table q ! (c div ?n) = 0)"
      using ent0 nz by blast
    then have e: "map T [0..<length (l1_table q)] ! (c div ?n) ! (c mod ?n) = ent ?n T c"
      by (simp add: ent_def)
    have Lc: "L c = Some (C c)"
      using nz by (simp add: L stored_layer_def)
    have run: "?run = (if C c = replicate ?cs 0 then (Inr (C c, P), w)
        else (case pack_cluster tmp (cluster_size q) (c div ?n) (c mod ?n) (C c) P w of (Inl e, w) \<Rightarrow> (Inl e, w) | (Inr P, w) \<Rightarrow> (Inr (C c, P), w)))"
      unfolding compact_cluster_def prod.case Let_def ix
      using n0 l1 e nz load_cluster_spec [OF w(1,2) s buf cs(2)] len by (simp only: if_False simp_thms prod.case sum.case is_all_zero_iff)
    show ?thesis
    proof (cases "C c = replicate ?cs 0")
      case True
      then show ?thesis
        using skip [OF _ _ len] Lc run by simp
    next
      case False
      obtain P' g' where "pack_cluster tmp (cluster_size q) (c div ?n) (c mod ?n) (C c) P w = (Inr P', w\<lparr>files := (files w)(tmp \<mapsto> g')\<rparr>)"
        "packing q L a (Suc c) P' g'"
        using packing_put [OF w(1,3) p(1) Lc False len _ p(2)] l1 cs(4) by (auto simp: not_le)
      then show ?thesis
        using run False len by (intro exI [of _ "C c"] exI [of _ P'] exI [of _ g']) (simp only: if_False prod.case sum.case simp_thms)
    qed
  qed
qed

lemma compact_loop_spec:
  assumes w: "plan w = []" "files w ip = Some f" "files w tmp = Some g" "ip \<noteq> tmp"
    and di: "dinv crc q f T C FL" and i: "inside q (unat vs)" and buf: "length buf = csz q"
    and e: "c \<le> e" "\<And>k. k < e \<Longrightarrow> k * csz q < unat vs" "a + 2 * csz q * e \<le> 2 ^ 62"
    and L: "L = stored_layer (nent q) T C" and p: "packing q L a c P g"
  shows "\<exists>P' g'. compact_loop ip tmp (cluster_size q) (l2_entries q) (l1_table q) (map T [0..<length (l1_table q)]) [c..<e] (buf, P) w =
      (Inr P', w\<lparr>files := (files w)(tmp \<mapsto> g')\<rparr>) \<and> packing q L a e P' g'"
  using w(1-3) p e(1) buf
proof (induction "e - c" arbitrary: c P g w buf)
  case 0
  have "w\<lparr>files := (files w)(tmp \<mapsto> g)\<rparr> = w"
    using 0(4) by (cases w) (simp add: fun_upd_idem)
  moreover have "[c..<e] = []" "c = e"
    using 0 by simp_all
  ultimately show ?case
    using 0 by (intro exI [of _ P] exI [of _ g]) (simp only: compact_loop.simps simp_thms)
next
  case (Suc d)
  have ce: "c < e"
    using Suc.hyps(2) by simp
  have "2 * csz q * Suc c \<le> 2 * csz q * e"
    using ce by (intro mult_le_mono2) simp
  then have room: "a + 2 * csz q * Suc c \<le> 2 ^ 62"
    using e(3) by linarith
  obtain b1 P1 g1 where s: "compact_cluster ip tmp (cluster_size q) (l2_entries q) (l1_table q) (map T [0..<length (l1_table q)]) (of_nat c) (buf, P) w =
      (Inr (b1, P1), w\<lparr>files := (files w)(tmp \<mapsto> g1)\<rparr>)" "length b1 = csz q" "packing q L a (Suc c) P1 g1"
    using compact_cluster_spec [OF Suc.prems(1-3) w(4) di e(2) [OF ce] i Suc.prems(6) L Suc.prems(4) room] by blast
  let ?w = "w\<lparr>files := (files w)(tmp \<mapsto> g1)\<rparr>"
  have "\<exists>P' g'. compact_loop ip tmp (cluster_size q) (l2_entries q) (l1_table q) (map T [0..<length (l1_table q)]) [Suc c..<e] (b1, P1) ?w =
      (Inr P', ?w\<lparr>files := (files ?w)(tmp \<mapsto> g')\<rparr>) \<and> packing q L a e P' g'"
    using Suc.hyps(2) Suc.prems(1,2) w(4) s(2,3) ce by (intro Suc.hyps(1)) auto
  then obtain P' g' where r: "compact_loop ip tmp (cluster_size q) (l2_entries q) (l1_table q) (map T [0..<length (l1_table q)]) [Suc c..<e] (b1, P1) ?w =
      (Inr P', ?w\<lparr>files := (files ?w)(tmp \<mapsto> g')\<rparr>)" "packing q L a e P' g'"
    by blast
  moreover have "?w\<lparr>files := (files ?w)(tmp \<mapsto> g')\<rparr> = w\<lparr>files := (files w)(tmp \<mapsto> g')\<rparr>"
    by (simp del: fun_upd_apply)
  ultimately show ?case
    using s(1) by (intro exI [of _ P'] exI [of _ g']) (simp only: upt_conv_Cons [OF ce] compact_loop.simps prod.case sum.case simp_thms)
qed

lemma unat_packed_alloc:
  assumes g: "geom q" and o: "unat (l1_offset q) \<le> 2 ^ 52"
  shows "unat (l1_offset q) + 8 * unat (l1_size q) \<le> unat (packed_alloc (l1_offset q) (l1_size q) (cluster_size q))"
    "unat (packed_alloc (l1_offset q) (l1_size q) (cluster_size q)) < 2 ^ 53"
proof -
  let ?x = "l1_offset q + ucast (l1_size q) * 8" and ?b = "unat (cluster_bits q)"
  have l: "unat (ucast (l1_size q) * 8 :: u64) = 8 * unat (l1_size q)"
    using unat_u32_lt [of "l1_size q"] by (simp add: unat_mult_lem [THEN iffD1] mult.commute)
  then have x: "unat ?x = unat (l1_offset q) + 8 * unat (l1_size q)"
    using o unat_u32_lt [of "l1_size q"] unat_plus_u64 [of "l1_offset q" "ucast (l1_size q) * 8"] by simp
  have b: "?b < 64" "2 ^ ?b = csz q" "csz q \<le> 16777216"
    using csz_pow [OF g] csz_le [OF g] g by (simp_all add: geom_def)
  have c2: "ucast (cluster_size q) = (2 ^ ?b :: u64)"
    using b by (simp add: word_unat_eq_iff unat_two_power)
  have "unat ?x + 2 ^ ?b < 2 ^ 64"
    using x b o unat_u32_lt [of "l1_size q"] by simp
  then have ua: "unat (packed_alloc (l1_offset q) (l1_size q) (cluster_size q)) = (unat ?x + 2 ^ ?b - 1) div 2 ^ ?b * 2 ^ ?b"
    unfolding packed_alloc_def c2 by (rule unat_align [OF _ b(1)])
  show "unat (l1_offset q) + 8 * unat (l1_size q) \<le> unat (packed_alloc (l1_offset q) (l1_size q) (cluster_size q))"
    unfolding ua x by (rule ceil_div(1)) simp
  have "unat (packed_alloc (l1_offset q) (l1_size q) (cluster_size q)) < unat ?x + 2 ^ ?b"
    unfolding ua by (rule ceil_div(2)) simp
  then show "unat (packed_alloc (l1_offset q) (l1_size q) (cluster_size q)) < 2 ^ 53"
    using x b o unat_u32_lt [of "l1_size q"] by simp
qed

lemma compact_run:
  assumes w: "plan w = []" "files w path = Some f" and tmp: "compact_tmp path \<noteq> path" and crc: "crc_agrees crc"
    and di: "dinv crc q f T C FL" and i: "inside q (unat (virtual_size q))" and sz: "0 < unat (l1_size q)" "unat (virtual_size q) \<le> 2 ^ 52" "unat (l1_offset q) \<le> 2 ^ 52"
  shows "\<exists>f' T' C' q'. cmd_compact [path] w = (Some 0, w\<lparr>files := (files w)(compact_tmp path := None, path \<mapsto> f')\<rparr>) \<and>
    dinv crc q' f' T' C' [] \<and> read_at f' 36 8 = be64 (alloc_offset q') \<and> virtual_size q' = virtual_size q \<and> csz q' = csz q \<and> nent q' = nent q \<and>
    l1_size q' = l1_size q \<and>
    stored_layer (nent q') T' C' = packed (csz q) (stored_layer (nent q) T C) (unat (total_clusters (virtual_size q) (cluster_size q)))"
proof -
  let ?cs = "cluster_size q" and ?n = "l2_entries q" and ?vs = "virtual_size q" and ?L = "stored_layer (nent q) T C" and ?tmp = "compact_tmp path"
  have g: "geom q" and h: "hdr_ok q f" and l1: "l1_disk q f" and sep: "sep (lay q f T FL)"
    and l2: "l2disk crc (csz q) (nent q) (l1_table q) (unat (l1_size q)) f T"
    using di by (simp_all add: dinv_def space_def)
  note hf = header_fields [OF h]
  have geo: "push_bit (unat (cluster_bits q)) 1 = ?cs" "(?cs - of_nat LBD_QCOW2_L2_TRAILER_SIZE) div 8 = ?n" "\<not> 32 \<le> cluster_bits q"
    using g by (simp_all add: geom_def word_le_nat_alt LBD_QCOW2_L2_TRAILER_SIZE_def)
  have cs: "4096 \<le> csz q" "csz q \<le> 16777216" "8 * nent q \<le> csz q" "length (l1_table q) = unat (l1_size q)"
    using csz_ge [OF g] csz_le [OF g] nent_csz [OF g] l1_len [OF g] by simp_all
  have o: "4096 \<le> unat (l1_offset q)"
    using sep_disj [OF sep, of Hdr L1] sz(1) by auto
  have tabs: "l1_table q ! k = 0 \<and> T k = replicate (nent q) 0 \<or>
      l1_table q ! k \<noteq> 0 \<and> l2_ok crc (csz q) (nent q) f (unat (l1_table q ! k)) (T k) \<and> unat (l1_table q ! k) + csz q < 2 ^ 63"
    if "k < length (l1_table q)" for k
    using l2 that cs(4) unfolding l2disk_def by metis
  have lt: "load_tables path ?cs ?n (l1_table q) w = (Inr (map T [0..<length (l1_table q)]), w)"
    using cs tabs by (intro load_tables_spec [OF w(1,2) crc]) simp_all
  let ?al = "packed_alloc (l1_offset q) (l1_size q) ?cs" and ?t = "unat (total_clusters ?vs ?cs)"
  note al = unat_packed_alloc [OF g sz(3)]
  define w1 where "w1 = w\<lparr>files := (files w)(?tmp \<mapsto> replicate (unat ?al) 0)\<rparr>"
  have w1: "plan w1 = []" "files w1 path = Some f" "files w1 ?tmp = Some (replicate (unat ?al) 0)"
    using w tmp by (simp_all add: w1_def)
  have op: "open_trunc ?tmp w = (True, w\<lparr>files := (files w)(?tmp \<mapsto> [])\<rparr>)"
    "ftruncate ?tmp ?al (w\<lparr>files := (files w)(?tmp \<mapsto> [])\<rparr>) = (True, w1)"
    using w(1) al(2) by (simp_all add: open_trunc_def ftruncate_def contents_def w1_def)
  have tc: "unat ?vs \<le> ?t * csz q" "\<And>k. k < ?t \<Longrightarrow> k * csz q < unat ?vs"
    using total_clusters_spec [of ?cs ?vs] cs(1,2) sz(2) by simp_all
  have t: "?t * csz q \<le> unat ?vs + csz q"
    using tc(2) [of "?t - 1"] by (cases ?t) simp_all
  have room: "unat ?al + 2 * csz q * ?t \<le> 2 ^ 62"
  proof -
    have "?t * csz q \<le> 4503599627370496 + 16777216"
      using t cs(2) sz(2) by simp
    then have "2 * csz q * ?t \<le> 2 * (4503599627370496 + 16777216)"
      by (simp add: mult.commute)
    then show ?thesis
      using al(2) by simp
  qed
  let ?P = "\<lparr>p_l1 = replicate (unat (l1_size q)) 0, p_l2 = replicate (unat (l1_size q)) (replicate (nent q) 0), p_alloc = ?al\<rparr>"
  have start: "packing q ?L (unat ?al) 0 ?P (replicate (unat ?al) 0)"
    using al o by (intro packing_start [OF g _ _ _ _ _ refl]) simp_all
  obtain P' g' where lp: "compact_loop path ?tmp ?cs ?n (l1_table q) (map T [0..<length (l1_table q)]) [0..<?t] (replicate (csz q) 0, ?P) w1 =
      (Inr P', w1\<lparr>files := (files w1)(?tmp \<mapsto> g')\<rparr>)" and pk: "packing q ?L (unat ?al) ?t P' g'"
    using compact_loop_spec [OF w1 tmp [symmetric] di i length_replicate _ tc(2) room refl start] by blast
  let ?w2 = "w1\<lparr>files := (files w1)(?tmp \<mapsto> g')\<rparr>"
  obtain f' T' C' q' where pf: "pack_finish ?tmp (cluster_bits q) ?cs ?n ?vs (l1_offset q) (l1_size q) P' ?w2 =
      (Inr (), ?w2\<lparr>files := (files ?w2)(?tmp \<mapsto> f')\<rparr>)" "q' = pq q P'" "dinv crc q' f' T' C' []" "read_at f' 36 8 = be64 (alloc_offset q')"
    "stored_layer (nent q) T' C' = packed (csz q) ?L ?t"
    using packing_finish [OF _ _ pk crc, of ?w2 ?tmp] w1(1) sz(3) by auto
  let ?w3 = "?w2\<lparr>files := (files ?w2)(?tmp \<mapsto> f')\<rparr>"
  have rn: "rename_path ?tmp path ?w3 = (True, w\<lparr>files := (files w)(?tmp := None, path \<mapsto> f')\<rparr>)"
    using w(1) by (simp add: rename_path_def w1_def)
  have ord: "open_rdonly path w = (True, w)"
    using w(1,2) by (simp add: open_rdonly_def)
  have "cmd_compact [path] w = (Some 0, w\<lparr>files := (files w)(?tmp := None, path \<mapsto> f')\<rparr>)"
    unfolding cmd_compact_def list.case ord prod.case bool.case load_header_spec [OF w(1,2) h] sum.case hf Let_def geo
    using geo(3) load_l1_spec [OF w(1,2) l1 cs(4)]
    by (simp only: allocs_Nil w(1) w1(1) if_False lt op lp pf(1) rn prod.case bool.case sum.case)
  then show ?thesis
    using pf(3-5) by (intro exI [of _ f'] exI [of _ T'] exI [of _ C'] exI [of _ q']) (simp add: pf(2) shell_vs del: fun_upd_apply)
qed

text \<open>C12: \<open>lbdctl compact\<close> of the image of a device, with no failing system call and a name that leaves
  room for the suffix of the temporary file, replaces the image by one without free extents and
  without clusters of zeros. The temporary file is gone, no other file is touched, the driver attaches
  the new image, and every byte of the disk is what it was without a base layer.\<close>

theorem compact_keeps_disk:
  assumes "abs_img crc dev (P, B)" and "crc_agrees crc" and "inside (qcow2 dev) (unat (virtual_size (qcow2 dev)))"
    and "0 < l1_size (qcow2 dev)" and "unat (virtual_size (qcow2 dev)) \<le> 2 ^ 52" and "unat (l1_offset (qcow2 dev)) \<le> 2 ^ 52"
    and "plan w = []" and "files w path = Some (backing_file dev)" and "length path < 4095"
  shows "\<exists>f. cmd_compact [path] w = (Some 0, w\<lparr>files := (files w)(compact_tmp path := None, path \<mapsto> f)\<rparr>) \<and>
    (\<forall>dev1. backing_file dev1 = f \<and> io_plan dev1 = [] \<and> base dev1 = None \<and> \<not> crashed dev1 \<longrightarrow>
       (\<exists>dev2 P'. lbd_qcow2_init dev1 = (Inr (), dev2) \<and> abs_img crc dev2 (P', Map.empty) \<and> synced dev2 \<and>
          virtual_size (qcow2 dev2) = virtual_size (qcow2 dev) \<and> csz (qcow2 dev2) = csz (qcow2 dev) \<and> P' \<subseteq>\<^sub>m P \<and>
          (\<forall>x < unat (virtual_size (qcow2 dev)).
             disk_byte (csz (qcow2 dev)) (P', Map.empty) x = disk_byte (csz (qcow2 dev)) (P, Map.empty) x)))"
proof -
  let ?q = "qcow2 dev" and ?t = "unat (total_clusters (virtual_size (qcow2 dev)) (cluster_size (qcow2 dev)))"
  obtain T C FL where q: "qinv crc dev T C FL B" and P: "P = stored_layer (nent ?q) T C"
    using assms(1) by (auto simp: abs_img_def)
  have tmp: "compact_tmp path \<noteq> path"
  proof
    assume "compact_tmp path = path"
    then have "length (compact_tmp path) = length path"
      by simp
    then show False
      using assms(9) by (simp add: compact_tmp_def)
  qed
  have l1: "0 < unat (l1_size ?q)"
    using assms(4) by (simp add: word_less_nat_alt)
  obtain f' T' C' q' where c: "cmd_compact [path] w = (Some 0, w\<lparr>files := (files w)(compact_tmp path := None, path \<mapsto> f')\<rparr>)"
    "dinv crc q' f' T' C' []" "read_at f' 36 8 = be64 (alloc_offset q')" "virtual_size q' = virtual_size ?q" "csz q' = csz ?q" "nent q' = nent ?q"
    "stored_layer (nent q') T' C' = packed (csz ?q) P ?t"
    using compact_run [OF assms(7,8) tmp assms(2) qinvD(1) [OF q] assms(3) l1 assms(5,6)] unfolding P by blast
  have g: "geom ?q"
    using qinvD(1) [OF q] by (simp add: dinv_def)
  have cs: "4096 \<le> csz ?q" "csz ?q \<le> 16777216"
    using csz_ge [OF g] csz_le [OF g] by simp_all
  have t: "unat (virtual_size ?q) \<le> ?t * csz ?q"
    using total_clusters_spec(1) [of "cluster_size ?q" "virtual_size ?q"] cs assms(5) by simp
  have D: "disk_byte (csz ?q) (packed (csz ?q) P ?t, Map.empty) x = disk_byte (csz ?q) (P, Map.empty) x" if "x < unat (virtual_size ?q)" for x
  proof -
    have "x div csz ?q < ?t"
      using that t cs(1) by (intro div_less_iff_less_mult [THEN iffD2]) linarith+
    then show ?thesis
      by (simp add: disk_byte_def shown_packed)
  qed
  have sub: "packed (csz ?q) P ?t \<subseteq>\<^sub>m P"
    by (auto simp: map_le_def packed_def split: if_splits)
  have "\<exists>dev2 P'. lbd_qcow2_init dev1 = (Inr (), dev2) \<and> abs_img crc dev2 (P', Map.empty) \<and> synced dev2 \<and>
      virtual_size (qcow2 dev2) = virtual_size ?q \<and> csz (qcow2 dev2) = csz ?q \<and> P' \<subseteq>\<^sub>m P \<and>
      (\<forall>x < unat (virtual_size ?q). disk_byte (csz ?q) (P', Map.empty) x = disk_byte (csz ?q) (P, Map.empty) x)"
    if d: "backing_file dev1 = f' \<and> io_plan dev1 = [] \<and> base dev1 = None \<and> \<not> crashed dev1" for dev1
    using attach_fresh [of dev1 crc q' T' C' "[]"] d c(2-7) D sub
    by (intro exI [of _ "dev1\<lparr>qcow2 := fresh q'\<rparr>"] exI [of _ "packed (csz ?q) P ?t"]) simp
  then show ?thesis
    using c(1) by blast
qed

end
