(* ===== verification/Lbdctl_Witness.thy ===== *)
theory Lbdctl_Witness
  imports Lbd_Witness Lbdctl_Compact
begin

text \<open>
  The theorems on the image commands of the control tool at concrete inputs: a flat file of three
  bytes, and the image of the device of \<open>Lbd_Witness\<close>.
\<close>

definition demo_world :: cli where
  "demo_world = \<lparr>files = [''flat'' \<mapsto> [1, 2, 3], ''img'' \<mapsto> backing_file demo_device], plan = []\<rparr>"

lemma demo_world:
  "plan demo_world = []" "files demo_world ''flat'' = Some [1, 2, 3]" "files demo_world ''img'' = Some (backing_file demo_device)"
  by (simp_all add: demo_world_def)

lemma demo_kernel: "abs_img kernel_crc32c demo_device (Map.empty, Map.empty)"
proof -
  have "demo_device\<lparr>qcow2 := fresh (empty_qcow2 12 8192)\<rparr> = demo_device"
    by (simp add: demo_device_def)
  then show ?thesis
    using empty_init(2) [where bits = 12 and vs = 8192 and dev = demo_device and crc = kernel_crc32c] by (simp add: demo_device_def)
qed

theorem extract_shows_disk_witness:
  "cmd_extract ''img'' ''out'' demo_world = (Some 0, demo_world\<lparr>files := (files demo_world)(''out'' \<mapsto>
     map (disk_byte 4096 (Map.empty, Map.empty)) [0..<unat (8192 :: u64)])\<rparr>)"
  using extract_shows_disk [OF demo_kernel crc_agrees_kernel _ demo_world(1,3), of "''out''"] fits_inside [OF demo_image(3)]
  unfolding demo_geometry(1,2) by simp

theorem convert_then_attach_witness:
  "\<exists>f. cmd_convert ''flat'' ''img'' demo_world = (Some 0, demo_world\<lparr>files := (files demo_world)(''img'' \<mapsto> f)\<rparr>) \<and>
     (\<forall>dev. backing_file dev = f \<and> io_plan dev = [] \<and> base dev = None \<and> \<not> crashed dev \<longrightarrow>
        (\<exists>dev' P. lbd_qcow2_init dev = (Inr (), dev') \<and> abs_img kernel_crc32c dev' (P, Map.empty) \<and>
           disk_byte (csz (qcow2 dev')) (P, Map.empty) 1 = 2 \<and> disk_byte (csz (qcow2 dev')) (P, Map.empty) 3 = 0))"
proof -
  have n: "''flat'' \<noteq> ''img''" "length [1, 2, 3 :: u8] \<le> 2 ^ 52" "[1, 2, 3 :: u8] \<noteq> []"
    by simp_all
  note c = convert_then_attach [OF demo_world(1,2) n(1,2) crc_agrees_kernel]
  have b: "flat_byte [1, 2, 3] 1 = 2" "flat_byte [1, 2, 3] 3 = 0"
    by (simp_all add: flat_byte_def)
  show ?thesis
    using conjunct2 [OF c, THEN mp, OF n(3)] by (metis b)
qed

theorem convert_extract_roundtrip_witness:
  "\<exists>w1 w2. cmd_convert ''flat'' ''img'' demo_world = (Some 0, w1) \<and> cmd_extract ''img'' ''out'' w1 = (Some 0, w2) \<and>
     files w2 ''out'' = Some [1, 2, 3]"
  by (rule convert_extract_roundtrip [OF demo_world(1,2)]) simp_all

theorem compact_keeps_disk_witness:
  "\<exists>f. cmd_compact [''img''] demo_world =
     (Some 0, demo_world\<lparr>files := (files demo_world)(''img.compact.tmp'' := None, ''img'' \<mapsto> f)\<rparr>)"
proof -
  have "0 < l1_size (qcow2 demo_device)" "unat (l1_offset (qcow2 demo_device)) \<le> 2 ^ 52"
    by (simp_all add: demo_device_def fresh_def empty_qcow2_def Let_def image_l1_size_def)
  moreover have "compact_tmp ''img'' = ''img.compact.tmp''"
    by (simp add: compact_tmp_def)
  moreover have "inside (qcow2 demo_device) (unat (virtual_size (qcow2 demo_device)))" "unat (virtual_size (qcow2 demo_device)) \<le> 2 ^ 52"
    "length ''img'' < 4095"
    using fits_inside [OF demo_image(3)] by (simp_all add: demo_geometry)
  ultimately show ?thesis
    using compact_keeps_disk [OF demo_kernel crc_agrees_kernel _ _ _ _ demo_world(1,3)] by metis
qed

end
