(* ===== verification/Lbdctl_Log.thy ===== *)
theory Lbdctl_Log
  imports Lbdctl_Base Lbd_Log Lz4_Decode
begin

text \<open>
  The log reader of the control tool (\<^verbatim>\<open>src/src/lbdctl.c\<close>: \<open>read_exact\<close>, the streaming CBOR
  decoder, \<open>cmd_log_cbor\<close>).

  An open file is what is left of it and the outcomes of the coming calls of \<open>read\<close>, which may be
  interrupted, fail, or give fewer bytes than asked for. What the command prints is shown as the
  header and the list of the entries with the values it prints; the two output formats differ
  only in their text. An undefined operation ends the command with the status \<open>None\<close>.
\<close>

definition EINTR :: errno where "EINTR = EOther 4"

record log_in =
  li_rest :: bytes
  li_plan :: "io_outcome list"

definition fd_of :: "bytes \<Rightarrow> log_in" where
  "fd_of bs = \<lparr>li_rest = bs, li_plan = []\<rparr>"

section \<open>Reading\<close>

text \<open>One call of \<open>read\<close> for at most \<open>n > 0\<close> bytes; no bytes means the end of the file.\<close>

definition sys_read :: "nat \<Rightarrow> log_in \<Rightarrow> bytes res \<times> log_in" where
  "sys_read n s =
     (let got = (\<lambda>k s. (Inr (take k (li_rest s)), s\<lparr>li_rest := drop k (li_rest s)\<rparr>)) in
      case li_plan s of
        [] \<Rightarrow> got n s
      | IoOk # p \<Rightarrow> got n (s\<lparr>li_plan := p\<rparr>)
      | IoShort k # p \<Rightarrow> got (min n (max 1 k)) (s\<lparr>li_plan := p\<rparr>)
      | IoErr e # p \<Rightarrow> (Inl e, s\<lparr>li_plan := p\<rparr>))"

text \<open>The three results of \<open>read_exact\<close>: the bytes (1), end of file before the first one (0), error (-1).\<close>

datatype rd_result = RdOk bytes | RdEof | RdErr

function read_loop :: "nat \<Rightarrow> bytes \<Rightarrow> log_in \<Rightarrow> rd_result \<times> log_in" where
  "read_loop len acc s =
     (if length acc \<ge> len then (RdOk acc, s)
      else
        (case sys_read (len - length acc) s of
           (Inl e, s') \<Rightarrow> if e = EINTR then read_loop len acc s' else (RdErr, s')
         | (Inr bs, s') \<Rightarrow>
             if bs = [] then (if acc \<noteq> [] then RdErr else RdEof, s')
             else read_loop len (acc @ bs) s'))"
  by pat_completeness auto

termination
  by (relation "measure (\<lambda>(len, acc, s). length (li_plan s) + (len - length acc))")
    (auto simp: sys_read_def Let_def min_def max_def neq_Nil_conv
       split: list.splits io_outcome.splits if_splits dest!: arg_cong [of _ "li_rest _" length])

declare read_loop.simps [simp del]

definition read_exact :: "nat \<Rightarrow> log_in \<Rightarrow> rd_result \<times> log_in" where
  "read_exact len s = read_loop len [] s"

section \<open>CBOR\<close>

text \<open>The failures of the decoder: end of file (-1) and error (-2).\<close>

datatype cbor_fail = CborEof | CborErr

type_synonym 'a reader = "log_in \<Rightarrow> (cbor_fail + 'a) \<times> log_in"

text \<open>The argument bytes of a head.\<close>

definition read_arg :: "nat \<Rightarrow> bytes reader" where
  "read_arg n s = (case read_exact n s of (RdOk b, s) \<Rightarrow> (Inr b, s) | (_, s) \<Rightarrow> (Inl CborErr, s))"

definition cbor_read_head :: "(u8 \<times> u64) reader" where
  "cbor_read_head s =
     (case read_exact 1 s of
        (RdEof, s) \<Rightarrow> (Inl CborEof, s)
      | (RdErr, s) \<Rightarrow> (Inl CborErr, s)
      | (RdOk ibs, s) \<Rightarrow>
          let ib = ibs ! 0;
              major = drop_bit 5 ib;
              ai = ib AND 0x1F
          in if ai < 24 then (Inr (major, ucast ai), s)
             else if ai = 24 then
               (case read_arg 1 s of
                  (Inl e, s) \<Rightarrow> (Inl e, s)
                | (Inr b, s) \<Rightarrow> (Inr (major, ucast (b ! 0)), s))
             else if ai = 25 then
               (case read_arg 2 s of
                  (Inl e, s) \<Rightarrow> (Inl e, s)
                | (Inr b, s) \<Rightarrow> (Inr (major, push_bit 8 (ucast (b ! 0)) OR ucast (b ! 1)), s))
             else if ai = 26 then
               (case read_arg 4 s of
                  (Inl e, s) \<Rightarrow> (Inl e, s)
                | (Inr b, s) \<Rightarrow>
                    (Inr (major, push_bit 24 (ucast (b ! 0)) OR push_bit 16 (ucast (b ! 1)) OR
                            push_bit 8 (ucast (b ! 2)) OR ucast (b ! 3)), s))
             else if ai = 27 then
               (case read_arg 8 s of
                  (Inl e, s) \<Rightarrow> (Inl e, s)
                | (Inr b, s) \<Rightarrow>
                    (Inr (major, push_bit 56 (ucast (b ! 0)) OR push_bit 48 (ucast (b ! 1)) OR
                            push_bit 40 (ucast (b ! 2)) OR push_bit 32 (ucast (b ! 3)) OR
                            push_bit 24 (ucast (b ! 4)) OR push_bit 16 (ucast (b ! 5)) OR
                            push_bit 8 (ucast (b ! 6)) OR ucast (b ! 7)), s))
             else (Inl CborErr, s))"

text \<open>A head of the expected major type.\<close>

definition expect :: "u8 \<Rightarrow> u64 reader" where
  "expect m s =
     (case cbor_read_head s of
        (Inl e, s) \<Rightarrow> (Inl e, s)
      | (Inr (major, val), s) \<Rightarrow> (if major \<noteq> m then Inl CborErr else Inr val, s))"

definition cbor_read_uint :: "u64 reader" where "cbor_read_uint = expect 0"

definition cbor_read_bytes_hdr :: "u64 reader" where "cbor_read_bytes_hdr = expect 2"

definition cbor_read_map :: "u64 reader" where "cbor_read_map = expect 5"

text \<open>A text for a buffer of \<open>cap\<close> bytes.\<close>

definition cbor_read_text :: "nat \<Rightarrow> bytes reader" where
  "cbor_read_text cap s =
     (case expect 3 s of
        (Inl e, s) \<Rightarrow> (Inl e, s)
      | (Inr len, s) \<Rightarrow>
          if unat len \<ge> cap then (Inl CborErr, s)
          else if len > 0 then read_arg (unat len) s
          else (Inr [], s))"

text \<open>Skipping the bytes of a string in chunks of 256.\<close>

function skip_bytes :: "nat \<Rightarrow> unit reader" where
  "skip_bytes val s =
     (if val = 0 then (Inr (), s)
      else
        (case read_arg (min val 256) s of
           (Inl e, s) \<Rightarrow> (Inl e, s)
         | (Inr _, s) \<Rightarrow> skip_bytes (val - min val 256) s))"
  by pat_completeness auto

termination
  by (relation "measure fst") auto

declare skip_bytes.simps [simp del]

text \<open>
  Skipping an item. The recursion follows the nesting of the input; \<open>fuel\<close> bounds its depth, and
  \<open>None\<close> says that it was too small.
\<close>

function (sequential) cbor_skip :: "nat \<Rightarrow> log_in \<Rightarrow> ((cbor_fail + unit) \<times> log_in) option"
  and skip_items :: "nat \<Rightarrow> nat \<Rightarrow> log_in \<Rightarrow> ((cbor_fail + unit) \<times> log_in) option" where
  "cbor_skip 0 s = None"
| "cbor_skip (Suc fuel) s =
     (case cbor_read_head s of
        (Inl e, s) \<Rightarrow> Some (Inl e, s)
      | (Inr (major, val), s) \<Rightarrow>
          if major = 0 \<or> major = 1 \<or> major = 7 then Some (Inr (), s)
          else if major = 2 \<or> major = 3 then Some (skip_bytes (unat val) s)
          else if major = 4 then skip_items fuel (unat val) s
          else if major = 5 then skip_items fuel (2 * unat val) s
          else Some (Inl CborErr, s))"
| "skip_items fuel 0 s = Some (Inr (), s)"
| "skip_items fuel (Suc n) s =
     (case cbor_skip fuel s of
        None \<Rightarrow> None
      | Some (Inl _, s) \<Rightarrow> Some (Inl CborErr, s)
      | Some (Inr _, s) \<Rightarrow> skip_items fuel n s)"
  by pat_completeness auto

termination
  by (relation "measures [\<lambda>x. case x of Inl (fuel, s) \<Rightarrow> 2 * fuel | Inr (fuel, n, s) \<Rightarrow> 2 * fuel + 1,
      \<lambda>x. case x of Inl _ \<Rightarrow> 0 | Inr (fuel, n, s) \<Rightarrow> n]") auto

section \<open>The header\<close>

record log_header =
  lh_version :: u32
  lh_block_size :: u32
  lh_label :: bytes
  lh_device_size :: u64
  lh_path :: bytes

definition log_header0 :: log_header where
  "log_header0 = \<lparr>lh_version = 0, lh_block_size = 4096, lh_label = [], lh_device_size = 0, lh_path = []\<rparr>"

text \<open>One key and its value.\<close>

definition header_field :: "nat \<Rightarrow> log_header \<Rightarrow> log_in \<Rightarrow> ((cbor_fail + log_header) \<times> log_in) option" where
  "header_field fuel h s =
     (case cbor_read_uint s of
        (Inl e, s) \<Rightarrow> Some (Inl e, s)
      | (Inr key, s) \<Rightarrow>
          if key = LBD_CBOR_KEY_HDR_VERSION then
            Some (case cbor_read_uint s of (Inl e, s) \<Rightarrow> (Inl e, s) | (Inr v, s) \<Rightarrow> (Inr (h\<lparr>lh_version := ucast v\<rparr>), s))
          else if key = LBD_CBOR_KEY_HDR_BLOCK_SIZE then
            Some (case cbor_read_uint s of (Inl e, s) \<Rightarrow> (Inl e, s) | (Inr v, s) \<Rightarrow> (Inr (h\<lparr>lh_block_size := ucast v\<rparr>), s))
          else if key = LBD_CBOR_KEY_HDR_SEGMENT_LABEL then
            Some (case cbor_read_text 32 s of (Inl e, s) \<Rightarrow> (Inl e, s) | (Inr t, s) \<Rightarrow> (Inr (h\<lparr>lh_label := t\<rparr>), s))
          else if key = LBD_CBOR_KEY_HDR_DEVICE_SIZE then
            Some (case cbor_read_uint s of (Inl e, s) \<Rightarrow> (Inl e, s) | (Inr v, s) \<Rightarrow> (Inr (h\<lparr>lh_device_size := v\<rparr>), s))
          else if key = LBD_CBOR_KEY_HDR_BACKING_PATH then
            Some (case cbor_read_text 256 s of (Inl e, s) \<Rightarrow> (Inl e, s) | (Inr t, s) \<Rightarrow> (Inr (h\<lparr>lh_path := t\<rparr>), s))
          else
            (case cbor_skip fuel s of
               None \<Rightarrow> None
             | Some (Inl e, s) \<Rightarrow> Some (Inl e, s)
             | Some (Inr _, s) \<Rightarrow> Some (Inr h, s)))"

fun header_loop :: "nat \<Rightarrow> nat \<Rightarrow> log_header \<Rightarrow> log_in \<Rightarrow> ((cbor_fail + log_header) \<times> log_in) option" where
  "header_loop fuel 0 h s = Some (Inr h, s)"
| "header_loop fuel (Suc n) h s =
     (case header_field fuel h s of
        None \<Rightarrow> None
      | Some (Inl e, s) \<Rightarrow> Some (Inl e, s)
      | Some (Inr h, s) \<Rightarrow> header_loop fuel n h s)"

section \<open>Entries\<close>

text \<open>
  The local variables that collect an entry; \<open>it_data\<close> is the used part of the data buffer, whose
  capacity \<open>it_cap\<close> is kept from entry to entry.
\<close>

record log_item =
  it_op :: u8
  it_timestamp :: u64
  it_sequence :: u64
  it_block :: u64
  it_length :: u32
  it_checksum :: u32
  it_has_checksum :: bool
  it_has_data :: bool
  it_data :: bytes
  it_cap :: nat

definition log_item0 :: "nat \<Rightarrow> log_item" where
  "log_item0 cap = \<lparr>it_op = 0, it_timestamp = 0, it_sequence = 0, it_block = 0, it_length = 0, it_checksum = 0,
     it_has_checksum = False, it_has_data = False, it_data = [], it_cap = cap\<rparr>"

text \<open>
  The payload. The buffer is enlarged when it is too small; \<open>malloc_ok\<close> says whether an allocation
  of that size succeeds.
\<close>

definition read_data :: "(nat \<Rightarrow> bool) \<Rightarrow> log_item \<Rightarrow> log_item reader" where
  "read_data malloc_ok it s =
     (case cbor_read_bytes_hdr s of
        (Inl e, s) \<Rightarrow> (Inl e, s)
      | (Inr data_len, s) \<Rightarrow>
          if unat data_len > it_cap it \<and> \<not> malloc_ok (unat data_len) then (Inl CborErr, s)
          else
            let it = it\<lparr>it_has_data := True, it_data := [], it_cap := max (it_cap it) (unat data_len)\<rparr> in
            if data_len = 0 then (Inr it, s)
            else
              (case read_arg (unat data_len) s of
                 (Inl e, s) \<Rightarrow> (Inl e, s)
               | (Inr d, s) \<Rightarrow> (Inr (it\<lparr>it_data := d\<rparr>), s)))"

definition entry_field :: "(nat \<Rightarrow> bool) \<Rightarrow> nat \<Rightarrow> log_item \<Rightarrow> log_in \<Rightarrow> ((cbor_fail + log_item) \<times> log_in) option" where
  "entry_field malloc_ok fuel it s =
     (case cbor_read_uint s of
        (Inl e, s) \<Rightarrow> Some (Inl e, s)
      | (Inr key, s) \<Rightarrow>
          if key = LBD_CBOR_KEY_OP then
            Some (case cbor_read_text 4 s of
                    (Inl e, s) \<Rightarrow> (Inl e, s)
                  | (Inr t, s) \<Rightarrow> (Inr (it\<lparr>it_op := (case t of [] \<Rightarrow> 0 | c # _ \<Rightarrow> c)\<rparr>), s))
          else if key = LBD_CBOR_KEY_TIMESTAMP then
            Some (case cbor_read_uint s of (Inl e, s) \<Rightarrow> (Inl e, s) | (Inr v, s) \<Rightarrow> (Inr (it\<lparr>it_timestamp := v\<rparr>), s))
          else if key = LBD_CBOR_KEY_SEQUENCE then
            Some (case cbor_read_uint s of (Inl e, s) \<Rightarrow> (Inl e, s) | (Inr v, s) \<Rightarrow> (Inr (it\<lparr>it_sequence := v\<rparr>), s))
          else if key = LBD_CBOR_KEY_BLOCK then
            Some (case cbor_read_uint s of (Inl e, s) \<Rightarrow> (Inl e, s) | (Inr v, s) \<Rightarrow> (Inr (it\<lparr>it_block := v\<rparr>), s))
          else if key = LBD_CBOR_KEY_LENGTH then
            Some (case cbor_read_uint s of (Inl e, s) \<Rightarrow> (Inl e, s) | (Inr v, s) \<Rightarrow> (Inr (it\<lparr>it_length := ucast v\<rparr>), s))
          else if key = LBD_CBOR_KEY_CHECKSUM then
            Some (case cbor_read_uint s of
                    (Inl e, s) \<Rightarrow> (Inl e, s)
                  | (Inr v, s) \<Rightarrow> (Inr (it\<lparr>it_checksum := ucast v, it_has_checksum := True\<rparr>), s))
          else if key = LBD_CBOR_KEY_DATA then Some (read_data malloc_ok it s)
          else
            (case cbor_skip fuel s of
               None \<Rightarrow> None
             | Some (Inl e, s) \<Rightarrow> Some (Inl e, s)
             | Some (Inr _, s) \<Rightarrow> Some (Inr it, s)))"

fun entry_fields :: "(nat \<Rightarrow> bool) \<Rightarrow> nat \<Rightarrow> nat \<Rightarrow> log_item \<Rightarrow> log_in \<Rightarrow> ((cbor_fail + log_item) \<times> log_in) option" where
  "entry_fields malloc_ok fuel 0 it s = Some (Inr it, s)"
| "entry_fields malloc_ok fuel (Suc n) it s =
     (case entry_field malloc_ok fuel it s of
        None \<Rightarrow> None
      | Some (Inl e, s) \<Rightarrow> Some (Inl e, s)
      | Some (Inr it, s) \<Rightarrow> entry_fields malloc_ok fuel n it s)"

text \<open>What is printed of an entry.\<close>

record log_line =
  ll_trim :: bool
  ll_sequence :: u64
  ll_timestamp :: u64
  ll_block :: u64
  ll_block_end :: u64
  ll_offset :: u64
  ll_length :: u32
  ll_comp_size :: "nat option"
  ll_checksum :: "(u32 \<times> bool) option"
  ll_data :: "bytes option"

text \<open>
  Decompression, checksum, and the printed values. The reader gives up (\<open>Inl (Some 0)\<close>) when the
  data cannot be decompressed, and runs into an undefined operation (\<open>Inl None\<close>) when the header
  gave a block size of zero or the data is too long for the decompressor's length.
\<close>

definition entry_data :: "(nat \<Rightarrow> bool) \<Rightarrow> log_item \<Rightarrow> nat option + bytes \<times> nat" where
  "entry_data malloc_ok it =
     (let len = unat (it_length it) in
      if \<not> (it_has_data it \<and> len > 0 \<and> it_data it \<noteq> []) then Inr (it_data it, it_cap it)
      else if \<not> malloc_ok len then Inl (Some 0)
      else if length (it_data it) \<ge> 2 ^ 31 then Inl None
      else if len \<ge> 2 ^ 31 then Inl (Some 0)
      else
        (case LZ4_decompress_safe (it_data it) (replicate len 0) of
           None \<Rightarrow> Inl None
         | Some (dec_len, dst) \<Rightarrow>
             if dec_len < 0 then Inl (Some 0)
             else if len > it_cap it \<and> \<not> malloc_ok len then Inl (Some 0)
             else Inr (take (nat dec_len) dst, max (it_cap it) len)))"

definition entry_line :: "(nat \<Rightarrow> bool) \<Rightarrow> log_header \<Rightarrow> log_item \<Rightarrow> nat option + log_line \<times> nat" where
  "entry_line malloc_ok h it =
     (case entry_data malloc_ok it of
        Inl e \<Rightarrow> Inl e
      | Inr (d, cap) \<Rightarrow>
          if lh_block_size h = 0 then Inl None
          else
            Inr (\<lparr>ll_trim = (it_op it = of_char CHR ''T''), ll_sequence = it_sequence it, ll_timestamp = it_timestamp it,
                  ll_block = it_block it, ll_block_end = it_block it + ucast (it_length it div lh_block_size h) - 1,
                  ll_offset = it_block it * ucast (lh_block_size h), ll_length = it_length it,
                  ll_comp_size = (if it_has_data it \<and> it_data it \<noteq> [] then Some (length (it_data it)) else None),
                  ll_checksum = (if it_has_checksum it
                                 then Some (it_checksum it, it_has_data it \<longrightarrow> crc32_calc d = it_checksum it)
                                 else None),
                  ll_data = (if it_has_data it then Some d else None)\<rparr>, cap))"

text \<open>
  The entries until the end of the file or the first error. \<open>fuel\<close> bounds the number of entries
  and the depth of skipped items.
\<close>

fun entry_loop :: "(nat \<Rightarrow> bool) \<Rightarrow> nat \<Rightarrow> nat \<Rightarrow> nat \<Rightarrow> log_header \<Rightarrow> log_in \<Rightarrow> (nat option \<times> log_line list) option" where
  "entry_loop malloc_ok fuel 0 cap h s = None"
| "entry_loop malloc_ok fuel (Suc k) cap h s =
     (case cbor_read_head s of
        (Inl e, s) \<Rightarrow> Some (Some 0, [])
      | (Inr (major, count), s) \<Rightarrow>
          if major \<noteq> 5 then Some (Some 0, [])
          else
            (case entry_fields malloc_ok fuel (unat count) (log_item0 cap) s of
               None \<Rightarrow> None
             | Some (Inl e, s) \<Rightarrow> Some (Some 0, [])
             | Some (Inr it, s) \<Rightarrow>
                 (case entry_line malloc_ok h it of
                    Inl e \<Rightarrow> Some (e, [])
                  | Inr (l, cap) \<Rightarrow> map_option (apsnd ((#) l)) (entry_loop malloc_ok fuel k cap h s))))"

definition cmd_log_cbor :: "(nat \<Rightarrow> bool) \<Rightarrow> nat \<Rightarrow> log_in \<Rightarrow> (nat option \<times> log_header option \<times> log_line list) option" where
  "cmd_log_cbor malloc_ok fuel s =
     (case cbor_read_map s of
        (Inl e, s) \<Rightarrow> Some (Some 1, None, [])
      | (Inr count, s) \<Rightarrow>
          (case header_loop fuel (unat count) log_header0 s of
             None \<Rightarrow> None
           | Some (Inl e, s) \<Rightarrow> Some (Some 1, None, [])
           | Some (Inr h, s) \<Rightarrow> map_option (\<lambda>(r, ls). (r, Some h, ls)) (entry_loop malloc_ok fuel fuel 0 h s)))"

text \<open>The command on a file of the given contents; a failing \<open>open\<close> is \<open>None\<close>.\<close>

definition cmd_log :: "(nat \<Rightarrow> bool) \<Rightarrow> bytes option \<Rightarrow> io_outcome list \<Rightarrow> (nat option \<times> log_header option \<times> log_line list) option" where
  "cmd_log malloc_ok log reads =
     (case log of
        None \<Rightarrow> Some (Some 1, None, [])
      | Some f \<Rightarrow> cmd_log_cbor malloc_ok (length f + 2) \<lparr>li_rest = f, li_plan = reads\<rparr>)"

end
