(* ===== verification/Lbdctl_Log_Read.thy ===== *)
theory Lbdctl_Log_Read
  imports Lbdctl_Log Lbd_Segments
begin

text \<open>
  The log reader reads back what the driver logged: from a complete segment every entry, from a
  segment that was cut off every complete entry.
\<close>

section \<open>Readers\<close>

text \<open>
  \<open>r\<close> reads \<open>v\<close> from exactly the bytes \<open>xs\<close>, whatever follows them, and fails when they are cut off.
\<close>

definition reads :: "'a reader \<Rightarrow> bytes \<Rightarrow> 'a \<Rightarrow> bool" where
  "reads r xs v \<longleftrightarrow> (\<forall>ys. r (fd_of (xs @ ys)) = (Inr v, fd_of ys)) \<and>
     (\<forall>p q. xs = p @ q \<and> q \<noteq> [] \<longrightarrow> (\<exists>e s. r (fd_of p) = (Inl e, s)))"

lemma reads_bind:
  assumes "reads r xs v" "reads (f v) ys u"
  shows "reads (\<lambda>s. case r s of (Inl e, s) \<Rightarrow> (Inl e, s) | (Inr v, s) \<Rightarrow> f v s) (xs @ ys) u"
  unfolding reads_def
proof (intro conjI allI impI)
  show "(case r (fd_of ((xs @ ys) @ zs)) of (Inl e, s) \<Rightarrow> (Inl e, s) | (Inr v, s) \<Rightarrow> f v s) = (Inr u, fd_of zs)" for zs
    using assms by (simp add: reads_def)
  fix p q
  assume "xs @ ys = p @ q \<and> q \<noteq> []"
  then consider us where "p = xs @ us" "ys = us @ q" "q \<noteq> []" | us where "xs = p @ us" "us \<noteq> []"
    by (auto simp: append_eq_append_conv2) (metis append_Nil append_Nil2)
  then show "\<exists>e s. (case r (fd_of p) of (Inl e, s) \<Rightarrow> (Inl e, s) | (Inr v, s) \<Rightarrow> f v s) = (Inl e, s)"
  proof cases
    case 1
    then obtain e s where "f v (fd_of us) = (Inl e, s)"
      using assms(2) by (auto simp: reads_def)
    then show ?thesis
      using assms(1) 1(1) by (simp add: reads_def)
  next
    case 2
    then obtain e s where "r (fd_of p) = (Inl e, s)"
      using assms(1) unfolding reads_def by blast
    then show ?thesis
      by simp
  qed
qed

lemma reads_return: "reads (\<lambda>s. (Inr v, s)) [] v"
  by (simp add: reads_def)

lemma reads_map:
  assumes "reads r xs v"
  shows "reads (\<lambda>s. case r s of (Inl e, s) \<Rightarrow> (Inl e, s) | (Inr v, s) \<Rightarrow> (Inr (f v), s)) xs (f v)"
  using reads_bind [where f = "\<lambda>v s. (Inr (f v), s)", OF assms reads_return] by simp

lemma read_loop_fd:
  "read_loop len acc (fd_of bs) =
     (if length acc \<ge> len then (RdOk acc, fd_of bs)
      else if len - length acc \<le> length bs then (RdOk (acc @ take (len - length acc) bs), fd_of (drop (len - length acc) bs))
      else (if acc = [] \<and> bs = [] then RdEof else RdErr, fd_of []))"
proof -
  have sr: "sys_read n (fd_of xs) = (Inr (take n xs), fd_of (drop n xs))" for n xs
    by (simp add: sys_read_def fd_of_def)
  have e: "read_loop len acc (fd_of []) = (if length acc \<ge> len then (RdOk acc, fd_of []) else (if acc = [] then RdEof else RdErr, fd_of []))" for acc
    by (subst read_loop.simps) (simp add: sr)
  show ?thesis
  proof (cases "bs = []")
    case True
    then show ?thesis
      using e by auto
  next
    case False
    then show ?thesis
      by (subst read_loop.simps) (auto simp: sr e read_loop.simps [of _ "_ @ _" "fd_of (drop _ _)"])
  qed
qed

lemma read_exact_fd:
  "read_exact n (fd_of bs) =
     (if n \<le> length bs then (RdOk (take n bs), fd_of (drop n bs)) else (if bs = [] then RdEof else RdErr, fd_of []))"
  by (auto simp: read_exact_def read_loop_fd)

lemma reads_arg: "length xs = n \<Longrightarrow> reads (read_arg n) xs xs"
  by (auto simp: reads_def read_arg_def read_exact_fd)

lemma read_arg_fd:
  "read_arg n (fd_of bs) = (if n \<le> length bs then (Inr (take n bs), fd_of (drop n bs)) else (Inl CborErr, fd_of []))"
  by (simp add: read_arg_def read_exact_fd)

text \<open>The head decoder for files computes what the one for buffers computes.\<close>

lemma read_head_dec:
  "case cbor_dec_head (cbor_dec_init bs (length bs)) of
     (Inl _, d) \<Rightarrow> fst (cbor_read_head (fd_of bs)) = Inl (if bs = [] then CborEof else CborErr)
   | (Inr x, d) \<Rightarrow> cbor_read_head (fd_of bs) = (Inr x, fd_of (drop (cd_pos d) bs))"
proof (cases bs)
  case Nil
  then show ?thesis
    by (simp add: cbor_read_head_def read_exact_fd cbor_dec_head_def cbor_dec_init_def)
next
  case (Cons b bs')
  have r: "read_exact 1 (fd_of bs) = (RdOk [b], fd_of bs')" and i: "cbor_dec_init bs (length bs) = \<lparr>cd_buf = b # bs', cd_pos = 0, cd_len = Suc (length bs')\<rparr>"
    by (simp_all add: Cons read_exact_fd cbor_dec_init_def)
  consider "b AND 0x1F < 24" | "b AND 0x1F = 24" | "b AND 0x1F = 25" | "b AND 0x1F = 26" | "b AND 0x1F = 27"
    | "\<not> b AND 0x1F < 24" "b AND 0x1F \<noteq> 24" "b AND 0x1F \<noteq> 25" "b AND 0x1F \<noteq> 26" "b AND 0x1F \<noteq> 27"
    by blast
  then show ?thesis
  proof cases
    case 1
    then show ?thesis
      unfolding i cbor_read_head_def r by (simp add: Cons cbor_dec_head_def Let_def)
  next
    case 2
    then show ?thesis
      unfolding i cbor_read_head_def r by (simp add: Cons cbor_dec_head_def Let_def read_arg_fd Suc_le_eq)
  next
    case 3
    then show ?thesis
      unfolding i cbor_read_head_def r by (simp add: Cons cbor_dec_head_def Let_def read_arg_fd del: One_nat_def) simp
  next
    case 4
    then show ?thesis
      unfolding i cbor_read_head_def r by (simp add: Cons cbor_dec_head_def Let_def read_arg_fd)
  next
    case 5
    then show ?thesis
      unfolding i cbor_read_head_def r by (simp add: Cons cbor_dec_head_def Let_def read_arg_fd)
  next
    case 6
    then show ?thesis
      unfolding i cbor_read_head_def r by (simp add: Cons cbor_dec_head_def Let_def)
  qed
qed

lemma dec_init_wf [simp]: "dec_wf (cbor_dec_init bs (length bs))" "dec_rest (cbor_dec_init bs (length bs)) = bs"
  by (simp_all add: dec_wf_def dec_rest_def cbor_dec_init_def)

lemma reads_head:
  assumes "m < 8"
  shows "reads cbor_read_head (cbor_head m v) (m, v)"
  unfolding reads_def
proof (intro conjI allI impI)
  fix ys
  let ?bs = "cbor_head m v @ ys"
  have "cbor_dec_head (cbor_dec_init ?bs (length ?bs)) =
      (Inr (m, v), (cbor_dec_init ?bs (length ?bs))\<lparr>cd_pos := cd_pos (cbor_dec_init ?bs (length ?bs)) + length (cbor_head m v)\<rparr>)"
    by (rule cbor_dec_head_ok [OF dec_init_wf(1) assms dec_init_wf(2)])
  then show "cbor_read_head (fd_of ?bs) = (Inr (m, v), fd_of ys)"
    using read_head_dec [of ?bs] by (simp add: cbor_dec_init_def)
next
  fix p q
  assume a: "cbor_head m v = p @ q \<and> q \<noteq> []"
  then have "p = take (length p) (cbor_head m v)" "length p < length (cbor_head m v)"
    by auto
  then have "fst (cbor_dec_head (cbor_dec_init p (length p))) = Inl EINVAL"
    using cbor_dec_head_truncated [OF _ assms, of "cbor_dec_init p (length p)" "length p" v] by simp
  then show "\<exists>e s. cbor_read_head (fd_of p) = (Inl e, s)"
    using read_head_dec [of p] by (cases "cbor_dec_head (cbor_dec_init p (length p))"; cases "cbor_read_head (fd_of p)") auto
qed

lemma reads_expect: "m < 8 \<Longrightarrow> reads (expect m) (cbor_head m v) v"
proof -
  assume m: "m < 8"
  have "expect m = (\<lambda>s. case cbor_read_head s of (Inl e, s) \<Rightarrow> (Inl e, s)
      | (Inr x, s) \<Rightarrow> (if fst x \<noteq> m then Inl CborErr else Inr (snd x), s))"
    by (auto simp: expect_def fun_eq_iff split: prod.split sum.split)
  moreover have "reads (\<lambda>s. (if fst (m, v) \<noteq> m then Inl CborErr else Inr (snd (m, v)), s)) [] v"
    by (simp add: reads_return)
  ultimately show ?thesis
    using reads_bind [where f = "\<lambda>x s. (if fst x \<noteq> m then Inl CborErr else Inr (snd x), s)", OF reads_head [OF m], of v "[]" v] by simp
qed

lemmas reads_uint = reads_expect [of 0, folded cbor_read_uint_def, simplified]
lemmas reads_bytes_hdr = reads_expect [of 2, folded cbor_read_bytes_hdr_def, simplified]
lemmas reads_map_hdr = reads_expect [of 5, folded cbor_read_map_def, simplified]

lemma reads_text:
  assumes "length t < cap" "length t < 2 ^ 64"
  shows "reads (cbor_read_text cap) (cbor_head 3 (of_nat (length t)) @ t) t"
proof -
  let ?f = "\<lambda>(len :: u64) s. if unat len \<ge> cap then (Inl CborErr, s) else if len > 0 then read_arg (unat len) s else (Inr [], s)"
  have u: "unat (of_nat (length t) :: u64) = length t"
    using assms(2) by (simp add: unat_of_nat_u64)
  have "reads (?f (of_nat (length t))) t t"
  proof (cases "t = []")
    case True
    then show ?thesis
      using assms(1) by (simp add: reads_return)
  next
    case False
    then have "(0 :: u64) < of_nat (length t)"
      using u by (simp add: word_less_nat_alt)
    then show ?thesis
      using u assms(1) reads_arg [of t "length t"] by simp
  qed
  then have "reads (\<lambda>s. case expect 3 s of (Inl e, s) \<Rightarrow> (Inl e, s) | (Inr v, s) \<Rightarrow> ?f v s) (cbor_head 3 (of_nat (length t)) @ t) t"
    by (intro reads_bind [OF reads_expect]) simp_all
  moreover have "cbor_read_text cap = (\<lambda>s. case expect 3 s of (Inl e, s) \<Rightarrow> (Inl e, s) | (Inr v, s) \<Rightarrow> ?f v s)"
    by (simp add: cbor_read_text_def fun_eq_iff)
  ultimately show ?thesis
    by simp
qed

text \<open>Readers with fuel.\<close>

definition reads_opt :: "(log_in \<Rightarrow> ((cbor_fail + 'a) \<times> log_in) option) \<Rightarrow> bytes \<Rightarrow> 'a \<Rightarrow> bool" where
  "reads_opt r xs v \<longleftrightarrow> (\<forall>ys. r (fd_of (xs @ ys)) = Some (Inr v, fd_of ys)) \<and>
     (\<forall>p q. xs = p @ q \<and> q \<noteq> [] \<longrightarrow> (\<exists>e s. r (fd_of p) = Some (Inl e, s)))"

lemma reads_some: "reads_opt (\<lambda>s. Some (r s)) xs v \<longleftrightarrow> reads r xs v"
  by (simp add: reads_opt_def reads_def)

lemma reads_opt_bind:
  assumes "reads_opt r xs v" "reads_opt (f v) ys u"
  shows "reads_opt (\<lambda>s. case r s of None \<Rightarrow> None | Some (Inl e, s) \<Rightarrow> Some (Inl e, s) | Some (Inr v, s) \<Rightarrow> f v s) (xs @ ys) u"
  unfolding reads_opt_def
proof (intro conjI allI impI)
  show "(case r (fd_of ((xs @ ys) @ zs)) of None \<Rightarrow> None | Some (Inl e, s) \<Rightarrow> Some (Inl e, s) | Some (Inr v, s) \<Rightarrow> f v s) =
      Some (Inr u, fd_of zs)" for zs
    using assms by (simp add: reads_opt_def)
  fix p q
  assume "xs @ ys = p @ q \<and> q \<noteq> []"
  then consider us where "p = xs @ us" "ys = us @ q" "q \<noteq> []" | us where "xs = p @ us" "us \<noteq> []"
    by (auto simp: append_eq_append_conv2) (metis append_Nil append_Nil2)
  then show "\<exists>e s. (case r (fd_of p) of None \<Rightarrow> None | Some (Inl e, s) \<Rightarrow> Some (Inl e, s) | Some (Inr v, s) \<Rightarrow> f v s) = Some (Inl e, s)"
  proof cases
    case 1
    then obtain e s where "f v (fd_of us) = Some (Inl e, s)"
      using assms(2) by (auto simp: reads_opt_def)
    then show ?thesis
      using assms(1) 1(1) by (simp add: reads_opt_def)
  next
    case 2
    then obtain e s where "r (fd_of p) = Some (Inl e, s)"
      using assms(1) unfolding reads_opt_def by blast
    then show ?thesis
      by simp
  qed
qed

lemma reads_opt_then:
  assumes "reads r xs v" "reads_opt (f v) ys u"
  shows "reads_opt (\<lambda>s. case r s of (Inl e, s) \<Rightarrow> Some (Inl e, s) | (Inr v, s) \<Rightarrow> f v s) (xs @ ys) u"
  using reads_opt_bind [where r = "\<lambda>s. Some (r s)" and f = f, OF _ assms(2)] assms(1) by (simp add: reads_some)

section \<open>The header\<close>

lemma header_field_reads:
  "reads_opt (header_field fuel h) (item_bytes (IUint 1) @ item_bytes (IUint v)) (h\<lparr>lh_version := ucast v\<rparr>)"
  "reads_opt (header_field fuel h) (item_bytes (IUint 2) @ item_bytes (IUint v)) (h\<lparr>lh_block_size := ucast v\<rparr>)"
  "length t < 32 \<Longrightarrow> reads_opt (header_field fuel h) (item_bytes (IUint 3) @ item_bytes (IText t)) (h\<lparr>lh_label := t\<rparr>)"
  "reads_opt (header_field fuel h) (item_bytes (IUint 4) @ item_bytes (IUint v)) (h\<lparr>lh_device_size := v\<rparr>)"
  "length t < 256 \<Longrightarrow> reads_opt (header_field fuel h) (item_bytes (IUint 5) @ item_bytes (IText t)) (h\<lparr>lh_path := t\<rparr>)"
  unfolding header_field_def item_bytes.simps
  by (rule reads_opt_then [OF reads_uint];
      simp add: log_key_defs reads_some; intro reads_map reads_uint reads_text; simp)+

lemma header_loop_step:
  assumes "reads_opt (header_field fuel h) xs h'" "reads_opt (header_loop fuel n h') ys u"
  shows "reads_opt (header_loop fuel (Suc n) h) (xs @ ys) u"
proof -
  have "header_loop fuel (Suc n) h = (\<lambda>s. case header_field fuel h s of None \<Rightarrow> None | Some (Inl e, s) \<Rightarrow> Some (Inl e, s) | Some (Inr h, s) \<Rightarrow> header_loop fuel n h s)"
    by (rule ext) simp
  then show ?thesis
    using reads_opt_bind [where f = "header_loop fuel n", OF assms] by simp
qed

definition header_of :: "bytes \<Rightarrow> u64 \<Rightarrow> bytes \<Rightarrow> log_header" where
  "header_of label sz path = \<lparr>lh_version = 2, lh_block_size = 4096, lh_label = label, lh_device_size = sz, lh_path = path\<rparr>"

lemma header_reads:
  assumes "length label < 32" "length path < 256"
  shows "reads_opt (\<lambda>s. case cbor_read_map s of (Inl e, s) \<Rightarrow> Some (Inl e, s) | (Inr count, s) \<Rightarrow> header_loop fuel (unat count) log_header0 s)
    (items_bytes (header_items label sz path)) (header_of label sz path)"
proof -
  have "reads_opt (header_loop fuel (Suc (Suc (Suc (Suc (Suc 0))))) log_header0)
    ((item_bytes (IUint 1) @ item_bytes (IUint 2)) @ (item_bytes (IUint 2) @ item_bytes (IUint 4096)) @ (item_bytes (IUint 3) @ item_bytes (IText label)) @
     (item_bytes (IUint 4) @ item_bytes (IUint sz)) @ (item_bytes (IUint 5) @ item_bytes (IText path)) @ []) (header_of label sz path)"
    by (rule header_loop_step, rule header_field_reads(1), rule header_loop_step, rule header_field_reads(2),
        rule header_loop_step, rule header_field_reads(3) [OF assms(1)], rule header_loop_step, rule header_field_reads(4),
        rule header_loop_step, rule header_field_reads(5) [OF assms(2)], simp add: reads_opt_def log_header0_def header_of_def)
  moreover have "unat (5 :: u64) = Suc (Suc (Suc (Suc (Suc 0))))"
    by simp
  ultimately have "reads_opt (header_loop fuel (unat (5 :: u64)) log_header0) (items_bytes (tl (header_items label sz path))) (header_of label sz path)"
    by (simp only: header_items_def list.sel list.map concat.simps append_assoc)
  then show ?thesis
    using reads_opt_then [where f = "\<lambda>count. header_loop fuel (unat count) log_header0", OF reads_map_hdr] by (simp add: header_items_def)
qed

section \<open>Entries\<close>

lemma reads_data:
  assumes "0 < length d" "length d < 2 ^ 64"
  shows "reads (read_data (\<lambda>_. True) it) (cbor_head 2 (of_nat (length d)) @ d)
    (it\<lparr>it_has_data := True, it_data := d, it_cap := max (it_cap it) (length d)\<rparr>)"
proof -
  have u: "unat (of_nat (length d) :: u64) = length d" "(of_nat (length d) :: u64) \<noteq> 0"
    using assms unat_of_nat_u64 [of "length d"] by auto
  let ?it = "it\<lparr>it_has_data := True, it_data := [], it_cap := max (it_cap it) (length d)\<rparr>"
  have "reads (\<lambda>s. case read_arg (length d) s of (Inl e, s) \<Rightarrow> (Inl e, s) | (Inr d, s) \<Rightarrow> (Inr (?it\<lparr>it_data := d\<rparr>), s)) d (?it\<lparr>it_data := d\<rparr>)"
    by (rule reads_map [OF reads_arg]) simp
  moreover have "?it\<lparr>it_data := d\<rparr> = it\<lparr>it_has_data := True, it_data := d, it_cap := max (it_cap it) (length d)\<rparr>"
    by (cases it) simp
  ultimately show ?thesis
    unfolding read_data_def by (intro reads_bind [OF reads_bytes_hdr]) (simp add: Let_def u)
qed

lemma entry_field_reads:
  "length t < 4 \<Longrightarrow> reads_opt (entry_field ok fuel it) (item_bytes (IUint 1) @ item_bytes (IText t)) (it\<lparr>it_op := (case t of [] \<Rightarrow> 0 | c # _ \<Rightarrow> c)\<rparr>)"
  "reads_opt (entry_field ok fuel it) (item_bytes (IUint 2) @ item_bytes (IUint v)) (it\<lparr>it_timestamp := v\<rparr>)"
  "reads_opt (entry_field ok fuel it) (item_bytes (IUint 3) @ item_bytes (IUint v)) (it\<lparr>it_sequence := v\<rparr>)"
  "reads_opt (entry_field ok fuel it) (item_bytes (IUint 4) @ item_bytes (IUint v)) (it\<lparr>it_block := v\<rparr>)"
  "reads_opt (entry_field ok fuel it) (item_bytes (IUint 5) @ item_bytes (IUint v)) (it\<lparr>it_length := ucast v\<rparr>)"
  "reads_opt (entry_field ok fuel it) (item_bytes (IUint 6) @ item_bytes (IUint v)) (it\<lparr>it_checksum := ucast v, it_has_checksum := True\<rparr>)"
  unfolding entry_field_def item_bytes.simps
  by (rule reads_opt_then [OF reads_uint];
      simp add: log_key_defs reads_some; intro reads_map reads_uint reads_text; simp)+

lemma entry_field_data:
  "0 < length d \<Longrightarrow> length d < 2 ^ 64 \<Longrightarrow>
   reads_opt (entry_field (\<lambda>_. True) fuel it) (item_bytes (IUint 7) @ cbor_head 2 (of_nat (length d)) @ d)
     (it\<lparr>it_has_data := True, it_data := d, it_cap := max (it_cap it) (length d)\<rparr>)"
  unfolding entry_field_def item_bytes.simps
  by (rule reads_opt_then [OF reads_uint]) (simp add: log_key_defs reads_some reads_data)

lemma entry_fields_step:
  assumes "reads_opt (entry_field ok fuel it) xs it'" "reads_opt (entry_fields ok fuel n it') ys u"
  shows "reads_opt (entry_fields ok fuel (Suc n) it) (xs @ ys) u"
proof -
  have "entry_fields ok fuel (Suc n) it = (\<lambda>s. case entry_field ok fuel it s of None \<Rightarrow> None | Some (Inl e, s) \<Rightarrow> Some (Inl e, s) | Some (Inr it, s) \<Rightarrow> entry_fields ok fuel n it s)"
    by (rule ext) simp
  then show ?thesis
    using reads_opt_bind [where f = "entry_fields ok fuel n", OF assms] by simp
qed

text \<open>The local variables after a record.\<close>

fun item_of :: "(u32 \<Rightarrow> bytes \<Rightarrow> u32) \<Rightarrow> nat \<Rightarrow> log_entry \<Rightarrow> log_item" where
  "item_of crc32 cap (LogWrite ts seq block data) =
     (let comp = LZ4_compress_fast_extState data in
      \<lparr>it_op = of_char CHR ''W'', it_timestamp = of_nat ts, it_sequence = seq, it_block = block, it_length = of_nat (length data),
       it_checksum = crc32 (NOT 0) data XOR NOT 0, it_has_checksum = True, it_has_data = True, it_data = comp, it_cap = max cap (length comp)\<rparr>)"
| "item_of crc32 cap (LogTrim ts seq block len) =
     \<lparr>it_op = of_char CHR ''T'', it_timestamp = of_nat ts, it_sequence = seq, it_block = block, it_length = len,
      it_checksum = 0, it_has_checksum = False, it_has_data = False, it_data = [], it_cap = cap\<rparr>"

text \<open>The payloads the driver logs: not empty, and of a length the compressor accepts.\<close>

fun entry_ok :: "log_entry \<Rightarrow> bool" where
  "entry_ok (LogWrite ts seq block data) \<longleftrightarrow> data \<noteq> [] \<and> length data \<le> LZ4_MAX_INPUT_SIZE"
| "entry_ok (LogTrim ts seq block len) \<longleftrightarrow> True"

definition read_entry :: "nat \<Rightarrow> nat \<Rightarrow> log_in \<Rightarrow> ((cbor_fail + log_item) \<times> log_in) option" where
  "read_entry fuel cap s =
     (case cbor_read_head s of
        (Inl e, s) \<Rightarrow> Some (Inl e, s)
      | (Inr x, s) \<Rightarrow> if fst x \<noteq> 5 then Some (Inl CborErr, s) else entry_fields (\<lambda>_. True) fuel (unat (snd x)) (log_item0 cap) s)"

lemma comp_len:
  assumes "length data \<le> LZ4_MAX_INPUT_SIZE"
  shows "0 < length (LZ4_compress_fast_extState data)" "length (LZ4_compress_fast_extState data) < 2 ^ 31"
proof -
  have "length data div 255 \<le> 2113929216 div 255"
    using assms by (intro div_le_mono) (simp add: LZ4_MAX_INPUT_SIZE_def)
  then show "0 < length (LZ4_compress_fast_extState data)" "length (LZ4_compress_fast_extState data) < 2 ^ 31"
    using compress_bound [OF assms] assms by (simp_all add: LZ4_compressBound_def LZ4_MAX_INPUT_SIZE_def)
qed

lemma ucast_back: "ucast (ucast (x :: u32) :: u64) = x"
  by (rule bit_word_eqI) (auto simp: bit_simps)

lemma read_entry_reads:
  assumes "entry_ok e"
  shows "reads_opt (read_entry fuel cap) (entry_bytes crc32 e) (item_of crc32 cap e)"
proof -
  let ?f = "\<lambda>x s. if fst x \<noteq> (5 :: u8) then Some (Inl CborErr, s) else entry_fields (\<lambda>_. True) fuel (unat (snd x :: u64)) (log_item0 cap) s"
  have re: "read_entry fuel cap = (\<lambda>s. case cbor_read_head s of (Inl e, s) \<Rightarrow> Some (Inl e, s) | (Inr x, s) \<Rightarrow> ?f x s)"
    by (rule ext) (simp add: read_entry_def)
  show ?thesis
  proof (cases e)
    case (LogWrite ts seq block data)
    let ?comp = "LZ4_compress_fast_extState data" and ?crc = "crc32 (NOT 0) data XOR NOT 0"
    have c: "0 < length ?comp" "length ?comp < 2 ^ 64"
      using comp_len [of data] assms LogWrite by auto
    have "reads_opt (entry_fields (\<lambda>_. True) fuel (Suc (Suc (Suc (Suc (Suc (Suc (Suc 0))))))) (log_item0 cap))
      ((item_bytes (IUint 1) @ item_bytes (IText (str ''W''))) @ (item_bytes (IUint 2) @ item_bytes (IUint (of_nat ts))) @
       (item_bytes (IUint 3) @ item_bytes (IUint seq)) @ (item_bytes (IUint 4) @ item_bytes (IUint block)) @
       (item_bytes (IUint 5) @ item_bytes (IUint (ucast (of_nat (length data) :: u32)))) @ (item_bytes (IUint 6) @ item_bytes (IUint (ucast ?crc))) @
       (item_bytes (IUint 7) @ cbor_head 2 (of_nat (length ?comp)) @ ?comp) @ []) (item_of crc32 cap e)"
      by (rule entry_fields_step, rule entry_field_reads(1), simp add: str_def, rule entry_fields_step, rule entry_field_reads(2),
          rule entry_fields_step, rule entry_field_reads(3), rule entry_fields_step, rule entry_field_reads(4),
          rule entry_fields_step, rule entry_field_reads(5), rule entry_fields_step, rule entry_field_reads(6),
          rule entry_fields_step, rule entry_field_data [OF c], simp add: reads_opt_def log_item0_def LogWrite str_def Let_def ucast_back)
    moreover have "unat (7 :: u64) = Suc (Suc (Suc (Suc (Suc (Suc (Suc 0))))))"
      by simp
    ultimately have "reads_opt (?f (5, 7)) (items_bytes (tl (write_items ts seq block (of_nat (length data)) ?crc)) @ cbor_head 2 (of_nat (length ?comp)) @ ?comp) (item_of crc32 cap e)"
      by (simp only: write_items_def list.sel list.map concat.simps append_assoc append_Nil append_Nil2 fst_conv snd_conv if_False simp_thms)
    then show ?thesis
      unfolding re using reads_opt_then [where f = ?f, OF reads_head [of 5 7]] by (simp add: LogWrite write_items_def Let_def)
  next
    case (LogTrim ts seq block len)
    have "reads_opt (entry_fields (\<lambda>_. True) fuel (Suc (Suc (Suc (Suc (Suc 0))))) (log_item0 cap))
      ((item_bytes (IUint 1) @ item_bytes (IText (str ''T''))) @ (item_bytes (IUint 2) @ item_bytes (IUint (of_nat ts))) @
       (item_bytes (IUint 3) @ item_bytes (IUint seq)) @ (item_bytes (IUint 4) @ item_bytes (IUint block)) @
       (item_bytes (IUint 5) @ item_bytes (IUint (ucast len))) @ []) (item_of crc32 cap e)"
      by (rule entry_fields_step, rule entry_field_reads(1), simp add: str_def, rule entry_fields_step, rule entry_field_reads(2),
          rule entry_fields_step, rule entry_field_reads(3), rule entry_fields_step, rule entry_field_reads(4),
          rule entry_fields_step, rule entry_field_reads(5), simp add: reads_opt_def log_item0_def LogTrim str_def ucast_back)
    moreover have "unat (5 :: u64) = Suc (Suc (Suc (Suc (Suc 0))))"
      by simp
    ultimately have "reads_opt (?f (5, 5)) (items_bytes (tl (trim_items ts seq block len))) (item_of crc32 cap e)"
      by (simp only: trim_items_def list.sel list.map concat.simps append_assoc append_Nil append_Nil2 fst_conv snd_conv if_False simp_thms)
    then show ?thesis
      unfolding re using reads_opt_then [where f = ?f, OF reads_head [of 5 5]] by (simp add: LogTrim trim_items_def)
  qed
qed

text \<open>What is printed of a logged operation.\<close>

definition crc32_agrees :: "(u32 \<Rightarrow> bytes \<Rightarrow> u32) \<Rightarrow> bool" where
  "crc32_agrees crc32 \<longleftrightarrow> (\<forall>d. crc32 (NOT 0) d XOR NOT 0 = crc32_calc d)"

fun line_of :: "log_entry \<Rightarrow> log_line" where
  "line_of (LogWrite ts seq block data) =
     \<lparr>ll_trim = False, ll_sequence = seq, ll_timestamp = of_nat ts, ll_block = block,
      ll_block_end = block + ucast (of_nat (length data) div 4096 :: u32) - 1, ll_offset = block * 4096,
      ll_length = of_nat (length data), ll_comp_size = Some (length (LZ4_compress_fast_extState data)),
      ll_checksum = Some (crc32_calc data, True), ll_data = Some data\<rparr>"
| "line_of (LogTrim ts seq block len) =
     \<lparr>ll_trim = True, ll_sequence = seq, ll_timestamp = of_nat ts, ll_block = block,
      ll_block_end = block + ucast (len div 4096) - 1, ll_offset = block * 4096,
      ll_length = len, ll_comp_size = None, ll_checksum = None, ll_data = None\<rparr>"

lemma entry_line_ok:
  assumes "entry_ok e" "crc32_agrees crc32" "lh_block_size h = 4096"
  shows "\<exists>cap'. entry_line (\<lambda>_. True) h (item_of crc32 cap e) = Inr (line_of e, cap')"
proof (cases e)
  case (LogWrite ts seq block data)
  let ?comp = "LZ4_compress_fast_extState data"
  have d: "data \<noteq> []" "length data \<le> LZ4_MAX_INPUT_SIZE"
    using assms(1) LogWrite by simp_all
  note c = comp_len [OF d(2)]
  have len: "unat (of_nat (length data) :: u32) = length data" "length data < 2147483648" "0 < length data" "?comp \<noteq> []"
    using d c(1) by (simp_all add: unat_of_nat_u32 LZ4_MAX_INPUT_SIZE_def)
  obtain dst where z: "LZ4_decompress_safe ?comp (replicate (length data) 0) = Some (int (length data), dst)" "take (length data) dst = data"
    using decompress_compress [OF d, of "replicate (length data) 0"] by auto
  have "entry_data (\<lambda>_. True) (item_of crc32 cap e) = Inr (data, max (max cap (length ?comp)) (length data))"
    using len c(2) z by (simp add: entry_data_def LogWrite Let_def)
  then show ?thesis
    using assms(2,3) len(4) by (simp add: entry_line_def LogWrite Let_def crc32_agrees_def)
next
  case (LogTrim ts seq block len)
  then show ?thesis
    using assms(3) by (simp add: entry_line_def entry_data_def)
qed

lemma entry_loop_Suc:
  "entry_loop (\<lambda>_. True) fuel (Suc k) cap h s =
     (case read_entry fuel cap s of
        None \<Rightarrow> None
      | Some (Inl e, s) \<Rightarrow> Some (Some 0, [])
      | Some (Inr it, s) \<Rightarrow>
          (case entry_line (\<lambda>_. True) h it of
             Inl e \<Rightarrow> Some (e, [])
           | Inr (l, cap) \<Rightarrow> map_option (apsnd ((#) l)) (entry_loop (\<lambda>_. True) fuel k cap h s)))"
  by (auto simp: read_entry_def split: prod.split sum.split option.split)

text \<open>Complete entries, then the beginning of another one or nothing.\<close>

lemma entry_loop_reads:
  assumes "list_all entry_ok es" "crc32_agrees crc32" "lh_block_size h = 4096" "length es < k"
    "p = [] \<or> (\<exists>e q. entry_ok e \<and> entry_bytes crc32 e = p @ q \<and> q \<noteq> [])"
  shows "entry_loop (\<lambda>_. True) fuel k cap h (fd_of (concat (map (entry_bytes crc32) es) @ p)) = Some (Some 0, map line_of es)"
  using assms(1,4)
proof (induction es arbitrary: k cap)
  case Nil
  then obtain k' where k: "k = Suc k'"
    by (cases k) simp_all
  have "\<exists>e s. read_entry fuel cap (fd_of p) = Some (Inl e, s)"
  proof (cases "p = []")
    case True
    then show ?thesis
      by (simp add: read_entry_def cbor_read_head_def read_exact_fd)
  next
    case False
    then obtain e q where e: "entry_ok e" "entry_bytes crc32 e = p @ q" "q \<noteq> []"
      using assms(5) by blast
    then show ?thesis
      using read_entry_reads [OF e(1), of fuel cap crc32] unfolding reads_opt_def by blast
  qed
  then show ?case
    by (auto simp: k entry_loop_Suc simp del: entry_loop.simps)
next
  case (Cons e es)
  then obtain k' where k: "k = Suc k'" "length es < k'"
    by (cases k) simp_all
  have e: "entry_ok e" "list_all entry_ok es"
    using Cons.prems(1) by simp_all
  obtain cap' where l: "entry_line (\<lambda>_. True) h (item_of crc32 cap e) = Inr (line_of e, cap')"
    using entry_line_ok [OF e(1) assms(2,3)] by blast
  have "read_entry fuel cap (fd_of (entry_bytes crc32 e @ concat (map (entry_bytes crc32) es) @ p)) =
      Some (Inr (item_of crc32 cap e), fd_of (concat (map (entry_bytes crc32) es) @ p))"
    using read_entry_reads [OF e(1), of fuel cap crc32] by (simp add: reads_opt_def)
  then show ?case
    using l Cons.IH [OF e(2) k(2)] by (simp add: k(1) entry_loop_Suc del: entry_loop.simps)
qed

lemma log_reads:
  assumes "length label < 32" "length path < 256" "list_all entry_ok es" "crc32_agrees crc32" "length es < fuel"
    "p = [] \<or> (\<exists>e q. entry_ok e \<and> entry_bytes crc32 e = p @ q \<and> q \<noteq> [])"
  shows "cmd_log_cbor (\<lambda>_. True) fuel (fd_of (segment_bytes crc32 label sz path es @ p)) =
    Some (Some 0, Some (header_of label sz path), map line_of es)"
proof -
  let ?body = "concat (map (entry_bytes crc32) es) @ p" and ?rest = "\<lambda>h s. map_option (\<lambda>(r, ls). (r, Some h, ls)) (entry_loop (\<lambda>_. True) fuel fuel 0 h s)"
  have h: "(case cbor_read_map (fd_of (items_bytes (header_items label sz path) @ ?body)) of (Inl e, s) \<Rightarrow> Some (Inl e, s)
      | (Inr count, s) \<Rightarrow> header_loop fuel (unat count) log_header0 s) = Some (Inr (header_of label sz path), fd_of ?body)"
    using header_reads [OF assms(1,2), of fuel sz] unfolding reads_opt_def by blast
  have eq: "cmd_log_cbor (\<lambda>_. True) fuel s =
      (case (case cbor_read_map s of (Inl e, s) \<Rightarrow> Some (Inl e, s) | (Inr count, s) \<Rightarrow> header_loop fuel (unat count) log_header0 s) of
         None \<Rightarrow> None | Some (Inl e, s) \<Rightarrow> Some (Some 1, None, []) | Some (Inr h, s) \<Rightarrow> ?rest h s)" for s
    by (auto simp: cmd_log_cbor_def split: prod.split sum.split option.split)
  have b: "lh_block_size (header_of label sz path) = 4096"
    by (simp add: header_of_def)
  show ?thesis
    unfolding eq segment_bytes_def append_assoc h using entry_loop_reads [OF assms(3,4) b assms(5,6)] by simp
qed

lemma entry_bytes_ne: "0 < length (entry_bytes crc32 e)"
  by (cases e) (simp_all add: write_items_def trim_items_def Let_def)

lemma entries_length: "length es \<le> length (concat (map (entry_bytes crc32) es))"
proof (induction es)
  case (Cons e es)
  then show ?case
    using entry_bytes_ne [of crc32 e] by (simp only: list.map concat.simps length_append list.size)
qed simp

text \<open>C14: The log reader gives back what the driver logged. On the file of every finished segment of a
  device it reports the segment's header and, in order, every logged write and discard with its
  sequence number, time, block and length; the data of a write is decompressed to the data that
  was written, and its checksum is reported as valid.\<close>

theorem log_reads_back:
  assumes "log_ok crc32 hist ents dev" and "(label, es) \<in> set hist" and "list_all entry_ok es" and "crc32_agrees crc32"
  shows "cmd_log (\<lambda>_. True) (log_fs dev (lbd_log_name_final label)) [] =
    Some (Some 0, Some (header_of label (dev_size dev) (backing_path dev)), map line_of es)"
proof -
  let ?f = "segment_bytes crc32 label (dev_size dev) (backing_path dev) es"
  have f: "log_fs dev (lbd_log_name_final label) = Some ?f" "length label < 32" "length (backing_path dev) < 256"
    using assms(1,2) by (auto simp: log_ok_def log_wf_def)
  have "length es < length ?f + 2"
    using entries_length [of es crc32] by (simp add: segment_bytes_def)
  then show ?thesis
    using log_reads [OF f(2,3) assms(3,4), of "length ?f + 2" "[]" "dev_size dev"] f(1) by (simp add: cmd_log_def fd_of_def)
qed

lemma take_concat:
  "\<exists>k p. k \<le> length xss \<and> take n (concat xss) = concat (take k xss) @ p \<and> length (concat (take k xss)) \<le> n \<and>
     (p = [] \<and> k = length xss \<or>
      k < length xss \<and> n < length (concat (take (Suc k) xss)) \<and> (\<exists>q. xss ! k = p @ q \<and> q \<noteq> []))"
proof (induction xss arbitrary: n)
  case (Cons xs xss)
  show ?case
  proof (cases "n < length xs")
    case True
    then show ?thesis
      by (intro exI [of _ 0] exI [of _ "take n xs"]) (auto intro!: exI [of _ "drop n xs"])
  next
    case False
    obtain k p where kp: "k \<le> length xss" "take (n - length xs) (concat xss) = concat (take k xss) @ p" "length (concat (take k xss)) \<le> n - length xs"
      "p = [] \<and> k = length xss \<or> k < length xss \<and> n - length xs < length (concat (take (Suc k) xss)) \<and> (\<exists>q. xss ! k = p @ q \<and> q \<noteq> [])"
      using Cons.IH [of "n - length xs"] by blast
    then show ?thesis
      using False by (intro exI [of _ "Suc k"] exI [of _ p]) auto
  qed
qed (auto intro!: exI [of _ 0])

text \<open>C15: The log reader on a segment that was cut off anywhere, as a crash leaves it. If the header is
  incomplete nothing is reported and the exit status is 1. Otherwise exactly the complete entries
  are reported: a record of which bytes are missing is never shown, and no complete record is lost.\<close>

theorem log_reads_cut_off:
  assumes "length label < 32" and "length path < 256" and "list_all entry_ok es" and "crc32_agrees crc32"
  shows "if n < length (segment_bytes crc32 label sz path [])
    then cmd_log (\<lambda>_. True) (Some (take n (segment_bytes crc32 label sz path es))) [] = Some (Some 1, None, [])
    else \<exists>k. k \<le> length es \<and> length (segment_bytes crc32 label sz path (take k es)) \<le> n \<and>
      (k = length es \<or> n < length (segment_bytes crc32 label sz path (take (Suc k) es))) \<and>
      cmd_log (\<lambda>_. True) (Some (take n (segment_bytes crc32 label sz path es))) [] =
        Some (Some 0, Some (header_of label sz path), map line_of (take k es))"
proof -
  let ?hdr = "items_bytes (header_items label sz path)" and ?f = "take n (segment_bytes crc32 label sz path es)"
  have h: "segment_bytes crc32 label sz path [] = ?hdr"
    by (simp add: segment_bytes_def)
  show ?thesis
  proof (cases "n < length ?hdr")
    case True
    have t: "?f = take n ?hdr"
      using True by (simp add: segment_bytes_def)
    have "?hdr = take n ?hdr @ drop n ?hdr" "drop n ?hdr \<noteq> []"
      using True by simp_all
    then obtain e s where "(case cbor_read_map (fd_of (take n ?hdr)) of (Inl e, s) \<Rightarrow> Some (Inl e, s)
        | (Inr count, s) \<Rightarrow> header_loop (length (take n ?hdr) + 2) (unat count) log_header0 s) = Some (Inl e, s)"
      using header_reads [OF assms(1,2), of "length (take n ?hdr) + 2" sz] unfolding reads_opt_def by blast
    then have "cmd_log_cbor (\<lambda>_. True) (length (take n ?hdr) + 2) (fd_of (take n ?hdr)) = Some (Some 1, None, [])"
      unfolding cmd_log_cbor_def by (auto split: prod.splits sum.splits option.splits)
    then show ?thesis
      using True unfolding h t cmd_log_def by (simp add: fd_of_def)
  next
    case False
    obtain k p where k: "k \<le> length es" "take (n - length ?hdr) (concat (map (entry_bytes crc32) es)) = concat (map (entry_bytes crc32) (take k es)) @ p"
      "length (concat (map (entry_bytes crc32) (take k es))) \<le> n - length ?hdr"
      and p: "p = [] \<and> k = length es \<or> k < length es \<and> n - length ?hdr < length (concat (map (entry_bytes crc32) (take (Suc k) es))) \<and>
        (\<exists>q. entry_bytes crc32 (es ! k) = p @ q \<and> q \<noteq> [])"
      using take_concat [of "map (entry_bytes crc32) es" "n - length ?hdr"] unfolding take_map [symmetric] length_map
      by (metis nth_map)
    have f: "?f = segment_bytes crc32 label sz path (take k es) @ p"
      using False k(2) by (simp add: segment_bytes_def)
    have ok: "list_all entry_ok (take k es)" "k < length es \<Longrightarrow> entry_ok (es ! k)"
      using assms(3) by (auto simp: list_all_length list_all_iff dest: in_set_takeD)
    have fuel: "length (take k es) < length ?f + 2"
      using entries_length [of "take k es" crc32] unfolding f by (simp add: segment_bytes_def)
    have part: "p = [] \<or> (\<exists>e q. entry_ok e \<and> entry_bytes crc32 e = p @ q \<and> q \<noteq> [])"
      using p ok(2) by blast
    have "cmd_log (\<lambda>_. True) (Some ?f) [] = Some (Some 0, Some (header_of label sz path), map line_of (take k es))"
      using log_reads [OF assms(1,2) ok(1) assms(4) fuel part, of sz] unfolding f [symmetric] by (simp add: cmd_log_def fd_of_def)
    then show ?thesis
      using False k(1,3) p unfolding h by (auto simp: segment_bytes_def intro!: exI [of _ k])
  qed
qed

end
