(* ===== verification/Lbdctl_Log_Total.thy ===== *)
theory Lbdctl_Log_Total
  imports Lbdctl_Log_Read
begin

text \<open>
  The log reader ends on every input: reading consumes the file, and every step of a loop or a
  recursion reads at least one byte.
\<close>

abbreviation left :: "log_in \<Rightarrow> nat" where "left s \<equiv> length (li_rest s)"

lemma sys_read_left:
  "sys_read n s = (Inr bs, s') \<Longrightarrow> left s' + length bs = left s" "sys_read n s = (Inl e, s') \<Longrightarrow> left s' = left s"
  by (auto simp: sys_read_def Let_def split: list.splits io_outcome.splits)

lemma read_loop_left:
  "read_loop len acc s = (r, s') \<Longrightarrow> left s' \<le> left s \<and> (\<forall>bs. r = RdOk bs \<longrightarrow> length bs + left s' = length acc + left s \<and> len \<le> length bs)"
proof (induction len acc s arbitrary: r s' rule: read_loop.induct)
  case (1 len acc s)
  show ?case
  proof (cases "length acc \<ge> len")
    case True
    then show ?thesis
      using 1(3) by (subst (asm) read_loop.simps) auto
  next
    case False
    obtain x s1 where x: "sys_read (len - length acc) s = (x, s1)"
      by fastforce
    show ?thesis
    proof (cases x)
      case (Inl e)
      have l: "left s1 = left s"
        using sys_read_left(2) x Inl by blast
      have "read_loop len acc s = (if e = EINTR then read_loop len acc s1 else (RdErr, s1))"
        using False x Inl by (subst read_loop.simps) simp
      then show ?thesis
        using 1(1) [OF False x [symmetric] Inl, of r s'] 1(3) l by (cases "e = EINTR") simp_all
    next
      case (Inr bs)
      have l: "left s1 + length bs = left s"
        using sys_read_left(1) x Inr by blast
      have "read_loop len acc s = (if bs = [] then (if acc \<noteq> [] then RdErr else RdEof, s1) else read_loop len (acc @ bs) s1)"
        using False x Inr by (subst read_loop.simps) simp
      then show ?thesis
        using 1(2) [OF False x [symmetric] Inr, of r s'] 1(3) l by (cases "bs = []") (auto split: if_splits)
    qed
  qed
qed

lemma read_exact_left:
  "read_exact n s = (r, s') \<Longrightarrow> left s' \<le> left s" "read_exact n s = (RdOk bs, s') \<Longrightarrow> left s' + n \<le> left s"
  unfolding read_exact_def using read_loop_left [of n "[]" s r s'] read_loop_left [of n "[]" s "RdOk bs" s'] by simp_all

lemma read_arg_left: "read_arg n s = (r, s') \<Longrightarrow> left s' \<le> left s"
  by (auto simp: read_arg_def split: prod.splits rd_result.splits dest: read_exact_left(1))

lemma read_head_left: "cbor_read_head s = (r, s') \<Longrightarrow> left s' \<le> left s \<and> (\<forall>x. r = Inr x \<longrightarrow> left s' < left s)"
proof -
  assume h: "cbor_read_head s = (r, s')"
  obtain x s1 where x: "read_exact 1 s = (x, s1)"
    by fastforce
  have l: "left s1 \<le> left s"
    using read_exact_left(1) [OF x] .
  show ?thesis
  proof (cases x)
    case (RdOk bs)
    have "left s' \<le> left s1"
      using h x RdOk unfolding cbor_read_head_def by (auto simp: Let_def split: prod.splits sum.splits if_splits dest: read_arg_left)
    moreover have "left s1 + 1 \<le> left s"
      using read_exact_left(2) x RdOk by blast
    ultimately show ?thesis
      by simp
  qed (use h x l in \<open>auto simp: cbor_read_head_def\<close>)
qed

lemma expect_left: "expect m s = (r, s') \<Longrightarrow> left s' \<le> left s \<and> (\<forall>x. r = Inr x \<longrightarrow> left s' < left s)"
  unfolding expect_def by (auto split: prod.splits sum.splits if_splits dest: read_head_left)

lemma skip_bytes_left: "skip_bytes n s = (r, s') \<Longrightarrow> left s' \<le> left s"
proof (induction n s arbitrary: r s' rule: skip_bytes.induct)
  case (1 n s)
  obtain x s1 where x: "read_arg (min n 256) s = (x, s1)"
    by fastforce
  have l: "left s1 \<le> left s"
    using read_arg_left [OF x] .
  have e: "skip_bytes n s = (if n = 0 then (Inr (), s) else (case x of Inl e \<Rightarrow> (Inl e, s1) | Inr _ \<Rightarrow> skip_bytes (n - min n 256) s1))"
    by (subst skip_bytes.simps) (simp add: x split: sum.split)
  show ?case
  proof (cases "n = 0 \<or> isl x")
    case True
    then show ?thesis
      using 1(2) l unfolding e by (auto split: sum.splits if_splits)
  next
    case False
    then obtain d where d: "x = Inr d"
      by (cases x) auto
    then show ?thesis
      using 1(1) [OF _ x [symmetric], of d r s'] 1(2) False l unfolding e by simp
  qed
qed

text \<open>Enough fuel for skipping: more than there are bytes left.\<close>

lemma skip_total:
  "left s < fuel \<Longrightarrow> \<exists>r s'. cbor_skip fuel s = Some (r, s') \<and> left s' \<le> left s"
  "left s < fuel \<Longrightarrow> \<exists>r s'. skip_items fuel n s = Some (r, s') \<and> left s' \<le> left s"
proof (induction fuel s and fuel n s rule: cbor_skip_skip_items.induct)
  case (2 fuel s)
  obtain x s1 where x: "cbor_read_head s = (x, s1)"
    by fastforce
  note l = read_head_left [OF x]
  show ?case
  proof (cases x)
    case (Inr y)
    obtain major val where y: "y = (major, val)"
      by fastforce
    have f: "left s1 < fuel"
      using l Inr 2(3) by simp
    consider "major \<noteq> 4" "major \<noteq> 5" | "major = 4" | "major = 5"
      by blast
    then show ?thesis
    proof cases
      case 1
      obtain r s2 where "skip_bytes (unat val) s1 = (r, s2)"
        by fastforce
      then show ?thesis
        using x Inr y l 1 skip_bytes_left [of "unat val" s1 r s2] by auto
    next
      case a: 2
      have "\<exists>r s'. skip_items fuel (unat val) s1 = Some (r, s') \<and> left s' \<le> left s1"
        using 2(1) [OF x [symmetric] Inr y [symmetric], simplified] a f by simp
      then show ?thesis
        using x Inr y l a by auto
    next
      case 3
      have "\<exists>r s'. skip_items fuel (2 * unat val) s1 = Some (r, s') \<and> left s' \<le> left s1"
        using 2(2) [OF x [symmetric] Inr y [symmetric], simplified] 3 f by simp
      then show ?thesis
        using x Inr y l 3 by auto
    qed
  qed (use x l in simp)
next
  case (4 fuel n s)
  obtain r s1 where r: "cbor_skip fuel s = Some (r, s1)" "left s1 \<le> left s"
    using 4(1,3) by blast
  show ?case
  proof (cases r)
    case (Inr u)
    have "\<exists>r s'. skip_items fuel n s1 = Some (r, s') \<and> left s' \<le> left s1"
      using 4(2) [OF r(1) refl Inr] 4(3) r(2) by simp
    then show ?thesis
      using r Inr by auto
  qed (use r in simp)
qed simp_all

text \<open>The outcome of a step started at \<open>s\<close>: it ended, and the file did not get longer.\<close>

definition within :: "log_in \<Rightarrow> ('r \<times> log_in) option \<Rightarrow> bool" where
  "within s o' \<longleftrightarrow> (\<exists>x s'. o' = Some (x, s') \<and> left s' \<le> left s)"

lemma within_if: "(c \<Longrightarrow> within s a) \<Longrightarrow> (\<not> c \<Longrightarrow> within s b) \<Longrightarrow> within s (if c then a else b)"
  by simp

text \<open>A reader with fuel that ends, and that reads at least one byte when it succeeds.\<close>

definition ends :: "nat \<Rightarrow> (log_in \<Rightarrow> ((cbor_fail + 'a) \<times> log_in) option) \<Rightarrow> bool" where
  "ends fuel r \<longleftrightarrow> (\<forall>s. left s < fuel \<longrightarrow>
     (\<exists>x s'. r s = Some (x, s') \<and> left s' \<le> left s \<and> (\<forall>v. x = Inr v \<longrightarrow> left s' < left s)))"

lemma endsD: "ends fuel r \<Longrightarrow> left s < fuel \<Longrightarrow>
  \<exists>x s'. r s = Some (x, s') \<and> left s' \<le> left s \<and> (\<forall>v. x = Inr v \<longrightarrow> left s' < left s)"
  unfolding ends_def by blast

text \<open>A key followed by a value that does not lengthen the file.\<close>

lemma ends_field:
  assumes "\<And>key s. left s < fuel \<Longrightarrow> within s (f key s)"
  shows "ends fuel (\<lambda>s. case cbor_read_uint s of (Inl e, s) \<Rightarrow> Some (Inl e, s) | (Inr key, s) \<Rightarrow> f key s)"
  unfolding ends_def
proof (intro allI impI)
  fix s assume s: "left s < fuel"
  obtain x s1 where x: "cbor_read_uint s = (x, s1)"
    by fastforce
  note l = expect_left [OF x [unfolded cbor_read_uint_def]]
  show "\<exists>x s'. (case cbor_read_uint s of (Inl e, s) \<Rightarrow> Some (Inl e, s) | (Inr key, s) \<Rightarrow> f key s) = Some (x, s') \<and>
      left s' \<le> left s \<and> (\<forall>v. x = Inr v \<longrightarrow> left s' < left s)"
  proof (cases x)
    case (Inr key)
    then obtain y s2 where "f key s1 = Some (y, s2)" "left s2 \<le> left s1"
      using assms [of s1 key] l s by (auto simp: within_def)
    then show ?thesis
      using x Inr l by auto
  qed (use x l in auto)
qed

lemma value_left:
  "cbor_read_uint s = (r, s') \<Longrightarrow> left s' \<le> left s" "cbor_read_text cap s = (t, s') \<Longrightarrow> left s' \<le> left s"
  "read_data ok it s = (i, s') \<Longrightarrow> left s' \<le> left s"
proof -
  show "cbor_read_uint s = (r, s') \<Longrightarrow> left s' \<le> left s"
    using expect_left [of 0 s r s'] by (simp add: cbor_read_uint_def)
  show "cbor_read_text cap s = (t, s') \<Longrightarrow> left s' \<le> left s"
    unfolding cbor_read_text_def by (fastforce split: prod.splits sum.splits if_splits dest: expect_left read_arg_left)
  show "read_data ok it s = (i, s') \<Longrightarrow> left s' \<le> left s"
    unfolding read_data_def cbor_read_bytes_hdr_def
    by (fastforce simp: Let_def split: prod.splits sum.splits if_splits dest: expect_left read_arg_left)
qed

lemma value_within:
  "(\<And>r s'. g s = (r, s') \<Longrightarrow> left s' \<le> left s) \<Longrightarrow>
   within s (Some (case g s of (Inl e, s) \<Rightarrow> (Inl e, s) | (Inr v, s) \<Rightarrow> (Inr (h v), s)))"
  unfolding within_def by (cases "g s") (auto split: sum.split)

lemma skip_within:
  assumes "left s < fuel"
  shows "within s (case cbor_skip fuel s of None \<Rightarrow> None | Some (Inl e, s) \<Rightarrow> Some (Inl e, s) | Some (Inr _, s) \<Rightarrow> Some (Inr h, s))"
proof -
  obtain r s' where "cbor_skip fuel s = Some (r, s')" "left s' \<le> left s"
    using skip_total(1) [OF assms] by blast
  then show ?thesis
    by (cases r) (auto simp: within_def)
qed

lemma data_within: "within s (Some (read_data ok it s))"
  unfolding within_def using value_left(3) [of ok it s] by (cases "read_data ok it s") auto

lemma header_field_ends: "ends fuel (header_field fuel h)"
  unfolding header_field_def
  by (rule ends_field) (intro within_if value_within skip_within; (assumption | erule value_left))

lemma entry_field_ends: "ends fuel (entry_field ok fuel it)"
  unfolding entry_field_def
  by (rule ends_field) (intro within_if value_within skip_within data_within; (assumption | erule value_left))

lemma header_loop_ends: "left s < fuel \<Longrightarrow> \<exists>x s'. header_loop fuel n h s = Some (x, s') \<and> left s' \<le> left s"
proof (induction n arbitrary: h s)
  case (Suc n)
  obtain x s1 where x: "header_field fuel h s = Some (x, s1)" "left s1 \<le> left s"
    using endsD [OF header_field_ends Suc.prems] by blast
  show ?case
  proof (cases x)
    case (Inr h1)
    obtain y s2 where "header_loop fuel n h1 s1 = Some (y, s2)" "left s2 \<le> left s1"
      using Suc.IH [of s1 h1] Suc.prems x(2) by auto
    then show ?thesis
      using x Inr by auto
  qed (use x in auto)
qed simp

lemma entry_fields_ends: "left s < fuel \<Longrightarrow> \<exists>x s'. entry_fields ok fuel n it s = Some (x, s') \<and> left s' \<le> left s"
proof (induction n arbitrary: it s)
  case (Suc n)
  obtain x s1 where x: "entry_field ok fuel it s = Some (x, s1)" "left s1 \<le> left s"
    using endsD [OF entry_field_ends Suc.prems] by blast
  show ?case
  proof (cases x)
    case (Inr it1)
    obtain y s2 where "entry_fields ok fuel n it1 s1 = Some (y, s2)" "left s2 \<le> left s1"
      using Suc.IH [of s1 it1] Suc.prems x(2) by auto
    then show ?thesis
      using x Inr by auto
  qed (use x in auto)
qed simp

lemma entry_loop_ends: "left s < fuel \<Longrightarrow> left s < k \<Longrightarrow> entry_loop ok fuel k cap h s \<noteq> None"
proof (induction k arbitrary: cap s)
  case (Suc k)
  obtain x s1 where x: "cbor_read_head s = (x, s1)"
    by fastforce
  note l = read_head_left [OF x]
  show ?case
  proof (cases x)
    case (Inr y)
    obtain major count where y: "y = (major, count)"
      by fastforce
    obtain z s2 where z: "entry_fields ok fuel (unat count) (log_item0 cap) s1 = Some (z, s2)" "left s2 \<le> left s1"
      using entry_fields_ends [of s1 fuel ok "unat count"] l Suc.prems(1) by fastforce
    have "entry_loop ok fuel k cap' h s2 \<noteq> None" for cap'
      using Suc.IH [of s2 cap'] Suc.prems l Inr z(2) by simp
    then show ?thesis
      using x Inr y z(1) by (auto split: sum.split)
  qed (use x in simp)
qed simp

text \<open>C16: The log reader ends on every file, well-formed or not, for every finite sequence of read outcomes
  (errors, interruptions and short reads included) and every outcome of its allocations: its loops
  over the announced number of map entries, its loop over the records and the recursion that skips
  nested items all consume the file, so the fuel of the model is never used up.\<close>

theorem log_reader_ends: "cmd_log malloc_ok log rds \<noteq> None"
proof (cases log)
  case (Some f)
  let ?s = "\<lparr>li_rest = f, li_plan = rds\<rparr>" and ?fuel = "length f + 2"
  obtain x s1 where x: "cbor_read_map ?s = (x, s1)"
    by fastforce
  have l: "left s1 \<le> length f"
    using expect_left [of 5 ?s x s1] x by (simp add: cbor_read_map_def)
  show ?thesis
  proof (cases x)
    case (Inr count)
    obtain y s2 where y: "header_loop ?fuel (unat count) log_header0 s1 = Some (y, s2)" "left s2 \<le> left s1"
      using header_loop_ends [of s1 ?fuel] l by fastforce
    have "entry_loop malloc_ok ?fuel ?fuel 0 h s2 \<noteq> None" for h
      using l y(2) by (intro entry_loop_ends) simp_all
    then show ?thesis
      using x Inr y(1) by (auto simp: Some cmd_log_def cmd_log_cbor_def split: sum.split)
  qed (use x in \<open>simp add: Some cmd_log_def cmd_log_cbor_def\<close>)
qed (simp add: cmd_log_def)

end
