(* ===== verification/Lbdctl_Log_Witness.thy ===== *)
theory Lbdctl_Log_Witness
  imports Lbd_Witness Lbdctl_Log_Total
begin

text \<open>
  The theorems on the log reader at concrete inputs: a device with one finished log segment that
  holds one discard, and that segment cut off in its last byte.
\<close>

definition demo_crc32 :: crc_fun where "demo_crc32 seed d = crc32_calc d XOR NOT 0"

lemma demo_crc32: "crc32_agrees demo_crc32"
proof -
  have "(c XOR NOT 0) XOR NOT 0 = c" for c :: u32
    by (intro bit_word_eqI) (simp add: bit_simps)
  then show ?thesis
    unfolding crc32_agrees_def demo_crc32_def by blast
qed

definition demo_entry :: log_entry where "demo_entry = LogTrim 5 0 1 4096"

definition demo_label :: bytes where "demo_label = lbd_tai64n_label 100"

definition demo_logged :: lbd_device where
  "demo_logged = (let dev = lbd_begin_segment demo_device in dev\<lparr>log_fs := (log_fs dev)(lbd_log_name_final demo_label \<mapsto>
     segment_bytes demo_crc32 demo_label 8192 (str ''disk'') [demo_entry])\<rparr>)"

lemma demo_logged: "log_ok demo_crc32 [(demo_label, [demo_entry])] [] demo_logged" "dev_size demo_logged = 8192"
  "backing_path demo_logged = str ''disk''"
proof -
  define dev where "dev = lbd_begin_segment demo_device"
  have d: "io_plan demo_device = []" "length (backing_path demo_device) \<le> 255" "clock demo_device = 1 # [2, 3, 4, 5, 6, 7, 8, 9]"
    by (simp_all add: demo_device_def str_def)
  have b: "log_wf dev" "unlogged dev = unlogged demo_device" "clock dev = [2, 3, 4, 5, 6, 7, 8, 9]"
    "log_segment_label dev = lbd_tai64n_label 1" "\<not> log_has_entries dev"
    "current dev = segment_bytes demo_crc32 (lbd_tai64n_label 1) (dev_size demo_device) (backing_path demo_device) []"
    using begin_segment_spec [OF d, of demo_crc32] by (simp_all add: dev_def)
  note u = unlogged_fields [OF b(2)]
  have sz: "dev_size dev = 8192" "backing_path dev = str ''disk''" "dev_size demo_device = 8192" "backing_path demo_device = str ''disk''"
    using u by (simp_all add: demo_device_def)
  have inj: "lbd_tai64n_label s = lbd_tai64n_label t \<longleftrightarrow> s = t" if "s \<le> 100" "t \<le> 100" for s t
    using label_inj [of s t] that by (auto simp: CLOCK_MAX_def)
  have l24: "length (lbd_tai64n_label t) = 24" for t
    by (rule length_label)
  have n: "lbd_log_name_tmp (lbd_tai64n_label 1) \<noteq> lbd_log_name_final demo_label"
    using name_simps(2) [of demo_label "lbd_tai64n_label 1"] l24 unfolding demo_label_def by metis
  have D: "demo_logged = dev\<lparr>log_fs := (log_fs dev)(lbd_log_name_final demo_label \<mapsto>
     segment_bytes demo_crc32 demo_label 8192 (str ''disk'') [demo_entry])\<rparr>" (is "_ = ?D")
    by (simp add: demo_logged_def dev_def Let_def)
  have "log_wf ?D" "current ?D = current dev"
    using b(1,4) n by (auto simp: log_wf_def current_def log_contents_def split: option.split)
  then show "log_ok demo_crc32 [(demo_label, [demo_entry])] [] demo_logged"
    using b(3-6) sz l24 unfolding D log_ok_def by (simp add: demo_label_def inj)
  show "dev_size demo_logged = 8192" "backing_path demo_logged = str ''disk''"
    using sz by (simp_all add: D)
qed

theorem log_reads_back_witness:
  "cmd_log (\<lambda>_. True) (log_fs demo_logged (lbd_log_name_final demo_label)) [] =
    Some (Some 0, Some (header_of demo_label 8192 (str ''disk'')), [line_of (LogTrim 5 0 1 4096)])"
  using log_reads_back [OF demo_logged(1), of demo_label "[demo_entry]"] demo_crc32
  by (simp add: demo_logged(2,3) demo_entry_def)

theorem log_reads_cut_off_witness:
  "cmd_log (\<lambda>_. True) (Some (take (length (segment_bytes demo_crc32 [65] 8192 [] [demo_entry]) - 1)
     (segment_bytes demo_crc32 [65] 8192 [] [demo_entry]))) [] = Some (Some 0, Some (header_of [65] 8192 []), [])"
proof -
  let ?n = "length (segment_bytes demo_crc32 [65] 8192 [] [demo_entry]) - 1"
  have len: "length (segment_bytes demo_crc32 [65] 8192 [] [demo_entry]) =
    length (segment_bytes demo_crc32 [65] 8192 [] []) + length (entry_bytes demo_crc32 demo_entry)"
    "0 < length (entry_bytes demo_crc32 demo_entry)"
    using entry_bytes_ne [of demo_crc32 demo_entry] by (simp_all add: segment_bytes_def)
  then have n: "\<not> ?n < length (segment_bytes demo_crc32 [65] 8192 [] [])" "\<not> length (segment_bytes demo_crc32 [65] 8192 [] [demo_entry]) \<le> ?n"
    by linarith+
  have ok: "length [65 :: u8] < 32" "length ([] :: u8 list) < 256" "list_all entry_ok [demo_entry]"
    by (simp_all add: demo_entry_def)
  obtain k where k: "k \<le> 1" "length (segment_bytes demo_crc32 [65] 8192 [] (take k [demo_entry])) \<le> ?n"
    "cmd_log (\<lambda>_. True) (Some (take ?n (segment_bytes demo_crc32 [65] 8192 [] [demo_entry]))) [] =
        Some (Some 0, Some (header_of [65] 8192 []), map line_of (take k [demo_entry]))"
    using log_reads_cut_off [OF ok demo_crc32, of ?n 8192] n(1) by auto
  have "k \<noteq> 1"
    using k(2) n(2) by (metis One_nat_def take_Suc_Cons take0)
  then have "k = 0"
    using k(1) by simp
  then show ?thesis
    using k(3) by simp
qed

end
