(* ===== verification/Spec2Isabelle.thy ===== *)
theory Spec2Isabelle
  imports Cbor Lbdctl_Witness Lbdctl_Log_Witness
begin

text \<open>
  Verification of lbd, a Linux block device that keeps its data in a compressed,
  copy-on-write image and logs its writes.

  \<^item> \<^verbatim>\<open>Lbd_Prelude\<close>: bytes, files as byte lists, big-endian integers.
  \<^item> \<^verbatim>\<open>Qcow2_Format\<close>: the on-disk header (\<^verbatim>\<open>src/src/lbd_qcow2_format.h\<close>).
  \<^item> \<^verbatim>\<open>Cbor\<close>: the message encoding (\<^verbatim>\<open>src/src/cbor_enc.h\<close>, \<^verbatim>\<open>src/src/cbor_dec.h\<close>).
\<close>

end
